(* ===== verification/Prelude.thy ===== *)
theory Prelude
  imports Main "HOL-Library.Word" "HOL-Library.Monad_Syntax"
begin

text \<open>
  Shared vocabulary of the development: the machine integer types of the kernel,
  Rust's panicking operations as partial functions (\<open>None\<close> is a panic), and
  list facts used by several components.
\<close>

unbundle bit_operations_syntax

type_synonym u8 = "8 word"
type_synonym u16 = "16 word"
type_synonym u32 = "32 word"
type_synonym u64 = "64 word"
type_synonym usize = "64 word"

named_theorems panic_simps "unfolding and evaluation of panicking operations"
named_theorems inv_intros "introduction rules for component invariants"
named_theorems wp_rules "rules that show a panicking operation returns with a postcondition"

section \<open>Panicking operations\<close>

text \<open>
  An operation that can panic returns an \<open>option\<close>; \<open>None\<close> is the panic and \<open>bind\<close>
  sequences two such operations.  A Rust \<open>Option\<close> inside such a result is a nested
  option.
\<close>

definition guard :: "bool \<Rightarrow> unit option" where
  "guard b = (if b then Some () else None)"

text \<open>Indexing \<open>v[i]\<close> and indexed assignment \<open>v[i] = x\<close>.\<close>

definition get_at :: "'a list \<Rightarrow> nat \<Rightarrow> 'a option" where
  "get_at xs i = (if i < length xs then Some (xs ! i) else None)"

definition set_at :: "'a list \<Rightarrow> nat \<Rightarrow> 'a \<Rightarrow> 'a list option" where
  "set_at xs i x = (if i < length xs then Some (xs[i := x]) else None)"

text \<open>Slicing \<open>v[lo..hi]\<close> and \<open>v[lo..]\<close>.\<close>

definition slice :: "nat \<Rightarrow> nat \<Rightarrow> 'a list \<Rightarrow> 'a list option" where
  "slice lo hi xs = (if lo \<le> hi \<and> hi \<le> length xs then Some (take (hi - lo) (drop lo xs)) else None)"

definition slice_from :: "nat \<Rightarrow> 'a list \<Rightarrow> 'a list option" where
  "slice_from lo xs = slice lo (length xs) xs"

text \<open>\<open>v.copy_within(lo..hi, dst)\<close> and \<open>v[..src.len()].copy_from_slice(src)\<close>.\<close>

definition copy_within :: "nat \<Rightarrow> nat \<Rightarrow> nat \<Rightarrow> 'a list \<Rightarrow> 'a list option" where
  "copy_within lo hi dst xs =
     (if lo \<le> hi \<and> hi \<le> length xs \<and> dst \<le> length xs - (hi - lo)
      then Some (take dst xs @ take (hi - lo) (drop lo xs) @ drop (dst + (hi - lo)) xs)
      else None)"

definition copy_prefix :: "'a list \<Rightarrow> 'a list \<Rightarrow> 'a list option" where
  "copy_prefix src xs =
     (if length src \<le> length xs then Some (src @ drop (length src) xs) else None)"

text \<open>Subtraction on unsigned integers panics below zero (the kernel is a debug build).\<close>

definition checked_sub :: "nat \<Rightarrow> nat \<Rightarrow> nat option" where
  "checked_sub a b = (if b \<le> a then Some (a - b) else None)"

lemma guard_simps [simp, panic_simps]:
  "guard True = Some ()" "guard False = None"
  by (simp_all add: guard_def)

lemma get_at_in [simp, panic_simps]: "i < length xs \<Longrightarrow> get_at xs i = Some (xs ! i)"
  by (simp add: get_at_def)

lemma get_at_eq_None [simp]: "get_at xs i = None \<longleftrightarrow> length xs \<le> i"
  by (auto simp: get_at_def)

lemma set_at_in [simp, panic_simps]: "i < length xs \<Longrightarrow> set_at xs i x = Some (xs[i := x])"
  by (simp add: set_at_def)

lemma slice_in [panic_simps]:
  "lo \<le> hi \<Longrightarrow> hi \<le> length xs \<Longrightarrow> slice lo hi xs = Some (take (hi - lo) (drop lo xs))"
  by (simp add: slice_def)

lemma slice_prefix [simp, panic_simps]: "hi \<le> length xs \<Longrightarrow> slice 0 hi xs = Some (take hi xs)"
  by (simp add: slice_def)

lemma slice_from_in [simp, panic_simps]: "lo \<le> length xs \<Longrightarrow> slice_from lo xs = Some (drop lo xs)"
  by (simp add: slice_def slice_from_def)

lemma copy_prefix_in [simp, panic_simps]:
  "length src \<le> length xs \<Longrightarrow> copy_prefix src xs = Some (src @ drop (length src) xs)"
  by (simp add: copy_prefix_def)

lemma checked_sub_in [simp, panic_simps]: "b \<le> a \<Longrightarrow> checked_sub a b = Some (a - b)"
  by (simp add: checked_sub_def)

lemma slice_length: "slice lo hi xs = Some ys \<Longrightarrow> length ys = hi - lo"
  by (auto simp: slice_def split: if_splits)

section \<open>Total correctness of panicking operations\<close>

text \<open>\<open>returns m Q\<close>: the operation does not panic and its result satisfies \<open>Q\<close>.\<close>

definition returns :: "'a option \<Rightarrow> ('a \<Rightarrow> bool) \<Rightarrow> bool" where
  "returns m Q \<longleftrightarrow> (\<exists>x. m = Some x \<and> Q x)"

lemma returns_Some [simp, wp_rules]: "returns (Some x) Q \<longleftrightarrow> Q x"
  and returns_None [simp]: "\<not> returns None Q"
  by (simp_all add: returns_def)

lemma returns_if [wp_rules]:
  "(c \<Longrightarrow> returns a Q) \<Longrightarrow> (\<not> c \<Longrightarrow> returns b Q) \<Longrightarrow> returns (if c then a else b) Q"
  by simp

lemma returns_bind [wp_rules]: "returns m (\<lambda>x. returns (f x) Q) \<Longrightarrow> returns (m \<bind> f) Q"
  by (auto simp: returns_def)

lemma returns_option [wp_rules]:
  "(x = None \<Longrightarrow> returns a Q) \<Longrightarrow> (\<And>y. x = Some y \<Longrightarrow> returns (b y) Q) \<Longrightarrow>
    returns (case x of None \<Rightarrow> a | Some y \<Rightarrow> b y) Q"
  by (cases x) auto

lemma returns_pair [wp_rules]: "(\<And>a b. p = (a, b) \<Longrightarrow> returns (f a b) Q) \<Longrightarrow> returns (case p of (a, b) \<Rightarrow> f a b) Q"
  by (cases p) auto

lemma returns_mono: "returns m Q \<Longrightarrow> (\<And>x. Q x \<Longrightarrow> R x) \<Longrightarrow> returns m R"
  by (auto simp: returns_def)

lemma returns_get_at [wp_rules]: "i < length xs \<Longrightarrow> Q (xs ! i) \<Longrightarrow> returns (get_at xs i) Q"
  by simp

lemma returns_set_at [wp_rules]: "i < length xs \<Longrightarrow> Q (xs[i := x]) \<Longrightarrow> returns (set_at xs i x) Q"
  by simp

lemma returns_guard [wp_rules]: "b \<Longrightarrow> Q () \<Longrightarrow> returns (guard b) Q"
  by simp

section \<open>Statements about small ranges of bytes\<close>

lemma u8_range:
  assumes "lo \<le> unat b" "unat b \<le> hi" "list_all (\<lambda>i. P (word_of_nat i)) [lo..<Suc hi]"
  shows "P (b :: u8)"
proof -
  have "\<forall>i. lo \<le> i \<longrightarrow> i \<le> hi \<longrightarrow> P (word_of_nat i)"
    using assms(3) by (simp add: list_all_iff del: upt_Suc)
  then have "P (word_of_nat (unat b))" using assms(1,2) by blast
  then show ?thesis by simp
qed

text \<open>The bits of a byte, one by one.\<close>

lemma octet_cases:
  assumes "n < LENGTH(8)"
  obtains "n = 0" | "n = 1" | "n = 2" | "n = 3" | "n = 4" | "n = 5" | "n = 6" | "n = 7"
proof -
  from assms have "n = 0 \<or> n = 1 \<or> n = 2 \<or> n = 3 \<or> n = 4 \<or> n = 5 \<or> n = 6 \<or> n = 7" by auto
  then show ?thesis using that by blast
qed

lemma u8_eqI:
  assumes "bit a 0 = bit b 0" "bit a 1 = bit b 1" "bit a 2 = bit b 2" "bit a 3 = bit b 3"
    "bit a 4 = bit b 4" "bit a 5 = bit b 5" "bit a 6 = bit b 6" "bit a 7 = bit (b :: u8) 7"
  shows "a = b"
  by (rule bit_word_eqI, erule octet_cases) (simp_all only: assms)

section \<open>Checked machine arithmetic\<close>

text \<open>
  \<open>+\<close>, \<open>-\<close> and \<open>*\<close> on machine integers panic on overflow in the debug build that the
  Makefile produces; \<open>saturating_add\<close> clamps and \<open>saturating_sub\<close> stops at zero.
\<close>

definition cadd :: "'a::len word \<Rightarrow> 'a word \<Rightarrow> 'a word option" where
  "cadd a b = (if unat a + unat b < 2 ^ LENGTH('a) then Some (a + b) else None)"

definition csub :: "'a::len word \<Rightarrow> 'a word \<Rightarrow> 'a word option" where
  "csub a b = (if b \<le> a then Some (a - b) else None)"

definition cmul :: "'a::len word \<Rightarrow> 'a word \<Rightarrow> 'a word option" where
  "cmul a b = (if unat a * unat b < 2 ^ LENGTH('a) then Some (a * b) else None)"

definition sat_add :: "'a::len word \<Rightarrow> 'a word \<Rightarrow> 'a word" where
  "sat_add a b = (if unat a + unat b < 2 ^ LENGTH('a) then a + b else - 1)"

definition sat_sub :: "'a::len word \<Rightarrow> 'a word \<Rightarrow> 'a word" where
  "sat_sub a b = (if b \<le> a then a - b else 0)"

lemma unat_cadd: "cadd a b = Some c \<Longrightarrow> unat c = unat a + unat b"
  by (auto simp: cadd_def unat_word_ariths split: if_splits)

lemma unat_csub: "csub a b = Some c \<Longrightarrow> unat c = unat a - unat b"
  by (auto simp: csub_def unat_sub split: if_splits)

lemma unat_cmul: "cmul a b = Some c \<Longrightarrow> unat c = unat a * unat b"
  by (auto simp: cmul_def unat_word_ariths split: if_splits)

lemma unat_plus_no_overflow:
  "unat a + unat b < 2 ^ LENGTH('a) \<Longrightarrow> unat (a + b) = unat a + unat (b::'a::len word)"
  by (simp add: unat_word_ariths)

lemma unat_times_no_overflow:
  "unat a * unat b < 2 ^ LENGTH('a) \<Longrightarrow> unat (a * b) = unat a * unat (b::'a::len word)"
  by (simp add: unat_word_ariths)

lemma unat_lt_2p: "unat (a :: 'a::len word) < 2 ^ LENGTH('a)"
  by (rule unsigned_less)

lemma unat_usize: "unat (a :: usize) < 2 ^ 64"
  using unat_lt_2p [of a] by simp

lemma unat_of_nat_small: "n < 2 ^ LENGTH('a) \<Longrightarrow> unat (of_nat n :: 'a::len word) = n"
  by (simp add: unat_of_nat)

lemma unat_ucast_up:
  assumes "LENGTH('a::len) \<le> LENGTH('b::len)"
  shows "unat (ucast (w :: 'a word) :: 'b word) = unat w"
proof -
  have "unat w < 2 ^ LENGTH('b)"
    using unat_lt_2p [of w] power_increasing [OF assms, of "2 :: nat"] by linarith
  then show ?thesis by (simp add: unsigned_ucast_eq take_bit_nat_eq_self_iff)
qed

section \<open>Iterator methods\<close>

text \<open>\<open>iter().position\<close> and \<open>iter().rposition\<close>.\<close>

fun position :: "('a \<Rightarrow> bool) \<Rightarrow> 'a list \<Rightarrow> nat option" where
  "position P [] = None"
| "position P (x # xs) = (if P x then Some 0 else map_option Suc (position P xs))"

definition rposition :: "('a \<Rightarrow> bool) \<Rightarrow> 'a list \<Rightarrow> nat option" where
  "rposition P xs = map_option (\<lambda>i. length xs - 1 - i) (position P (rev xs))"

lemma position_None: "position P xs = None \<longleftrightarrow> (\<forall>x \<in> set xs. \<not> P x)"
  by (induction xs) auto

lemma position_SomeD:
  "position P xs = Some i \<Longrightarrow> i < length xs \<and> P (xs ! i) \<and> (\<forall>j < i. \<not> P (xs ! j))"
proof (induction xs arbitrary: i)
  case (Cons x xs)
  show ?case
  proof (cases "P x")
    case False
    with Cons.prems obtain k where k: "position P xs = Some k" "i = Suc k" by auto
    from Cons.IH [OF k(1)] k(2) False show ?thesis
      by (auto simp: nth_Cons split: nat.split)
  qed (use Cons.prems in auto)
qed simp

lemma position_dropWhile:
  "position P xs = Some i \<Longrightarrow> drop i xs = dropWhile (\<lambda>x. \<not> P x) xs"
  by (induction xs arbitrary: i) (auto split: if_splits)

lemma position_takeWhile:
  "position P xs = Some i \<Longrightarrow> take i xs = takeWhile (\<lambda>x. \<not> P x) xs"
  by (induction xs arbitrary: i) (auto split: if_splits)

lemma position_takeWhile_length:
  "(case position P xs of None \<Rightarrow> length xs | Some i \<Rightarrow> i) = length (takeWhile (\<lambda>x. \<not> P x) xs)"
  by (induction xs) (auto split: option.splits)

section \<open>Loops\<close>

text \<open>A \<open>for\<close> loop over a list whose body can panic.\<close>

fun for_each :: "'a list \<Rightarrow> ('a \<Rightarrow> 's \<Rightarrow> 's option) \<Rightarrow> 's \<Rightarrow> 's option" where
  "for_each [] body s = Some s"
| "for_each (x # xs) body s = do { s \<leftarrow> body x s; for_each xs body s }"

text \<open>A \<open>for\<close> loop whose body can also return from the function around it.\<close>

fun for_return :: "'a list \<Rightarrow> ('a \<Rightarrow> 's \<Rightarrow> ('r option \<times> 's) option) \<Rightarrow> 's \<Rightarrow> ('r option \<times> 's) option" where
  "for_return [] body s = Some (None, s)"
| "for_return (x # xs) body s =
     do { (r, s) \<leftarrow> body x s;
          (case r of Some v \<Rightarrow> Some (Some v, s) | None \<Rightarrow> for_return xs body s) }"

text \<open>A body that decides by \<open>f\<close>, whatever the state: the loop returns the first decision.\<close>

fun first_some :: "('a \<Rightarrow> 'r option) \<Rightarrow> 'a list \<Rightarrow> 'r option" where
  "first_some f [] = None"
| "first_some f (x # xs) = (case f x of Some v \<Rightarrow> Some v | None \<Rightarrow> first_some f xs)"

lemma for_return_first:
  assumes "\<And>x s. x \<in> set xs \<Longrightarrow> \<exists>s'. body x s = Some (f x, s')"
  shows "\<exists>s'. for_return xs body s = Some (first_some f xs, s')"
  using assms
proof (induction xs arbitrary: s)
  case (Cons x xs)
  from Cons.prems [of x s] obtain s1 where "body x s = Some (f x, s1)" by auto
  with Cons.IH [of s1] Cons.prems show ?case by (cases "f x") auto
qed simp

lemma first_some_concat:
  "first_some f (concat xss) = first_some (first_some f) xss"
proof (induction xss)
  case (Cons xs xss)
  have "first_some f (xs @ ys) = (case first_some f xs of Some v \<Rightarrow> Some v | None \<Rightarrow> first_some f ys)" for ys
    by (induction xs) (auto split: option.splits)
  with Cons show ?case by (auto split: option.splits)
qed simp

lemma first_some_map: "first_some f (map g xs) = first_some (f \<circ> g) xs"
  by (induction xs) (auto split: option.splits)

lemma first_some_find:
  "first_some (\<lambda>x. if P x then Some (f x) else None) xs = map_option f (List.find P xs)"
  by (induction xs) auto

section \<open>Least-index reasoning\<close>

lemma takeWhile_replicate_prefix:
  "(\<forall>x \<in> set ys. P x) \<Longrightarrow> takeWhile P (ys @ zs) = ys @ takeWhile P zs"
  by (induction ys) auto

end
