(* ===== verification/RustStr.thy ===== *)
theory RustStr
  imports Prelude
begin

text \<open>
  Rust's \<open>char\<close> and \<open>str\<close>: a character is its Unicode scalar value, a string the list of its
  characters.  Lengths and positions that the source counts in bytes go through the UTF-8
  width of each character, and slicing at a byte position that is not a character boundary
  is the panic it is in Rust.
\<close>

type_synonym uchar = nat
type_synonym str = "uchar list"

abbreviation cp :: "char \<Rightarrow> uchar" where "cp c \<equiv> of_char c"

definition lit :: "string \<Rightarrow> str" where "lit s = map of_char s"

lemma lit_Nil [simp]: "lit [] = []" and lit_Cons [simp]: "lit (c # s) = cp c # lit s"
  by (simp_all add: lit_def)

section \<open>Character classes\<close>

definition is_ascii_digit :: "uchar \<Rightarrow> bool" where
  "is_ascii_digit c \<longleftrightarrow> 48 \<le> c \<and> c \<le> 57"

definition is_ascii_alphabetic :: "uchar \<Rightarrow> bool" where
  "is_ascii_alphabetic c \<longleftrightarrow> 65 \<le> c \<and> c \<le> 90 \<or> 97 \<le> c \<and> c \<le> 122"

definition is_ascii_alphanumeric :: "uchar \<Rightarrow> bool" where
  "is_ascii_alphanumeric c \<longleftrightarrow> is_ascii_digit c \<or> is_ascii_alphabetic c"

definition to_ascii_lowercase :: "uchar \<Rightarrow> uchar" where
  "to_ascii_lowercase c = (if 65 \<le> c \<and> c \<le> 90 then c + 32 else c)"

text \<open>\<open>char::is_whitespace\<close>: the Unicode property White\_Space.\<close>

definition is_whitespace :: "uchar \<Rightarrow> bool" where
  "is_whitespace c \<longleftrightarrow> 9 \<le> c \<and> c \<le> 13 \<or> c = 32 \<or> c = 0x85 \<or> c = 0xA0 \<or> c = 0x1680
     \<or> 0x2000 \<le> c \<and> c \<le> 0x200A \<or> c = 0x2028 \<or> c = 0x2029 \<or> c = 0x202F \<or> c = 0x205F \<or> c = 0x3000"

section \<open>Bytes of a string\<close>

definition utf8_width :: "uchar \<Rightarrow> nat" where
  "utf8_width c = (if c < 0x80 then 1 else if c < 0x800 then 2 else if c < 0x10000 then 3 else 4)"

definition byte_len :: "str \<Rightarrow> nat" where
  "byte_len s = sum_list (map utf8_width s)"

definition utf8_char :: "uchar \<Rightarrow> u8 list" where
  "utf8_char c =
     (if c < 0x80 then [of_nat c]
      else if c < 0x800 then [of_nat (0xC0 + c div 64), of_nat (0x80 + c mod 64)]
      else if c < 0x10000 then
        [of_nat (0xE0 + c div 4096), of_nat (0x80 + c div 64 mod 64), of_nat (0x80 + c mod 64)]
      else [of_nat (0xF0 + c div 262144), of_nat (0x80 + c div 4096 mod 64),
            of_nat (0x80 + c div 64 mod 64), of_nat (0x80 + c mod 64)])"

text \<open>\<open>as_bytes\<close>.\<close>

definition as_bytes :: "str \<Rightarrow> u8 list" where
  "as_bytes s = concat (map utf8_char s)"

text \<open>\<open>&s[n..]\<close>, \<open>&s[..n]\<close> and \<open>&s[lo..hi]\<close>.\<close>

fun byte_drop :: "nat \<Rightarrow> str \<Rightarrow> str option" where
  "byte_drop n s =
     (if n = 0 then Some s
      else case s of
        [] \<Rightarrow> None
      | c # s' \<Rightarrow> if utf8_width c \<le> n then byte_drop (n - utf8_width c) s' else None)"

fun byte_take :: "nat \<Rightarrow> str \<Rightarrow> str option" where
  "byte_take n s =
     (if n = 0 then Some []
      else case s of
        [] \<Rightarrow> None
      | c # s' \<Rightarrow>
          if utf8_width c \<le> n then map_option ((#) c) (byte_take (n - utf8_width c) s') else None)"

declare byte_drop.simps [simp del] byte_take.simps [simp del]

definition byte_slice :: "nat \<Rightarrow> nat \<Rightarrow> str \<Rightarrow> str option" where
  "byte_slice lo hi s =
     do { guard (lo \<le> hi); t \<leftarrow> byte_drop lo s; byte_take (hi - lo) t }"

lemma utf8_width_pos [simp]: "0 < utf8_width c"
  by (simp add: utf8_width_def)

lemma utf8_width_ascii: "c < 0x80 \<Longrightarrow> utf8_width c = 1"
  by (simp add: utf8_width_def)

lemma length_utf8_char: "length (utf8_char c) = utf8_width c"
  by (simp add: utf8_char_def utf8_width_def)

lemma byte_len_simps [simp]:
  "byte_len [] = 0" "byte_len (c # s) = utf8_width c + byte_len s"
  "byte_len (s @ t) = byte_len s + byte_len t"
  by (simp_all add: byte_len_def)

lemma byte_len_zero [simp]: "byte_len s = 0 \<longleftrightarrow> s = []"
  by (cases s) auto

lemma length_as_bytes: "length (as_bytes s) = byte_len s"
  by (induction s) (simp_all add: as_bytes_def length_utf8_char)

lemma byte_drop_append [simp]: "byte_drop (byte_len s) (s @ t) = Some t"
proof (induction s)
  case Nil
  show ?case by (subst byte_drop.simps) simp
next
  case (Cons c s)
  then show ?case by (subst byte_drop.simps) simp
qed

lemma byte_take_append [simp]: "byte_take (byte_len s) (s @ t) = Some s"
proof (induction s)
  case Nil
  show ?case by (subst byte_take.simps) simp
next
  case (Cons c s)
  then show ?case by (subst byte_take.simps) simp
qed

lemma byte_drop_all [simp]: "byte_drop (byte_len s) s = Some []"
  using byte_drop_append [of s "[]"] by simp

lemma byte_take_all [simp]: "byte_take (byte_len s) s = Some s"
  using byte_take_append [of s "[]"] by simp

lemma byte_slice_mid: "byte_slice (byte_len s) (byte_len s + byte_len t) (s @ t @ u) = Some t"
  by (simp add: byte_slice_def)

lemma byte_drop_ascii: "c < 0x80 \<Longrightarrow> byte_drop (Suc 0) (c # s) = Some s"
  by (subst byte_drop.simps, subst byte_drop.simps) (simp add: utf8_width_def)

section \<open>String methods\<close>

definition starts_with :: "str \<Rightarrow> str \<Rightarrow> bool" where
  "starts_with p s \<longleftrightarrow> length p \<le> length s \<and> take (length p) s = p"

definition ends_with :: "str \<Rightarrow> str \<Rightarrow> bool" where
  "ends_with p s \<longleftrightarrow> length p \<le> length s \<and> drop (length s - length p) s = p"

definition trim_start :: "str \<Rightarrow> str" where "trim_start s = dropWhile is_whitespace s"
definition trim_end :: "str \<Rightarrow> str" where "trim_end s = rev (dropWhile is_whitespace (rev s))"
definition trim :: "str \<Rightarrow> str" where "trim s = trim_end (trim_start s)"

text \<open>\<open>trim_end_matches(c)\<close> and \<open>trim_matches(c)\<close> for a character.\<close>

definition trim_end_char :: "uchar \<Rightarrow> str \<Rightarrow> str" where
  "trim_end_char c s = rev (dropWhile (\<lambda>x. x = c) (rev s))"

definition trim_char :: "uchar \<Rightarrow> str \<Rightarrow> str" where
  "trim_char c s = trim_end_char c (dropWhile (\<lambda>x. x = c) s)"

text \<open>\<open>split(c)\<close>: always at least one piece; \<open>join\<close> is its inverse.\<close>

fun split_on :: "uchar \<Rightarrow> str \<Rightarrow> str list" where
  "split_on c [] = [[]]"
| "split_on c (x # s) =
     (if x = c then [] # split_on c s
      else case split_on c s of [] \<Rightarrow> [[x]] | p # ps \<Rightarrow> (x # p) # ps)"

fun join_with :: "uchar \<Rightarrow> str list \<Rightarrow> str" where
  "join_with c [] = []"
| "join_with c [p] = p"
| "join_with c (p # q # ps) = p @ c # join_with c (q # ps)"

lemma split_on_not_Nil [simp]: "split_on c s \<noteq> []"
  by (cases s) (auto split: list.splits)

lemma split_on_no_sep: "p \<in> set (split_on c s) \<Longrightarrow> c \<notin> set p"
proof (induction s arbitrary: p)
  case (Cons x s)
  show ?case
  proof (cases "x = c")
    case False
    obtain q qs where q: "split_on c s = q # qs" by (cases "split_on c s") auto
    have "c \<notin> set q" using Cons.IH [of q] q by simp
    with Cons False q show ?thesis by auto
  qed (use Cons in auto)
qed simp

lemma join_split: "join_with c (split_on c s) = s"
proof (induction s)
  case (Cons x s)
  obtain q qs where q: "split_on c s = q # qs" by (cases "split_on c s") auto
  with Cons show ?case by (cases qs) auto
qed simp

lemma split_on_append: "c \<notin> set p \<Longrightarrow> split_on c (p @ c # s) = p # split_on c s"
  by (induction p) auto

lemma split_on_single: "c \<notin> set p \<Longrightarrow> split_on c p = [p]"
  by (induction p) auto

lemma split_join: "ps \<noteq> [] \<Longrightarrow> \<forall>p \<in> set ps. c \<notin> set p \<Longrightarrow> split_on c (join_with c ps) = ps"
  by (induction c ps rule: join_with.induct) (auto simp: split_on_append split_on_single)

end
