(* ===== verification/Framebuffer.thy ===== *)
theory Framebuffer
  imports RustStr
begin

text \<open>
  The framebuffer text writer of hal/src/framebuffer.rs, down to the bytes of the pixel buffer:
  the font, the glyph blitter, and every operation of \<open>FramebufferWriter\<close>.  \<open>None\<close> is a panic
  (an index out of range or an unsigned underflow).
\<close>

section \<open>Data\<close>

type_synonym rgb = "u8 \<times> u8 \<times> u8"

definition GLYPH_W :: nat where "GLYPH_W = 8"
definition GLYPH_H :: nat where "GLYPH_H = 8"
definition COLOR_FG :: rgb where "COLOR_FG = (0xFF, 0xFF, 0xFF)"
definition COLOR_BG :: rgb where "COLOR_BG = (0x00, 0x00, 0x00)"
definition COLOR_DIR :: rgb where "COLOR_DIR = (0x56, 0x9C, 0xD6)"
definition COLOR_PROMPT :: rgb where "COLOR_PROMPT = (0x4E, 0xC9, 0xB0)"
definition COLOR_ERROR :: rgb where "COLOR_ERROR = (0xF4, 0x47, 0x47)"

definition FONT :: "u8 list list" where
  "FONT = [
   [0x00, 0x00, 0x00, 0x00, 0x00, 0x00, 0x00, 0x00],
   [0x18, 0x3C, 0x3C, 0x18, 0x18, 0x00, 0x18, 0x00],
   [0x66, 0x66, 0x24, 0x00, 0x00, 0x00, 0x00, 0x00],
   [0x6C, 0x6C, 0xFE, 0x6C, 0xFE, 0x6C, 0x6C, 0x00],
   [0x18, 0x3E, 0x60, 0x3C, 0x06, 0x7C, 0x18, 0x00],
   [0x00, 0xC6, 0xCC, 0x18, 0x30, 0x66, 0xC6, 0x00],
   [0x38, 0x6C, 0x38, 0x76, 0xDC, 0xCC, 0x76, 0x00],
   [0x18, 0x18, 0x30, 0x00, 0x00, 0x00, 0x00, 0x00],
   [0x0C, 0x18, 0x30, 0x30, 0x30, 0x18, 0x0C, 0x00],
   [0x30, 0x18, 0x0C, 0x0C, 0x0C, 0x18, 0x30, 0x00],
   [0x00, 0x66, 0x3C, 0xFF, 0x3C, 0x66, 0x00, 0x00],
   [0x00, 0x18, 0x18, 0x7E, 0x18, 0x18, 0x00, 0x00],
   [0x00, 0x00, 0x00, 0x00, 0x00, 0x18, 0x18, 0x30],
   [0x00, 0x00, 0x00, 0x7E, 0x00, 0x00, 0x00, 0x00],
   [0x00, 0x00, 0x00, 0x00, 0x00, 0x18, 0x18, 0x00],
   [0x06, 0x0C, 0x18, 0x30, 0x60, 0xC0, 0x80, 0x00],
   [0x7C, 0xC6, 0xCE, 0xDE, 0xF6, 0xE6, 0x7C, 0x00],
   [0x18, 0x38, 0x18, 0x18, 0x18, 0x18, 0x7E, 0x00],
   [0x7C, 0xC6, 0x06, 0x1C, 0x30, 0x66, 0xFE, 0x00],
   [0x7C, 0xC6, 0x06, 0x3C, 0x06, 0xC6, 0x7C, 0x00],
   [0x1C, 0x3C, 0x6C, 0xCC, 0xFE, 0x0C, 0x1E, 0x00],
   [0xFE, 0xC0, 0xC0, 0xFC, 0x06, 0xC6, 0x7C, 0x00],
   [0x38, 0x60, 0xC0, 0xFC, 0xC6, 0xC6, 0x7C, 0x00],
   [0xFE, 0xC6, 0x0C, 0x18, 0x30, 0x30, 0x30, 0x00],
   [0x7C, 0xC6, 0xC6, 0x7C, 0xC6, 0xC6, 0x7C, 0x00],
   [0x7C, 0xC6, 0xC6, 0x7E, 0x06, 0x0C, 0x78, 0x00],
   [0x00, 0x18, 0x18, 0x00, 0x00, 0x18, 0x18, 0x00],
   [0x00, 0x18, 0x18, 0x00, 0x00, 0x18, 0x18, 0x30],
   [0x06, 0x0C, 0x18, 0x30, 0x18, 0x0C, 0x06, 0x00],
   [0x00, 0x00, 0x7E, 0x00, 0x7E, 0x00, 0x00, 0x00],
   [0x60, 0x30, 0x18, 0x0C, 0x18, 0x30, 0x60, 0x00],
   [0x7C, 0xC6, 0x0C, 0x18, 0x18, 0x00, 0x18, 0x00],
   [0x7C, 0xC6, 0xDE, 0xDE, 0xDE, 0xC0, 0x7C, 0x00],
   [0x10, 0x38, 0x6C, 0xC6, 0xFE, 0xC6, 0xC6, 0x00],
   [0xFC, 0x66, 0x66, 0x7C, 0x66, 0x66, 0xFC, 0x00],
   [0x3C, 0x66, 0xC0, 0xC0, 0xC0, 0x66, 0x3C, 0x00],
   [0xF8, 0x6C, 0x66, 0x66, 0x66, 0x6C, 0xF8, 0x00],
   [0xFE, 0x62, 0x68, 0x78, 0x68, 0x62, 0xFE, 0x00],
   [0xFE, 0x62, 0x68, 0x78, 0x68, 0x60, 0xF0, 0x00],
   [0x3C, 0x66, 0xC0, 0xC0, 0xCE, 0x66, 0x3E, 0x00],
   [0xC6, 0xC6, 0xC6, 0xFE, 0xC6, 0xC6, 0xC6, 0x00],
   [0x3C, 0x18, 0x18, 0x18, 0x18, 0x18, 0x3C, 0x00],
   [0x1E, 0x0C, 0x0C, 0x0C, 0xCC, 0xCC, 0x78, 0x00],
   [0xE6, 0x66, 0x6C, 0x78, 0x6C, 0x66, 0xE6, 0x00],
   [0xF0, 0x60, 0x60, 0x60, 0x62, 0x66, 0xFE, 0x00],
   [0xC6, 0xEE, 0xFE, 0xFE, 0xD6, 0xC6, 0xC6, 0x00],
   [0xC6, 0xE6, 0xF6, 0xDE, 0xCE, 0xC6, 0xC6, 0x00],
   [0x7C, 0xC6, 0xC6, 0xC6, 0xC6, 0xC6, 0x7C, 0x00],
   [0xFC, 0x66, 0x66, 0x7C, 0x60, 0x60, 0xF0, 0x00],
   [0x7C, 0xC6, 0xC6, 0xC6, 0xC6, 0xCE, 0x7C, 0x0E],
   [0xFC, 0x66, 0x66, 0x7C, 0x6C, 0x66, 0xE6, 0x00],
   [0x3C, 0x66, 0x30, 0x18, 0x0C, 0x66, 0x3C, 0x00],
   [0x7E, 0x7E, 0x5A, 0x18, 0x18, 0x18, 0x3C, 0x00],
   [0xC6, 0xC6, 0xC6, 0xC6, 0xC6, 0xC6, 0x7C, 0x00],
   [0xC6, 0xC6, 0xC6, 0xC6, 0xC6, 0x6C, 0x38, 0x00],
   [0xC6, 0xC6, 0xC6, 0xD6, 0xFE, 0xEE, 0xC6, 0x00],
   [0xC6, 0xC6, 0x6C, 0x38, 0x6C, 0xC6, 0xC6, 0x00],
   [0x66, 0x66, 0x66, 0x3C, 0x18, 0x18, 0x3C, 0x00],
   [0xFE, 0xC6, 0x8C, 0x18, 0x32, 0x66, 0xFE, 0x00],
   [0x3C, 0x30, 0x30, 0x30, 0x30, 0x30, 0x3C, 0x00],
   [0xC0, 0x60, 0x30, 0x18, 0x0C, 0x06, 0x02, 0x00],
   [0x3C, 0x0C, 0x0C, 0x0C, 0x0C, 0x0C, 0x3C, 0x00],
   [0x10, 0x38, 0x6C, 0xC6, 0x00, 0x00, 0x00, 0x00],
   [0x00, 0x00, 0x00, 0x00, 0x00, 0x00, 0x00, 0xFF],
   [0x30, 0x18, 0x0C, 0x00, 0x00, 0x00, 0x00, 0x00],
   [0x00, 0x00, 0x78, 0x0C, 0x7C, 0xCC, 0x76, 0x00],
   [0xE0, 0x60, 0x7C, 0x66, 0x66, 0x66, 0xDC, 0x00],
   [0x00, 0x00, 0x7C, 0xC6, 0xC0, 0xC6, 0x7C, 0x00],
   [0x1C, 0x0C, 0x7C, 0xCC, 0xCC, 0xCC, 0x76, 0x00],
   [0x00, 0x00, 0x7C, 0xC6, 0xFE, 0xC0, 0x7C, 0x00],
   [0x1C, 0x36, 0x30, 0x78, 0x30, 0x30, 0x78, 0x00],
   [0x00, 0x00, 0x76, 0xCC, 0xCC, 0x7C, 0x0C, 0xF8],
   [0xE0, 0x60, 0x6C, 0x76, 0x66, 0x66, 0xE6, 0x00],
   [0x18, 0x00, 0x38, 0x18, 0x18, 0x18, 0x3C, 0x00],
   [0x06, 0x00, 0x06, 0x06, 0x06, 0x66, 0x66, 0x3C],
   [0xE0, 0x60, 0x66, 0x6C, 0x78, 0x6C, 0xE6, 0x00],
   [0x38, 0x18, 0x18, 0x18, 0x18, 0x18, 0x3C, 0x00],
   [0x00, 0x00, 0xCC, 0xFE, 0xFE, 0xD6, 0xC6, 0x00],
   [0x00, 0x00, 0xDC, 0x66, 0x66, 0x66, 0x66, 0x00],
   [0x00, 0x00, 0x7C, 0xC6, 0xC6, 0xC6, 0x7C, 0x00],
   [0x00, 0x00, 0xDC, 0x66, 0x66, 0x7C, 0x60, 0xF0],
   [0x00, 0x00, 0x76, 0xCC, 0xCC, 0x7C, 0x0C, 0x1E],
   [0x00, 0x00, 0xDC, 0x76, 0x60, 0x60, 0xF0, 0x00],
   [0x00, 0x00, 0x7C, 0xC0, 0x7C, 0x06, 0xFC, 0x00],
   [0x10, 0x30, 0xFC, 0x30, 0x30, 0x36, 0x1C, 0x00],
   [0x00, 0x00, 0xCC, 0xCC, 0xCC, 0xCC, 0x76, 0x00],
   [0x00, 0x00, 0xC6, 0xC6, 0xC6, 0x6C, 0x38, 0x00],
   [0x00, 0x00, 0xC6, 0xD6, 0xFE, 0xFE, 0x6C, 0x00],
   [0x00, 0x00, 0xC6, 0x6C, 0x38, 0x6C, 0xC6, 0x00],
   [0x00, 0x00, 0xCC, 0xCC, 0xCC, 0x7C, 0x0C, 0xF8],
   [0x00, 0x00, 0xFE, 0x4C, 0x18, 0x32, 0xFE, 0x00],
   [0x0E, 0x18, 0x18, 0x70, 0x18, 0x18, 0x0E, 0x00],
   [0x18, 0x18, 0x18, 0x00, 0x18, 0x18, 0x18, 0x00],
   [0x70, 0x18, 0x18, 0x0E, 0x18, 0x18, 0x70, 0x00],
   [0x76, 0xDC, 0x00, 0x00, 0x00, 0x00, 0x00, 0x00],
   [0xFF, 0xFF, 0xFF, 0xFF, 0xFF, 0xFF, 0xFF, 0xFF]]"

text \<open>The fields of the bootloader's \<open>FrameBufferInfo\<close> that the writer reads.\<close>

record fb_info =
  width :: nat
  height :: nat
  stride :: nat
  bytes_per_pixel :: nat

record fb_writer =
  buffer :: "u8 list"
  info :: fb_info
  col :: nat
  row :: nat
  fg :: rgb
  bg :: rgb
  blink_on :: bool
  cursor_char :: uchar

definition fb_new :: "u8 list \<Rightarrow> fb_info \<Rightarrow> fb_writer" where
  "fb_new buf fbi = \<lparr>buffer = buf, info = fbi, col = 0, row = 0, fg = (0xFF, 0xFF, 0xFF),
     bg = (0x00, 0x00, 0x00), blink_on = False, cursor_char = 32\<rparr>"

section \<open>Glyphs\<close>

definition write_pixel :: "fb_info \<Rightarrow> nat \<Rightarrow> rgb \<Rightarrow> u8 list \<Rightarrow> u8 list option" where
  "write_pixel fbi offset color buf =
     (case color of (r, g, b) \<Rightarrow>
        if offset + bytes_per_pixel fbi \<le> length buf then
          do { buf \<leftarrow> set_at buf offset b;
               buf \<leftarrow> set_at buf (offset + 1) g;
               buf \<leftarrow> set_at buf (offset + 2) r;
               if bytes_per_pixel fbi = 4 then set_at buf (offset + 3) 0xFF else Some buf }
        else Some buf)"

definition glyph_of :: "uchar \<Rightarrow> u8 list option" where
  "glyph_of ch = (if ch \<ge> 0x20 \<and> ch \<le> 0x7F then get_at FONT (ch - 0x20) else get_at FONT 0)"

definition write_glyph :: "u8 list \<Rightarrow> fb_info \<Rightarrow> uchar \<Rightarrow> nat \<Rightarrow> nat \<Rightarrow> rgb \<Rightarrow> rgb \<Rightarrow> u8 list option" where
  "write_glyph buf fbi ch px py fore back =
     do { glyph \<leftarrow> glyph_of ch;
          for_each [0..<GLYPH_H] (\<lambda>r buf.
            do { bits \<leftarrow> get_at glyph r;
                 for_each [0..<GLYPH_W] (\<lambda>c buf.
                   write_pixel fbi (((py + r) * stride fbi + (px + c)) * bytes_per_pixel fbi)
                     (if drop_bit (7 - c) bits AND 1 \<noteq> 0 then fore else back) buf) buf }) buf }"

section \<open>The writer\<close>

definition fb_cols :: "fb_writer \<Rightarrow> nat" where "fb_cols w = width (info w) div GLYPH_W"
definition fb_rows :: "fb_writer \<Rightarrow> nat" where "fb_rows w = height (info w) div GLYPH_H"
definition fb_get_col :: "fb_writer \<Rightarrow> nat" where "fb_get_col w = col w"
definition fb_get_row :: "fb_writer \<Rightarrow> nat" where "fb_get_row w = row w"

definition fb_set_col :: "nat \<Rightarrow> fb_writer \<Rightarrow> fb_writer" where
  "fb_set_col c w = w\<lparr>col := min c (fb_cols w - 1)\<rparr>"

definition draw_cursor_cell :: "bool \<Rightarrow> fb_writer \<Rightarrow> fb_writer option" where
  "draw_cursor_cell visible w =
     (let (glyph_fg, glyph_bg) = (if visible then (bg w, fg w) else (fg w, bg w))
      in do { buf \<leftarrow> write_glyph (buffer w) (info w) (cursor_char w) (col w * GLYPH_W) (row w * GLYPH_H)
                       glyph_fg glyph_bg;
              Some (w\<lparr>buffer := buf\<rparr>) })"

definition fb_cursor_show :: "uchar \<Rightarrow> fb_writer \<Rightarrow> fb_writer option" where
  "fb_cursor_show ch w = draw_cursor_cell True (w\<lparr>cursor_char := ch, blink_on := True\<rparr>)"

definition fb_cursor_hide :: "fb_writer \<Rightarrow> fb_writer option" where
  "fb_cursor_hide w = draw_cursor_cell False (w\<lparr>blink_on := False\<rparr>)"

definition fb_tick_cursor :: "fb_writer \<Rightarrow> fb_writer option" where
  "fb_tick_cursor w = (let w = w\<lparr>blink_on := \<not> blink_on w\<rparr> in draw_cursor_cell (blink_on w) w)"

text \<open>Filling with the background, one \<open>chunks_mut(bpp)\<close> chunk at a time.\<close>

function fill_chunks :: "nat \<Rightarrow> rgb \<Rightarrow> u8 list \<Rightarrow> u8 list option" where
  "fill_chunks bpp color buf =
     (if bpp = 0 then None
      else if buf = [] then Some []
      else case color of (r, g, b) \<Rightarrow>
        do { chunk \<leftarrow> set_at (take bpp buf) 0 b;
             chunk \<leftarrow> set_at chunk 1 g;
             chunk \<leftarrow> set_at chunk 2 r;
             chunk \<leftarrow> (if bpp = 4 then set_at chunk 3 0xFF else Some chunk);
             rest \<leftarrow> fill_chunks bpp color (drop bpp buf);
             Some (chunk @ rest) })"
  by pat_completeness auto
termination
  by (relation "measure (\<lambda>(bpp, color, buf). length buf)") auto

declare fill_chunks.simps [simp del]

definition fb_scroll_up :: "fb_writer \<Rightarrow> fb_writer option" where
  "fb_scroll_up w =
     (let row_bytes = stride (info w) * bytes_per_pixel (info w) * GLYPH_H
      in do { buf \<leftarrow> copy_within row_bytes (length (buffer w)) 0 (buffer w);
              blank_start \<leftarrow> checked_sub (length buf) row_bytes;
              blank \<leftarrow> fill_chunks (bytes_per_pixel (info w)) (bg w) (drop blank_start buf);
              Some (w\<lparr>buffer := take blank_start buf @ blank\<rparr>) })"

definition fb_set_colors :: "rgb \<Rightarrow> rgb \<Rightarrow> fb_writer \<Rightarrow> fb_writer" where
  "fb_set_colors f b w = w\<lparr>fg := f, bg := b\<rparr>"

definition fb_clear :: "fb_writer \<Rightarrow> fb_writer option" where
  "fb_clear w =
     do { buf \<leftarrow> fill_chunks (bytes_per_pixel (info w)) (bg w) (buffer w);
          Some (w\<lparr>buffer := buf, col := 0, row := 0, blink_on := False, cursor_char := 32\<rparr>) }"

definition fb_backspace :: "fb_writer \<Rightarrow> fb_writer option" where
  "fb_backspace w =
     do { w \<leftarrow> draw_cursor_cell False w;
          let w = w\<lparr>blink_on := False\<rparr>;
          let erase = (\<lambda>w. do { buf \<leftarrow> write_glyph (buffer w) (info w) 32 (col w * GLYPH_W) (row w * GLYPH_H)
                                          (fg w) (bg w);
                                Some (w\<lparr>buffer := buf\<rparr>) });
          if col w > 0 then erase (w\<lparr>col := col w - 1\<rparr>)
          else if row w > 0 then
            do { c \<leftarrow> checked_sub (fb_cols w) 1; erase (w\<lparr>row := row w - 1, col := c\<rparr>) }
          else Some w }"

text \<open>The end of \<open>write_char\<close>: one scroll when the cursor has left the last row.\<close>

definition fb_pin_row :: "fb_writer \<Rightarrow> fb_writer option" where
  "fb_pin_row w =
     (if row w \<ge> fb_rows w then
        do { w \<leftarrow> fb_scroll_up w; r \<leftarrow> checked_sub (fb_rows w) 1; Some (w\<lparr>row := r\<rparr>) }
      else Some w)"

definition fb_write_char :: "uchar \<Rightarrow> fb_writer \<Rightarrow> fb_writer option" where
  "fb_write_char ch w =
     do { w \<leftarrow> draw_cursor_cell False w;
          let w = w\<lparr>blink_on := False\<rparr>;
          if ch = 10 then fb_pin_row (w\<lparr>col := 0, row := row w + 1\<rparr>)
          else if ch = 8 then fb_backspace w
          else
            do { buf \<leftarrow> write_glyph (buffer w) (info w) ch (col w * GLYPH_W) (row w * GLYPH_H) (fg w) (bg w);
                 let w = w\<lparr>buffer := buf, col := col w + 1\<rparr>;
                 fb_pin_row (if col w \<ge> fb_cols w then w\<lparr>col := 0, row := row w + 1\<rparr> else w) } }"

text \<open>\<open>print!\<close> on the writer, and the module's functions on the optional writer.\<close>

definition fb_write_str :: "str \<Rightarrow> fb_writer \<Rightarrow> fb_writer option" where
  "fb_write_str s w = for_each s fb_write_char w"

definition on_writer :: "(fb_writer \<Rightarrow> fb_writer option) \<Rightarrow> fb_writer option \<Rightarrow> fb_writer option option" where
  "on_writer f wo = (case wo of None \<Rightarrow> Some None | Some w \<Rightarrow> map_option Some (f w))"

definition fb_print :: "str \<Rightarrow> fb_writer option \<Rightarrow> fb_writer option option" where
  "fb_print s = on_writer (fb_write_str s)"

definition cursor_tick :: "fb_writer option \<Rightarrow> fb_writer option option" where
  "cursor_tick = on_writer fb_tick_cursor"

definition cursor_show :: "uchar \<Rightarrow> fb_writer option \<Rightarrow> fb_writer option option" where
  "cursor_show ch = on_writer (fb_cursor_show ch)"

definition set_fg :: "rgb \<Rightarrow> fb_writer option \<Rightarrow> fb_writer option option" where
  "set_fg c = on_writer (\<lambda>w. Some (fb_set_colors c COLOR_BG w))"

definition reset_colors :: "fb_writer option \<Rightarrow> fb_writer option option" where
  "reset_colors = on_writer (\<lambda>w. Some (fb_set_colors COLOR_FG COLOR_BG w))"

end
