(* ===== verification/FbPixels.thy ===== *)
theory FbPixels
  imports Framebuffer
begin

text \<open>
  The pixel buffer as a sequence of pixels: what one pixel write, one glyph and one fill change.
\<close>

definition px_at :: "u8 list \<Rightarrow> nat \<Rightarrow> nat \<Rightarrow> u8 list" where
  "px_at buf bpp P = take bpp (drop (P * bpp) buf)"

text \<open>The bytes of a pixel: blue, green, red, and an opaque fourth byte when there is one.\<close>

definition enc :: "nat \<Rightarrow> rgb \<Rightarrow> u8 list" where
  "enc bpp color = (case color of (r, g, b) \<Rightarrow> [b, g, r] @ (if bpp = 4 then [0xFF] else []))"

definition bpp_ok :: "nat \<Rightarrow> bool" where "bpp_ok bpp \<longleftrightarrow> bpp = 3 \<or> bpp = 4"

lemma length_enc [simp]: "bpp_ok bpp \<Longrightarrow> length (enc bpp c) = bpp"
  by (cases c) (auto simp: enc_def bpp_ok_def)

lemma bpp_pos: "bpp_ok bpp \<Longrightarrow> 0 < bpp"
  by (auto simp: bpp_ok_def)

section \<open>One pixel\<close>

lemma pixel_splice:
  assumes "bpp_ok bpp" "length buf = N * bpp" "P < N" "length x = bpp"
  shows "px_at (take (P * bpp) buf @ x @ drop (P * bpp + bpp) buf) bpp Q = (if Q = P then x else px_at buf bpp Q)"
proof -
  have len: "P * bpp + bpp \<le> length buf"
    using assms(2,3) mult_le_mono1 [of "Suc P" N bpp] by simp
  consider "Q < P" | "Q = P" | "P < Q" by linarith
  then show ?thesis
  proof cases
    case 1
    then have "Q * bpp + bpp \<le> P * bpp" using mult_le_mono1 [of "Suc Q" P bpp] by simp
    from 1 have "Q * bpp - P * bpp = 0" by simp
    with len \<open>Q * bpp + bpp \<le> P * bpp\<close> have "drop (Q * bpp) (take (P * bpp) buf @ y) = take (P * bpp - Q * bpp) (drop (Q * bpp) buf) @ y" for y
      by (simp add: drop_take)
    then have pre: "drop (Q * bpp) (take (P * bpp) buf @ y) = take (P * bpp - Q * bpp) (drop (Q * bpp) buf) @ y" for y .
    have "length (take (P * bpp - Q * bpp) (drop (Q * bpp) buf)) \<ge> bpp"
      using len \<open>Q * bpp + bpp \<le> P * bpp\<close> by simp
    then have "take bpp (take (P * bpp - Q * bpp) (drop (Q * bpp) buf) @ y)
        = take bpp (take (P * bpp - Q * bpp) (drop (Q * bpp) buf))" for y
      by (simp only: take_append diff_is_0_eq [THEN iffD2] take_0 append_Nil2)
    also have "take bpp (take (P * bpp - Q * bpp) (drop (Q * bpp) buf)) = take bpp (drop (Q * bpp) buf)"
      using \<open>Q * bpp + bpp \<le> P * bpp\<close> by (simp add: min_absorb1)
    finally show ?thesis using 1 by (simp only: px_at_def pre) simp
  next
    case 2
    with len assms(4) show ?thesis by (simp add: px_at_def)
  next
    case 3
    then have "P * bpp + bpp \<le> Q * bpp" using mult_le_mono1 [of "Suc P" Q bpp] by simp
    then have "drop (Q * bpp) (take (P * bpp) buf @ x @ drop (P * bpp + bpp) buf) = drop (Q * bpp) buf"
      using len assms(4) 3 by (simp add: min_def)
    with 3 show ?thesis by (simp add: px_at_def)
  qed
qed

lemma write_pixel_splice:
  assumes "bpp_ok (bytes_per_pixel fbi)" "off + bytes_per_pixel fbi \<le> length buf"
  shows "write_pixel fbi off color buf
    = Some (take off buf @ enc (bytes_per_pixel fbi) color @ drop (off + bytes_per_pixel fbi) buf)"
proof -
  obtain r g b where color: "color = (r, g, b)" by (cases color)
  from assms(1) consider "bytes_per_pixel fbi = 3" | "bytes_per_pixel fbi = 4" by (auto simp: bpp_ok_def)
  then show ?thesis
  proof cases
    case 1
    with assms(2) have "buf = take off buf @ [buf ! off, buf ! (off + 1), buf ! (off + 2)] @ drop (off + 3) buf"
      by (simp add: Cons_nth_drop_Suc numeral_3_eq_3)
    moreover have "length (take off buf) = off" using assms(2) by simp
    ultimately obtain xs x y z t where buf: "buf = xs @ [x, y, z] @ t" and len: "length xs = off" by blast
    show ?thesis unfolding buf using len 1 by (simp add: write_pixel_def color enc_def list_update_append)
  next
    case 2
    with assms(2) have "buf = take off buf @ [buf ! off, buf ! (off + 1), buf ! (off + 2), buf ! (off + 3)] @ drop (off + 4) buf"
      by (simp add: Cons_nth_drop_Suc eval_nat_numeral)
    moreover have "length (take off buf) = off" using assms(2) by simp
    ultimately obtain xs x y z u t where buf: "buf = xs @ [x, y, z, u] @ t" and len: "length xs = off" by blast
    show ?thesis unfolding buf using len 2 by (simp add: write_pixel_def color enc_def list_update_append)
  qed
qed

lemma write_pixel_spec:
  assumes "bpp_ok (bytes_per_pixel fbi)" "length buf = N * bytes_per_pixel fbi" "P < N"
  shows "\<exists>buf'. write_pixel fbi (P * bytes_per_pixel fbi) color buf = Some buf' \<and> length buf' = length buf
    \<and> (\<forall>Q. px_at buf' (bytes_per_pixel fbi) Q
        = (if Q = P then enc (bytes_per_pixel fbi) color else px_at buf (bytes_per_pixel fbi) Q))"
proof -
  have "P * bytes_per_pixel fbi + bytes_per_pixel fbi \<le> length buf"
    using assms(2,3) mult_le_mono1 [of "Suc P" N "bytes_per_pixel fbi"] by simp
  with write_pixel_splice [OF assms(1) this, of color] pixel_splice [OF assms(1,2,3)] assms(1)
  show ?thesis by auto
qed

text \<open>A loop of writes at distinct pixels.\<close>

lemma write_pixels:
  assumes "bpp_ok (bytes_per_pixel fbi)"
  shows "length buf = N * bytes_per_pixel fbi \<Longrightarrow> distinct (map f xs) \<Longrightarrow> \<forall>x \<in> set xs. f x < N \<Longrightarrow>
    \<exists>buf'. for_each xs (\<lambda>x. write_pixel fbi (f x * bytes_per_pixel fbi) (g x)) buf = Some buf'
      \<and> length buf' = length buf
      \<and> (\<forall>x \<in> set xs. px_at buf' (bytes_per_pixel fbi) (f x) = enc (bytes_per_pixel fbi) (g x))
      \<and> (\<forall>Q. Q \<notin> f ` set xs \<longrightarrow> px_at buf' (bytes_per_pixel fbi) Q = px_at buf (bytes_per_pixel fbi) Q)"
proof (induction xs arbitrary: buf)
  case (Cons x xs)
  from Cons.prems write_pixel_spec [OF assms Cons.prems(1), of "f x" "g x"] obtain buf1 where
    b1: "write_pixel fbi (f x * bytes_per_pixel fbi) (g x) buf = Some buf1" "length buf1 = length buf"
      "\<And>Q. px_at buf1 (bytes_per_pixel fbi) Q
        = (if Q = f x then enc (bytes_per_pixel fbi) (g x) else px_at buf (bytes_per_pixel fbi) Q)" by auto
  from Cons.IH [of buf1] Cons.prems b1(2) obtain buf2 where
    b2: "for_each xs (\<lambda>x. write_pixel fbi (f x * bytes_per_pixel fbi) (g x)) buf1 = Some buf2"
      "length buf2 = length buf1"
      "\<forall>x \<in> set xs. px_at buf2 (bytes_per_pixel fbi) (f x) = enc (bytes_per_pixel fbi) (g x)"
      "\<forall>Q. Q \<notin> f ` set xs \<longrightarrow> px_at buf2 (bytes_per_pixel fbi) Q = px_at buf1 (bytes_per_pixel fbi) Q" by auto
  have "f x \<notin> f ` set xs" using Cons.prems(2) by simp
  with b2(4) b1(3) have "px_at buf2 (bytes_per_pixel fbi) (f x) = enc (bytes_per_pixel fbi) (g x)" by simp
  with b1 b2 show ?case by auto
qed simp

section \<open>One glyph\<close>

lemma for_each_append: "for_each (xs @ ys) body s = Option.bind (for_each xs body s) (for_each ys body)"
proof (induction xs arbitrary: s)
  case (Cons x xs)
  then show ?case by (cases "body x s") simp_all
qed simp

lemma for_each_map: "for_each (map f xs) body s = for_each xs (\<lambda>x. body (f x)) s"
proof (induction xs arbitrary: s)
  case (Cons x xs)
  then show ?case by (cases "body (f x) s") simp_all
qed simp

lemma for_each_nested:
  "for_each rs (\<lambda>r. for_each cs (h r)) s = for_each (concat (map (\<lambda>r. map (\<lambda>c. (r, c)) cs) rs)) (\<lambda>(r, c). h r c) s"
proof (induction rs arbitrary: s)
  case (Cons r rs)
  then show ?case
    by (cases "for_each cs (h r) s") (simp_all add: for_each_append for_each_map)
qed simp

lemma for_each_cong:
  "xs = ys \<Longrightarrow> s = t \<Longrightarrow> (\<And>x s. x \<in> set ys \<Longrightarrow> f x s = g x s) \<Longrightarrow> for_each xs f s = for_each ys g t"
proof (induction xs arbitrary: ys s t)
  case (Cons x xs)
  then show ?case by (cases "g x t") auto
qed simp

lemma length_FONT: "length FONT = 96"
  by (simp add: FONT_def)

lemma FONT_rows: "list_all (\<lambda>g. length g = 8) FONT"
  by (simp add: FONT_def)

definition glyph :: "uchar \<Rightarrow> u8 list" where
  "glyph ch = FONT ! (if ch \<ge> 0x20 \<and> ch \<le> 0x7F then ch - 0x20 else 0)"

lemma glyph_of_glyph: "glyph_of ch = Some (glyph ch)" and length_glyph: "length (glyph ch) = 8"
  using FONT_rows by (auto simp: glyph_of_def glyph_def length_FONT list_all_length)

text \<open>Whether the font sets pixel \<open>(i, j)\<close> of a character; a blank sets none.\<close>

definition ink :: "uchar \<Rightarrow> nat \<Rightarrow> nat \<Rightarrow> bool" where
  "ink ch i j \<longleftrightarrow> drop_bit (7 - j) (glyph ch ! i) AND 1 \<noteq> 0"

lemma ink_blank: "i < 8 \<Longrightarrow> \<not> ink 32 i j"
proof -
  assume "i < 8"
  moreover have "glyph 32 = replicate 8 0" by (simp add: glyph_def FONT_def eval_nat_numeral)
  ultimately show ?thesis by (simp add: ink_def)
qed

definition px_pos :: "nat \<Rightarrow> nat \<Rightarrow> nat \<Rightarrow> nat \<Rightarrow> nat \<Rightarrow> nat" where
  "px_pos S r c i j = (r * 8 + i) * S + (c * 8 + j)"

lemma px_pos_inj:
  assumes "c * 8 + 8 \<le> S" "c' * 8 + 8 \<le> S" "i < 8" "i' < 8" "j < 8" "j' < 8"
  shows "px_pos S r c i j = px_pos S r' c' i' j' \<longleftrightarrow> r = r' \<and> c = c' \<and> i = i' \<and> j = j'"
proof
  assume eq: "px_pos S r c i j = px_pos S r' c' i' j'"
  have x: "c * 8 + j < S" "c' * 8 + j' < S" using assms by simp_all
  then have "r * 8 + i = r' * 8 + i'" "c * 8 + j = c' * 8 + j'"
    using arg_cong [OF eq, of "\<lambda>n. n div S"] arg_cong [OF eq, of "\<lambda>n. n mod S"] by (simp_all add: px_pos_def)
  moreover have "m = m' \<and> n = n'" if "m * 8 + n = m' * 8 + n'" "n < 8" "n' < 8" for m n m' n' :: nat
    using that by presburger
  ultimately show "r = r' \<and> c = c' \<and> i = i' \<and> j = j'" using assms by blast
qed simp

lemma px_pos_less:
  assumes "r < R" "c * 8 + 8 \<le> S" "i < 8" "j < 8"
  shows "px_pos S r c i j < S * (R * 8)"
proof -
  have "px_pos S r c i j < (r * 8 + i) * S + S" using assms by (simp add: px_pos_def)
  also have "\<dots> = Suc (r * 8 + i) * S" by simp
  also have "\<dots> \<le> (R * 8) * S" using assms by (intro mult_le_mono1) simp
  finally show ?thesis by (simp add: mult.commute)
qed

lemma write_glyph_spec:
  assumes bpp: "bpp_ok (bytes_per_pixel fbi)" and len: "length buf = stride fbi * (R * 8) * bytes_per_pixel fbi"
    and cell: "r < R" "c * 8 + 8 \<le> stride fbi"
  shows "\<exists>buf'. write_glyph buf fbi ch (c * GLYPH_W) (r * GLYPH_H) f b = Some buf' \<and> length buf' = length buf
    \<and> (\<forall>i j. i < 8 \<longrightarrow> j < 8 \<longrightarrow> px_at buf' (bytes_per_pixel fbi) (px_pos (stride fbi) r c i j)
          = enc (bytes_per_pixel fbi) (if ink ch i j then f else b))
    \<and> (\<forall>Q. (\<forall>i j. i < 8 \<longrightarrow> j < 8 \<longrightarrow> Q \<noteq> px_pos (stride fbi) r c i j) \<longrightarrow>
          px_at buf' (bytes_per_pixel fbi) Q = px_at buf (bytes_per_pixel fbi) Q)"
proof -
  let ?S = "stride fbi" and ?bpp = "bytes_per_pixel fbi"
  let ?xs = "concat (map (\<lambda>r. map (\<lambda>c. (r, c)) [0..<8]) [0..<8]) :: (nat \<times> nat) list"
  let ?f = "\<lambda>(i, j). px_pos ?S r c i j" and ?g = "\<lambda>(i, j). if ink ch i j then f else b"
  have xs: "set ?xs = {(i, j). i < 8 \<and> j < 8}" by auto
  have "write_glyph buf fbi ch (c * GLYPH_W) (r * GLYPH_H) f b
      = for_each [0..<8] (\<lambda>i buf. do { bits \<leftarrow> get_at (glyph ch) i;
          for_each [0..<8] (\<lambda>j buf. write_pixel fbi (px_pos ?S r c i j * ?bpp)
            (if drop_bit (7 - j) bits AND 1 \<noteq> 0 then f else b) buf) buf }) buf"
    by (simp add: write_glyph_def glyph_of_glyph GLYPH_H_def GLYPH_W_def px_pos_def del: upt_Suc)
  also have "\<dots> = for_each [0..<8] (\<lambda>i. for_each [0..<8] (\<lambda>j.
          write_pixel fbi (px_pos ?S r c i j * ?bpp) (if ink ch i j then f else b))) buf"
    by (rule for_each_cong) (auto simp: length_glyph ink_def)
  also have "\<dots> = for_each ?xs (\<lambda>(i, j). write_pixel fbi (px_pos ?S r c i j * ?bpp) (if ink ch i j then f else b)) buf"
    by (rule for_each_nested)
  also have "\<dots> = for_each ?xs (\<lambda>x. write_pixel fbi (?f x * ?bpp) (?g x)) buf"
    by (rule for_each_cong) auto
  finally have loop: "write_glyph buf fbi ch (c * GLYPH_W) (r * GLYPH_H) f b
    = for_each ?xs (\<lambda>x. write_pixel fbi (?f x * ?bpp) (?g x)) buf" .
  have "inj_on ?f (set ?xs)" using px_pos_inj [OF cell(2) cell(2)] by (auto simp: inj_on_def xs)
  moreover have "distinct ?xs" by code_simp
  ultimately have dist: "distinct (map ?f ?xs)" by (simp only: distinct_map)
  have "\<forall>x \<in> set ?xs. ?f x < ?S * (R * 8)" using px_pos_less [OF cell] by (auto simp: xs)
  from write_pixels [OF bpp len dist this, of ?g] obtain buf' where
    buf': "for_each ?xs (\<lambda>x. write_pixel fbi (?f x * ?bpp) (?g x)) buf = Some buf'" "length buf' = length buf"
      "\<forall>x \<in> set ?xs. px_at buf' ?bpp (?f x) = enc ?bpp (?g x)"
      "\<forall>Q. Q \<notin> ?f ` set ?xs \<longrightarrow> px_at buf' ?bpp Q = px_at buf ?bpp Q" by blast
  have "px_at buf' ?bpp Q = px_at buf ?bpp Q" if "\<forall>i j. i < 8 \<longrightarrow> j < 8 \<longrightarrow> Q \<noteq> px_pos ?S r c i j" for Q
  proof -
    have "Q \<notin> ?f ` set ?xs" unfolding xs using that by auto
    with buf'(4) show ?thesis by blast
  qed
  with buf' loop xs show ?thesis by auto
qed

section \<open>Filling\<close>

lemma fill_chunks_spec:
  "bpp_ok bpp \<Longrightarrow> length buf = n * bpp \<Longrightarrow> fill_chunks bpp color buf = Some (concat (replicate n (enc bpp color)))"
proof (induction n arbitrary: buf)
  case 0
  then show ?case by (subst fill_chunks.simps) (auto simp: bpp_ok_def)
next
  case (Suc n)
  then have rest: "fill_chunks bpp color (drop bpp buf) = Some (concat (replicate n (enc bpp color)))" by simp
  obtain r g b where color: "color = (r, g, b)" by (cases color)
  from Suc.prems have ne: "buf \<noteq> []" "bpp \<noteq> 0" "length (take bpp buf) = bpp" by (auto simp: bpp_ok_def)
  obtain x y z u where "take bpp buf = (if bpp = 4 then [x, y, z, u] else [x, y, z])"
  proof -
    obtain x xs where x: "take bpp buf = x # xs" using ne by (cases "take bpp buf") auto
    with ne Suc.prems(1) obtain y ys where y: "xs = y # ys" by (cases xs) (auto simp: bpp_ok_def)
    with x ne Suc.prems(1) obtain z zs where z: "ys = z # zs" by (cases ys) (auto simp: bpp_ok_def)
    with x y ne Suc.prems(1) show ?thesis using that by (cases zs; cases "tl zs") (auto simp: bpp_ok_def)
  qed
  with ne rest Suc.prems(1) show ?case
    by (subst fill_chunks.simps) (auto simp: color enc_def bpp_ok_def eval_nat_numeral)
qed

lemma px_at_fill: "bpp_ok bpp \<Longrightarrow> P < n \<Longrightarrow> px_at (concat (replicate n (enc bpp c))) bpp P = enc bpp c"
proof (induction n arbitrary: P)
  case (Suc n)
  then show ?case by (cases P) (auto simp: px_at_def)
qed simp

end
