(* ===== verification/Console.thy ===== *)
theory Console
  imports FbPixels
begin

text \<open>
  The abstract specification of the framebuffer writer: a grid of character cells with a
  cursor.  \<open>fb_shows\<close> says that the pixels are the font's rendering of the grid, and every
  operation of the writer preserves it without panicking.
\<close>

section \<open>The grid\<close>

type_synonym cell = "uchar \<times> rgb \<times> rgb"

record console =
  grid :: "nat \<Rightarrow> nat \<Rightarrow> cell"
  c_cols :: nat
  c_rows :: nat
  c_col :: nat
  c_row :: nat
  c_fg :: rgb
  c_bg :: rgb
  c_blink :: bool
  c_char :: uchar

definition put_cell :: "uchar \<Rightarrow> rgb \<Rightarrow> rgb \<Rightarrow> console \<Rightarrow> console" where
  "put_cell ch f b k = k\<lparr>grid := (grid k)(c_row k := (grid k (c_row k))(c_col k := (ch, f, b)))\<rparr>"

definition con_cursor :: "bool \<Rightarrow> console \<Rightarrow> console" where
  "con_cursor visible k = (if visible then put_cell (c_char k) (c_bg k) (c_fg k) k
                           else put_cell (c_char k) (c_fg k) (c_bg k) k)"

definition con_show :: "uchar \<Rightarrow> console \<Rightarrow> console" where
  "con_show ch k = con_cursor True (k\<lparr>c_char := ch, c_blink := True\<rparr>)"

definition con_hide :: "console \<Rightarrow> console" where
  "con_hide k = con_cursor False (k\<lparr>c_blink := False\<rparr>)"

definition con_tick :: "console \<Rightarrow> console" where
  "con_tick k = con_cursor (\<not> c_blink k) (k\<lparr>c_blink := \<not> c_blink k\<rparr>)"

definition con_set_col :: "nat \<Rightarrow> console \<Rightarrow> console" where
  "con_set_col c k = k\<lparr>c_col := min c (c_cols k - 1)\<rparr>"

definition con_colors :: "rgb \<Rightarrow> rgb \<Rightarrow> console \<Rightarrow> console" where
  "con_colors f b k = k\<lparr>c_fg := f, c_bg := b\<rparr>"

definition con_scroll :: "console \<Rightarrow> console" where
  "con_scroll k = k\<lparr>grid := \<lambda>r c. if Suc r < c_rows k then grid k (Suc r) c else (32, c_bg k, c_bg k)\<rparr>"

definition con_clear :: "console \<Rightarrow> console" where
  "con_clear k = k\<lparr>grid := \<lambda>r c. (32, c_bg k, c_bg k), c_col := 0, c_row := 0, c_blink := False, c_char := 32\<rparr>"

definition con_backspace :: "console \<Rightarrow> console" where
  "con_backspace k =
     (let k = (con_cursor False k)\<lparr>c_blink := False\<rparr>
      in if c_col k > 0 then put_cell 32 (c_fg k) (c_bg k) (k\<lparr>c_col := c_col k - 1\<rparr>)
         else if c_row k > 0 then
           put_cell 32 (c_fg k) (c_bg k) (k\<lparr>c_row := c_row k - 1, c_col := c_cols k - 1\<rparr>)
         else k)"

text \<open>Moving to the start of the next line, scrolling at the bottom.\<close>

definition con_newline :: "console \<Rightarrow> console" where
  "con_newline k = (if Suc (c_row k) < c_rows k then k\<lparr>c_col := 0, c_row := Suc (c_row k)\<rparr>
                    else (con_scroll k)\<lparr>c_col := 0\<rparr>)"

definition con_char :: "uchar \<Rightarrow> console \<Rightarrow> console" where
  "con_char ch k =
     (let k = (con_cursor False k)\<lparr>c_blink := False\<rparr>
      in if ch = 10 then con_newline k
         else if ch = 8 then con_backspace k
         else (let k = put_cell ch (c_fg k) (c_bg k) k
               in if Suc (c_col k) < c_cols k then k\<lparr>c_col := Suc (c_col k)\<rparr> else con_newline k))"

definition con_print :: "str \<Rightarrow> console \<Rightarrow> console" where
  "con_print s k = fold con_char s k"

section \<open>What the pixels show\<close>

definition fb_geom :: "fb_writer \<Rightarrow> bool" where
  "fb_geom w \<longleftrightarrow> bpp_ok (bytes_per_pixel (info w))
     \<and> length (buffer w) = stride (info w) * height (info w) * bytes_per_pixel (info w)
     \<and> width (info w) \<le> stride (info w) \<and> 8 \<le> width (info w)
     \<and> 8 dvd height (info w) \<and> 0 < height (info w)"

text \<open>The colour bytes of a pixel show; the fourth byte, where there is one, is padding.\<close>

definition shows_cell :: "u8 list \<Rightarrow> fb_info \<Rightarrow> nat \<Rightarrow> nat \<Rightarrow> cell \<Rightarrow> bool" where
  "shows_cell buf fbi r c x \<longleftrightarrow> (case x of (ch, f, b) \<Rightarrow>
     \<forall>i < 8. \<forall>j < 8. take 3 (px_at buf (bytes_per_pixel fbi) (px_pos (stride fbi) r c i j))
       = enc 3 (if ink ch i j then f else b))"

lemma take_enc: "bpp_ok bpp \<Longrightarrow> take 3 (enc bpp c) = enc 3 c"
  by (cases c) (auto simp: enc_def bpp_ok_def)

definition shows_grid :: "u8 list \<Rightarrow> fb_info \<Rightarrow> console \<Rightarrow> bool" where
  "shows_grid buf fbi k \<longleftrightarrow> (\<forall>r < c_rows k. \<forall>c < c_cols k. shows_cell buf fbi r c (grid k r c))"

definition fb_shows :: "fb_writer \<Rightarrow> console \<Rightarrow> bool" where
  "fb_shows w k \<longleftrightarrow> fb_geom w \<and> c_cols k = fb_cols w \<and> c_rows k = fb_rows w
     \<and> c_col k = col w \<and> c_row k = row w \<and> c_fg k = fg w \<and> c_bg k = bg w
     \<and> c_blink k = blink_on w \<and> c_char k = cursor_char w
     \<and> col w < fb_cols w \<and> row w < fb_rows w \<and> shows_grid (buffer w) (info w) k"

lemma fb_geomD:
  assumes "fb_geom w"
  shows "bpp_ok (bytes_per_pixel (info w))"
    and "length (buffer w) = stride (info w) * (fb_rows w * 8) * bytes_per_pixel (info w)"
    and "c < fb_cols w \<Longrightarrow> c * 8 + 8 \<le> stride (info w)"
    and "0 < fb_cols w" and "0 < fb_rows w"
proof -
  show "bpp_ok (bytes_per_pixel (info w))" using assms by (simp add: fb_geom_def)
  have rows: "fb_rows w * 8 = height (info w)" using assms by (simp add: fb_geom_def fb_rows_def GLYPH_H_def)
  with assms show "length (buffer w) = stride (info w) * (fb_rows w * 8) * bytes_per_pixel (info w)"
    by (simp add: fb_geom_def)
  show "c * 8 + 8 \<le> stride (info w)" if "c < fb_cols w"
  proof -
    have "Suc c * 8 \<le> width (info w) div 8 * 8" using that by (intro mult_le_mono1) (simp add: fb_cols_def GLYPH_W_def)
    also have "\<dots> \<le> width (info w)" by simp
    finally show ?thesis using assms by (simp add: fb_geom_def)
  qed
  show "0 < fb_cols w" using assms by (auto simp: fb_geom_def fb_cols_def GLYPH_W_def)
  show "0 < fb_rows w" using assms rows by (auto simp: fb_geom_def intro: Nat.gr0I)
qed

text \<open>Writing a glyph at a position of the grid is putting a cell there.\<close>

lemma write_glyph_cell:
  assumes geom: "fb_geom w" and pos: "r < fb_rows w" "c < fb_cols w"
    and grid: "\<forall>r < fb_rows w. \<forall>c < fb_cols w. shows_cell (buffer w) (info w) r c (g r c)"
  shows "\<exists>buf. write_glyph (buffer w) (info w) ch (c * GLYPH_W) (r * GLYPH_H) f b = Some buf
    \<and> length buf = length (buffer w)
    \<and> (\<forall>r' < fb_rows w. \<forall>c' < fb_cols w. shows_cell buf (info w) r' c' ((g(r := (g r)(c := (ch, f, b)))) r' c'))"
proof -
  note geomD = fb_geomD [OF geom]
  from write_glyph_spec [OF geomD(1,2) pos(1) geomD(3) [OF pos(2)], of ch f b] obtain buf where
    buf: "write_glyph (buffer w) (info w) ch (c * GLYPH_W) (r * GLYPH_H) f b = Some buf"
      "length buf = length (buffer w)"
      "\<And>i j. i < 8 \<Longrightarrow> j < 8 \<Longrightarrow> px_at buf (bytes_per_pixel (info w)) (px_pos (stride (info w)) r c i j)
          = enc (bytes_per_pixel (info w)) (if ink ch i j then f else b)"
      "\<And>Q. (\<forall>i j. i < 8 \<longrightarrow> j < 8 \<longrightarrow> Q \<noteq> px_pos (stride (info w)) r c i j) \<Longrightarrow>
          px_at buf (bytes_per_pixel (info w)) Q = px_at (buffer w) (bytes_per_pixel (info w)) Q" by blast
  have "shows_cell buf (info w) r' c' ((g(r := (g r)(c := (ch, f, b)))) r' c')"
    if "r' < fb_rows w" "c' < fb_cols w" for r' c'
  proof (cases "r' = r \<and> c' = c")
    case True
    with buf(3) show ?thesis by (simp add: shows_cell_def take_enc [OF geomD(1)])
  next
    case False
    have "px_at buf (bytes_per_pixel (info w)) (px_pos (stride (info w)) r' c' i j)
        = px_at (buffer w) (bytes_per_pixel (info w)) (px_pos (stride (info w)) r' c' i j)"
      if "i < 8" "j < 8" for i j
      using px_pos_inj [OF geomD(3) [OF \<open>c' < fb_cols w\<close>] geomD(3) [OF pos(2)]] that False
      by (intro buf(4)) blast
    with grid that False show ?thesis by (auto simp: shows_cell_def)
  qed
  with buf show ?thesis by blast
qed

lemma fb_shows_put:
  assumes "fb_shows w k"
  shows "\<exists>buf. write_glyph (buffer w) (info w) ch (col w * GLYPH_W) (row w * GLYPH_H) f b = Some buf
    \<and> fb_shows (w\<lparr>buffer := buf\<rparr>) (put_cell ch f b k)"
proof -
  have geom: "fb_geom w" and pos: "row w < fb_rows w" "col w < fb_cols w"
    and grid: "\<forall>r < fb_rows w. \<forall>c < fb_cols w. shows_cell (buffer w) (info w) r c (grid k r c)"
    using assms by (auto simp: fb_shows_def shows_grid_def)
  from write_glyph_cell [OF geom pos grid, of ch f b] assms show ?thesis
    by (fastforce simp: fb_shows_def shows_grid_def put_cell_def fb_geom_def fb_cols_def fb_rows_def)
qed

lemma fb_shows_update:
  "fb_shows w k \<Longrightarrow> fb_shows (w\<lparr>blink_on := x\<rparr>) (k\<lparr>c_blink := x\<rparr>)"
  "fb_shows w k \<Longrightarrow> fb_shows (w\<lparr>cursor_char := ch\<rparr>) (k\<lparr>c_char := ch\<rparr>)"
  "fb_shows w k \<Longrightarrow> fb_shows (fb_set_colors f b w) (con_colors f b k)"
  "fb_shows w k \<Longrightarrow> c < fb_cols w \<Longrightarrow> fb_shows (w\<lparr>col := c\<rparr>) (k\<lparr>c_col := c\<rparr>)"
  "fb_shows w k \<Longrightarrow> r < fb_rows w \<Longrightarrow> fb_shows (w\<lparr>row := r\<rparr>) (k\<lparr>c_row := r\<rparr>)"
  by (auto simp: fb_shows_def fb_geom_def shows_grid_def fb_cols_def fb_rows_def fb_set_colors_def con_colors_def)

lemma fb_shows_cursor:
  assumes "fb_shows w k"
  shows "\<exists>w'. draw_cursor_cell x w = Some w' \<and> fb_shows w' (con_cursor x k)
    \<and> col w' = col w \<and> row w' = row w \<and> info w' = info w"
proof -
  have eqs: "c_char k = cursor_char w" "c_fg k = fg w" "c_bg k = bg w" using assms by (simp_all add: fb_shows_def)
  show ?thesis
    using fb_shows_put [OF assms, of "cursor_char w" "bg w" "fg w"] fb_shows_put [OF assms, of "cursor_char w" "fg w" "bg w"]
    by (cases x) (auto simp: draw_cursor_cell_def con_cursor_def eqs)
qed


section \<open>Each operation\<close>

text \<open>\<open>refines f g\<close>: on a writer that shows a console, \<open>f\<close> returns one that shows \<open>g\<close> of it.\<close>

definition refines :: "(fb_writer \<Rightarrow> fb_writer option) \<Rightarrow> (console \<Rightarrow> console) \<Rightarrow> bool" where
  "refines f g \<longleftrightarrow> (\<forall>w k. fb_shows w k \<longrightarrow> (\<exists>w'. f w = Some w' \<and> fb_shows w' (g k)))"

lemma refinesD: "refines f g \<Longrightarrow> fb_shows w k \<Longrightarrow> \<exists>w'. f w = Some w' \<and> fb_shows w' (g k)"
  by (simp add: refines_def)

lemma refines_show: "refines (fb_cursor_show ch) (con_show ch)"
  unfolding refines_def fb_cursor_show_def con_show_def
proof (intro allI impI)
  fix w k
  assume "fb_shows w k"
  then have "fb_shows (w\<lparr>cursor_char := ch, blink_on := True\<rparr>) (k\<lparr>c_char := ch, c_blink := True\<rparr>)"
    using fb_shows_update(1,2) by metis
  from fb_shows_cursor [OF this] show "\<exists>w'. draw_cursor_cell True (w\<lparr>cursor_char := ch, blink_on := True\<rparr>) = Some w'
      \<and> fb_shows w' (con_cursor True (k\<lparr>c_char := ch, c_blink := True\<rparr>))" by blast
qed

lemma refines_hide: "refines fb_cursor_hide con_hide"
  unfolding refines_def fb_cursor_hide_def con_hide_def
  using fb_shows_cursor fb_shows_update(1) by metis

lemma refines_tick: "refines fb_tick_cursor con_tick"
  unfolding refines_def fb_tick_cursor_def con_tick_def
proof (intro allI impI)
  fix w k
  assume w: "fb_shows w k"
  then have "c_blink k = blink_on w" by (simp add: fb_shows_def)
  with fb_shows_cursor [OF fb_shows_update(1) [OF w], of "\<not> blink_on w" "\<not> blink_on w"]
  show "\<exists>w'. (let w = w\<lparr>blink_on := \<not> blink_on w\<rparr> in draw_cursor_cell (blink_on w) w) = Some w'
      \<and> fb_shows w' (con_cursor (\<not> c_blink k) (k\<lparr>c_blink := \<not> c_blink k\<rparr>))"
    by (auto simp: Let_def)
qed

lemma refines_set_col: "refines (\<lambda>w. Some (fb_set_col c w)) (con_set_col c)"
  unfolding refines_def
proof (intro allI impI)
  fix w k
  assume w: "fb_shows w k"
  then have "0 < fb_cols w" "c_cols k = fb_cols w" using fb_geomD(4) by (auto simp: fb_shows_def)
  with fb_shows_update(4) [OF w, of "min c (fb_cols w - 1)"]
  show "\<exists>w'. Some (fb_set_col c w) = Some w' \<and> fb_shows w' (con_set_col c k)"
    by (simp add: fb_set_col_def con_set_col_def)
qed

lemma refines_colors: "refines (\<lambda>w. Some (fb_set_colors f b w)) (con_colors f b)"
  unfolding refines_def using fb_shows_update(3) by blast

text \<open>A blank cell in the background colour.\<close>

lemma shows_blank:
  assumes "bpp_ok (bytes_per_pixel fbi)" "\<And>i j. i < 8 \<Longrightarrow> j < 8 \<Longrightarrow>
    px_at buf (bytes_per_pixel fbi) (px_pos (stride fbi) r c i j) = enc (bytes_per_pixel fbi) b"
  shows "shows_cell buf fbi r c (32, f, b)"
  using assms by (auto simp: shows_cell_def ink_blank take_enc)

lemma refines_clear_any:
  assumes "fb_geom w"
  shows "\<exists>w'. fb_clear w = Some w'
    \<and> fb_shows w' (con_clear \<lparr>grid = g, c_cols = fb_cols w, c_rows = fb_rows w, c_col = x, c_row = y,
        c_fg = fg w, c_bg = bg w, c_blink = bl, c_char = ch\<rparr>)"
proof -
  note geom = fb_geomD [OF assms]
  let ?bpp = "bytes_per_pixel (info w)"
  let ?n = "stride (info w) * (fb_rows w * 8)"
  let ?buf = "concat (replicate ?n (enc ?bpp (bg w)))"
  have fill: "fill_chunks ?bpp (bg w) (buffer w) = Some ?buf" by (rule fill_chunks_spec [OF geom(1,2)])
  have len: "length ?buf = length (buffer w)" using geom(1,2) by (simp add: length_concat sum_list_replicate)
  have "shows_cell ?buf (info w) r c (32, bg w, bg w)" if "r < fb_rows w" "c < fb_cols w" for r c
    using px_pos_less [OF that(1) geom(3) [OF that(2)]] geom(1)
    by (intro shows_blank) (simp_all add: px_at_fill)
  with fill len assms geom(4,5) show ?thesis
    by (auto simp: fb_clear_def con_clear_def fb_shows_def shows_grid_def fb_geom_def fb_cols_def fb_rows_def)
qed

lemma refines_clear: "refines fb_clear con_clear"
  unfolding refines_def
proof (intro allI impI)
  fix w k
  assume w: "fb_shows w k"
  then have "k = \<lparr>grid = grid k, c_cols = fb_cols w, c_rows = fb_rows w, c_col = c_col k, c_row = c_row k,
        c_fg = fg w, c_bg = bg w, c_blink = c_blink k, c_char = c_char k\<rparr>"
    by (simp add: fb_shows_def)
  with refines_clear_any [of w "grid k" "c_col k" "c_row k" "c_blink k" "c_char k"] w
  show "\<exists>w'. fb_clear w = Some w' \<and> fb_shows w' (con_clear k)" by (simp add: fb_shows_def)
qed

section \<open>Scrolling\<close>

lemma px_at_drop: "px_at (drop (n * bpp) buf) bpp P = px_at buf bpp (P + n)"
  by (simp add: px_at_def add_mult_distrib add.commute)

lemma px_at_append:
  assumes "length xs = n * bpp"
  shows "px_at (xs @ ys) bpp P = (if P < n then px_at xs bpp P else px_at ys bpp (P - n))"
proof (cases "P < n")
  case True
  then have "P * bpp + bpp \<le> n * bpp" using mult_le_mono1 [of "Suc P" n bpp] by simp
  with True assms show ?thesis by (simp add: px_at_def)
next
  case False
  then have "n * bpp \<le> P * bpp" by simp
  with False assms show ?thesis by (simp add: px_at_def diff_mult_distrib)
qed

lemma scroll_buffer:
  assumes geom: "fb_geom w"
  shows "fb_scroll_up w = Some (w\<lparr>buffer :=
      drop (stride (info w) * 8 * bytes_per_pixel (info w)) (buffer w)
      @ concat (replicate (stride (info w) * 8) (enc (bytes_per_pixel (info w)) (bg w)))\<rparr>)"
proof -
  note g = fb_geomD [OF geom]
  let ?bpp = "bytes_per_pixel (info w)" and ?S = "stride (info w)"
  let ?rb = "?S * ?bpp * GLYPH_H"
  have rb: "?rb = ?S * 8 * ?bpp" by (simp add: GLYPH_H_def)
  have "1 * (?S * 8 * ?bpp) \<le> fb_rows w * (?S * 8 * ?bpp)" using g(5) by (intro mult_le_mono1) simp
  then have le: "?rb \<le> length (buffer w)" unfolding rb g(2) by (simp add: ac_simps)
  have cw: "copy_within ?rb (length (buffer w)) 0 (buffer w)
      = Some (drop ?rb (buffer w) @ drop (length (buffer w) - ?rb) (buffer w))"
    using le by (simp add: copy_within_def)
  have fill: "fill_chunks ?bpp (bg w) (drop (length (buffer w) - ?rb) (buffer w))
      = Some (concat (replicate (?S * 8) (enc ?bpp (bg w))))"
    using le by (intro fill_chunks_spec [OF g(1)]) (simp add: GLYPH_H_def)
  show ?thesis using cw fill le by (simp add: fb_scroll_up_def Let_def rb)
qed

text \<open>At the last row a scroll is the grid's scroll.\<close>

lemma fb_shows_scroll:
  assumes "fb_shows w k"
  shows "\<exists>w'. fb_scroll_up w = Some w' \<and> fb_shows w' (con_scroll k) \<and> info w' = info w"
proof -
  have geom: "fb_geom w" and grid: "\<And>r c. r < fb_rows w \<Longrightarrow> c < fb_cols w \<Longrightarrow> shows_cell (buffer w) (info w) r c (grid k r c)"
    and dims: "c_rows k = fb_rows w" "c_cols k = fb_cols w" "c_bg k = bg w"
    using assms by (auto simp: fb_shows_def shows_grid_def)
  note g = fb_geomD [OF geom]
  let ?bpp = "bytes_per_pixel (info w)" and ?S = "stride (info w)"
  let ?blank = "concat (replicate (?S * 8) (enc ?bpp (bg w)))"
  let ?buf = "drop (?S * 8 * ?bpp) (buffer w) @ ?blank"
  let ?n = "?S * ((fb_rows w - 1) * 8)"
  have rows: "fb_rows w = Suc (fb_rows w - 1)" using g(5) by simp
  then have split: "?S * (fb_rows w * 8) = ?n + ?S * 8" by (metis add.commute add_mult_distrib2 mult_Suc)
  then have kept: "length (drop (?S * 8 * ?bpp) (buffer w)) = ?n * ?bpp"
    using g(2) by (simp add: add_mult_distrib)
  have len: "length ?buf = length (buffer w)"
    unfolding length_append kept using g(1,2) split by (simp add: length_concat sum_list_replicate add_mult_distrib)
  have px: "px_at ?buf ?bpp P = (if P < ?n then px_at (buffer w) ?bpp (P + ?S * 8) else enc ?bpp (bg w))"
    if "P < ?S * (fb_rows w * 8)" for P
    using that split g(1) by (simp add: px_at_append [OF kept] px_at_drop px_at_fill)
  have cell: "shows_cell ?buf (info w) r c (grid (con_scroll k) r c)" if "r < fb_rows w" "c < fb_cols w" for r c
  proof -
    have below: "px_pos ?S r c i j < ?S * (fb_rows w * 8)" if "i < 8" "j < 8" for i j
      using px_pos_less [OF \<open>r < fb_rows w\<close> g(3) [OF \<open>c < fb_cols w\<close>]] that .
    show ?thesis
    proof (cases "Suc r < fb_rows w")
      case True
      have "px_at ?buf ?bpp (px_pos ?S r c i j) = px_at (buffer w) ?bpp (px_pos ?S (Suc r) c i j)"
        if "i < 8" "j < 8" for i j
      proof -
        have "px_pos ?S r c i j < ?n"
          using px_pos_less [of r "fb_rows w - 1" c ?S i j] True g(3) [OF \<open>c < fb_cols w\<close>] that by simp
        moreover have "px_pos ?S r c i j + ?S * 8 = px_pos ?S (Suc r) c i j"
          by (simp add: px_pos_def algebra_simps)
        ultimately show ?thesis using px [OF below [OF that]] by simp
      qed
      with grid [OF True \<open>c < fb_cols w\<close>] True dims show ?thesis
        by (auto simp: shows_cell_def con_scroll_def)
    next
      case False
      with that have r: "r = fb_rows w - 1" by simp
      have "px_at ?buf ?bpp (px_pos ?S r c i j) = enc ?bpp (bg w)" if "i < 8" "j < 8" for i j
      proof -
        have "?n \<le> px_pos ?S r c i j" by (simp add: px_pos_def r algebra_simps)
        then show ?thesis using px [OF below [OF that]] by simp
      qed
      with False dims shows_blank [OF g(1)] show ?thesis by (simp add: con_scroll_def)
    qed
  qed
  with scroll_buffer [OF geom] len assms show ?thesis
    by (auto simp: fb_shows_def fb_geom_def shows_grid_def fb_cols_def fb_rows_def con_scroll_def)
qed


section \<open>Characters\<close>

text \<open>The newline of \<open>write_char\<close>, before and after pinning the row.\<close>

lemma fb_shows_newline:
  assumes "fb_shows w k"
  shows "\<exists>w'. fb_pin_row (w\<lparr>col := 0, row := row w + 1\<rparr>) = Some w' \<and> fb_shows w' (con_newline k)"
proof -
  have eqs: "c_row k = row w" "c_rows k = fb_rows w" and pos: "0 < fb_cols w" "row w < fb_rows w"
    using assms fb_geomD(4) by (auto simp: fb_shows_def)
  have same: "fb_rows (w\<lparr>col := c, row := r\<rparr>) = fb_rows w" for c r by (simp add: fb_rows_def)
  show ?thesis
  proof (cases "Suc (row w) < fb_rows w")
    case True
    have "fb_shows (w\<lparr>col := 0\<rparr>) (k\<lparr>c_col := 0\<rparr>)" by (rule fb_shows_update(4) [OF assms pos(1)])
    then have "fb_shows (w\<lparr>col := 0, row := Suc (row w)\<rparr>) (k\<lparr>c_col := 0, c_row := Suc (row w)\<rparr>)"
      using fb_shows_update(5) [of "w\<lparr>col := 0\<rparr>" "k\<lparr>c_col := 0\<rparr>" "Suc (row w)"] True
      by (simp add: fb_rows_def)
    with True eqs show ?thesis by (simp add: fb_pin_row_def same con_newline_def)
  next
    case False
    then have last: "row w = fb_rows w - 1" using pos(2) by simp
    from fb_shows_scroll [OF assms] obtain w1 where
      w1: "fb_scroll_up w = Some w1" "fb_shows w1 (con_scroll k)" "info w1 = info w" by blast
    have geom: "fb_geom w" using assms by (simp add: fb_shows_def)
    have "fb_scroll_up (w\<lparr>col := 0, row := row w + 1\<rparr>) = Some (w1\<lparr>col := 0, row := row w + 1\<rparr>)"
      using w1(1) by (auto simp: fb_scroll_up_def Let_def split: Option.bind_splits)
    moreover have "fb_shows (w1\<lparr>col := 0\<rparr>) ((con_scroll k)\<lparr>c_col := 0\<rparr>)"
      using fb_shows_update(4) [OF w1(2)] pos(1) w1(3) by (simp add: fb_cols_def)
    moreover have "c_row (con_scroll k) = row w1" using w1(2) unfolding fb_shows_def by blast
    then have "row w1 = fb_rows w - 1" using last eqs(1) by (simp add: con_scroll_def)
    then have "w1\<lparr>col := 0, row := fb_rows w - 1\<rparr> = w1\<lparr>col := 0\<rparr>" by (cases w1) simp
    ultimately show ?thesis
      using False eqs w1(3) pos by (simp add: fb_pin_row_def same con_newline_def fb_rows_def)
  qed
qed

lemma refines_backspace: "refines fb_backspace con_backspace"
  unfolding refines_def
proof (intro allI impI)
  fix w k
  assume "fb_shows w k"
  from fb_shows_cursor [OF this, of False] obtain w1 where
    w1: "draw_cursor_cell False w = Some w1" "fb_shows w1 (con_cursor False k)" by blast
  let ?w = "w1\<lparr>blink_on := False\<rparr>" and ?k = "(con_cursor False k)\<lparr>c_blink := False\<rparr>"
  have w2: "fb_shows ?w ?k" by (rule fb_shows_update(1) [OF w1(2)])
  then have eqs: "c_col ?k = col ?w" "c_row ?k = row ?w" "c_cols ?k = fb_cols ?w" "c_fg ?k = fg ?w" "c_bg ?k = bg ?w"
    and pos: "col ?w < fb_cols ?w" "row ?w < fb_rows ?w"
    by (simp_all add: fb_shows_def)
  have erase: "\<exists>w'. (do { buf \<leftarrow> write_glyph (buffer v) (info v) 32 (col v * GLYPH_W) (row v * GLYPH_H) (fg v) (bg v);
      Some (v\<lparr>buffer := buf\<rparr>) }) = Some w' \<and> fb_shows w' (put_cell 32 (c_fg j) (c_bg j) j)"
    if "fb_shows v j" for v j
    using fb_shows_put [OF that, of 32 "fg v" "bg v"] that by (auto simp: fb_shows_def)
  show "\<exists>w'. fb_backspace w = Some w' \<and> fb_shows w' (con_backspace k)"
  proof (cases "0 < col ?w")
    case True
    have "fb_shows (?w\<lparr>col := col ?w - 1\<rparr>) (?k\<lparr>c_col := col ?w - 1\<rparr>)"
      using pos by (intro fb_shows_update(4) [OF w2]) simp
    from erase [OF this] True eqs w1(1) show ?thesis
      by (simp add: fb_backspace_def con_backspace_def Let_def)
  next
    case False
    show ?thesis
    proof (cases "0 < row ?w")
      case True
      have "fb_shows (?w\<lparr>row := row ?w - 1\<rparr>) (?k\<lparr>c_row := row ?w - 1\<rparr>)"
        using pos by (intro fb_shows_update(5) [OF w2]) simp
      then have "fb_shows (?w\<lparr>row := row ?w - 1, col := fb_cols ?w - 1\<rparr>)
          (?k\<lparr>c_row := row ?w - 1, c_col := fb_cols ?w - 1\<rparr>)"
        using fb_shows_update(4) [of "?w\<lparr>row := row ?w - 1\<rparr>" "?k\<lparr>c_row := row ?w - 1\<rparr>" "fb_cols ?w - 1"] pos
        by (simp add: fb_cols_def)
      from erase [OF this] False True eqs pos w1(1) show ?thesis
        by (simp add: fb_backspace_def con_backspace_def Let_def fb_cols_def)
    next
      case row: False
      with False eqs w1(1) w2 show ?thesis
        by (simp add: fb_backspace_def con_backspace_def Let_def)
    qed
  qed
qed

lemma refines_char: "refines (fb_write_char ch) (con_char ch)"
  unfolding refines_def
proof (intro allI impI)
  fix w k
  assume "fb_shows w k"
  from fb_shows_cursor [OF this, of False] obtain w1 where
    w1: "draw_cursor_cell False w = Some w1" "fb_shows w1 (con_cursor False k)" by blast
  let ?w = "w1\<lparr>blink_on := False\<rparr>" and ?k = "(con_cursor False k)\<lparr>c_blink := False\<rparr>"
  have w2: "fb_shows ?w ?k" by (rule fb_shows_update(1) [OF w1(2)])
  then have eqs: "c_fg ?k = fg ?w" "c_bg ?k = bg ?w" by (simp_all add: fb_shows_def)
  consider "ch = 10" | "ch = 8" | "ch \<noteq> 10" "ch \<noteq> 8" by blast
  then show "\<exists>w'. fb_write_char ch w = Some w' \<and> fb_shows w' (con_char ch k)"
  proof cases
    case 1
    with fb_shows_newline [OF w2] w1(1) show ?thesis by (simp add: fb_write_char_def con_char_def Let_def)
  next
    case 2
    with refinesD [OF refines_backspace w2] w1(1) show ?thesis
      by (simp add: fb_write_char_def con_char_def Let_def)
  next
    case 3
    from fb_shows_put [OF w2, of ch "fg ?w" "bg ?w"] obtain buf where
      buf: "write_glyph (buffer ?w) (info ?w) ch (col ?w * GLYPH_W) (row ?w * GLYPH_H) (fg ?w) (bg ?w) = Some buf"
        "fb_shows (?w\<lparr>buffer := buf\<rparr>) (put_cell ch (fg ?w) (bg ?w) ?k)" by blast
    let ?v = "?w\<lparr>buffer := buf\<rparr>" and ?j = "put_cell ch (fg ?w) (bg ?w) ?k"
    have dims: "c_cols ?j = fb_cols ?v" "c_col ?j = col ?v" using buf(2) by (simp_all add: fb_shows_def)
    show ?thesis
    proof (cases "Suc (col ?v) < fb_cols ?v")
      case True
      then have "fb_shows (?v\<lparr>col := Suc (col ?v)\<rparr>) (?j\<lparr>c_col := Suc (col ?v)\<rparr>)"
        by (rule fb_shows_update(4) [OF buf(2)])
      moreover have "row ?v < fb_rows ?v" using buf(2) by (simp add: fb_shows_def)
      ultimately show ?thesis using True 3 w1(1) buf(1) dims eqs
        by (simp add: fb_write_char_def con_char_def Let_def fb_pin_row_def fb_rows_def fb_cols_def)
    next
      case False
      from fb_shows_newline [OF buf(2)] obtain w' where
        "fb_pin_row (?v\<lparr>col := 0, row := row ?v + 1\<rparr>) = Some w'" "fb_shows w' (con_newline ?j)" by blast
      with False 3 w1(1) buf(1) dims eqs show ?thesis
        by (simp add: fb_write_char_def con_char_def Let_def fb_cols_def)
    qed
  qed
qed

lemma refines_print: "refines (fb_write_str s) (con_print s)"
  unfolding refines_def fb_write_str_def con_print_def
proof (induction s)
  case (Cons ch s)
  show ?case
  proof (intro allI impI)
    fix w k
    assume "fb_shows w k"
    from refinesD [OF refines_char this, of ch] obtain w1 where
      "fb_write_char ch w = Some w1" "fb_shows w1 (con_char ch k)" by blast
    with Cons show "\<exists>w'. for_each (ch # s) fb_write_char w = Some w' \<and> fb_shows w' (fold con_char (ch # s) k)"
      by simp
  qed
qed simp

section \<open>Properties\<close>

text \<open>The operations other modules call on the writer, on both levels.\<close>

datatype con_op = Print str | Backspace | Set_col nat | Show uchar | Hide | Tick | Clear | Colors rgb rgb

fun fb_op :: "con_op \<Rightarrow> fb_writer \<Rightarrow> fb_writer option" where
  "fb_op (Print s) w = fb_write_str s w"
| "fb_op Backspace w = fb_backspace w"
| "fb_op (Set_col c) w = Some (fb_set_col c w)"
| "fb_op (Show ch) w = fb_cursor_show ch w"
| "fb_op Hide w = fb_cursor_hide w"
| "fb_op Tick w = fb_tick_cursor w"
| "fb_op Clear w = fb_clear w"
| "fb_op (Colors f b) w = Some (fb_set_colors f b w)"

fun con_apply :: "con_op \<Rightarrow> console \<Rightarrow> console" where
  "con_apply (Print s) k = con_print s k"
| "con_apply Backspace k = con_backspace k"
| "con_apply (Set_col c) k = con_set_col c k"
| "con_apply (Show ch) k = con_show ch k"
| "con_apply Hide k = con_hide k"
| "con_apply Tick k = con_tick k"
| "con_apply Clear k = con_clear k"
| "con_apply (Colors f b) k = con_colors f b k"

lemma refines_op: "refines (fb_op op) (con_apply op)"
proof (cases op)
  case (Print s)
  with refines_print show ?thesis by (simp add: refines_def)
next
  case (Set_col c)
  with refines_set_col show ?thesis by (simp add: refines_def)
next
  case (Show ch)
  with refines_show show ?thesis by (simp add: refines_def)
next
  case (Colors f b)
  with refines_colors show ?thesis by (simp add: refines_def)
qed (use refines_backspace refines_hide refines_tick refines_clear in \<open>simp_all add: refines_def\<close>)

text \<open>The writer and the grid it shows at boot, when the buffer has just been zeroed.\<close>

definition fb_boot :: "fb_info \<Rightarrow> fb_writer" where
  "fb_boot fbi = fb_new (replicate (stride fbi * height fbi * bytes_per_pixel fbi) 0) fbi"

definition con_boot :: "fb_info \<Rightarrow> console" where
  "con_boot fbi = \<lparr>grid = \<lambda>r c. (32, COLOR_BG, COLOR_BG), c_cols = width fbi div 8, c_rows = height fbi div 8,
     c_col = 0, c_row = 0, c_fg = COLOR_FG, c_bg = COLOR_BG, c_blink = False, c_char = 32\<rparr>"

lemma refines_ops: "fb_shows w k \<Longrightarrow> \<exists>w'. for_each ops fb_op w = Some w' \<and> fb_shows w' (fold con_apply ops k)"
proof (induction ops arbitrary: w k)
  case (Cons op ops)
  from refinesD [OF refines_op Cons.prems, of op] Cons.IH show ?case by fastforce
qed simp

lemma fb_boot_shows:
  assumes "fb_geom (fb_boot fbi)"
  shows "fb_shows (fb_boot fbi) (con_boot fbi)"
proof -
  let ?w = "fb_boot fbi"
  have w: "info ?w = fbi" "fb_cols ?w = width fbi div 8" "fb_rows ?w = height fbi div 8"
    by (simp_all add: fb_boot_def fb_new_def fb_cols_def fb_rows_def GLYPH_W_def GLYPH_H_def)
  note g = fb_geomD [OF assms, unfolded w]
  have "shows_cell (buffer ?w) fbi r c (32, COLOR_BG, COLOR_BG)" if "r < height fbi div 8" "c < width fbi div 8" for r c
  proof -
    have "take 3 (px_at (buffer ?w) (bytes_per_pixel fbi) (px_pos (stride fbi) r c i j)) = enc 3 COLOR_BG"
      if "i < 8" "j < 8" for i j
    proof -
      have "px_pos (stride fbi) r c i j < stride fbi * (height fbi div 8 * 8)"
        using px_pos_less [OF \<open>r < height fbi div 8\<close> g(3) [OF \<open>c < width fbi div 8\<close>]] that .
      then have "Suc (px_pos (stride fbi) r c i j) * bytes_per_pixel fbi \<le> length (buffer ?w)"
        using g(2) by (metis Suc_leI mult_le_mono1)
      then have "px_at (buffer ?w) (bytes_per_pixel fbi) (px_pos (stride fbi) r c i j) = replicate (bytes_per_pixel fbi) 0"
        by (simp add: px_at_def fb_boot_def fb_new_def min_def)
      then show ?thesis using g(1) by (auto simp: enc_def COLOR_BG_def bpp_ok_def min_def eval_nat_numeral)
    qed
    then show ?thesis by (auto simp: shows_cell_def ink_blank)
  qed
  with w g(4,5) assms show ?thesis
    by (auto simp: fb_shows_def shows_grid_def con_boot_def COLOR_FG_def COLOR_BG_def)
      (simp_all add: fb_boot_def fb_new_def)
qed

text \<open>
  C10: The framebuffer writer implements a character grid: on any framebuffer whose height is a
  whole number of glyph rows, from the zeroed buffer of boot on, no sequence of prints,
  backspaces, cursor moves, blinks, clears and colour changes panics or writes outside the
  buffer, and at the end every pixel of every cell is the font's rendering of the cell that the
  grid specification holds there, with the writer's cursor and colours those of the grid.
\<close>

theorem framebuffer_refines_grid:
  assumes "fb_geom (fb_boot fbi)"
  shows "\<exists>w. for_each ops fb_op (fb_boot fbi) = Some w \<and> fb_shows w (fold con_apply ops (con_boot fbi))"
  by (rule refines_ops [OF fb_boot_shows [OF assms]])

theorem framebuffer_refines_grid_witness:
  "\<exists>w. for_each [Print (lit ''hi''), Backspace] fb_op
        (fb_boot \<lparr>width = 16, height = 32, stride = 16, bytes_per_pixel = 3\<rparr>) = Some w
    \<and> fb_shows w (fold con_apply [Print (lit ''hi''), Backspace]
        (con_boot \<lparr>width = 16, height = 32, stride = 16, bytes_per_pixel = 3\<rparr>))"
  by (rule framebuffer_refines_grid) (simp add: fb_geom_def fb_boot_def fb_new_def bpp_ok_def)

end
