(* ===== verification/ShellText.thy ===== *)
theory ShellText
  imports RustStr
begin

text \<open>
  The text processing of kernel/src/shell.rs: splitting a line into commands, tokenising and
  parsing arguments, path normalisation, and the spelling suggestion.  Every byte-position
  slice is the partial one of \<open>RustStr\<close>, so that these functions never panic is a theorem.
\<close>

text \<open>The characters the shell's syntax gives a meaning to, by code point.\<close>

abbreviation DQ :: uchar where "DQ \<equiv> 0x22"
abbreviation SQ :: uchar where "SQ \<equiv> 0x27"
abbreviation AMP :: uchar where "AMP \<equiv> 0x26"
abbreviation DASH :: uchar where "DASH \<equiv> 0x2D"
abbreviation SLASH :: uchar where "SLASH \<equiv> 0x2F"
abbreviation SEMI :: uchar where "SEMI \<equiv> 0x3B"
abbreviation TILDE :: uchar where "TILDE \<equiv> 0x7E"

section \<open>Splitting a line into commands\<close>

fun char_indices_from :: "nat \<Rightarrow> str \<Rightarrow> (nat \<times> uchar) list" where
  "char_indices_from n [] = []"
| "char_indices_from n (c # s) = (n, c) # char_indices_from (n + utf8_width c) s"

definition char_indices :: "str \<Rightarrow> (nat \<times> uchar) list" where
  "char_indices s = char_indices_from 0 s"

text \<open>
  The \<open>while\<close> loop of \<open>split_commands\<close>; its index \<open>i\<close> is the suffix \<open>chars[i..]\<close> still to
  be read.
\<close>

fun split_loop :: "str \<Rightarrow> uchar option \<Rightarrow> nat \<Rightarrow> (nat \<times> uchar) list \<Rightarrow> str list \<Rightarrow> str list option" where
  "split_loop input in_quote start [] out =
     do { seg \<leftarrow> byte_drop start input; Some (out @ [seg]) }"
| "split_loop input in_quote start ((byte_pos, ch) # chars) out =
     (case in_quote of
        Some q \<Rightarrow> split_loop input (if ch = q then None else Some q) start chars out
      | None \<Rightarrow>
          if ch = DQ \<or> ch = SQ then split_loop input (Some ch) start chars out
          else if ch = SEMI then
            do { seg \<leftarrow> byte_slice start byte_pos input;
                 split_loop input None (byte_pos + 1) chars (out @ [seg]) }
          else
            (case chars of
               (next_pos, next) # chars' \<Rightarrow>
                 if ch = AMP \<and> next = AMP then
                   do { seg \<leftarrow> byte_slice start byte_pos input;
                        split_loop input None (next_pos + 1) chars' (out @ [seg]) }
                 else split_loop input None start chars out
             | [] \<Rightarrow> split_loop input None start chars out))"

definition split_commands :: "str \<Rightarrow> str list option" where
  "split_commands input = split_loop input None 0 (char_indices input) []"

section \<open>Tokens and arguments\<close>

text \<open>The loop of \<open>tokenize_quoted\<close> with its locals.\<close>

fun tokenize_loop :: "uchar option \<Rightarrow> str \<Rightarrow> str list \<Rightarrow> str \<Rightarrow> str list" where
  "tokenize_loop in_quote current tokens [] = (if current \<noteq> [] then tokens @ [current] else tokens)"
| "tokenize_loop in_quote current tokens (ch # s) =
     (case in_quote of
        Some q \<Rightarrow>
          if ch = q then tokenize_loop None current tokens s
          else tokenize_loop (Some q) (current @ [ch]) tokens s
      | None \<Rightarrow>
          if ch = DQ \<or> ch = SQ then tokenize_loop (Some ch) current tokens s
          else if is_whitespace ch then
            (if current \<noteq> [] then tokenize_loop None [] (tokens @ [current]) s
             else tokenize_loop None current tokens s)
          else tokenize_loop None (current @ [ch]) tokens s)"

definition tokenize_quoted :: "str \<Rightarrow> str list" where
  "tokenize_quoted input = tokenize_loop None [] [] input"

definition tilde_expand :: "str \<Rightarrow> str option" where
  "tilde_expand s =
     (if starts_with [TILDE] s then do { rest \<leftarrow> byte_drop 1 s; Some (SLASH # rest) } else Some s)"

record parsed_args =
  flags :: "uchar list"
  flag_vals :: "(uchar \<times> str) list"
  positional :: "str list"

definition has_flag :: "parsed_args \<Rightarrow> uchar \<Rightarrow> bool" where
  "has_flag pa c \<longleftrightarrow> c \<in> set (flags pa) \<or> list_ex (\<lambda>(f, _). f = c) (flag_vals pa)"

definition flag_val :: "parsed_args \<Rightarrow> uchar \<Rightarrow> str option" where
  "flag_val pa c = map_option snd (List.find (\<lambda>(f, _). f = c) (flag_vals pa))"

definition get_arg :: "parsed_args \<Rightarrow> nat \<Rightarrow> str option" where
  "get_arg pa i = get_at (positional pa) i"

text \<open>
  The inner loop over the letters of one flag token, with the token after it if there is one;
  the flag of the result says that token was taken as a value.
\<close>

fun flag_loop :: "uchar list \<Rightarrow> str option \<Rightarrow> parsed_args \<Rightarrow> parsed_args \<times> bool" where
  "flag_loop [] next_tok pa = (pa, False)"
| "flag_loop (flag # chars) next_tok pa =
     (case chars of
        c # _ \<Rightarrow>
          if is_ascii_digit c then (pa\<lparr>flag_vals := flag_vals pa @ [(flag, chars)]\<rparr>, False)
          else flag_loop chars next_tok (pa\<lparr>flags := flags pa @ [flag]\<rparr>)
      | [] \<Rightarrow>
          (case next_tok of
             Some (d # ds) \<Rightarrow>
               if is_ascii_digit d then (pa\<lparr>flag_vals := flag_vals pa @ [(flag, d # ds)]\<rparr>, True)
               else (pa\<lparr>flags := flags pa @ [flag]\<rparr>, False)
           | _ \<Rightarrow> (pa\<lparr>flags := flags pa @ [flag]\<rparr>, False)))"

fun parse_loop :: "bool \<Rightarrow> str list \<Rightarrow> parsed_args \<Rightarrow> parsed_args option" where
  "parse_loop stop [] pa = Some pa"
| "parse_loop stop (tok # toks) pa =
     (if stop \<or> \<not> starts_with [DASH] tok \<or> tok = [DASH] then
        do { t \<leftarrow> tilde_expand tok; parse_loop stop toks (pa\<lparr>positional := positional pa @ [t]\<rparr>) }
      else if tok = [DASH, DASH] then parse_loop True toks pa
      else
        do { chars \<leftarrow> byte_drop 1 tok;
             (case flag_loop chars (case toks of [] \<Rightarrow> None | t # _ \<Rightarrow> Some t) pa of
                (pa, took) \<Rightarrow> parse_loop stop (if took then tl toks else toks) pa) })"

definition parse_args :: "str \<Rightarrow> parsed_args option" where
  "parse_args input =
     parse_loop False (tokenize_quoted input) \<lparr>flags = [], flag_vals = [], positional = []\<rparr>"

section \<open>Command names and arguments\<close>

definition chars_eq :: "uchar list \<Rightarrow> str \<Rightarrow> bool" where
  "chars_eq chars s \<longleftrightarrow> length chars = length s \<and> list_all (\<lambda>(a, b). a = b) (zip chars s)"

definition name_eq :: "uchar list \<Rightarrow> str \<Rightarrow> bool option" where
  "name_eq chars s =
     (let e = (case position is_whitespace chars of None \<Rightarrow> length chars | Some i \<Rightarrow> i)
      in do { w \<leftarrow> slice 0 e chars; Some (chars_eq w s) })"

text \<open>The outer \<open>option\<close> is a panic, the inner one the function's own result.\<close>

definition cmd_arg :: "uchar list \<Rightarrow> str option option" where
  "cmd_arg chars =
     (case position is_whitespace chars of
        None \<Rightarrow> Some None
      | Some sp \<Rightarrow>
          do { rest \<leftarrow> slice_from (sp + 1) chars;
               (case position (\<lambda>c. \<not> is_whitespace c) rest of
                  None \<Rightarrow> Some None
                | Some start \<Rightarrow>
                    do { trimmed \<leftarrow> slice_from start rest;
                         raw \<leftarrow> slice 0 (case rposition (\<lambda>c. \<not> is_whitespace c) trimmed of
                                        None \<Rightarrow> length trimmed | Some i \<Rightarrow> i + 1) trimmed;
                         unquoted \<leftarrow>
                           (if byte_len raw \<ge> 2
                              \<and> (starts_with [DQ] raw \<and> ends_with [DQ] raw
                                 \<or> starts_with [SQ] raw \<and> ends_with [SQ] raw)
                            then byte_slice 1 (byte_len raw - 1) raw
                            else Some raw);
                         arg \<leftarrow> tilde_expand unquoted;
                         Some (Some arg) }) })"

section \<open>Paths\<close>

definition normalize :: "str \<Rightarrow> str" where
  "normalize path =
     (let parts = fold (\<lambda>c parts. if c = [] \<or> c = lit ''.'' then parts
                                 else if c = lit ''..'' then butlast parts
                                 else parts @ [c]) (split_on SLASH path) []
      in if parts = [] then lit ''/'' else concat (map (\<lambda>p. SLASH # p) parts))"

section \<open>Spelling suggestions\<close>

fun ed_inner :: "uchar \<Rightarrow> uchar list \<Rightarrow> nat list \<Rightarrow> nat \<Rightarrow> nat list \<Rightarrow> nat list option" where
  "ed_inner ai bv [] prev row = Some row"
| "ed_inner ai bv (j # js) prev row =
     do { old \<leftarrow> get_at row j;
          bj \<leftarrow> get_at bv (j - 1);
          left \<leftarrow> get_at row (j - 1);
          row \<leftarrow> set_at row j (if ai = bj then prev else 1 + min (min prev old) left);
          ed_inner ai bv js old row }"

fun ed_outer :: "uchar list \<Rightarrow> uchar list \<Rightarrow> nat list \<Rightarrow> nat list \<Rightarrow> nat list option" where
  "ed_outer a bv [] row = Some row"
| "ed_outer a bv (i # is) row =
     do { prev \<leftarrow> get_at row 0;
          row \<leftarrow> set_at row 0 i;
          ai \<leftarrow> get_at a (i - 1);
          row \<leftarrow> ed_inner ai bv [1..<length bv + 1] prev row;
          ed_outer a bv is row }"

definition edit_distance :: "uchar list \<Rightarrow> str \<Rightarrow> nat option" where
  "edit_distance a b =
     do { row \<leftarrow> ed_outer a b [1..<length a + 1] [0..<length b + 1]; get_at row (length b) }"

text \<open>The loop of \<open>longest_common_prefix\<close> over the candidates after the first.\<close>

fun lcp_loop :: "u8 list \<Rightarrow> nat \<Rightarrow> str list \<Rightarrow> nat" where
  "lcp_loop first len [] = len"
| "lcp_loop first len (c # cs) =
     (let b = as_bytes c;
          len = min len (length b);
          len = length (takeWhile (\<lambda>i. first ! i = b ! i) [0..<len])
      in if len = 0 then len else lcp_loop first len cs)"

fun longest_common_prefix :: "str list \<Rightarrow> nat" where
  "longest_common_prefix [] = 0"
| "longest_common_prefix (c # cs) = lcp_loop (as_bytes c) (length (as_bytes c)) cs"

end
