(* ===== verification/Paths.thy ===== *)
theory Paths
  imports ShellText
begin

text \<open>
  Paths and the working directory of the shell: \<open>normalize\<close> computes a canonical form on which
  relative steps compose, and \<open>resolve\<close> reads a path against the current directory.
\<close>

section \<open>The working directory\<close>

record dirs =
  cwd :: str
  prev_cwd :: str

definition dirs_init :: dirs where
  "dirs_init = \<lparr>cwd = [], prev_cwd = []\<rparr>"

definition cwd_get :: "dirs \<Rightarrow> str" where
  "cwd_get d = (if cwd d = [] then lit ''/'' else cwd d)"

definition cwd_prev_get :: "dirs \<Rightarrow> str" where
  "cwd_prev_get d = (if prev_cwd d = [] then lit ''/'' else prev_cwd d)"

definition cwd_set :: "dirs \<Rightarrow> str \<Rightarrow> dirs" where
  "cwd_set d new = d\<lparr>cwd := new, prev_cwd := cwd d\<rparr>"

definition resolve :: "dirs \<Rightarrow> str \<Rightarrow> str" where
  "resolve d path =
     (if starts_with [SLASH] path then path
      else if ends_with [SLASH] (cwd_get d) then cwd_get d @ path
      else cwd_get d @ [SLASH] @ path)"

section \<open>Canonical paths\<close>

text \<open>The component stack \<open>normalize\<close> builds, and how it prints a stack.\<close>

definition path_step :: "str \<Rightarrow> str list \<Rightarrow> str list" where
  "path_step c parts =
     (if c = [] \<or> c = lit ''.'' then parts else if c = lit ''..'' then butlast parts else parts @ [c])"

definition path_of :: "str list \<Rightarrow> str" where
  "path_of parts = (if parts = [] then lit ''/'' else concat (map (\<lambda>p. SLASH # p) parts))"

definition walk :: "str \<Rightarrow> str list \<Rightarrow> str list" where
  "walk path parts = fold path_step (split_on SLASH path) parts"

definition component_ok :: "str \<Rightarrow> bool" where
  "component_ok c \<longleftrightarrow> c \<noteq> [] \<and> c \<noteq> lit ''.'' \<and> c \<noteq> lit ''..'' \<and> SLASH \<notin> set c"

lemma normalize_eq: "normalize path = path_of (walk path [])"
  by (simp add: normalize_def path_of_def walk_def Let_def path_step_def [abs_def])

lemma split_on_append_sep: "split_on c (p @ c # q) = split_on c p @ split_on c q"
proof (induction p)
  case (Cons x p)
  then show ?case by (cases "split_on c p") auto
qed simp

lemma walk_append: "walk (p @ SLASH # q) parts = walk q (walk p parts)"
  by (simp add: walk_def split_on_append_sep)

lemma walk_Nil [simp]: "walk [] parts = parts"
  by (simp add: walk_def path_step_def)

lemma walk_parts_ok:
  assumes "list_all component_ok parts"
  shows "list_all component_ok (walk path parts)"
proof -
  have "list_all component_ok (fold path_step cs parts)" if "\<forall>c \<in> set cs. SLASH \<notin> set c" for cs
    using that assms
  proof (induction cs arbitrary: parts)
    case (Cons c cs)
    have "list_all component_ok (path_step c parts)"
      using Cons.prems by (auto simp: path_step_def component_ok_def list_all_iff dest: in_set_butlastD)
    with Cons show ?case by simp
  qed simp
  then show ?thesis using split_on_no_sep by (auto simp: walk_def)
qed

lemma split_path_of: "list_all component_ok parts \<Longrightarrow> split_on SLASH (concat (map (\<lambda>p. SLASH # p) parts)) = [] # parts"
proof (induction parts rule: rev_induct)
  case (snoc p parts)
  then have "SLASH \<notin> set p" by (simp add: component_ok_def)
  with snoc split_on_append_sep [of SLASH "concat (map (\<lambda>p. SLASH # p) parts)" p] show ?case
    by (simp add: split_on_single)
qed simp

lemma walk_components: "list_all component_ok parts \<Longrightarrow> fold path_step parts base = base @ parts"
  by (induction parts arbitrary: base) (auto simp: path_step_def component_ok_def)

lemma walk_path_of: "list_all component_ok parts \<Longrightarrow> walk (path_of parts) [] = parts"
  by (cases "parts = []")
    (simp_all add: walk_def path_of_def split_path_of walk_components path_step_def)

lemma walk_path_of_append: "list_all component_ok parts \<Longrightarrow> walk (path_of parts @ SLASH # q) [] = walk q parts"
  by (simp add: walk_append walk_path_of)

text \<open>A path of good components ends in a slash only if it is the root.\<close>

lemma ends_with_slash_path_of:
  "list_all component_ok parts \<Longrightarrow> ends_with [SLASH] (path_of parts) \<longleftrightarrow> parts = []"
proof (cases parts rule: rev_cases)
  case (snoc ps p)
  assume ok: "list_all component_ok parts"
  then obtain x t where "p = t @ [x]" "x \<noteq> SLASH"
    using snoc by (cases p rule: rev_cases) (auto simp: component_ok_def)
  with snoc show ?thesis by (simp add: path_of_def ends_with_def)
qed (simp add: path_of_def ends_with_def)

lemma resolve_walk_parts:
  assumes "list_all component_ok parts" "cwd_get d = path_of parts"
  shows "normalize (resolve d path) = path_of (walk path (if starts_with [SLASH] path then [] else parts))"
proof -
  note cwd = assms(2)
  show ?thesis
  proof (cases "starts_with [SLASH] path \<or> parts \<noteq> []")
    case True
    with assms(1) show ?thesis
      by (auto simp: resolve_def cwd normalize_eq ends_with_slash_path_of walk_path_of_append)
  next
    case False
    moreover have "path_of [] = [SLASH]" by (simp add: path_of_def)
    moreover have "walk (SLASH # path) [] = walk path []"
      using walk_append [of "[]" path "[]"] by simp
    ultimately show ?thesis using assms(1) by (simp add: resolve_def cwd normalize_eq ends_with_def)
  qed
qed

section \<open>Properties\<close>


text \<open>
  With a canonical working directory, resolving and normalising a path is walking its
  components: an absolute path from the root, a relative one from the working directory, each
  \<open>..\<close> dropping the last component (and staying at the root).
\<close>

theorem resolve_walks:
  assumes "list_all component_ok parts" "cwd d = path_of parts"
  shows "normalize (resolve d path) = path_of (walk path (if starts_with [SLASH] path then [] else parts))"
  using assms(2) by (intro resolve_walk_parts [OF assms(1)]) (cases parts; simp add: cwd_get_def path_of_def)

theorem resolve_walks_witness:
  "normalize (resolve \<lparr>cwd = lit ''/sys/help'', prev_cwd = []\<rparr> (lit ''../../../etc/./x'')) = lit ''/etc/x''"
  using resolve_walks [of "[lit ''sys'', lit ''help'']" "\<lparr>cwd = lit ''/sys/help'', prev_cwd = []\<rparr>" "lit ''../../../etc/./x''"]
  by (simp add: path_of_def component_ok_def starts_with_def walk_def path_step_def)

end
