(* ===== verification/Env.thy ===== *)
theory Env
  imports RustStr "HOL-Library.List_Lexorder"
begin

text \<open>
  The environment of kernel/src/env.rs.  Rust's \<open>BTreeMap\<close> is an association list kept in
  strictly increasing key order (the order its iterator shows); \<open>kv_store\<close> is the contract of
  the four operations, and \<open>expand\<close> the substitution of variables in a command.
\<close>

section \<open>The model\<close>

type_synonym env = "(str \<times> str) list"

definition env_get :: "env \<Rightarrow> str \<Rightarrow> str option" where
  "env_get e key = map_of e key"

fun env_set :: "env \<Rightarrow> str \<Rightarrow> str \<Rightarrow> env" where
  "env_set [] key val = [(key, val)]"
| "env_set ((k, v) # e) key val =
     (if key < k then (key, val) # (k, v) # e
      else if key = k then (key, val) # e
      else (k, v) # env_set e key val)"

fun env_remove :: "env \<Rightarrow> str \<Rightarrow> env" where
  "env_remove [] key = []"
| "env_remove ((k, v) # e) key = (if k = key then e else (k, v) # env_remove e key)"

definition env_list :: "env \<Rightarrow> (str \<times> str) list" where
  "env_list e = map (\<lambda>(k, v). (k, v)) e"

definition env_init :: "env \<Rightarrow> env" where
  "env_init e = env_set (env_set (env_set e (lit ''HOME'') (lit ''/'')) (lit ''SHELL'') (lit ''sh''))
     (lit ''PWD'') (lit ''/'')"

definition is_var_char :: "uchar \<Rightarrow> bool" where
  "is_var_char c \<longleftrightarrow> is_ascii_alphanumeric c \<or> c = cp (CHR ''_'')"

definition env_value :: "env \<Rightarrow> str \<Rightarrow> str" where
  "env_value e key = (case env_get e key of Some val \<Rightarrow> val | None \<Rightarrow> [])"

abbreviation DOLLAR :: uchar where "DOLLAR \<equiv> 0x24"
abbreviation LBRACE :: uchar where "LBRACE \<equiv> 0x7B"
abbreviation RBRACE :: uchar where "RBRACE \<equiv> 0x7D"

text \<open>
  The loop of \<open>expand\<close> over the characters the iterator has left; \<open>take_while\<close> through
  \<open>by_ref\<close> also consumes the brace that stops it.
\<close>

function expand_loop :: "env \<Rightarrow> str \<Rightarrow> str \<Rightarrow> str" where
  "expand_loop e [] out = out"
| "expand_loop e (ch # s) out =
     (if ch \<noteq> DOLLAR then expand_loop e s (out @ [ch])
      else case s of
        [] \<Rightarrow> expand_loop e s (out @ [DOLLAR])
      | c # s' \<Rightarrow>
          if c = LBRACE then
            expand_loop e (drop 1 (dropWhile (\<lambda>c. c \<noteq> RBRACE) s'))
              (out @ env_value e (takeWhile (\<lambda>c. c \<noteq> RBRACE) s'))
          else if is_var_char c then
            expand_loop e (dropWhile is_var_char s) (out @ env_value e (takeWhile is_var_char s))
          else expand_loop e s (out @ [DOLLAR]))"
  by pat_completeness auto
termination
  by (relation "measure (\<lambda>(e, s, out). length s)")
    (auto simp: less_Suc_eq_le intro: le_trans [OF diff_le_self] le_trans [OF length_dropWhile_le]
      le_SucI)

definition expand :: "env \<Rightarrow> str \<Rightarrow> str" where
  "expand e s = expand_loop e s []"

declare expand_loop.simps [simp del]

section \<open>The contract of the map\<close>

locale kv_store =
  fixes get :: "'m \<Rightarrow> 'k::linorder \<Rightarrow> 'v option"
    and put :: "'m \<Rightarrow> 'k \<Rightarrow> 'v \<Rightarrow> 'm"
    and del :: "'m \<Rightarrow> 'k \<Rightarrow> 'm"
    and entries :: "'m \<Rightarrow> ('k \<times> 'v) list"
    and inv :: "'m \<Rightarrow> bool"
  assumes inv_set: "inv m \<Longrightarrow> inv (put m k v)"
    and inv_remove: "inv m \<Longrightarrow> inv (del m k)"
    and get_set: "inv m \<Longrightarrow> get (put m k v) = (get m)(k \<mapsto> v)"
    and get_remove: "inv m \<Longrightarrow> get (del m k) = (get m)(k := None)"
    and entries_sorted: "inv m \<Longrightarrow> sorted_wrt (<) (map fst (entries m))"
    and entries_get: "inv m \<Longrightarrow> map_of (entries m) = get m"

datatype ('k, 'v) kv_op = Put 'k 'v | Remove 'k

text \<open>A history of updates on a store, and on a plain partial function.\<close>

fun kv_run :: "('m \<Rightarrow> 'k \<Rightarrow> 'v \<Rightarrow> 'm) \<Rightarrow> ('m \<Rightarrow> 'k \<Rightarrow> 'm) \<Rightarrow> ('k, 'v) kv_op list \<Rightarrow> 'm \<Rightarrow> 'm" where
  "kv_run put del [] m = m"
| "kv_run put del (Put k v # ops) m = kv_run put del ops (put m k v)"
| "kv_run put del (Remove k # ops) m = kv_run put del ops (del m k)"

fun kv_spec :: "('k, 'v) kv_op list \<Rightarrow> ('k \<Rightarrow> 'v option) \<Rightarrow> ('k \<Rightarrow> 'v option)" where
  "kv_spec [] f = f"
| "kv_spec (Put k v # ops) f = kv_spec ops (f(k \<mapsto> v))"
| "kv_spec (Remove k # ops) f = kv_spec ops (f(k := None))"

context kv_store
begin

lemma run_refines:
  "inv m \<Longrightarrow> inv (kv_run put del ops m) \<and> get (kv_run put del ops m) = kv_spec ops (get m)"
proof (induction ops arbitrary: m)
  case (Cons op ops)
  show ?case
  proof (cases op)
    case (Put k v)
    show ?thesis unfolding Put kv_run.simps kv_spec.simps get_set [OF Cons.prems, symmetric]
      by (rule Cons.IH [OF inv_set [OF Cons.prems]])
  next
    case (Remove k)
    show ?thesis unfolding Remove kv_run.simps kv_spec.simps get_remove [OF Cons.prems, symmetric]
      by (rule Cons.IH [OF inv_remove [OF Cons.prems]])
  qed
qed simp

lemma run_entries:
  assumes "inv m"
  shows "sorted_wrt (<) (map fst (entries (kv_run put del ops m)))"
    and "map_of (entries (kv_run put del ops m)) = kv_spec ops (get m)"
  using run_refines [OF assms, of ops] entries_sorted entries_get by auto

end

section \<open>The association list meets it\<close>

definition env_inv :: "env \<Rightarrow> bool" where
  "env_inv e \<longleftrightarrow> sorted_wrt (<) (map fst e)"

lemma env_set_keys: "fst ` set (env_set e k v) = insert k (fst ` set e)"
  by (induction e k v rule: env_set.induct) auto

lemma env_remove_keys: "set (env_remove e k) \<subseteq> set e"
  by (induction e k rule: env_remove.induct) auto

lemma env_inv_set: "env_inv e \<Longrightarrow> env_inv (env_set e k v)"
proof (induction e k v rule: env_set.induct)
  case (2 k v e key val)
  have keys: "fst ` set (env_set e key val) = insert key (fst ` set e)" by (rule env_set_keys)
  show ?case
  proof (cases "key < k \<or> key = k")
    case True
    with 2(2) show ?thesis by (fastforce simp: env_inv_def)
  next
    case False
    with 2 have "env_inv (env_set e key val)" by (auto simp: env_inv_def)
    moreover have "k < x" if "x \<in> set (map fst (env_set e key val))" for x
      using that keys False 2(2) by (auto simp: env_inv_def)
    ultimately show ?thesis using False by (auto simp: env_inv_def)
  qed
qed (simp add: env_inv_def)

lemma env_inv_remove: "env_inv e \<Longrightarrow> env_inv (env_remove e k)"
proof (induction e k rule: env_remove.induct)
  case (2 k v e key)
  then show ?case using env_remove_keys [of e key] by (fastforce simp: env_inv_def)
qed (simp add: env_inv_def)

lemma env_get_set: "map_of (env_set e k v) = (map_of e)(k \<mapsto> v)"
  by (induction e k v rule: env_set.induct) (auto simp: fun_eq_iff)

lemma env_get_remove: "env_inv e \<Longrightarrow> map_of (env_remove e k) = (map_of e)(k := None)"
proof (induction e k rule: env_remove.induct)
  case (2 k v e key)
  then have "k \<notin> fst ` set e" by (fastforce simp: env_inv_def)
  with 2 show ?case by (auto simp: fun_eq_iff env_inv_def map_of_eq_None_iff)
qed simp

interpretation env_map: kv_store env_get env_set env_remove env_list env_inv
proof unfold_locales
  fix e :: env and k v
  assume "env_inv e"
  then show "env_inv (env_set e k v)" "env_inv (env_remove e k)"
    by (simp_all add: env_inv_set env_inv_remove)
  show "env_get (env_set e k v) = (env_get e)(k \<mapsto> v)"
    by (simp add: env_get_def [abs_def] env_get_set)
  show "env_get (env_remove e k) = (env_get e)(k := None)"
    using \<open>env_inv e\<close> by (simp add: env_get_def [abs_def] env_get_remove)
  show "sorted_wrt (<) (map fst (env_list e))" "map_of (env_list e) = env_get e"
    using \<open>env_inv e\<close> by (simp_all add: env_list_def env_inv_def env_get_def [abs_def])
qed


section \<open>What \<open>expand\<close> substitutes\<close>

text \<open>
  A command as text and variable references: \<open>$name\<close>, \<open>${name}\<close>, a \<open>${name\<close> that the
  command ends before closing, and a dollar that starts no reference.
\<close>

datatype piece = Text str | Plain str | Braced str | Unclosed str | Dollar

fun render_piece :: "piece \<Rightarrow> str" where
  "render_piece (Text t) = t"
| "render_piece (Plain k) = DOLLAR # k"
| "render_piece (Braced k) = DOLLAR # LBRACE # k @ [RBRACE]"
| "render_piece (Unclosed k) = DOLLAR # LBRACE # k"
| "render_piece Dollar = [DOLLAR]"

fun piece_value :: "env \<Rightarrow> piece \<Rightarrow> str" where
  "piece_value e (Text t) = t"
| "piece_value e (Plain k) = env_value e k"
| "piece_value e (Braced k) = env_value e k"
| "piece_value e (Unclosed k) = env_value e k"
| "piece_value e Dollar = [DOLLAR]"

definition render :: "piece list \<Rightarrow> str" where "render ps = concat (map render_piece ps)"

text \<open>The pieces are read back as written: each reference ends where its syntax says.\<close>

fun pieces_ok :: "piece list \<Rightarrow> bool" where
  "pieces_ok [] = True"
| "pieces_ok (Text t # ps) \<longleftrightarrow> DOLLAR \<notin> set t \<and> pieces_ok ps"
| "pieces_ok (Plain k # ps) \<longleftrightarrow> k \<noteq> [] \<and> list_all is_var_char k
     \<and> (render ps = [] \<or> \<not> is_var_char (hd (render ps))) \<and> pieces_ok ps"
| "pieces_ok (Braced k # ps) \<longleftrightarrow> RBRACE \<notin> set k \<and> pieces_ok ps"
| "pieces_ok (Unclosed k # ps) \<longleftrightarrow> RBRACE \<notin> set k \<and> ps = []"
| "pieces_ok (Dollar # ps) \<longleftrightarrow> (render ps = [] \<or> \<not> is_var_char (hd (render ps)) \<and> hd (render ps) \<noteq> LBRACE)
     \<and> pieces_ok ps"

lemma render_simps [simp]: "render [] = []" "render (p # ps) = render_piece p @ render ps"
  by (simp_all add: render_def)

lemma expand_text: "DOLLAR \<notin> set t \<Longrightarrow> expand_loop e (t @ s) out = expand_loop e s (out @ t)"
  by (induction t arbitrary: out) (simp_all add: expand_loop.simps)

lemma var_char_not_brace: "is_var_char c \<Longrightarrow> c \<noteq> LBRACE"
  by (auto simp: is_var_char_def is_ascii_alphanumeric_def is_ascii_digit_def is_ascii_alphabetic_def)

lemma take_drop_key:
  assumes "list_all P k" "s = [] \<or> \<not> P (hd s)"
  shows "takeWhile P (k @ s) = k" "dropWhile P (k @ s) = s"
proof -
  have "takeWhile P s = []" "dropWhile P s = s" using assms(2) by (cases s; simp)+
  then show "takeWhile P (k @ s) = k" "dropWhile P (k @ s) = s"
    using assms(1) by (induction k) auto
qed

lemma expand_plain:
  assumes "k \<noteq> []" "list_all is_var_char k" "s = [] \<or> \<not> is_var_char (hd s)"
  shows "expand_loop e (DOLLAR # k @ s) out = expand_loop e s (out @ env_value e k)"
proof -
  obtain c k' where k: "k = c # k'" using assms(1) by (cases k) auto
  with assms(2) have c: "is_var_char c" "c \<noteq> LBRACE" using var_char_not_brace by auto
  from take_drop_key [OF assms(2,3)] k c show ?thesis by (subst expand_loop.simps) simp
qed

lemma expand_braced:
  assumes "RBRACE \<notin> set k"
  shows "expand_loop e (DOLLAR # LBRACE # k @ RBRACE # s) out = expand_loop e s (out @ env_value e k)"
    and "expand_loop e (DOLLAR # LBRACE # k) out = out @ env_value e k"
proof -
  have all: "list_all (\<lambda>c. c \<noteq> RBRACE) k" using assms by (auto simp: list_all_iff)
  from take_drop_key [OF all, of "RBRACE # s"]
  show "expand_loop e (DOLLAR # LBRACE # k @ RBRACE # s) out = expand_loop e s (out @ env_value e k)"
    by (subst expand_loop.simps) simp
  have key: "takeWhile (\<lambda>c. c \<noteq> RBRACE) k = k" "dropWhile (\<lambda>c. c \<noteq> RBRACE) k = []"
    using take_drop_key [OF all, of "[]"] by (simp_all only: append_Nil2 simp_thms)
  show "expand_loop e (DOLLAR # LBRACE # k) out = out @ env_value e k"
    by (subst expand_loop.simps) (simp add: key expand_loop.simps(1))
qed

lemma expand_dollar:
  "s = [] \<or> \<not> is_var_char (hd s) \<and> hd s \<noteq> LBRACE \<Longrightarrow>
    expand_loop e (DOLLAR # s) out = expand_loop e s (out @ [DOLLAR])"
  by (cases s) (simp_all add: expand_loop.simps)

lemma expand_pieces:
  "pieces_ok ps \<Longrightarrow> expand_loop e (render ps) out = out @ concat (map (piece_value e) ps)"
  by (induction ps arbitrary: out rule: pieces_ok.induct)
    (simp_all add: expand_text expand_plain expand_braced expand_dollar expand_loop.simps(1))

text \<open>Every text reads as pieces: after \<open>${\<close> up to the brace, after \<open>$\<close> up to the name's end.\<close>

definition readable :: "str \<Rightarrow> bool" where
  "readable s \<longleftrightarrow> (\<exists>ps. pieces_ok ps \<and> render ps = s)"

lemma readable_braced:
  assumes shorter: "\<And>u. length u \<le> length t \<Longrightarrow> readable u"
  shows "readable (DOLLAR # LBRACE # t)"
proof -
  let ?k = "takeWhile (\<lambda>c. c \<noteq> RBRACE) t" and ?r = "dropWhile (\<lambda>c. c \<noteq> RBRACE) t"
  have k: "RBRACE \<notin> set ?k" by (auto dest: set_takeWhileD)
  have t: "t = ?k @ ?r" by simp
  show ?thesis
  proof (cases ?r)
    case Nil
    with t have "t = ?k" by simp
    with k show ?thesis unfolding readable_def by (intro exI [of _ "[Unclosed ?k]"]) simp
  next
    case (Cons x r)
    then have x: "x = RBRACE" using hd_dropWhile [of "\<lambda>c. c \<noteq> RBRACE" t] by simp
    have "length r \<le> length t" using Cons length_dropWhile_le [of "\<lambda>c. c \<noteq> RBRACE" t] by simp
    then obtain qs where "pieces_ok qs" "render qs = r" using shorter [of r] by (auto simp: readable_def)
    with x k t Cons show ?thesis unfolding readable_def by (intro exI [of _ "Braced ?k # qs"]) simp
  qed
qed

lemma readable_plain:
  assumes shorter: "\<And>u. length u \<le> length t \<Longrightarrow> readable u" and t: "t \<noteq> []" "is_var_char (hd t)"
  shows "readable (DOLLAR # t)"
proof -
  let ?k = "takeWhile is_var_char t" and ?r = "dropWhile is_var_char t"
  have "list_all is_var_char ?k" by (auto simp: list_all_iff dest: set_takeWhileD)
  moreover have "?k \<noteq> []" using t by (cases t) auto
  moreover have "?r = [] \<or> \<not> is_var_char (hd ?r)" using hd_dropWhile [of is_var_char t] by blast
  moreover obtain qs where "pieces_ok qs" "render qs = ?r"
    using shorter [of ?r] length_dropWhile_le [of is_var_char t] by (auto simp: readable_def)
  ultimately show ?thesis unfolding readable_def by (intro exI [of _ "Plain ?k # qs"]) simp
qed

lemma pieces_exist: "readable s"
proof (induction "length s" arbitrary: s rule: less_induct)
  case less
  show ?case
  proof (cases s)
    case Nil
    then show ?thesis unfolding readable_def by (intro exI [of _ "[]"]) simp
  next
    case (Cons ch t)
    then have shorter: "readable u" if "length u \<le> length t" for u using less [of u] that by simp
    then obtain ps where ps: "pieces_ok ps" "render ps = t" by (auto simp: readable_def)
    consider (char) "ch \<noteq> DOLLAR" | (lone) "ch = DOLLAR" "t = []"
      | (brace) t' where "ch = DOLLAR" "t = LBRACE # t'"
      | (name) "ch = DOLLAR" "t \<noteq> []" "is_var_char (hd t)"
      | (other) "ch = DOLLAR" "t \<noteq> []" "\<not> is_var_char (hd t)" "hd t \<noteq> LBRACE"
      by (cases t) auto
    then show ?thesis
    proof cases
      case char
      with ps Cons show ?thesis unfolding readable_def by (intro exI [of _ "Text [ch] # ps"]) auto
    next
      case lone
      with Cons show ?thesis unfolding readable_def by (intro exI [of _ "[Dollar]"]) simp
    next
      case brace
      with readable_braced [of t'] shorter Cons show ?thesis by simp
    next
      case name
      with readable_plain [OF shorter] Cons show ?thesis by simp
    next
      case other
      with ps Cons show ?thesis unfolding readable_def by (intro exI [of _ "Dollar # ps"]) simp
    qed
  qed
qed

section \<open>Properties\<close>

text \<open>
  C33: The environment is a finite map: after boot and any history of \<open>set\<close> and \<open>remove\<close>,
  \<open>get\<close> answers the latest value set and not since removed, and \<open>list\<close> gives exactly the
  bindings, each variable once, in increasing order of names.
\<close>

theorem env_refines_map:
  "let e = kv_run env_set env_remove ops (env_init [])
   in env_get e = kv_spec ops [lit ''HOME'' \<mapsto> lit ''/'', lit ''SHELL'' \<mapsto> lit ''sh'', lit ''PWD'' \<mapsto> lit ''/'']
     \<and> map_of (env_list e) = env_get e \<and> sorted_wrt (<) (map fst (env_list e))"
proof -
  have inv: "env_inv (env_init [])" by (simp add: env_init_def env_inv_set) (simp add: env_inv_def)
  have "env_get (env_init []) = [lit ''HOME'' \<mapsto> lit ''/'', lit ''SHELL'' \<mapsto> lit ''sh'', lit ''PWD'' \<mapsto> lit ''/'']"
    by (simp add: env_get_def [abs_def] env_init_def env_get_set fun_eq_iff)
  with env_map.run_refines [OF inv, of ops] env_map.run_entries [OF inv, of ops] show ?thesis
    by (simp add: Let_def)
qed

text \<open>
  C35: Variable expansion replaces exactly the references: any command is a sequence of plain
  text, \<open>$name\<close>, \<open>${name}\<close>, an unclosed \<open>${name\<close> at its end and lone dollars, and however it
  is written as such pieces the result is the text with each reference replaced by its value
  (empty if unset) and never expanded again.
\<close>

theorem expand_substitutes:
  assumes "pieces_ok ps"
  shows "expand e (render ps) = concat (map (piece_value e) ps) \<and> (\<exists>qs. pieces_ok qs \<and> render qs = s)"
  using expand_pieces [OF assms, of e "[]"] pieces_exist [of s] by (simp add: expand_def readable_def)

theorem expand_substitutes_witness:
  "expand (env_init []) (lit ''a$HOME-${SHELL}$'') = lit ''a/-sh$'' \<and> (\<exists>qs. pieces_ok qs \<and> render qs = lit ''${'')"
proof -
  let ?ps = "[Text (lit ''a''), Plain (lit ''HOME''), Text (lit ''-''), Braced (lit ''SHELL''), Dollar]"
  have "pieces_ok ?ps"
    by (simp add: is_var_char_def is_ascii_alphanumeric_def is_ascii_digit_def is_ascii_alphabetic_def)
  from expand_substitutes [OF this, of "env_init []" "lit ''${''"] show ?thesis
    by (simp add: env_value_def env_get_def env_init_def)
qed

end
