(* ===== verification/Utf8.thy ===== *)
theory Utf8
  imports RustStr
begin

text \<open>
  \<open>core::str::from_utf8\<close>: the decoder that accepts exactly the shortest-form encodings of
  Unicode scalar values, and the proof that it inverts \<open>as_bytes\<close>.
\<close>

definition scalar :: "uchar \<Rightarrow> bool" where
  "scalar c \<longleftrightarrow> c < 0xD800 \<or> 0xE000 \<le> c \<and> c \<le> 0x10FFFF"

definition cont :: "u8 \<Rightarrow> bool" where "cont b \<longleftrightarrow> 0x80 \<le> unat b \<and> unat b < 0xC0"

text \<open>One character: its code point and the bytes after it.\<close>

fun utf8_next :: "u8 list \<Rightarrow> (uchar \<times> u8 list) option" where
  "utf8_next [] = None"
| "utf8_next (b # bs) =
     (let n = unat b in
      if n < 0x80 then Some (n, bs)
      else if 0xC0 \<le> n \<and> n < 0xE0 then
        (case bs of
           b1 # bs' \<Rightarrow>
             (let c = (n - 0xC0) * 64 + (unat b1 - 0x80)
              in if cont b1 \<and> 0x80 \<le> c then Some (c, bs') else None)
         | _ \<Rightarrow> None)
      else if 0xE0 \<le> n \<and> n < 0xF0 then
        (case bs of
           b1 # b2 # bs' \<Rightarrow>
             (let c = (n - 0xE0) * 4096 + (unat b1 - 0x80) * 64 + (unat b2 - 0x80)
              in if cont b1 \<and> cont b2 \<and> 0x800 \<le> c \<and> scalar c then Some (c, bs') else None)
         | _ \<Rightarrow> None)
      else if 0xF0 \<le> n \<and> n < 0xF8 then
        (case bs of
           b1 # b2 # b3 # bs' \<Rightarrow>
             (let c = (n - 0xF0) * 262144 + (unat b1 - 0x80) * 4096 + (unat b2 - 0x80) * 64 + (unat b3 - 0x80)
              in if cont b1 \<and> cont b2 \<and> cont b3 \<and> 0x10000 \<le> c \<and> scalar c then Some (c, bs') else None)
         | _ \<Rightarrow> None)
      else None)"

lemma utf8_next_shorter: "utf8_next bs = Some (c, bs') \<Longrightarrow> length bs' < length bs"
  by (cases bs) (auto simp: Let_def split: if_splits list.splits)

function from_utf8 :: "u8 list \<Rightarrow> str option" where
  "from_utf8 bs =
     (if bs = [] then Some []
      else case utf8_next bs of
        None \<Rightarrow> None
      | Some (c, bs') \<Rightarrow> map_option ((#) c) (from_utf8 bs'))"
  by pat_completeness auto
termination
  by (relation "measure length") (auto dest: utf8_next_shorter)

declare from_utf8.simps [simp del]

lemma from_utf8_Nil [simp]: "from_utf8 [] = Some []"
  by (simp add: from_utf8.simps)

lemma unat_byte: "n < 256 \<Longrightarrow> unat (word_of_nat n :: u8) = n"
  by (simp add: unat_of_nat_small)

lemma unat_byte_plus:
  "numeral k + n < 256 \<Longrightarrow> unat (numeral k + word_of_nat n :: u8) = numeral k + n"
  using unat_byte [of "numeral k + n"] by simp

lemma utf8_next_char:
  assumes "scalar c"
  shows "utf8_next (utf8_char c @ bs) = Some (c, bs)"
proof -
  have c: "c \<le> 0x10FFFF" using assms by (auto simp: scalar_def)
  have digits: "c div 64 * 64 + c mod 64 = c" "c div 4096 * 64 + c div 64 mod 64 = c div 64"
    "c div 262144 * 64 + c div 4096 mod 64 = c div 4096"
    using div_mult_mod_eq [of "c div 64" 64] div_mult_mod_eq [of "c div 4096" 64]
    by (simp_all add: div_mult2_eq [symmetric])
  consider "c < 0x80" | "0x80 \<le> c" "c < 0x800" | "0x800 \<le> c" "c < 0x10000" | "0x10000 \<le> c" by linarith
  then show ?thesis
  proof cases
    case 1
    then show ?thesis by (simp add: utf8_char_def unat_byte)
  next
    case 2
    then have "c div 64 < 32" by auto
    moreover have "(c div 64) * 64 + c mod 64 = c" by simp
    ultimately show ?thesis using 2 by (simp add: utf8_char_def unat_byte unat_byte_plus cont_def Let_def)
  next
    case 3
    then have "c div 4096 < 16" by auto
    moreover have "c div 4096 * 4096 + c div 64 mod 64 * 64 + c mod 64 = c"
      using digits(1,2) by linarith
    ultimately show ?thesis using 3 assms by (simp add: utf8_char_def unat_byte unat_byte_plus cont_def Let_def)
  next
    case 4
    then have "c div 262144 < 8" using c by auto
    moreover have "c div 262144 * 262144 + c div 4096 mod 64 * 4096 + c div 64 mod 64 * 64 + c mod 64 = c"
      using digits by linarith
    ultimately show ?thesis using 4 assms by (simp add: utf8_char_def unat_byte unat_byte_plus cont_def Let_def)
  qed
qed

lemma utf8_char_not_Nil [simp]: "utf8_char c \<noteq> []"
  by (simp add: utf8_char_def)

lemma from_utf8_as_bytes: "list_all scalar s \<Longrightarrow> from_utf8 (as_bytes s) = Some s"
proof (induction s)
  case (Cons c s)
  then show ?case
    by (subst from_utf8.simps) (simp add: as_bytes_def utf8_next_char)
qed (simp add: as_bytes_def)

lemma from_utf8_ascii:
  "list_all (\<lambda>b. unat b < 0x80) bs \<Longrightarrow> from_utf8 bs = Some (map unat bs)"
proof (induction bs)
  case (Cons b bs)
  then show ?case by (subst from_utf8.simps) simp
qed simp

end
