(* ===== verification/Vfs.thy ===== *)
theory Vfs
  imports ShellText Utf8
begin

text \<open>
  The virtual file system of kernel/src/vfs.rs: the \<open>VNode\<close> trait as a locale, whose laws say
  that a node shows a tree of files, and the path walk and file reading written against it
  (\<open>vfs::lookup\<close>, and \<open>read_file_str\<close> and \<open>print_file\<close> of the shell).
\<close>

section \<open>Trees\<close>

datatype node_kind = KFile | KDir

text \<open>\<open>ramfs::Node\<close>, which is also what a mounted node shows.\<close>

datatype node = File "u8 list" | Dir "(str \<times> node) list"

fun tree_at :: "node \<Rightarrow> str list \<Rightarrow> node option" where
  "tree_at n [] = Some n"
| "tree_at (File d) (p # ps) = None"
| "tree_at (Dir es) (p # ps) = Option.bind (map_of es p) (\<lambda>n. tree_at n ps)"

fun child :: "node \<Rightarrow> str \<Rightarrow> node option" where
  "child (File d) name = None"
| "child (Dir es) name = map_of es name"

definition file_at :: "node \<Rightarrow> str list \<Rightarrow> u8 list option" where
  "file_at n ps = (case tree_at n ps of Some (File d) \<Rightarrow> Some d | _ \<Rightarrow> None)"

section \<open>The operations on the mounted root\<close>

definition components :: "str \<Rightarrow> str list" where
  "components path = filter (\<lambda>s. s \<noteq> []) (split_on SLASH path)"

fun walk_nodes :: "('n \<Rightarrow> str \<Rightarrow> 'n option) \<Rightarrow> 'n \<Rightarrow> str list \<Rightarrow> 'n option" where
  "walk_nodes lookup current [] = Some current"
| "walk_nodes lookup current (c # cs) =
     (case lookup current c of None \<Rightarrow> None | Some n \<Rightarrow> walk_nodes lookup n cs)"

definition vfs_lookup :: "('n \<Rightarrow> str \<Rightarrow> 'n option) \<Rightarrow> 'n option \<Rightarrow> str \<Rightarrow> 'n option" where
  "vfs_lookup lookup root path =
     (case root of
        None \<Rightarrow> None
      | Some r \<Rightarrow>
          (case components path of
             [] \<Rightarrow> None
           | c # cs \<Rightarrow> (case lookup r c of None \<Rightarrow> None | Some n \<Rightarrow> walk_nodes lookup n cs)))"

definition vfs_mount :: "'n \<Rightarrow> 'n option" where
  "vfs_mount root = Some root"

definition vfs_with_root :: "('n \<Rightarrow> 't) \<Rightarrow> 'n option \<Rightarrow> 't option" where
  "vfs_with_root f root = map_option f root"

text \<open>Copying into a buffer: the new buffer and the number of bytes copied.\<close>

definition read_slice :: "u8 list \<Rightarrow> u8 list \<Rightarrow> nat \<Rightarrow> u8 list \<times> nat" where
  "read_slice data buf offset =
     (if offset \<ge> length data then (buf, 0)
      else let src = drop offset data; n = min (length buf) (length src)
           in (take n src @ drop n buf, n))"

text \<open>The text of a file, and what \<open>print_file\<close> prints of one with its result.\<close>

definition read_file_str ::
  "('n \<Rightarrow> node_kind) \<Rightarrow> ('n \<Rightarrow> nat) \<Rightarrow> ('n \<Rightarrow> u8 list \<Rightarrow> nat \<Rightarrow> u8 list \<times> nat) \<Rightarrow> ('n \<Rightarrow> str \<Rightarrow> 'n option)
    \<Rightarrow> 'n option \<Rightarrow> str \<Rightarrow> str option option" where
  "read_file_str kind sz read lookup root path =
     (case vfs_lookup lookup root path of
        None \<Rightarrow> Some None
      | Some n \<Rightarrow>
          if kind n \<noteq> KFile then Some None
          else if sz n = 0 then Some (Some [])
          else do { let (buf, k) = read n (replicate (sz n) 0) 0;
                    bytes \<leftarrow> slice 0 k buf;
                    Some (from_utf8 bytes) })"

definition print_file ::
  "('n \<Rightarrow> node_kind) \<Rightarrow> ('n \<Rightarrow> nat) \<Rightarrow> ('n \<Rightarrow> u8 list \<Rightarrow> nat \<Rightarrow> u8 list \<times> nat) \<Rightarrow> ('n \<Rightarrow> str \<Rightarrow> 'n option)
    \<Rightarrow> 'n option \<Rightarrow> str \<Rightarrow> (str \<times> bool) option" where
  "print_file kind sz read lookup root path =
     (case vfs_lookup lookup root path of
        None \<Rightarrow> Some ([], False)
      | Some n \<Rightarrow>
          if kind n = KFile then
            if sz n > 0 then
              do { let (buf, k) = read n (replicate (sz n) 0) 0;
                   bytes \<leftarrow> slice 0 k buf;
                   Some (case from_utf8 bytes of
                           Some s \<Rightarrow> (s @ (if ends_with [10] s then [] else [10]), True)
                         | None \<Rightarrow> ([], True)) }
            else Some ([], True)
          else Some ([], False))"

section \<open>The trait\<close>

locale vnode_ops =
  fixes kind :: "'n \<Rightarrow> node_kind"
    and sz :: "'n \<Rightarrow> nat"
    and read :: "'n \<Rightarrow> u8 list \<Rightarrow> nat \<Rightarrow> u8 list \<times> nat"
    and lookup :: "'n \<Rightarrow> str \<Rightarrow> 'n option"
    and readdir :: "'n \<Rightarrow> str list"
    and view :: "'n \<Rightarrow> node"
    and ok :: "'n \<Rightarrow> bool"
  assumes kind_law: "ok n \<Longrightarrow> kind n = (case view n of File d \<Rightarrow> KFile | Dir es \<Rightarrow> KDir)"
    and size_law: "ok n \<Longrightarrow> sz n = (case view n of File d \<Rightarrow> length d | Dir es \<Rightarrow> length es)"
    and read_law: "ok n \<Longrightarrow> read n buf off = (case view n of File d \<Rightarrow> read_slice d buf off | Dir es \<Rightarrow> (buf, 0))"
    and lookup_law: "ok n \<Longrightarrow> map_option view (lookup n name) = child (view n) name"
    and lookup_ok: "ok n \<Longrightarrow> lookup n name = Some c \<Longrightarrow> ok c"
    and readdir_law: "ok n \<Longrightarrow> readdir n = (case view n of File d \<Rightarrow> [] | Dir es \<Rightarrow> map fst es)"

lemma tree_at_Cons: "tree_at n (p # ps) = Option.bind (child n p) (\<lambda>c. tree_at c ps)"
  by (cases n) auto

lemma read_slice_all: "read_slice d (replicate (length d) 0) 0 = (d, length d)"
  by (simp add: read_slice_def Let_def)

context vnode_ops
begin

lemma walk_law: "ok n \<Longrightarrow> map_option view (walk_nodes lookup n cs) = tree_at (view n) cs"
proof (induction cs arbitrary: n)
  case (Cons c cs)
  show ?case
  proof (cases "lookup n c")
    case None
    with lookup_law [OF Cons.prems, of c] show ?thesis by (simp add: tree_at_Cons)
  next
    case (Some m)
    with lookup_law [OF Cons.prems, of c] have "child (view n) c = Some (view m)" by simp
    with Some Cons.IH [OF lookup_ok [OF Cons.prems Some]] show ?thesis by (simp add: tree_at_Cons)
  qed
qed simp

lemma walk_ok: "ok n \<Longrightarrow> walk_nodes lookup n cs = Some m \<Longrightarrow> ok m"
  by (induction cs arbitrary: n) (auto split: option.splits intro: lookup_ok)

text \<open>Looking up a path with at least one component is looking it up in the tree.\<close>

lemma lookup_tree:
  assumes "ok r"
  shows "map_option view (vfs_lookup lookup (Some r) path)
    = (if components path = [] then None else tree_at (view r) (components path))"
proof (cases "components path")
  case (Cons c cs)
  then have "vfs_lookup lookup (Some r) path = walk_nodes lookup r (components path)"
    by (simp add: vfs_lookup_def)
  with walk_law [OF assms, of "components path"] Cons show ?thesis by simp
qed (simp add: vfs_lookup_def)

lemma lookup_some:
  assumes "ok r" "vfs_lookup lookup (Some r) path = Some n"
  shows "ok n" "components path \<noteq> []" "tree_at (view r) (components path) = Some (view n)"
proof -
  show ne: "components path \<noteq> []" using assms(2) by (auto simp: vfs_lookup_def)
  then have "vfs_lookup lookup (Some r) path = walk_nodes lookup r (components path)"
    by (cases "components path") (simp_all add: vfs_lookup_def)
  then show "ok n" using walk_ok assms by metis
  show "tree_at (view r) (components path) = Some (view n)"
    using lookup_tree [OF assms(1), of path] ne assms(2) by simp
qed

lemma lookup_none:
  "ok r \<Longrightarrow> vfs_lookup lookup (Some r) path = None \<Longrightarrow> components path = [] \<or> tree_at (view r) (components path) = None"
  using lookup_tree [of r path] by (auto split: if_splits)

lemma read_whole: "ok n \<Longrightarrow> view n = File d \<Longrightarrow> read n (replicate (sz n) 0) 0 = (d, length d)"
  by (simp add: read_law size_law read_slice_all)

text \<open>Reading a file's text gives the tree's content, decoded; it never panics.\<close>

lemma read_file_law:
  assumes "ok r"
  shows "read_file_str kind sz read lookup (Some r) path
    = Some (if components path = [] then None
            else Option.bind (file_at (view r) (components path)) from_utf8)"
proof (cases "vfs_lookup lookup (Some r) path")
  case None
  with lookup_none [OF assms None] show ?thesis by (auto simp: read_file_str_def file_at_def)
next
  case (Some n)
  note n = lookup_some [OF assms Some]
  show ?thesis
  proof (cases "view n")
    case (File d)
    show ?thesis
    proof (cases "d = []")
      case True
      with File n Some show ?thesis by (simp add: read_file_str_def kind_law size_law file_at_def)
    next
      case False
      with File n Some read_whole [OF n(1) File] show ?thesis
        by (simp add: read_file_str_def kind_law size_law file_at_def)
    qed
  next
    case (Dir es)
    with n Some show ?thesis by (simp add: read_file_str_def kind_law file_at_def)
  qed
qed

lemma print_file_law:
  assumes "ok r"
  shows "print_file kind sz read lookup (Some r) path
    = Some (case (if components path = [] then None else file_at (view r) (components path)) of
              None \<Rightarrow> ([], False)
            | Some d \<Rightarrow> (case from_utf8 d of
                          Some s \<Rightarrow> (if d = [] then [] else s @ (if ends_with [10] s then [] else [10]))
                        | None \<Rightarrow> [], True))"
proof (cases "vfs_lookup lookup (Some r) path")
  case None
  with lookup_none [OF assms None] show ?thesis by (auto simp: print_file_def file_at_def)
next
  case (Some n)
  note n = lookup_some [OF assms Some]
  show ?thesis
  proof (cases "view n")
    case (File d)
    with n Some read_whole [OF n(1) File] show ?thesis
      by (cases "d = []") (simp_all add: print_file_def kind_law size_law file_at_def split: option.split)
  next
    case (Dir es)
    with n Some show ?thesis by (simp add: print_file_def kind_law file_at_def)
  qed
qed

end

end
