(* ===== verification/Ramfs.thy ===== *)
theory Ramfs
  imports Vfs
begin

text \<open>
  The ramdisk file system of kernel/src/ramfs.rs: the tree built while parsing (\<open>Node\<close>), its
  conversion to mounted nodes, the four implementations of the \<open>VNode\<close> trait, and the proof
  that they meet \<open>vnode_ops\<close>.
\<close>

section \<open>Building the tree\<close>

type_synonym entries = "(str \<times> node) list"

text \<open>
  The mutable reference \<open>get_or_insert_dir\<close> returns is the index of the entry and the
  directory's own entries; a file under that name is the \<open>expect\<close> panic.
\<close>

definition get_or_insert_dir :: "entries \<Rightarrow> str \<Rightarrow> (entries \<times> nat \<times> entries) option" where
  "get_or_insert_dir es name =
     (let es = (if position (\<lambda>(n, _). n = name) es = None then es @ [(name, Dir [])] else es)
      in do { idx \<leftarrow> position (\<lambda>(n, _). n = name) es;
              (n, entry) \<leftarrow> get_at es idx;
              (case entry of Dir sub \<Rightarrow> Some (es, idx, sub) | File _ \<Rightarrow> None) })"

definition is_dir :: "node \<Rightarrow> bool" where
  "is_dir n = (case n of Dir _ \<Rightarrow> True | File _ \<Rightarrow> False)"

text \<open>The walk of \<open>insert\<close> down the parts of the path, and the push at its end.\<close>

fun insert_parts :: "entries \<Rightarrow> str list \<Rightarrow> str \<Rightarrow> node \<Rightarrow> entries option" where
  "insert_parts dir [] leaf nd =
     Some (if is_dir nd \<and> list_ex (\<lambda>(n, _). n = leaf) dir then dir else dir @ [(leaf, nd)])"
| "insert_parts dir (part # parts) leaf nd =
     do { (es, idx, sub) \<leftarrow> get_or_insert_dir dir part;
          sub' \<leftarrow> insert_parts sub parts leaf nd;
          (n, _) \<leftarrow> get_at es idx;
          set_at es idx (n, Dir sub') }"

definition ramfs_insert :: "entries \<Rightarrow> str \<Rightarrow> node \<Rightarrow> entries option" where
  "ramfs_insert root path nd =
     (let parts = components path
      in if parts = [] then Some root else insert_parts root (butlast parts) (last parts) nd)"

section \<open>Mounted nodes\<close>

text \<open>
  A directory returned by a lookup is a pointer into the mounted tree, which never changes, so
  \<open>DirRef\<close> holds the node it points to.
\<close>

datatype vnode =
    RamfsFile "u8 list"
  | RamfsDir "(str \<times> vnode) list"
  | OwnedFile "u8 list"
  | DirRef vnode

fun to_vnode :: "node \<Rightarrow> vnode" where
  "to_vnode (File d) = RamfsFile d"
| "to_vnode (Dir es) = RamfsDir (map (\<lambda>(name, c). (name, to_vnode c)) es)"

fun v_kind :: "vnode \<Rightarrow> node_kind" where
  "v_kind (RamfsFile d) = KFile"
| "v_kind (RamfsDir es) = KDir"
| "v_kind (OwnedFile d) = KFile"
| "v_kind (DirRef n) = KDir"

fun v_size :: "vnode \<Rightarrow> nat" where
  "v_size (RamfsFile d) = length d"
| "v_size (RamfsDir es) = length es"
| "v_size (OwnedFile d) = length d"
| "v_size (DirRef n) = v_size n"

fun v_read :: "vnode \<Rightarrow> u8 list \<Rightarrow> nat \<Rightarrow> u8 list \<times> nat" where
  "v_read (RamfsFile d) buf off = read_slice d buf off"
| "v_read (RamfsDir es) buf off = (buf, 0)"
| "v_read (OwnedFile d) buf off = read_slice d buf off"
| "v_read (DirRef n) buf off = (buf, 0)"

definition vnode_clone :: "vnode \<Rightarrow> vnode" where
  "vnode_clone n =
     (case v_kind n of
        KFile \<Rightarrow> OwnedFile (fst (v_read n (replicate (v_size n) 0) 0))
      | KDir \<Rightarrow> DirRef n)"

fun v_lookup :: "vnode \<Rightarrow> str \<Rightarrow> vnode option" where
  "v_lookup (RamfsFile d) name = None"
| "v_lookup (RamfsDir es) name = map_option (\<lambda>(_, n). vnode_clone n) (List.find (\<lambda>(n, _). n = name) es)"
| "v_lookup (OwnedFile d) name = None"
| "v_lookup (DirRef n) name = v_lookup n name"

fun v_readdir :: "vnode \<Rightarrow> str list" where
  "v_readdir (RamfsFile d) = []"
| "v_readdir (RamfsDir es) = map fst es"
| "v_readdir (OwnedFile d) = []"
| "v_readdir (DirRef n) = v_readdir n"

section \<open>What a mounted node shows\<close>

fun v_view :: "vnode \<Rightarrow> node" where
  "v_view (RamfsFile d) = File d"
| "v_view (RamfsDir es) = Dir (map (\<lambda>(name, c). (name, v_view c)) es)"
| "v_view (OwnedFile d) = File d"
| "v_view (DirRef n) = v_view n"

text \<open>A reference points to a directory of the mounted tree, and that tree holds no reference.\<close>

fun v_tree :: "vnode \<Rightarrow> bool" where
  "v_tree (RamfsFile d) = True"
| "v_tree (RamfsDir es) = list_all (\<lambda>(name, c). v_tree c) es"
| "v_tree (OwnedFile d) = False"
| "v_tree (DirRef n) = False"

fun v_ok :: "vnode \<Rightarrow> bool" where
  "v_ok (DirRef n) \<longleftrightarrow> v_tree n \<and> v_kind n = KDir"
| "v_ok (OwnedFile d) = True"
| "v_ok n = v_tree n"

lemma find_map_of: "map_option snd (List.find (\<lambda>(n, _). n = name) es) = map_of es name"
  by (induction es) auto

lemma vnode_clone_tree:
  assumes "v_tree n"
  shows "v_ok (vnode_clone n)" and "v_view (vnode_clone n) = v_view n"
  using assms by (cases n; simp add: vnode_clone_def read_slice_all)+

lemma to_vnode_tree: "v_tree (to_vnode n)" and v_view_to_vnode: "v_view (to_vnode n) = n"
proof -
  have "v_tree (to_vnode n) \<and> v_view (to_vnode n) = n"
  proof (induction n)
    case (Dir es)
    have "v_tree (to_vnode c) \<and> v_view (to_vnode c) = c" if "(name, c) \<in> set es" for name c
      using Dir [OF that] by (simp add: prod_set_defs)
    then show ?case by (fastforce simp: list_all_iff intro!: map_idI)
  qed simp
  then show "v_tree (to_vnode n)" "v_view (to_vnode n) = n" by simp_all
qed

lemma dir_lookup:
  assumes "v_tree (RamfsDir es)"
  shows "map_option v_view (v_lookup (RamfsDir es) name) = map_of (map (\<lambda>(name, c). (name, v_view c)) es) name"
    and "v_lookup (RamfsDir es) name = Some c \<Longrightarrow> v_ok c"
  using assms by (induction es) (auto simp: vnode_clone_tree split: if_splits)

interpretation ramfs: vnode_ops v_kind v_size v_read v_lookup v_readdir v_view v_ok
proof unfold_locales
  fix n name buf off c
  assume ok: "v_ok n"
  consider (leaf) d where "n = RamfsFile d \<or> n = OwnedFile d"
    | (tree) es where "v_tree (RamfsDir es)" "n = RamfsDir es \<or> n = DirRef (RamfsDir es)"
    using ok by (cases n rule: v_ok.cases) (auto elim: v_kind.elims)
  note shape = this
  show "v_kind n = (case v_view n of File d \<Rightarrow> KFile | Dir es \<Rightarrow> KDir)"
    and "v_size n = (case v_view n of File d \<Rightarrow> length d | Dir es \<Rightarrow> length es)"
    and "v_read n buf off = (case v_view n of File d \<Rightarrow> read_slice d buf off | Dir es \<Rightarrow> (buf, 0))"
    and "v_readdir n = (case v_view n of File d \<Rightarrow> [] | Dir es \<Rightarrow> map fst es)"
    using shape by (cases; auto)+
  show "map_option v_view (v_lookup n name) = child (v_view n) name"
    using shape
  proof cases
    case (tree es)
    with dir_lookup(1) [OF tree(1), of name] show ?thesis by (auto simp del: v_lookup.simps(2) v_tree.simps)
  qed auto
  show "v_ok c" if "v_lookup n name = Some c"
    using shape
  proof cases
    case (tree es)
    with dir_lookup(2) [OF tree(1)] that show ?thesis by (auto simp del: v_lookup.simps(2) v_tree.simps)
  qed (use that in auto)
qed

end
