(* ===== verification/Memory.thy ===== *)
theory Memory
  imports Prelude
begin

text \<open>
  Byte-addressed memory as the kernel's raw pointers see it: a 64-bit address maps to a
  byte, and the wider accesses of the source (\<open>*(p as *mut usize) = v\<close>,
  \<open>read_unaligned\<close> of a \<open>u16\<close>, \<open>u32\<close> or \<open>u64\<close>) are little-endian groups of bytes.
\<close>

type_synonym mem = "usize \<Rightarrow> u8"

section \<open>Little-endian encodings\<close>

fun le_bytes :: "nat \<Rightarrow> 'a::len word \<Rightarrow> u8 list" where
  "le_bytes 0 w = []"
| "le_bytes (Suc n) w = ucast w # le_bytes n (drop_bit 8 w)"

fun le_word :: "u8 list \<Rightarrow> 'a::len word" where
  "le_word [] = 0"
| "le_word (b # bs) = ucast b OR push_bit 8 (le_word bs)"

lemma length_le_bytes [simp]: "length (le_bytes n w) = n"
  by (induction n arbitrary: w) auto

lemma le_split_step:
  fixes w :: "'a::len word"
  shows "ucast (ucast w :: u8) OR push_bit 8 (take_bit n (drop_bit 8 w)) = take_bit (8 + n) w"
  by (rule bit_word_eqI) (auto simp: bit_simps)

lemma le_word_le_bytes: "le_word (le_bytes n w) = take_bit (8 * n) (w :: 'a::len word)"
  by (induction n arbitrary: w) (simp_all add: le_split_step)

lemma le_word_le_bytes_all [simp]:
  "LENGTH('a) \<le> 8 * n \<Longrightarrow> le_word (le_bytes n w) = (w :: 'a::len word)"
  by (simp add: le_word_le_bytes take_bit_word_eq_self)

section \<open>Memory access\<close>

text \<open>The bytes of an access: \<open>n\<close> consecutive addresses from \<open>a\<close> on.\<close>

definition span :: "usize \<Rightarrow> nat \<Rightarrow> usize set" where
  "span a n = {x. unat (x - a) < n}"

definition rd_bytes :: "mem \<Rightarrow> usize \<Rightarrow> nat \<Rightarrow> u8 list" where
  "rd_bytes m a n = map (\<lambda>i. m (a + of_nat i)) [0..<n]"

definition wr_bytes :: "mem \<Rightarrow> usize \<Rightarrow> u8 list \<Rightarrow> mem" where
  "wr_bytes m a bs = (\<lambda>x. if unat (x - a) < length bs then bs ! unat (x - a) else m x)"

definition rd16 :: "mem \<Rightarrow> usize \<Rightarrow> u16" where "rd16 m a = le_word (rd_bytes m a 2)"
definition rd32 :: "mem \<Rightarrow> usize \<Rightarrow> u32" where "rd32 m a = le_word (rd_bytes m a 4)"
definition rd64 :: "mem \<Rightarrow> usize \<Rightarrow> u64" where "rd64 m a = le_word (rd_bytes m a 8)"
definition wr32 :: "mem \<Rightarrow> usize \<Rightarrow> u32 \<Rightarrow> mem" where "wr32 m a v = wr_bytes m a (le_bytes 4 v)"
definition wr64 :: "mem \<Rightarrow> usize \<Rightarrow> u64 \<Rightarrow> mem" where "wr64 m a v = wr_bytes m a (le_bytes 8 v)"

lemma length_rd_bytes [simp]: "length (rd_bytes m a n) = n"
  by (simp add: rd_bytes_def)

lemma unat_offset [simp]: "i < 2 ^ 64 \<Longrightarrow> unat (a + of_nat i - a :: usize) = i"
  by (simp add: unat_of_nat_small)

lemma rd_wr_bytes: "length bs \<le> 2 ^ 64 \<Longrightarrow> rd_bytes (wr_bytes m a bs) a (length bs) = bs"
  by (rule nth_equalityI) (simp_all add: rd_bytes_def wr_bytes_def unat_of_nat_small)

lemma rd_bytes_cong:
  "n \<le> 2 ^ 64 \<Longrightarrow> (\<And>x. x \<in> span a n \<Longrightarrow> m x = m' x) \<Longrightarrow> rd_bytes m a n = rd_bytes m' a n"
  by (auto simp: rd_bytes_def span_def unat_of_nat_small)

lemma wr_bytes_outside: "x \<notin> span a (length bs) \<Longrightarrow> wr_bytes m a bs x = m x"
  by (simp add: wr_bytes_def span_def)

lemma rd64_wr64 [simp]: "rd64 (wr64 m a v) a = v"
  using rd_wr_bytes [of "le_bytes 8 v" m a] by (simp add: rd64_def wr64_def)

lemma rd64_cong: "(\<And>x. x \<in> span a 8 \<Longrightarrow> m x = m' x) \<Longrightarrow> rd64 m a = rd64 m' a"
  unfolding rd64_def by (rule arg_cong [OF rd_bytes_cong]) simp_all

lemma wr64_outside: "x \<notin> span a 8 \<Longrightarrow> wr64 m a v x = m x"
  by (simp add: wr64_def wr_bytes_outside)

lemma rd64_wr64_disjoint: "span a 8 \<inter> span b 8 = {} \<Longrightarrow> rd64 (wr64 m a v) b = rd64 m b"
  by (rule rd64_cong) (auto intro: wr64_outside)

lemma span_mono: "n \<le> k \<Longrightarrow> span a n \<subseteq> span a k"
  by (auto simp: span_def)

text \<open>Without wrap-around a span is an interval of natural numbers.\<close>

lemma span_interval:
  assumes "unat a + n \<le> 2 ^ 64"
  shows "x \<in> span a n \<longleftrightarrow> unat a \<le> unat x \<and> unat x < unat a + n"
proof (cases "a \<le> x")
  case True
  then have "unat (x - a) = unat x - unat a" "unat a \<le> unat x"
    by (simp_all add: unat_sub word_le_nat_alt)
  then show ?thesis by (auto simp: span_def)
next
  case False
  then have less: "unat x < unat a" by (simp add: word_le_nat_alt)
  have "unat (x - a) = 2 ^ 64 + unat x - unat a"
    using False less unat_usize [of a] unat_usize [of x]
    by (simp add: unat_sub_if_size word_size word_le_nat_alt)
  with less assms show ?thesis by (auto simp: span_def)
qed

lemma span_disjoint:
  assumes "unat a + n \<le> 2 ^ 64" "unat b + k \<le> 2 ^ 64"
    and "unat a + n \<le> unat b \<or> unat b + k \<le> unat a"
  shows "span a n \<inter> span b k = {}"
  using assms by (auto simp: span_interval)

lemma span_subset:
  assumes "unat b + k \<le> 2 ^ 64" "unat b \<le> unat a" "unat a + n \<le> unat b + k"
  shows "span a n \<subseteq> span b k"
  using assms by (auto simp: span_interval)

end
