(* ===== verification/Slab.thy ===== *)
theory Slab
  imports Memory
begin

text \<open>
  \<open>SlabClass\<close> of kernel/src/allocator.rs: a pool of equal blocks whose free blocks form a
  singly linked list threaded through the first word of each free block.  The kernel's
  memory is explicit, so a stray write to a free block would show.  The interface the
  combined allocator relies on is the locale \<open>block_pool\<close>.
\<close>

section \<open>The model\<close>

record slab_class =
  obj_size :: usize
  region_start :: usize
  free_head :: usize
  free_count :: usize
  total :: usize

definition slab_new :: "usize \<Rightarrow> slab_class" where
  "slab_new sz = \<lparr>obj_size = sz, region_start = 0, free_head = 0, free_count = 0, total = 0\<rparr>"

text \<open>The loop of \<open>SlabClass::init\<close>, over the indices \<open>0..count\<close>.\<close>

fun slab_thread :: "usize \<Rightarrow> usize \<Rightarrow> nat \<Rightarrow> nat list \<Rightarrow> mem \<Rightarrow> mem option" where
  "slab_thread start sz count [] m = Some m"
| "slab_thread start sz count (i # is) m =
     do { off \<leftarrow> cmul (of_nat i) sz;
          block \<leftarrow> cadd start off;
          next \<leftarrow> (if i + 1 < count
                   then do { off' \<leftarrow> cmul (of_nat (i + 1)) sz; cadd start off' }
                   else Some 0);
          slab_thread start sz count is (wr64 m block next) }"

definition slab_init :: "slab_class \<Rightarrow> mem \<Rightarrow> usize \<Rightarrow> nat \<Rightarrow> (slab_class \<times> mem) option" where
  "slab_init c m start count =
     do { m' \<leftarrow> slab_thread start (obj_size c) count [0..<count] m;
          Some (c\<lparr>region_start := start, total := of_nat count, free_count := of_nat count,
                  free_head := start\<rparr>, m') }"

text \<open>\<open>alloc\<close> answers the null pointer 0 when the pool is exhausted.\<close>

definition slab_alloc :: "slab_class \<Rightarrow> mem \<Rightarrow> (usize \<times> slab_class) option" where
  "slab_alloc c m =
     (if free_head c = 0 then Some (0, c)
      else do { n \<leftarrow> csub (free_count c) 1;
                Some (free_head c, c\<lparr>free_head := rd64 m (free_head c), free_count := n\<rparr>) })"

definition slab_dealloc :: "slab_class \<Rightarrow> mem \<Rightarrow> usize \<Rightarrow> (slab_class \<times> mem) option" where
  "slab_dealloc c m p =
     do { n \<leftarrow> cadd (free_count c) 1;
          Some (c\<lparr>free_head := p, free_count := n\<rparr>, wr64 m p (free_head c)) }"

definition slab_owns :: "slab_class \<Rightarrow> usize \<Rightarrow> bool option" where
  "slab_owns c p =
     (if region_start c \<le> p
      then do { len \<leftarrow> cmul (total c) (obj_size c);
                stop \<leftarrow> cadd (region_start c) len;
                Some (p < stop) }
      else Some False)"

section \<open>Geometry of a pool\<close>

definition region_end :: "slab_class \<Rightarrow> nat" where
  "region_end c = unat (region_start c) + unat (total c) * unat (obj_size c)"

definition slab_geom :: "slab_class \<Rightarrow> bool" where
  "slab_geom c \<longleftrightarrow> 8 \<le> unat (obj_size c) \<and> 0 < unat (region_start c) \<and> region_end c < 2 ^ 64"

definition block :: "slab_class \<Rightarrow> nat \<Rightarrow> usize" where
  "block c i = region_start c + of_nat i * obj_size c"

definition blocks :: "slab_class \<Rightarrow> usize set" where
  "blocks c = block c ` {..<unat (total c)}"

definition in_region :: "slab_class \<Rightarrow> usize \<Rightarrow> bool" where
  "in_region c p \<longleftrightarrow> unat (region_start c) \<le> unat p \<and> unat p < region_end c"

definition same_geom :: "slab_class \<Rightarrow> slab_class \<Rightarrow> bool" where
  "same_geom c d \<longleftrightarrow> obj_size c = obj_size d \<and> region_start c = region_start d \<and> total c = total d"

lemma same_geom_refl [simp]: "same_geom c c"
  by (simp add: same_geom_def)

lemma same_geom_eqs:
  assumes "same_geom c d"
  shows "blocks c = blocks d" "region_end c = region_end d" "slab_geom c = slab_geom d"
    "in_region c = in_region d" "obj_size c = obj_size d" "region_start c = region_start d"
  using assms
  by (auto simp: same_geom_def blocks_def block_def region_end_def slab_geom_def in_region_def
      image_def fun_eq_iff)

lemma no_overflow_index:
  assumes g: "unat start + n * unat sz < 2 ^ 64" and i: "i \<le> n" and sz: "8 \<le> unat (sz :: usize)"
  shows "cmul (of_nat i) sz = Some (of_nat i * sz)"
    and "cadd start (of_nat i * sz) = Some (start + of_nat i * sz)"
    and "unat (start + of_nat i * sz) = unat start + i * unat sz"
proof -
  have le: "i * unat sz \<le> n * unat sz" using i by simp
  have "i * 1 \<le> i * unat sz" using sz by (intro mult_le_mono2) simp
  then have "i \<le> i * unat sz" by simp
  with le g have "i < 2 ^ 64" by linarith
  then have ui: "unat (of_nat i :: usize) = i" by (intro unat_of_nat_small) simp
  have bnd: "i * unat sz < 2 ^ 64" and sum: "unat start + i * unat sz < 2 ^ 64"
    using le g by linarith+
  have prod: "unat (of_nat i * sz) = i * unat sz"
    using bnd ui by (subst unat_times_no_overflow) simp_all
  show "cmul (of_nat i) sz = Some (of_nat i * sz)"
    using bnd ui by (simp add: cmul_def)
  show "cadd start (of_nat i * sz) = Some (start + of_nat i * sz)"
    using sum prod by (simp add: cadd_def)
  show "unat (start + of_nat i * sz) = unat start + i * unat sz"
    using sum prod by (subst unat_plus_no_overflow) simp_all
qed

lemma unat_block:
  assumes "slab_geom c" "i \<le> unat (total c)"
  shows "unat (block c i) = unat (region_start c) + i * unat (obj_size c)"
  using assms no_overflow_index(3) [of "region_start c" "unat (total c)" "obj_size c" i]
  by (simp add: block_def slab_geom_def region_end_def)

lemma block_fits:
  assumes "slab_geom c" "i < unat (total c)"
  shows "unat (block c i) + unat (obj_size c) \<le> region_end c"
proof -
  have "(i + 1) * unat (obj_size c) \<le> unat (total c) * unat (obj_size c)"
    using assms by (intro mult_le_mono1) simp
  with assms show ?thesis by (simp add: unat_block region_end_def)
qed

lemma blocks_in_region:
  assumes "slab_geom c" "p \<in> blocks c"
  shows "unat (region_start c) \<le> unat p" "unat p + unat (obj_size c) \<le> region_end c" "p \<noteq> 0"
    "in_region c p"
proof -
  obtain i where i: "i < unat (total c)" "p = block c i" using assms(2) by (auto simp: blocks_def)
  show low: "unat (region_start c) \<le> unat p" using assms i by (simp add: unat_block)
  show up: "unat p + unat (obj_size c) \<le> region_end c" using block_fits [OF assms(1) i(1)] i by simp
  show "p \<noteq> 0" using low assms by (auto simp: slab_geom_def)
  show "in_region c p" using low up assms by (auto simp: in_region_def slab_geom_def)
qed

lemma block_inj:
  assumes "slab_geom c" "i < unat (total c)" "j < unat (total c)" "block c i = block c j"
  shows "i = j"
proof -
  have "unat (region_start c) + i * unat (obj_size c) = unat (region_start c) + j * unat (obj_size c)"
    using assms(4) unat_block [OF assms(1), of i] unat_block [OF assms(1), of j] assms(2,3)
    by (metis less_imp_le)
  then have "i * unat (obj_size c) = j * unat (obj_size c)" by linarith
  moreover have "unat (obj_size c) \<noteq> 0" using assms(1) by (simp add: slab_geom_def)
  ultimately show ?thesis by (metis mult_right_cancel)
qed

text \<open>Distinct blocks of a pool do not overlap, over their whole size.\<close>

lemma blocks_disjoint:
  assumes g: "slab_geom c" and p: "p \<in> blocks c" and q: "q \<in> blocks c" and neq: "p \<noteq> q"
    and n: "n \<le> unat (obj_size c)" and k: "k \<le> unat (obj_size c)"
  shows "span p n \<inter> span q k = {}"
proof -
  obtain i where i: "i < unat (total c)" "p = block c i" using p by (auto simp: blocks_def)
  obtain j where j: "j < unat (total c)" "q = block c j" using q by (auto simp: blocks_def)
  let ?s = "unat (obj_size c)"
  have up: "unat p = unat (region_start c) + i * ?s" using g i by (simp add: unat_block)
  have uq: "unat q = unat (region_start c) + j * ?s" using g j by (simp add: unat_block)
  have "i < j \<or> j < i" using neq i j by (metis nat_neq_iff)
  then have "i * ?s + ?s \<le> j * ?s \<or> j * ?s + ?s \<le> i * ?s"
  proof
    assume "i < j" then have "(i + 1) * ?s \<le> j * ?s" by (intro mult_le_mono1) simp
    then show ?thesis by simp
  next
    assume "j < i" then have "(j + 1) * ?s \<le> i * ?s" by (intro mult_le_mono1) simp
    then show ?thesis by simp
  qed
  then have "unat p + n \<le> unat q \<or> unat q + k \<le> unat p" using up uq n k by linarith
  moreover have "unat p + n \<le> 2 ^ 64" "unat q + k \<le> 2 ^ 64"
    using blocks_in_region(2) [OF g p] blocks_in_region(2) [OF g q] g n k
    by (auto simp: slab_geom_def)
  ultimately show ?thesis by (intro span_disjoint) auto
qed

lemma slab_owns_iff:
  assumes "slab_geom c"
  shows "slab_owns c p = Some (in_region c p)"
  using assms no_overflow_index [of "region_start c" "unat (total c)" "obj_size c" "unat (total c)"]
  by (auto simp: slab_owns_def in_region_def slab_geom_def region_end_def word_le_nat_alt
      word_less_nat_alt)

section \<open>The free list\<close>

text \<open>
  \<open>chain m h fl\<close>: starting from head \<open>h\<close> the first words of the blocks link exactly the
  blocks \<open>fl\<close>, in that order, and end in the null address.
\<close>

fun chain :: "mem \<Rightarrow> usize \<Rightarrow> usize list \<Rightarrow> bool" where
  "chain m h [] \<longleftrightarrow> h = 0"
| "chain m h (b # fl) \<longleftrightarrow> h = b \<and> b \<noteq> 0 \<and> chain m (rd64 m b) fl"

definition slab_inv :: "slab_class \<Rightarrow> mem \<Rightarrow> usize list \<Rightarrow> bool" where
  "slab_inv c m fl \<longleftrightarrow> slab_geom c \<and> chain m (free_head c) fl \<and> distinct fl
     \<and> set fl \<subseteq> blocks c \<and> unat (free_count c) = length fl"

lemma chain_cong:
  assumes "\<And>b x. b \<in> set fl \<Longrightarrow> x \<in> span b 8 \<Longrightarrow> m x = m' x"
  shows "chain m h fl = chain m' h fl"
  using assms
proof (induction fl arbitrary: h)
  case (Cons b fl)
  have "rd64 m b = rd64 m' b" using Cons.prems by (intro rd64_cong) auto
  with Cons show ?case by auto
qed simp

text \<open>Writing outside the words of the free blocks does not disturb the pool.\<close>

lemma slab_inv_frame:
  assumes "slab_inv c m fl" "\<And>b x. b \<in> set fl \<Longrightarrow> x \<in> span b 8 \<Longrightarrow> m x = m' x"
  shows "slab_inv c m' fl"
  using assms chain_cong [of fl m m'] by (auto simp: slab_inv_def)

lemma slab_alloc_empty: "slab_inv c m [] \<Longrightarrow> slab_alloc c m = Some (0, c)"
  by (simp add: slab_inv_def slab_alloc_def)

lemma slab_alloc_head:
  assumes "slab_inv c m (b # fl)"
  shows "\<exists>c'. slab_alloc c m = Some (b, c') \<and> slab_inv c' m fl \<and> same_geom c' c"
proof -
  from assms have inv: "slab_geom c" "free_head c = b" "b \<noteq> 0" "chain m (rd64 m b) fl"
    "distinct (b # fl)" "set (b # fl) \<subseteq> blocks c" "unat (free_count c) = Suc (length fl)"
    by (auto simp: slab_inv_def)
  have one: "1 \<le> free_count c" using inv(7) by (simp add: word_le_nat_alt)
  let ?c = "c\<lparr>free_head := rd64 m b, free_count := free_count c - 1\<rparr>"
  have "slab_alloc c m = Some (b, ?c)" using inv one by (simp add: slab_alloc_def csub_def)
  moreover have g: "same_geom ?c c" by (simp add: same_geom_def)
  moreover have "slab_inv ?c m fl"
    using inv one same_geom_eqs [OF g] by (simp add: slab_inv_def unat_sub)
  ultimately show ?thesis by blast
qed

text \<open>
  Freeing a block that is not already free pushes it; memory changes in its first word
  only.
\<close>

lemma slab_dealloc_push:
  assumes inv: "slab_inv c m fl" and p: "p \<in> blocks c" "p \<notin> set fl"
  shows "\<exists>c' m'. slab_dealloc c m p = Some (c', m') \<and> slab_inv c' m' (p # fl)
    \<and> same_geom c' c \<and> (\<forall>x. x \<notin> span p 8 \<longrightarrow> m' x = m x)"
proof -
  from inv have g: "slab_geom c" and fl: "set fl \<subseteq> blocks c" and d: "distinct fl"
    and n: "unat (free_count c) = length fl" by (auto simp: slab_inv_def)
  let ?m = "wr64 m p (free_head c)"
  let ?c = "c\<lparr>free_head := p, free_count := free_count c + 1\<rparr>"
  have "card (insert p (set fl)) \<le> card (blocks c)"
    using fl p by (intro card_mono) (auto simp: blocks_def)
  moreover have "card (blocks c) \<le> unat (total c)"
    by (metis blocks_def card_image_le card_lessThan finite_lessThan)
  ultimately have "length fl < unat (total c)" using p d by (simp add: distinct_card)
  with unat_usize [of "total c"] have lt: "length fl + 1 < 2 ^ 64" by linarith
  have un: "unat (free_count c + 1) = Suc (length fl)"
    using lt n by (subst unat_plus_no_overflow) simp_all
  have "slab_dealloc c m p = Some (?c, ?m)" using lt n by (simp add: slab_dealloc_def cadd_def)
  moreover have sg: "same_geom ?c c" by (simp add: same_geom_def)
  moreover have out: "\<forall>x. x \<notin> span p 8 \<longrightarrow> ?m x = m x" by (simp add: wr64_outside)
  moreover have "slab_inv ?c ?m (p # fl)"
  proof -
    have "m x = ?m x" if b: "b \<in> set fl" and x: "x \<in> span b 8" for b x
    proof -
      have "span b 8 \<inter> span p 8 = {}"
        using g b fl p by (intro blocks_disjoint) (auto simp: slab_geom_def)
      with x out show ?thesis by auto
    qed
    then have "chain ?m (free_head c) fl"
      using inv chain_cong [of fl m ?m "free_head c"] by (auto simp: slab_inv_def)
    then show ?thesis
      using g p fl d un blocks_in_region(3) [OF g p(1)] same_geom_eqs [OF sg]
      by (simp add: slab_inv_def)
  qed
  ultimately show ?thesis by blast
qed

section \<open>Initialisation\<close>

definition block_link :: "slab_class \<Rightarrow> nat \<Rightarrow> usize" where
  "block_link c i = (if i + 1 < unat (total c) then block c (i + 1) else 0)"

lemma slab_thread_step:
  assumes "slab_geom c" "i < unat (total c)"
  shows "slab_thread (region_start c) (obj_size c) (unat (total c)) (i # is) m
       = slab_thread (region_start c) (obj_size c) (unat (total c)) is (wr64 m (block c i) (block_link c i))"
proof -
  note ix = no_overflow_index [of "region_start c" "unat (total c)" "obj_size c"]
  have g: "unat (region_start c) + unat (total c) * unat (obj_size c) < 2 ^ 64"
    "8 \<le> unat (obj_size c)"
    using assms by (auto simp: slab_geom_def region_end_def)
  have "cmul (of_nat (i + 1)) (obj_size c) = Some (of_nat (i + 1) * obj_size c)"
    "cadd (region_start c) (of_nat (i + 1) * obj_size c) = Some (block c (i + 1))"
    using ix(1,2) [of "i + 1"] g assms(2) by (simp_all add: block_def)
  moreover have "cmul (of_nat i) (obj_size c) = Some (of_nat i * obj_size c)"
    "cadd (region_start c) (of_nat i * obj_size c) = Some (block c i)"
    using ix(1,2) [of i] g assms(2) by (simp_all add: block_def)
  ultimately show ?thesis
    by (simp only: slab_thread.simps bind.bind_lunit block_link_def) simp
qed

lemma slab_thread_links:
  assumes g: "slab_geom c" and k: "k \<le> unat (total c)"
  shows "\<exists>m'. slab_thread (region_start c) (obj_size c) (unat (total c)) [k..<unat (total c)] m = Some m'
    \<and> (\<forall>i \<in> {k..<unat (total c)}. rd64 m' (block c i) = block_link c i)
    \<and> (\<forall>x. (\<forall>i \<in> {k..<unat (total c)}. x \<notin> span (block c i) 8) \<longrightarrow> m' x = m x)"
  using k
proof (induction "unat (total c) - k" arbitrary: k m)
  case 0
  then show ?case by simp
next
  case (Suc d)
  then have lt: "k < unat (total c)" and d: "d = unat (total c) - (k + 1)" by auto
  let ?m = "wr64 m (block c k) (block_link c k)"
  obtain m' where m':
    "slab_thread (region_start c) (obj_size c) (unat (total c)) [k + 1..<unat (total c)] ?m = Some m'"
    "\<forall>i \<in> {k + 1..<unat (total c)}. rd64 m' (block c i) = block_link c i"
    "\<forall>x. (\<forall>i \<in> {k + 1..<unat (total c)}. x \<notin> span (block c i) 8) \<longrightarrow> m' x = ?m x"
    using Suc.hyps(1) [OF d, of ?m] lt by auto
  have up: "[k..<unat (total c)] = k # [k + 1..<unat (total c)]" using lt by (simp add: upt_rec)
  have "rd64 m' (block c k) = rd64 ?m (block c k)"
  proof (rule rd64_cong)
    fix x assume x: "x \<in> span (block c k) 8"
    have "x \<notin> span (block c i) 8" if "i \<in> {k + 1..<unat (total c)}" for i
    proof -
      have "block c k \<noteq> block c i" using that lt g block_inj [of c k i] by auto
      then have "span (block c k) 8 \<inter> span (block c i) 8 = {}"
        using that lt g by (intro blocks_disjoint) (auto simp: blocks_def slab_geom_def)
      with x show ?thesis by auto
    qed
    with m'(3) show "m' x = ?m x" by blast
  qed
  then have "\<forall>i \<in> {k..<unat (total c)}. rd64 m' (block c i) = block_link c i"
    using m'(2) by (auto simp: not_less_eq_eq le_less Suc_le_eq)
  moreover have "\<forall>x. (\<forall>i \<in> {k..<unat (total c)}. x \<notin> span (block c i) 8) \<longrightarrow> m' x = m x"
    using m'(3) lt by (auto simp: wr64_outside)
  ultimately show ?case
    using m'(1) up slab_thread_step [OF g lt, of "[k + 1..<unat (total c)]" m] by auto
qed

lemma chain_of_links:
  assumes "slab_geom c" "\<forall>i \<in> {k..<unat (total c)}. rd64 m (block c i) = block_link c i"
    and "k \<le> unat (total c)"
  shows "chain m (if k < unat (total c) then block c k else 0) (map (block c) [k..<unat (total c)])"
  using assms(2,3)
proof (induction "unat (total c) - k" arbitrary: k)
  case 0
  then show ?case by simp
next
  case (Suc d)
  then have lt: "k < unat (total c)" and d: "d = unat (total c) - (k + 1)" by auto
  have up: "[k..<unat (total c)] = k # [k + 1..<unat (total c)]" using lt by (simp add: upt_rec)
  have "block c k \<noteq> 0" using lt assms(1) by (intro blocks_in_region) (auto simp: blocks_def)
  with lt up Suc.hyps(1) [OF d] Suc.prems show ?case by (auto simp: block_link_def)
qed

text \<open>
  A fresh pool of \<open>count > 0\<close> blocks has all of them free, in address order, and
  initialisation writes inside its own region only.
\<close>

lemma slab_init_fresh:
  assumes geo: "8 \<le> unat (obj_size c)" "0 < unat start" "0 < count"
    "unat start + count * unat (obj_size c) < 2 ^ 64"
  defines "d \<equiv> c\<lparr>region_start := start, total := of_nat count, free_count := of_nat count,
                 free_head := start\<rparr>"
  shows "\<exists>m'. slab_init c m start count = Some (d, m')
    \<and> slab_inv d m' (map (block d) [0..<count])
    \<and> (\<forall>x. \<not> in_region d x \<longrightarrow> m' x = m x)"
proof -
  have "count * 8 \<le> count * unat (obj_size c)" using geo(1) by (rule mult_le_mono2)
  with geo(4) have "count < 2 ^ 64" by linarith
  then have cnt: "unat (of_nat count :: usize) = count" by (intro unat_of_nat_small) simp
  have sel: "region_start d = start" "obj_size d = obj_size c" "total d = of_nat count"
    "free_head d = start" "unat (free_count d) = count" "unat (total d) = count"
    using cnt by (simp_all add: d_def)
  have g: "slab_geom d" using geo by (simp add: slab_geom_def region_end_def sel cnt)
  obtain m' where m': "slab_thread start (obj_size c) count [0..<count] m = Some m'"
    "\<forall>i \<in> {0..<count}. rd64 m' (block d i) = block_link d i"
    "\<forall>x. (\<forall>i \<in> {0..<count}. x \<notin> span (block d i) 8) \<longrightarrow> m' x = m x"
    using slab_thread_links [OF g, of 0 m] by (auto simp: sel cnt)
  have "block d 0 = start" by (simp add: block_def sel)
  then have "chain m' start (map (block d) [0..<count])"
    using chain_of_links [OF g, of 0 m'] m'(2) geo(3) by (simp add: sel cnt)
  moreover have "distinct (map (block d) [0..<count])"
    using block_inj [OF g] by (auto simp: distinct_map inj_on_def sel cnt)
  ultimately have "slab_inv d m' (map (block d) [0..<count])"
    using g by (auto simp: slab_inv_def sel cnt blocks_def)
  moreover have "slab_init c m start count = Some (d, m')"
    using m'(1) by (simp add: slab_init_def d_def)
  moreover have "m' x = m x" if out: "\<not> in_region d x" for x
  proof -
    have "x \<notin> span (block d i) 8" if i: "i < count" for i
    proof
      assume x: "x \<in> span (block d i) 8"
      have b: "block d i \<in> blocks d" using i by (auto simp: blocks_def sel cnt)
      have "span (block d i) 8 \<subseteq> span (block d i) (unat (obj_size d))"
        using g by (intro span_mono) (simp add: slab_geom_def)
      with x have "x \<in> span (block d i) (unat (obj_size d))" by auto
      moreover have "unat (block d i) + unat (obj_size d) \<le> 2 ^ 64"
        using blocks_in_region(2) [OF g b] g by (simp add: slab_geom_def)
      ultimately have "in_region d x"
        using blocks_in_region(1,2) [OF g b] by (auto simp: span_interval in_region_def)
      with out show False ..
    qed
    with m'(3) show ?thesis by simp
  qed
  ultimately show ?thesis by blast
qed

section \<open>The pool interface\<close>

text \<open>
  What the combined allocator relies on: taking a block pops the list of free blocks or
  answers null when it is empty, giving back a block that belongs to the pool and is not
  free pushes it, and neither panics.
\<close>

locale block_pool =
  fixes take_block :: "'p \<Rightarrow> 'h \<Rightarrow> (usize \<times> 'p) option"
    and give_block :: "'p \<Rightarrow> 'h \<Rightarrow> usize \<Rightarrow> ('p \<times> 'h) option"
    and home :: "'p \<Rightarrow> usize set"
    and inv :: "'p \<Rightarrow> 'h \<Rightarrow> usize list \<Rightarrow> bool"
  assumes take_empty: "inv p h [] \<Longrightarrow> take_block p h = Some (0, p)"
    and take_head: "inv p h (b # fl) \<Longrightarrow>
      \<exists>p'. take_block p h = Some (b, p') \<and> inv p' h fl \<and> home p' = home p"
    and give_push: "inv p h fl \<Longrightarrow> b \<in> home p \<Longrightarrow> b \<notin> set fl \<Longrightarrow>
      \<exists>p' h'. give_block p h b = Some (p', h') \<and> inv p' h' (b # fl) \<and> home p' = home p"
    and free_home: "inv p h fl \<Longrightarrow> distinct fl \<and> set fl \<subseteq> home p \<and> 0 \<notin> home p"

text \<open>\<open>n\<close> takes in a row.\<close>

fun take_blocks :: "('p \<Rightarrow> 'h \<Rightarrow> (usize \<times> 'p) option) \<Rightarrow> nat \<Rightarrow> 'p \<Rightarrow> 'h \<Rightarrow> (usize list \<times> 'p) option" where
  "take_blocks f 0 p h = Some ([], p)"
| "take_blocks f (Suc n) p h =
     do { (b, p') \<leftarrow> f p h; (bs, p'') \<leftarrow> take_blocks f n p' h; Some (b # bs, p'') }"

context block_pool
begin

lemma take_total:
  assumes "inv p h fl"
  shows "\<exists>b p'. take_block p h = Some (b, p') \<and> (b = 0 \<longleftrightarrow> fl = []) \<and> inv p' h (tl fl)"
proof (cases fl)
  case Nil
  with assms take_empty show ?thesis by auto
next
  case (Cons b fl')
  with assms take_head [of p h b fl'] free_home [of p h fl] show ?thesis by auto
qed

lemma take_blocks_prefix:
  "inv p h fl \<Longrightarrow> n \<le> length fl \<Longrightarrow>
    \<exists>p'. take_blocks take_block n p h = Some (take n fl, p') \<and> inv p' h (drop n fl) \<and> home p' = home p"
proof (induction n arbitrary: p fl)
  case (Suc n)
  then obtain b fl' where fl: "fl = b # fl'" by (cases fl) auto
  from Suc.prems fl take_head obtain p' where
    p': "take_block p h = Some (b, p')" "inv p' h fl'" "home p' = home p" by blast
  from Suc.IH [OF p'(2)] Suc.prems fl p' show ?case by auto
qed simp

text \<open>A pool serves every free block once and then answers null.\<close>

lemma take_all_then_null:
  assumes "inv p h fl"
  shows "\<exists>p'. take_blocks take_block (length fl) p h = Some (fl, p') \<and> take_block p' h = Some (0, p')"
proof -
  obtain p' where "take_blocks take_block (length fl) p h = Some (fl, p')" "inv p' h []"
    using take_blocks_prefix [OF assms, of "length fl"] by auto
  with take_empty show ?thesis by blast
qed

text \<open>The pool is a stack: the block given back last is taken first.\<close>

lemma give_then_take:
  assumes "inv p h fl" "b \<in> home p" "b \<notin> set fl"
  shows "\<exists>p' h' p''. give_block p h b = Some (p', h') \<and> take_block p' h' = Some (b, p'') \<and> inv p'' h' fl"
  using give_push [OF assms] take_head by blast

end

interpretation slab_pool: block_pool slab_alloc slab_dealloc blocks slab_inv
proof unfold_locales
  fix c m assume "slab_inv c m []"
  then show "slab_alloc c m = Some (0, c)" by (rule slab_alloc_empty)
next
  fix c m b fl assume "slab_inv c m (b # fl)"
  then show "\<exists>c'. slab_alloc c m = Some (b, c') \<and> slab_inv c' m fl \<and> blocks c' = blocks c"
    using slab_alloc_head same_geom_eqs(1) by blast
next
  fix c m fl b assume "slab_inv c m fl" "b \<in> blocks c" "b \<notin> set fl"
  then obtain c' m' where "slab_dealloc c m b = Some (c', m')" "slab_inv c' m' (b # fl)" "same_geom c' c"
    using slab_dealloc_push by blast
  then show "\<exists>c' m'. slab_dealloc c m b = Some (c', m') \<and> slab_inv c' m' (b # fl) \<and> blocks c' = blocks c"
    by (auto dest: same_geom_eqs(1))
next
  fix c m fl assume "slab_inv c m fl"
  then show "distinct fl \<and> set fl \<subseteq> blocks c \<and> 0 \<notin> blocks c"
    using blocks_in_region(3) by (auto simp: slab_inv_def)
qed

end
