(* ===== verification/Allocator.thy ===== *)
theory Allocator
  imports Slab
begin

text \<open>
  The kernel heap of kernel/src/allocator.rs: six slab classes tried smallest first, a bump
  region for the rest, and the client's view of the heap as a step relation in which clients
  allocate, free and write into the blocks they hold.
\<close>

section \<open>The model\<close>

record layout =
  lsize :: usize
  lalign :: usize

record bump =
  current :: usize
  bend :: usize

record allocator =
  initialized :: bool
  heap_start :: usize
  slabs :: "slab_class list"
  bump_reg :: bump

definition SLAB_SIZES :: "usize list" where
  "SLAB_SIZES = [8, 16, 32, 64, 128, 256]"

definition OBJECTS_PER_CLASS :: nat where
  "OBJECTS_PER_CLASS = 512"

definition SLAB_REGION_BYTES :: usize where
  "SLAB_REGION_BYTES = of_nat OBJECTS_PER_CLASS * (8 + 16 + 32 + 64 + 128 + 256)"

text \<open>\<open>HEAP_SIZE\<close> of kernel/src/memory.rs, answered by \<open>memory::heap_size()\<close>.\<close>

definition HEAP_SIZE :: usize where
  "HEAP_SIZE = 16 * 1024 * 1024"

definition align_up :: "usize \<Rightarrow> usize \<Rightarrow> usize option" where
  "align_up addr al =
     do { s \<leftarrow> cadd addr al; t \<leftarrow> csub s 1; k \<leftarrow> csub al 1; Some (t AND NOT k) }"

definition bump_new :: bump where
  "bump_new = \<lparr>current = 0, bend = 0\<rparr>"

definition bump_alloc :: "bump \<Rightarrow> layout \<Rightarrow> (usize \<times> bump) option" where
  "bump_alloc b l =
     do { start \<leftarrow> align_up (current b) (lalign l);
          (let stop = sat_add start (lsize l)
           in if bend b < stop then Some (0, b) else Some (start, b\<lparr>current := stop\<rparr>)) }"

definition bump_start :: "bump \<Rightarrow> usize" where
  "bump_start b = sat_sub (bend b) (HEAP_SIZE - SLAB_REGION_BYTES)"

definition bump_used :: "bump \<Rightarrow> usize" where
  "bump_used b = sat_sub (current b) (bump_start b)"

definition bump_capacity :: "bump \<Rightarrow> usize" where
  "bump_capacity b = sat_sub (bend b) (bump_start b)"

definition sa_new :: allocator where
  "sa_new = \<lparr>initialized = False, heap_start = 0,
     slabs = [slab_new 8, slab_new 16, slab_new 32, slab_new 64, slab_new 128, slab_new 256],
     bump_reg = bump_new\<rparr>"

text \<open>The loop of \<open>SlabAllocator::init\<close>, over the classes paired with \<open>SLAB_SIZES\<close>.\<close>

fun slabs_init :: "usize \<Rightarrow> usize \<Rightarrow> (slab_class \<times> usize) list \<Rightarrow> mem \<Rightarrow>
    (usize \<times> slab_class list \<times> mem) option" where
  "slabs_init heap off [] m = Some (off, [], m)"
| "slabs_init heap off ((c, sz) # rest) m =
     do { start \<leftarrow> cadd heap off;
          (c', m') \<leftarrow> slab_init c m start OBJECTS_PER_CLASS;
          len \<leftarrow> cmul sz (of_nat OBJECTS_PER_CLASS);
          off' \<leftarrow> cadd off len;
          (off'', cs, m'') \<leftarrow> slabs_init heap off' rest m';
          Some (off'', c' # cs, m'') }"

definition sa_init :: "allocator \<Rightarrow> mem \<Rightarrow> usize \<Rightarrow> usize \<Rightarrow> (allocator \<times> mem) option" where
  "sa_init a m heap_virt heap_size =
     do { (off, cs, m') \<leftarrow> slabs_init heap_virt 0 (zip (slabs a) SLAB_SIZES) m;
          cur \<leftarrow> cadd heap_virt off;
          stop \<leftarrow> cadd heap_virt heap_size;
          Some (a\<lparr>heap_start := heap_virt, slabs := cs,
                  bump_reg := \<lparr>current = cur, bend = stop\<rparr>, initialized := True\<rparr>, m') }"

text \<open>
  The loop of \<open>alloc\<close> over the classes: a class that fits and has a free block ends it
  (\<open>Some p\<close>); when no class serves the request the bump region does.
\<close>

fun slabs_alloc :: "mem \<Rightarrow> layout \<Rightarrow> slab_class list \<Rightarrow> (usize option \<times> slab_class list) option" where
  "slabs_alloc m l [] = Some (None, [])"
| "slabs_alloc m l (c # cs) =
     (if lsize l \<le> obj_size c \<and> lalign l \<le> obj_size c
      then do { (p, c') \<leftarrow> slab_alloc c m;
                if p \<noteq> 0 then Some (Some p, c' # cs)
                else do { (r, cs') \<leftarrow> slabs_alloc m l cs; Some (r, c' # cs') } }
      else do { (r, cs') \<leftarrow> slabs_alloc m l cs; Some (r, c # cs') })"

definition sa_alloc :: "allocator \<Rightarrow> mem \<Rightarrow> layout \<Rightarrow> (usize \<times> allocator) option" where
  "sa_alloc a m l =
     (if \<not> initialized a then Some (0, a)
      else do { (r, cs) \<leftarrow> slabs_alloc m l (slabs a);
                (case r of
                   Some p \<Rightarrow> Some (p, a\<lparr>slabs := cs\<rparr>)
                 | None \<Rightarrow> do { (p, b) \<leftarrow> bump_alloc (bump_reg a) l;
                                Some (p, a\<lparr>slabs := cs, bump_reg := b\<rparr>) }) })"

fun slabs_dealloc :: "mem \<Rightarrow> usize \<Rightarrow> slab_class list \<Rightarrow> (slab_class list \<times> mem) option" where
  "slabs_dealloc m p [] = Some ([], m)"
| "slabs_dealloc m p (c # cs) =
     do { own \<leftarrow> slab_owns c p;
          if own then do { (c', m') \<leftarrow> slab_dealloc c m p; Some (c' # cs, m') }
          else do { (cs', m') \<leftarrow> slabs_dealloc m p cs; Some (c # cs', m') } }"

definition sa_dealloc :: "allocator \<Rightarrow> mem \<Rightarrow> usize \<Rightarrow> (allocator \<times> mem) option" where
  "sa_dealloc a m p =
     do { (cs, m') \<leftarrow> slabs_dealloc m p (slabs a); Some (a\<lparr>slabs := cs\<rparr>, m') }"

text \<open>\<open>stats()\<close>.\<close>

record heap_stats =
  st_heap_start :: usize
  st_heap_size :: usize
  st_bump_used :: usize
  st_bump_capacity :: usize
  st_slab_sizes :: "usize list"
  st_slab_free :: "usize list"
  st_slab_total :: "usize list"

definition sa_stats :: "allocator \<Rightarrow> heap_stats" where
  "sa_stats a = \<lparr>st_heap_start = heap_start a, st_heap_size = HEAP_SIZE,
     st_bump_used = bump_used (bump_reg a), st_bump_capacity = bump_capacity (bump_reg a),
     st_slab_sizes = SLAB_SIZES, st_slab_free = map free_count (slabs a),
     st_slab_total = map total (slabs a)\<rparr>"

section \<open>Alignment\<close>

lemma and_not_mask_word: "(x :: 'a::len word) AND NOT (mask k) = push_bit k (drop_bit k x)"
  by (rule bit_word_eqI) (auto simp: bit_simps)

lemma unat_and_not_mask:
  "unat ((x :: usize) AND NOT (mask k)) = unat x - unat x mod 2 ^ k"
proof -
  have s: "push_bit k (drop_bit k x) + take_bit k x = x" by (rule bits_ident)
  have t: "unat (take_bit k x) = unat x mod 2 ^ k"
    by (subst unsigned_take_bit_eq) (rule take_bit_eq_mod)
  moreover have "push_bit k (drop_bit k x) = x - take_bit k x" using s by (metis add_diff_cancel_right')
  moreover have "take_bit k x \<le> x"
    unfolding word_le_nat_alt t by simp
  ultimately show ?thesis by (simp only: and_not_mask_word unat_sub t)
qed

lemma round_up_nat:
  fixes n d :: nat
  assumes "0 < d"
  defines "r \<equiv> (n + d - 1) - (n + d - 1) mod d"
  shows "n \<le> r" "r < n + d" "d dvd r"
proof -
  define q where "q = (n + d - 1) mod d"
  have "q < d" using assms(1) by (simp add: q_def)
  moreover have "r = n + d - 1 - q" by (simp add: r_def q_def)
  ultimately show "n \<le> r" "r < n + d" using assms(1) by arith+
  show "d dvd r" unfolding r_def by (rule dvd_minus_mod)
qed

text \<open>\<open>align_up\<close> answers the least multiple of a power-of-two alignment that is not below.\<close>

lemma align_up_spec:
  assumes al: "al = 2 ^ k" "k < 64" and ov: "unat addr + unat al < 2 ^ 64"
  shows "\<exists>r. align_up addr al = Some r \<and> unat addr \<le> unat r \<and> unat r < unat addr + unat al
    \<and> unat al dvd unat r"
proof -
  have "(2 :: nat) ^ k < 2 ^ 64" using al(2) by (rule power_strict_increasing) simp
  then have "unat (of_nat (2 ^ k) :: usize) = 2 ^ k" by (intro unat_of_nat_small) simp
  then have ual: "unat al = 2 ^ k" using al(1) by simp
  have ne: "1 \<le> al" using ual by (simp add: word_le_nat_alt)
  have sum: "unat (addr + al) = unat addr + unat al" using ov by (simp add: unat_plus_no_overflow)
  have "1 \<le> unat (addr + al)" using sum ne by (simp add: word_le_nat_alt)
  then have one: "1 \<le> addr + al" unfolding word_le_nat_alt by simp
  have "unat (addr + al - 1) = unat addr + unat al - 1" using one sum by (simp add: unat_sub)
  moreover have m: "al - 1 = mask k" using al by (simp add: mask_eq_exp_minus_1)
  ultimately have r: "unat ((addr + al - 1) AND NOT (al - 1))
      = (unat addr + unat al - 1) - (unat addr + unat al - 1) mod unat al"
    using ual by (simp only: unat_and_not_mask)
  have "align_up addr al = Some ((addr + al - 1) AND NOT (al - 1))"
    using ov one ne by (simp add: align_up_def cadd_def csub_def)
  with r round_up_nat [of "unat al" "unat addr"] ual show ?thesis by auto
qed

end
