(* ===== verification/Heap.thy ===== *)
theory Heap
  imports Allocator
begin

text \<open>
  Safety of the kernel heap.  The ghost set \<open>L\<close> holds the live allocations (pointer and
  layout); the invariant ties it to the free lists and the bump pointer.
\<close>

section \<open>The invariant\<close>

fun regions_from :: "nat \<Rightarrow> slab_class list \<Rightarrow> nat \<Rightarrow> bool" where
  "regions_from lo [] hi \<longleftrightarrow> lo \<le> hi"
| "regions_from lo (c # cs) hi \<longleftrightarrow> lo \<le> unat (region_start c) \<and> regions_from (region_end c) cs hi"

definition aligned_geom :: "slab_class \<Rightarrow> bool" where
  "aligned_geom c \<longleftrightarrow> (\<exists>k. unat (obj_size c) = 2 ^ k \<and> 2 ^ k dvd unat (region_start c))"

definition bump_base :: "allocator \<Rightarrow> nat" where
  "bump_base a = unat (heap_start a) + unat SLAB_REGION_BYTES"

definition slab_live :: "allocator \<Rightarrow> usize list list \<Rightarrow> usize \<Rightarrow> layout \<Rightarrow> bool" where
  "slab_live a fls p l \<longleftrightarrow> (\<exists>i < length (slabs a). p \<in> blocks (slabs a ! i) \<and> p \<notin> set (fls ! i)
     \<and> lsize l \<le> obj_size (slabs a ! i))"

definition bump_live :: "allocator \<Rightarrow> usize \<Rightarrow> layout \<Rightarrow> bool" where
  "bump_live a p l \<longleftrightarrow> bump_base a \<le> unat p \<and> unat p + unat (lsize l) \<le> unat (current (bump_reg a))"

definition slabs_inv :: "allocator \<Rightarrow> mem \<Rightarrow> usize list list \<Rightarrow> bool" where
  "slabs_inv a m fls \<longleftrightarrow> list_all2 (\<lambda>c fl. slab_inv c m fl) (slabs a) fls
     \<and> list_all aligned_geom (slabs a)
     \<and> regions_from (unat (heap_start a)) (slabs a) (bump_base a)"

definition live_disjoint :: "(usize \<times> layout) set \<Rightarrow> bool" where
  "live_disjoint L \<longleftrightarrow> (\<forall>x \<in> L. \<forall>y \<in> L. x \<noteq> y \<longrightarrow>
     span (fst x) (unat (lsize (snd x))) \<inter> span (fst y) (unat (lsize (snd y))) = {})"

definition live_ok :: "allocator \<Rightarrow> usize list list \<Rightarrow> (usize \<times> layout) set \<Rightarrow> bool" where
  "live_ok a fls L \<longleftrightarrow> (\<forall>(p, l) \<in> L. 0 < unat (lsize l) \<and> unat (lalign l) dvd unat p
     \<and> (slab_live a fls p l \<or> bump_live a p l))"

definition heap_inv :: "allocator \<Rightarrow> mem \<Rightarrow> (usize \<times> layout) set \<Rightarrow> usize list list \<Rightarrow> bool" where
  "heap_inv a m L fls \<longleftrightarrow> initialized a \<and> 0 < unat (heap_start a) \<and> slabs_inv a m fls
     \<and> bump_base a \<le> unat (current (bump_reg a))
     \<and> unat (current (bump_reg a)) \<le> unat (bend (bump_reg a))
     \<and> live_ok a fls L \<and> live_disjoint L"

text \<open>
  The requests \<open>GlobalAlloc\<close> may be given: a nonzero size, a power-of-two alignment, and
  no address-space overflow when the heap's end is aligned up.
\<close>

definition layout_ok :: "allocator \<Rightarrow> layout \<Rightarrow> bool" where
  "layout_ok a l \<longleftrightarrow> 0 < unat (lsize l) \<and> (\<exists>k < 64. lalign l = 2 ^ k)
     \<and> unat (bend (bump_reg a)) + unat (lalign l) < 2 ^ 64"

section \<open>Regions\<close>

lemma region_start_le_end: "unat (region_start c) \<le> region_end c"
  by (simp add: region_end_def)

lemma regions_from_le: "regions_from lo cs hi \<Longrightarrow> lo \<le> hi"
  by (induction cs arbitrary: lo) (auto intro: order_trans region_start_le_end dest: order_trans)

lemma regions_from_bounds:
  "regions_from lo cs hi \<Longrightarrow> i < length cs \<Longrightarrow>
    lo \<le> unat (region_start (cs ! i)) \<and> region_end (cs ! i) \<le> hi"
proof (induction cs arbitrary: lo i)
  case (Cons c cs)
  then show ?case
  proof (cases i)
    case 0
    with Cons.prems show ?thesis by (auto dest: regions_from_le)
  next
    case (Suc j)
    with Cons.prems Cons.IH [of "region_end c" j] region_start_le_end [of c] show ?thesis by auto
  qed
qed simp

lemma regions_from_ordered:
  "regions_from lo cs hi \<Longrightarrow> i < j \<Longrightarrow> j < length cs \<Longrightarrow>
    region_end (cs ! i) \<le> unat (region_start (cs ! j))"
proof (induction cs arbitrary: lo i j)
  case (Cons c cs)
  then obtain j' where j: "j = Suc j'" by (cases j) auto
  show ?case
  proof (cases i)
    case 0
    with Cons.prems j regions_from_bounds [of "region_end c" cs hi j'] show ?thesis by auto
  next
    case (Suc i')
    with Cons.prems j Cons.IH [of "region_end c" i' j'] show ?thesis by auto
  qed
qed simp

lemma regions_disjoint:
  assumes "regions_from lo cs hi" "i < length cs" "j < length cs" "in_region (cs ! i) p" "in_region (cs ! j) p"
  shows "i = j"
proof (rule ccontr)
  assume "i \<noteq> j"
  then consider "i < j" | "j < i" by linarith
  then show False
    using regions_from_ordered [OF assms(1), of i j] regions_from_ordered [OF assms(1), of j i] assms
    by cases (auto simp: in_region_def)
qed

text \<open>Replacing a class by one of the same geometry keeps the layout of the regions.\<close>

lemma regions_from_update:
  "same_geom c' (cs ! i) \<Longrightarrow> regions_from lo (cs[i := c']) hi = regions_from lo cs hi"
proof (induction cs arbitrary: lo i)
  case (Cons c cs)
  then show ?case by (cases i) (auto simp: same_geom_eqs)
qed simp

lemma slabs_invD:
  assumes "slabs_inv a m fls" "i < length (slabs a)"
  shows "slab_inv (slabs a ! i) m (fls ! i)" "slab_geom (slabs a ! i)" "length fls = length (slabs a)"
    "aligned_geom (slabs a ! i)" "set (fls ! i) \<subseteq> blocks (slabs a ! i)"
    "region_end (slabs a ! i) \<le> bump_base a" "unat (heap_start a) \<le> unat (region_start (slabs a ! i))"
  using assms regions_from_bounds [of "unat (heap_start a)" "slabs a" "bump_base a" i]
  by (auto simp: slabs_inv_def slab_inv_def list_all2_conv_all_nth list_all_length)

text \<open>A client's write inside a block it holds touches no word of a free block.\<close>

lemma live_avoids_free_block:
  assumes inv: "heap_inv a m L fls" and p: "(p, l) \<in> L" and i: "i < length (slabs a)"
    and b: "b \<in> set (fls ! i)" and n: "n \<le> unat (obj_size (slabs a ! i))"
  shows "span p (unat (lsize l)) \<inter> span b n = {}"
proof -
  from inv have si: "slabs_inv a m fls" by (simp add: heap_inv_def)
  note ci = slabs_invD [OF si i]
  have bb: "b \<in> blocks (slabs a ! i)" using b ci by auto
  note breg = blocks_in_region [OF ci(2) bb]
  have sz: "n \<le> unat (obj_size (slabs a ! i))" "region_end (slabs a ! i) < 2 ^ 64"
    using ci(2) n by (auto simp: slab_geom_def)
  from inv p have "slab_live a fls p l \<or> bump_live a p l" by (auto simp: heap_inv_def live_ok_def)
  then show ?thesis
  proof
    assume "bump_live a p l"
    then have "bump_base a \<le> unat p" "unat p + unat (lsize l) \<le> 2 ^ 64"
      using unat_usize [of "current (bump_reg a)"] by (auto simp: bump_live_def)
    with breg sz ci(6) show ?thesis by (intro span_disjoint) auto
  next
    assume "slab_live a fls p l"
    then obtain j where j: "j < length (slabs a)" "p \<in> blocks (slabs a ! j)" "p \<notin> set (fls ! j)"
      "lsize l \<le> obj_size (slabs a ! j)" by (auto simp: slab_live_def)
    note cj = slabs_invD [OF si j(1)]
    have szj: "unat (lsize l) \<le> unat (obj_size (slabs a ! j))" using j(4) by (simp add: word_le_nat_alt)
    note preg = blocks_in_region [OF cj(2) j(2)]
    have rj: "region_end (slabs a ! j) < 2 ^ 64" using cj(2) by (simp add: slab_geom_def)
    show ?thesis
    proof (cases "i = j")
      case True
      with b j have "p \<noteq> b" by auto
      with True bb j szj sz cj(2) show ?thesis by (intro blocks_disjoint) auto
    next
      case False
      have reg: "regions_from (unat (heap_start a)) (slabs a) (bump_base a)"
        using si by (simp add: slabs_inv_def)
      from False consider "i < j" | "j < i" by linarith
      then have "unat p + unat (lsize l) \<le> unat b \<or> unat b + n \<le> unat p"
        using regions_from_ordered [OF reg, of i j] regions_from_ordered [OF reg, of j i] i j(1)
          breg(1,2) preg(1,2) szj sz(1)
        by cases auto
      with preg(2) breg(2) szj sz rj show ?thesis by (intro span_disjoint) auto
    qed
  qed
qed

lemma live_avoids_free:
  assumes "heap_inv a m L fls" "(p, l) \<in> L" "i < length (slabs a)" "b \<in> set (fls ! i)"
  shows "span p (unat (lsize l)) \<inter> span b 8 = {}"
  using assms slabs_invD(2) [of a m fls i]
  by (intro live_avoids_free_block) (auto simp: heap_inv_def slab_geom_def)

lemma slabs_inv_frame:
  assumes "slabs_inv a m fls"
    and "\<And>i b x. i < length (slabs a) \<Longrightarrow> b \<in> set (fls ! i) \<Longrightarrow> x \<in> span b 8 \<Longrightarrow> m x = m' x"
  shows "slabs_inv a m' fls"
  using assms slab_inv_frame [of _ m _ m']
  unfolding slabs_inv_def list_all2_conv_all_nth by (metis (no_types, lifting))

lemma heap_inv_write:
  assumes inv: "heap_inv a m L fls" and p: "(p, l) \<in> L" and x: "x \<in> span p (unat (lsize l))"
  shows "heap_inv a (m(x := v)) L fls"
proof -
  have "slabs_inv a (m(x := v)) fls"
  proof (rule slabs_inv_frame)
    show "slabs_inv a m fls" using inv by (simp add: heap_inv_def)
    fix i b y assume "i < length (slabs a)" "b \<in> set (fls ! i)" "y \<in> span b 8"
    with live_avoids_free [OF inv p] x show "m y = (m(x := v)) y" by auto
  qed
  with inv show ?thesis by (simp add: heap_inv_def)
qed

section \<open>Allocation\<close>

text \<open>A class can serve a request when both size and alignment fit and a block is free.\<close>

definition can_serve :: "slab_class \<Rightarrow> usize list \<Rightarrow> layout \<Rightarrow> bool" where
  "can_serve c fl l \<longleftrightarrow> lsize l \<le> obj_size c \<and> lalign l \<le> obj_size c \<and> fl \<noteq> []"

lemma slabs_alloc_spec:
  "list_all2 (\<lambda>c fl. slab_inv c m fl) cs fls \<Longrightarrow>
    (slabs_alloc m l cs = Some (None, cs) \<and> (\<forall>j < length cs. \<not> can_serve (cs ! j) (fls ! j) l))
    \<or> (\<exists>i p fl c'. i < length cs \<and> fls ! i = p # fl \<and> can_serve (cs ! i) (fls ! i) l
        \<and> (\<forall>j < i. \<not> can_serve (cs ! j) (fls ! j) l)
        \<and> slabs_alloc m l cs = Some (Some p, cs[i := c']) \<and> slab_inv c' m fl \<and> same_geom c' (cs ! i))"
proof (induction cs arbitrary: fls)
  case (Cons c cs)
  then obtain fl0 fls' where fls: "fls = fl0 # fls'" and inv: "slab_inv c m fl0"
    and rest: "list_all2 (\<lambda>c fl. slab_inv c m fl) cs fls'" by (auto simp: list_all2_Cons1)
  let ?fit = "lsize l \<le> obj_size c \<and> lalign l \<le> obj_size c"
  show ?case
  proof (cases "?fit \<and> fl0 \<noteq> []")
    case True
    then obtain p fl where fl: "fl0 = p # fl" by (cases fl0) auto
    obtain c' where c': "slab_alloc c m = Some (p, c')" "slab_inv c' m fl" "same_geom c' c"
      using slab_alloc_head inv fl by blast
    have "p \<noteq> 0" using inv fl by (auto simp: slab_inv_def)
    with True c' fl have "slabs_alloc m l (c # cs) = Some (Some p, (c # cs)[0 := c'])"
      "can_serve ((c # cs) ! 0) (fls ! 0) l" "fls ! 0 = p # fl" "same_geom c' ((c # cs) ! 0)"
      by (simp_all add: fls can_serve_def)
    with c'(2) show ?thesis by fastforce
  next
    case False
    have skip: "slabs_alloc m l (c # cs) = do { (r, cs') \<leftarrow> slabs_alloc m l cs; Some (r, c # cs') }"
      using False inv by (cases ?fit) (auto simp: slab_alloc_empty)
    have no: "\<not> can_serve c fl0 l" using False by (auto simp: can_serve_def)
    from Cons.IH [OF rest] show ?thesis
    proof (elim disjE exE conjE)
      assume "slabs_alloc m l cs = Some (None, cs)" "\<forall>j < length cs. \<not> can_serve (cs ! j) (fls' ! j) l"
      with skip no show ?thesis by (auto simp: fls nth_Cons split: nat.split)
    next
      fix i p fl c'
      assume i: "i < length cs" "fls' ! i = p # fl" "can_serve (cs ! i) (fls' ! i) l"
        "\<forall>j < i. \<not> can_serve (cs ! j) (fls' ! j) l"
        "slabs_alloc m l cs = Some (Some p, cs[i := c'])" "slab_inv c' m fl" "same_geom c' (cs ! i)"
      have "slabs_alloc m l (c # cs) = Some (Some p, (c # cs)[Suc i := c'])" using skip i by simp
      moreover have "\<forall>j < Suc i. \<not> can_serve ((c # cs) ! j) (fls ! j) l"
        using i(4) no by (auto simp: fls nth_Cons split: nat.split)
      ultimately show ?thesis
        using i by (intro disjI2 exI [of _ "Suc i"] exI [of _ p] exI [of _ fl] exI [of _ c']) (simp add: fls)
    qed
  qed
qed simp

lemma slabs_inv_update:
  assumes "slabs_inv a m fls" "i < length (slabs a)" "slab_inv c' m' fl" "same_geom c' (slabs a ! i)"
    and "\<And>j. j < length (slabs a) \<Longrightarrow> j \<noteq> i \<Longrightarrow> slab_inv (slabs a ! j) m' (fls ! j)"
  shows "slabs_inv (a\<lparr>slabs := (slabs a)[i := c']\<rparr>) m' (fls[i := fl])"
proof -
  have "aligned_geom c'" using slabs_invD(4) [OF assms(1,2)] assms(4)
    by (simp add: aligned_geom_def same_geom_eqs)
  moreover have "length fls = length (slabs a)" using assms(1,2) by (rule slabs_invD)
  ultimately show ?thesis
    using assms regions_from_update [OF assms(4)]
    by (auto simp: slabs_inv_def list_all2_conv_all_nth list_all_length nth_list_update bump_base_def)
qed

text \<open>The blocks and classes a live allocation refers to survive an update of one class.\<close>

lemma slab_live_update:
  assumes "i < length (slabs a)" "same_geom c' (slabs a ! i)" "length fls = length (slabs a)"
    and "slab_live a fls q k" "q \<noteq> p" "set fl \<subseteq> insert p (set (fls ! i))"
  shows "slab_live (a\<lparr>slabs := (slabs a)[i := c']\<rparr>) (fls[i := fl]) q k"
proof -
  from assms(4) obtain j where j: "j < length (slabs a)" "q \<in> blocks (slabs a ! j)"
    "q \<notin> set (fls ! j)" "lsize k \<le> obj_size (slabs a ! j)" by (auto simp: slab_live_def)
  then show ?thesis using assms
    by (auto simp: slab_live_def nth_list_update same_geom_eqs intro!: exI [of _ j])
qed

lemma pow2_le_dvd:
  assumes "(x :: nat) = 2 ^ j" "y = 2 ^ k" "x \<le> y"
  shows "x dvd y"
  using assms by (simp add: le_imp_power_dvd)

lemma block_aligned:
  assumes "slab_geom c" "aligned_geom c" "p \<in> blocks c"
    and al: "lalign l = 2 ^ j" "j < 64" "lalign l \<le> obj_size c"
  shows "unat (lalign l) dvd unat p"
proof -
  obtain k where k: "unat (obj_size c) = 2 ^ k" "2 ^ k dvd unat (region_start c)"
    using assms(2) by (auto simp: aligned_geom_def)
  obtain i where i: "i < unat (total c)" "p = block c i" using assms(3) by (auto simp: blocks_def)
  have "(2 :: nat) ^ j < 2 ^ 64" using al(2) by (rule power_strict_increasing) simp
  then have "unat (of_nat (2 ^ j) :: usize) = 2 ^ j" by (intro unat_of_nat_small) simp
  then have u: "unat (lalign l) = 2 ^ j" using al(1) by simp
  have "unat (lalign l) dvd unat (obj_size c)"
    using pow2_le_dvd [OF u k(1)] al(3) by (simp add: word_le_nat_alt)
  moreover have "unat p = unat (region_start c) + i * unat (obj_size c)"
    using assms(1) i by (simp add: unat_block)
  ultimately show ?thesis using k by (metis dvd_add dvd_mult dvd_trans)
qed

lemma live_disjoint_insert:
  assumes "live_disjoint L" "\<And>q k. (q, k) \<in> L \<Longrightarrow> span p (unat (lsize l)) \<inter> span q (unat (lsize k)) = {}"
  shows "live_disjoint (insert (p, l) L)"
  using assms by (fastforce simp: live_disjoint_def)

lemma span_self: "0 < n \<Longrightarrow> p \<in> span p n"
  by (simp add: span_def)

lemma live_ok_update:
  assumes inv: "heap_inv a m L fls" and i: "i < length (slabs a)" and c': "same_geom c' (slabs a ! i)"
    and fl: "set fl \<subseteq> insert p (set (fls ! i))" and L': "L' \<subseteq> L" "\<And>q k. (q, k) \<in> L' \<Longrightarrow> q \<noteq> p"
  shows "live_ok (a\<lparr>slabs := (slabs a)[i := c']\<rparr>) (fls[i := fl]) L'"
proof -
  have len: "length fls = length (slabs a)"
    using inv i slabs_invD(3) by (auto simp: heap_inv_def)
  have "slab_live (a\<lparr>slabs := (slabs a)[i := c']\<rparr>) (fls[i := fl]) q k
      \<or> bump_live (a\<lparr>slabs := (slabs a)[i := c']\<rparr>) q k" if q: "(q, k) \<in> L'" for q k
  proof -
    from q L' inv have "slab_live a fls q k \<or> bump_live a q k"
      by (auto simp: heap_inv_def live_ok_def)
    then show ?thesis
      using slab_live_update [OF i c' len _ L'(2) [OF q] fl] by (auto simp: bump_live_def bump_base_def)
  qed
  with inv L'(1) show ?thesis unfolding live_ok_def heap_inv_def by blast
qed

lemma heap_inv_alloc_slab:
  assumes inv: "heap_inv a m L fls" and lok: "layout_ok a l"
    and i: "i < length (slabs a)" "fls ! i = p # fl" "can_serve (slabs a ! i) (fls ! i) l"
    and c': "slab_inv c' m fl" "same_geom c' (slabs a ! i)"
  shows "heap_inv (a\<lparr>slabs := (slabs a)[i := c']\<rparr>) m (insert (p, l) L) (fls[i := fl])"
    and "(p, k) \<notin> L"
proof -
  let ?a = "a\<lparr>slabs := (slabs a)[i := c']\<rparr>"
  from inv have si: "slabs_inv a m fls" by (simp add: heap_inv_def)
  note ci = slabs_invD [OF si i(1)]
  have len: "length fls = length (slabs a)" by (rule ci)
  have sz: "unat (lsize l) \<le> unat (obj_size (slabs a ! i))" "lalign l \<le> obj_size (slabs a ! i)"
    using i(3) by (auto simp: can_serve_def word_le_nat_alt)
  have apart: "span q (unat (lsize k)) \<inter> span p (unat (lsize l)) = {}" if "(q, k) \<in> L" for q k
    using that inv i sz by (intro live_avoids_free_block) auto
  have fresh: "(p, k) \<notin> L" for k
  proof
    assume pk: "(p, k) \<in> L"
    then have "0 < unat (lsize k)" using inv by (auto simp: heap_inv_def live_ok_def)
    moreover have "0 < unat (lsize l)" using lok by (simp add: layout_ok_def)
    ultimately show False using apart [OF pk] span_self [of _ p] by blast
  qed
  then show "(p, k) \<notin> L" .
  have "slabs_inv ?a m (fls[i := fl])"
  proof (rule slabs_inv_update [OF si i(1) c'])
    fix j assume "j < length (slabs a)"
    then show "slab_inv (slabs a ! j) m (fls ! j)" by (rule slabs_invD(1) [OF si])
  qed
  moreover have "live_disjoint (insert (p, l) L)"
    using inv apart by (intro live_disjoint_insert) (auto simp: heap_inv_def)
  moreover have "live_ok ?a (fls[i := fl]) (insert (p, l) L)"
  proof -
    have "live_ok ?a (fls[i := fl]) L"
      using fresh i(2) by (intro live_ok_update [OF inv i(1) c'(2), where p = p]) auto
    moreover have pb: "p \<in> blocks (slabs a ! i)" using ci(5) i(2) by auto
    moreover have "p \<notin> set fl" using ci(1) i(2) by (auto simp: slab_inv_def)
    then have "slab_live ?a (fls[i := fl]) p l"
      using i sz pb c'(2) len
      by (auto simp: slab_live_def same_geom_eqs can_serve_def intro!: exI [of _ i])
    moreover obtain j where "lalign l = 2 ^ j" "j < 64" using lok by (auto simp: layout_ok_def)
    then have "unat (lalign l) dvd unat p"
      using ci(2,4) pb sz(2) by (intro block_aligned) auto
    ultimately show ?thesis using lok by (auto simp: live_ok_def layout_ok_def)
  qed
  ultimately show "heap_inv ?a m (insert (p, l) L) (fls[i := fl])"
    using inv by (simp add: heap_inv_def bump_base_def)
qed

text \<open>The bump region: what it hands out lies at or above the old bump pointer.\<close>

lemma bump_alloc_spec:
  assumes "layout_ok a l" "b = bump_reg a" "unat (current b) \<le> unat (bend b)"
  shows "bump_alloc b l = Some (0, b)
    \<or> (\<exists>p stop. bump_alloc b l = Some (p, b\<lparr>current := stop\<rparr>) \<and> unat (current b) \<le> unat p
        \<and> unat p + unat (lsize l) = unat stop \<and> unat stop \<le> unat (bend b)
        \<and> unat (lalign l) dvd unat p)"
proof -
  obtain k where k: "k < 64" "lalign l = 2 ^ k" using assms(1) by (auto simp: layout_ok_def)
  have ov: "unat (bend b) + unat (lalign l) < 2 ^ 64" using assms(1,2) by (simp add: layout_ok_def)
  obtain p where p: "align_up (current b) (lalign l) = Some p" "unat (current b) \<le> unat p"
    "unat (lalign l) dvd unat p"
    using align_up_spec [OF k(2,1), of "current b"] ov assms(3) by auto
  show ?thesis
  proof (cases "unat p + unat (lsize l) < 2 ^ 64")
    case True
    then have "unat (p + lsize l) = unat p + unat (lsize l)" by (simp add: unat_plus_no_overflow)
    then show ?thesis using p True
      by (auto simp: bump_alloc_def sat_add_def Let_def word_less_nat_alt not_less)
  next
    case False
    have "bend b < - 1"
    proof -
      have "bend b \<noteq> - 1"
      proof
        assume "bend b = - 1"
        then have "unat (bend b) = 2 ^ 64 - 1" by (simp add: unsigned_minus_1_eq_mask mask_eq_exp_minus_1)
        then have "unat (lalign l) = 0" using ov by simp
        then have "(2 :: usize) ^ k = 0" using k(2) by (simp add: unsigned_eq_0_iff)
        with k(1) show False by simp
      qed
      then show ?thesis by (simp add: word_order.not_eq_extremum)
    qed
    with False p show ?thesis by (auto simp: bump_alloc_def sat_add_def Let_def)
  qed
qed

lemma heap_inv_alloc_bump:
  assumes inv: "heap_inv a m L fls" and lok: "layout_ok a l"
    and b: "unat (current (bump_reg a)) \<le> unat p" "unat p + unat (lsize l) = unat stop"
      "unat stop \<le> unat (bend (bump_reg a))" "unat (lalign l) dvd unat p"
  shows "heap_inv (a\<lparr>bump_reg := (bump_reg a)\<lparr>current := stop\<rparr>\<rparr>) m (insert (p, l) L) fls"
    and "(p, k) \<notin> L"
proof -
  let ?a = "a\<lparr>bump_reg := (bump_reg a)\<lparr>current := stop\<rparr>\<rparr>"
  from inv have si: "slabs_inv a m fls" and base: "bump_base a \<le> unat (current (bump_reg a))"
    by (auto simp: heap_inv_def)
  have below: "unat q + unat (lsize k) \<le> unat p" if q: "(q, k) \<in> L" for q k
  proof -
    from q inv have "slab_live a fls q k \<or> bump_live a q k"
      by (auto simp: heap_inv_def live_ok_def)
    then show ?thesis
    proof
      assume "slab_live a fls q k"
      then obtain j where j: "j < length (slabs a)" "q \<in> blocks (slabs a ! j)"
        "lsize k \<le> obj_size (slabs a ! j)" by (auto simp: slab_live_def)
      note cj = slabs_invD [OF si j(1)]
      from blocks_in_region(2) [OF cj(2) j(2)] j(3) cj(6) base b(1) show ?thesis
        by (simp add: word_le_nat_alt)
    next
      assume "bump_live a q k"
      with b(1) show ?thesis by (simp add: bump_live_def)
    qed
  qed
  have apart: "span p (unat (lsize l)) \<inter> span q (unat (lsize k)) = {}" if "(q, k) \<in> L" for q k
    using below [OF that] b unat_usize [of stop] unat_usize [of p] by (intro span_disjoint) auto
  have pos: "0 < unat (lsize l)" using lok by (simp add: layout_ok_def)
  show "(p, k) \<notin> L"
  proof
    assume pk: "(p, k) \<in> L"
    then have "0 < unat (lsize k)" using inv by (auto simp: heap_inv_def live_ok_def)
    with below [OF pk] show False by simp
  qed
  have "slabs_inv ?a m fls" using si by (simp add: slabs_inv_def bump_base_def)
  moreover have "live_disjoint (insert (p, l) L)"
    using inv apart by (intro live_disjoint_insert) (auto simp: heap_inv_def)
  moreover have "slab_live ?a fls q k \<or> bump_live ?a q k" if "slab_live a fls q k \<or> bump_live a q k" for q k
    using that b by (auto simp: slab_live_def bump_live_def bump_base_def)
  then have "live_ok ?a fls L" using inv unfolding heap_inv_def live_ok_def by blast
  moreover have "bump_live ?a p l" using b base by (simp add: bump_live_def bump_base_def)
  ultimately show "heap_inv ?a m (insert (p, l) L) fls"
    using inv b pos by (auto simp: heap_inv_def bump_base_def live_ok_def)
qed

text \<open>
  Allocation never panics; it either answers null and changes nothing, or a fresh aligned
  block disjoint from every live one.
\<close>

lemma heap_inv_alloc:
  assumes inv: "heap_inv a m L fls" and lok: "layout_ok a l"
  shows "\<exists>p a'. sa_alloc a m l = Some (p, a') \<and> bend (bump_reg a') = bend (bump_reg a)
    \<and> heap_start a' = heap_start a
    \<and> (if p = 0 then a' = a
       else (\<forall>k. (p, k) \<notin> L) \<and> (\<exists>fls'. heap_inv a' m (insert (p, l) L) fls'))"
proof -
  from inv have init: "initialized a" and si: "slabs_inv a m fls"
    and all2: "list_all2 (\<lambda>c fl. slab_inv c m fl) (slabs a) fls"
    and cur: "unat (current (bump_reg a)) \<le> unat (bend (bump_reg a))"
    and low: "0 < unat (heap_start a)" "bump_base a \<le> unat (current (bump_reg a))"
    by (auto simp: heap_inv_def slabs_inv_def)
  from slabs_alloc_spec [OF all2, of l] show ?thesis
  proof (elim disjE exE conjE)
    assume none: "slabs_alloc m l (slabs a) = Some (None, slabs a)"
    from bump_alloc_spec [OF lok refl cur] show ?thesis
    proof (elim disjE exE conjE)
      assume "bump_alloc (bump_reg a) l = Some (0, bump_reg a)"
      with none init show ?thesis by (simp add: sa_alloc_def)
    next
      fix p stop
      assume b: "bump_alloc (bump_reg a) l = Some (p, (bump_reg a)\<lparr>current := stop\<rparr>)"
        "unat (current (bump_reg a)) \<le> unat p" "unat p + unat (lsize l) = unat stop"
        "unat stop \<le> unat (bend (bump_reg a))" "unat (lalign l) dvd unat p"
      have "p \<noteq> 0" using low b(2) by (auto simp: bump_base_def)
      with none init b(1) heap_inv_alloc_bump [OF inv lok b(2-5)] show ?thesis
        by (auto simp: sa_alloc_def)
    qed
  next
    fix i p fl c'
    assume i: "i < length (slabs a)" "fls ! i = p # fl" "can_serve (slabs a ! i) (fls ! i) l"
      and run: "slabs_alloc m l (slabs a) = Some (Some p, (slabs a)[i := c'])"
      and c': "slab_inv c' m fl" "same_geom c' (slabs a ! i)"
    have "p \<in> blocks (slabs a ! i)" using slabs_invD(5) [OF si i(1)] i(2) by auto
    then have "p \<noteq> 0" by (rule blocks_in_region(3) [OF slabs_invD(2) [OF si i(1)]])
    with run init heap_inv_alloc_slab [OF inv lok i c'] show ?thesis by (auto simp: sa_alloc_def)
  qed
qed

section \<open>Freeing\<close>

lemma slabs_dealloc_owner:
  "(\<And>c. c \<in> set cs \<Longrightarrow> slab_geom c) \<Longrightarrow> i < length cs \<Longrightarrow> in_region (cs ! i) p \<Longrightarrow>
    (\<And>j. j < i \<Longrightarrow> \<not> in_region (cs ! j) p) \<Longrightarrow> slab_dealloc (cs ! i) m p = Some (c', m') \<Longrightarrow>
    slabs_dealloc m p cs = Some (cs[i := c'], m')"
proof (induction cs arbitrary: i)
  case (Cons c cs)
  show ?case
  proof (cases i)
    case 0
    with Cons.prems show ?thesis by (simp add: slab_owns_iff)
  next
    case (Suc k)
    have "\<not> in_region c p" using Cons.prems(4) [of 0] Suc by simp
    moreover have "slabs_dealloc m p cs = Some (cs[k := c'], m')"
    proof (rule Cons.IH)
      fix j assume "j < k"
      then show "\<not> in_region (cs ! j) p" using Cons.prems(4) [of "Suc j"] Suc by simp
    qed (use Cons.prems Suc in auto)
    ultimately show ?thesis using Cons.prems(1) Suc by (simp add: slab_owns_iff)
  qed
qed simp

lemma slabs_dealloc_none:
  "(\<And>c. c \<in> set cs \<Longrightarrow> slab_geom c \<and> \<not> in_region c p) \<Longrightarrow> slabs_dealloc m p cs = Some (cs, m)"
  by (induction cs) (auto simp: slab_owns_iff)

lemma blocks_apart:
  assumes si: "slabs_inv a m fls" and i: "i < length (slabs a)" "p \<in> blocks (slabs a ! i)"
    and j: "j < length (slabs a)" "b \<in> blocks (slabs a ! j)" and neq: "i \<noteq> j"
  shows "span p 8 \<inter> span b 8 = {}"
proof -
  note ci = slabs_invD [OF si i(1)] note cj = slabs_invD [OF si j(1)]
  note pi = blocks_in_region [OF ci(2) i(2)] note bj = blocks_in_region [OF cj(2) j(2)]
  have reg: "regions_from (unat (heap_start a)) (slabs a) (bump_base a)"
    using si by (simp add: slabs_inv_def)
  from neq consider "i < j" | "j < i" by linarith
  then have "unat p + 8 \<le> unat b \<or> unat b + 8 \<le> unat p"
    using regions_from_ordered [OF reg, of i j] regions_from_ordered [OF reg, of j i] i(1) j(1)
      pi(1,2) bj(1,2) ci(2) cj(2)
    by cases (auto simp: slab_geom_def)
  with pi(2) bj(2) ci(2) cj(2) show ?thesis by (intro span_disjoint) (auto simp: slab_geom_def)
qed

lemma live_ptr_unique:
  assumes "live_disjoint L" "(p, l) \<in> L" "(q, k) \<in> L" "(p, l) \<noteq> (q, k)"
    "0 < unat (lsize l)" "0 < unat (lsize k)"
  shows "p \<noteq> q"
proof
  assume "p = q"
  have "span p (unat (lsize l)) \<inter> span q (unat (lsize k)) = {}"
    using assms(1-4) unfolding live_disjoint_def by (metis fst_conv snd_conv)
  with \<open>p = q\<close> assms(5,6) show False using span_self [of _ p] by blast
qed

lemma live_disjoint_subset: "live_disjoint L \<Longrightarrow> L' \<subseteq> L \<Longrightarrow> live_disjoint L'"
  unfolding live_disjoint_def by blast

lemma heap_inv_dealloc_slab:
  assumes inv: "heap_inv a m L fls" and p: "(p, l) \<in> L"
    and i: "i < length (slabs a)" "p \<in> blocks (slabs a ! i)" "p \<notin> set (fls ! i)"
  shows "\<exists>c' m'. sa_dealloc a m p = Some (a\<lparr>slabs := (slabs a)[i := c']\<rparr>, m')
    \<and> heap_inv (a\<lparr>slabs := (slabs a)[i := c']\<rparr>) m' (L - {(p, l)}) (fls[i := p # fls ! i])
    \<and> (\<forall>x. x \<notin> span p 8 \<longrightarrow> m' x = m x)"
proof -
  from inv have si: "slabs_inv a m fls" and dis: "live_disjoint L" and ok: "live_ok a fls L"
    by (auto simp: heap_inv_def)
  note ci = slabs_invD [OF si i(1)]
  obtain c' m' where c': "slab_dealloc (slabs a ! i) m p = Some (c', m')"
    "slab_inv c' m' (p # fls ! i)" "same_geom c' (slabs a ! i)" "\<forall>x. x \<notin> span p 8 \<longrightarrow> m' x = m x"
    using slab_dealloc_push [OF ci(1) i(2,3)] by blast
  let ?a = "a\<lparr>slabs := (slabs a)[i := c']\<rparr>" and ?L = "L - {(p, l)}"
  have "slabs_dealloc m p (slabs a) = Some ((slabs a)[i := c'], m')"
  proof (rule slabs_dealloc_owner [OF _ i(1) _ _ c'(1)])
    show "slab_geom c" if "c \<in> set (slabs a)" for c
      using that slabs_invD(2) [OF si] by (auto simp: in_set_conv_nth)
    show here: "in_region (slabs a ! i) p" by (rule blocks_in_region(4) [OF ci(2) i(2)])
    show "\<not> in_region (slabs a ! j) p" if "j < i" for j
      using regions_disjoint [of _ "slabs a" _ j i p] si here that i(1) by (auto simp: slabs_inv_def)
  qed
  then have "sa_dealloc a m p = Some (?a, m')" by (simp add: sa_dealloc_def)
  moreover have "slabs_inv ?a m' (fls[i := p # fls ! i])"
  proof (rule slabs_inv_update [OF si i(1) c'(2,3)])
    fix j assume j: "j < length (slabs a)" "j \<noteq> i"
    note cj = slabs_invD [OF si j(1)]
    show "slab_inv (slabs a ! j) m' (fls ! j)"
    proof (rule slab_inv_frame [OF cj(1)])
      fix b x assume b: "b \<in> set (fls ! j)" "x \<in> span b 8"
      then have "x \<notin> span p 8"
        using blocks_apart [OF si i(1,2) j(1), of b] cj(5) j(2) by blast
      with c'(4) show "m x = m' x" by simp
    qed
  qed
  moreover have "live_ok ?a (fls[i := p # fls ! i]) ?L"
  proof (rule live_ok_update [OF inv i(1) c'(3), where p = p])
    show "q \<noteq> p" if q: "(q, k) \<in> ?L" for q k
    proof -
      have "0 < unat (lsize l)" "0 < unat (lsize k)" using q p ok by (auto simp: live_ok_def)
      with live_ptr_unique [OF dis p, of q k] q show ?thesis by auto
    qed
  qed auto
  moreover have "live_disjoint ?L" using live_disjoint_subset [OF dis] by blast
  ultimately show ?thesis using c'(4) inv by (auto simp: heap_inv_def bump_base_def)
qed

text \<open>
  Freeing a live block never panics, keeps the invariant without it, and leaves the contents
  of every other live block alone.
\<close>

lemma heap_inv_dealloc:
  assumes inv: "heap_inv a m L fls" and p: "(p, l) \<in> L"
  shows "\<exists>a' m' fls'. sa_dealloc a m p = Some (a', m') \<and> heap_inv a' m' (L - {(p, l)}) fls'
    \<and> bend (bump_reg a') = bend (bump_reg a) \<and> heap_start a' = heap_start a
    \<and> (\<forall>(q, k) \<in> L - {(p, l)}. \<forall>x \<in> span q (unat (lsize k)). m' x = m x)"
proof -
  from inv have si: "slabs_inv a m fls" by (simp add: heap_inv_def)
  from inv p consider (slab) "slab_live a fls p l" | (bump) "bump_live a p l"
    by (auto simp: heap_inv_def live_ok_def)
  then show ?thesis
  proof cases
    case slab
    then obtain i where i: "i < length (slabs a)" "p \<in> blocks (slabs a ! i)" "p \<notin> set (fls ! i)"
      by (auto simp: slab_live_def)
    obtain c' m' where d: "sa_dealloc a m p = Some (a\<lparr>slabs := (slabs a)[i := c']\<rparr>, m')"
      "heap_inv (a\<lparr>slabs := (slabs a)[i := c']\<rparr>) m' (L - {(p, l)}) (fls[i := p # fls ! i])"
      "\<forall>x. x \<notin> span p 8 \<longrightarrow> m' x = m x"
      using heap_inv_dealloc_slab [OF inv p i] by blast
    have len: "length fls = length (slabs a)" by (rule slabs_invD(3) [OF si i(1)])
    have keep: "m' x = m x" if q: "(q, k) \<in> L - {(p, l)}" and x: "x \<in> span q (unat (lsize k))" for q k x
    proof -
      have "span q (unat (lsize k)) \<inter> span p 8 = {}"
        using i(1) len by (intro live_avoids_free [OF d(2) q, of i]) auto
      with x d(3) show ?thesis by auto
    qed
    then have "\<forall>(q, k) \<in> L - {(p, l)}. \<forall>x \<in> span q (unat (lsize k)). m' x = m x" by fast
    moreover have "bend (bump_reg (a\<lparr>slabs := (slabs a)[i := c']\<rparr>)) = bend (bump_reg a)"
      "heap_start (a\<lparr>slabs := (slabs a)[i := c']\<rparr>) = heap_start a" by simp_all
    ultimately show ?thesis using d(1,2) by blast
  next
    case bump
    have "slabs_dealloc m p (slabs a) = Some (slabs a, m)"
    proof (rule slabs_dealloc_none)
      fix c assume "c \<in> set (slabs a)"
      then obtain i where i: "i < length (slabs a)" "c = slabs a ! i" by (auto simp: in_set_conv_nth)
      with bump slabs_invD(2,6) [OF si i(1)] show "slab_geom c \<and> \<not> in_region c p"
        by (auto simp: in_region_def bump_live_def)
    qed
    then have "sa_dealloc a m p = Some (a, m)" by (simp add: sa_dealloc_def)
    moreover have "heap_inv a m (L - {(p, l)}) fls"
      using inv live_disjoint_subset [of L "L - {(p, l)}"] by (auto simp: heap_inv_def live_ok_def)
    ultimately show ?thesis by auto
  qed
qed

section \<open>Initialisation\<close>

definition slab_sizes_ok :: "(slab_class \<times> usize) list \<Rightarrow> bool" where
  "slab_sizes_ok zs \<longleftrightarrow> (\<forall>(c, sz) \<in> set zs. obj_size c = sz \<and> 8 \<le> unat sz \<and> unat sz dvd 256
     \<and> (\<exists>k. unat sz = 2 ^ k))"

definition slab_bytes :: "(slab_class \<times> usize) list \<Rightarrow> nat" where
  "slab_bytes zs = 512 * sum_list (map (\<lambda>z. unat (snd z)) zs)"

text \<open>Carving one class: nothing overflows, and its list holds its 512 objects.\<close>

lemma slab_carve:
  assumes z: "slab_sizes_ok [(c, sz)]" and heap: "0 < unat heap" "256 dvd unat heap" "256 dvd unat off"
    and tot: "unat heap + unat off + 512 * unat sz < 2 ^ 64"
  shows "\<exists>d m1. cadd heap off = Some (heap + off) \<and> cmul sz (of_nat OBJECTS_PER_CLASS) = Some (sz * 512)
    \<and> cadd off (sz * 512) = Some (off + sz * 512) \<and> unat (off + sz * 512) = unat off + 512 * unat sz
    \<and> slab_init c m (heap + off) OBJECTS_PER_CLASS = Some (d, m1)
    \<and> slab_inv d m1 (map (block d) [0..<OBJECTS_PER_CLASS]) \<and> (\<forall>x. \<not> in_region d x \<longrightarrow> m1 x = m x)
    \<and> aligned_geom d \<and> obj_size d = sz \<and> unat (total d) = 512
    \<and> unat (region_start d) = unat heap + unat off \<and> region_end d = unat heap + unat (off + sz * 512)"
proof -
  have sz: "obj_size c = sz" "8 \<le> unat sz" "unat sz dvd 256" using z by (auto simp: slab_sizes_ok_def)
  obtain k where k: "unat sz = 2 ^ k" using z by (auto simp: slab_sizes_ok_def)
  have start: "cadd heap off = Some (heap + off)" "unat (heap + off) = unat heap + unat off"
    using tot by (simp_all add: cadd_def unat_plus_no_overflow)
  have len: "cmul sz (of_nat OBJECTS_PER_CLASS) = Some (sz * 512)" "unat (sz * 512) = 512 * unat sz"
    using tot by (simp_all add: cmul_def OBJECTS_PER_CLASS_def unat_times_no_overflow)
  have off1: "cadd off (sz * 512) = Some (off + sz * 512)" "unat (off + sz * 512) = unat off + 512 * unat sz"
    using tot len(2) by (simp_all add: cadd_def unat_plus_no_overflow)
  define d where "d = c\<lparr>region_start := heap + off, total := of_nat OBJECTS_PER_CLASS,
     free_count := of_nat OBJECTS_PER_CLASS, free_head := heap + off\<rparr>"
  obtain m1 where m1: "slab_init c m (heap + off) OBJECTS_PER_CLASS = Some (d, m1)"
    "slab_inv d m1 (map (block d) [0..<OBJECTS_PER_CLASS])" "\<forall>x. \<not> in_region d x \<longrightarrow> m1 x = m x"
    using slab_init_fresh [of c "heap + off" OBJECTS_PER_CLASS m] sz start tot heap(1)
    by (auto simp: d_def OBJECTS_PER_CLASS_def)
  have d: "region_start d = heap + off" "obj_size d = sz" "unat (total d) = 512"
    using sz by (simp_all add: d_def OBJECTS_PER_CLASS_def)
  have "256 dvd unat heap + unat off" using heap(2,3) by (rule dvd_add)
  then have "unat sz dvd unat heap + unat off" using sz(3) by (rule dvd_trans [rotated])
  then have "aligned_geom d" using k start by (auto simp: aligned_geom_def d)
  with start len off1 m1 d show ?thesis by (intro exI [of _ d] exI [of _ m1]) (simp add: region_end_def)
qed

text \<open>A class keeps its list when memory is written beyond its region only.\<close>

lemma slab_inv_beyond:
  assumes inv: "slab_inv d m fl" and same: "\<forall>x. unat x < region_end d \<longrightarrow> m' x = m x"
  shows "slab_inv d m' fl"
proof (rule slab_inv_frame [OF inv])
  have dg: "slab_geom d" and db: "set fl \<subseteq> blocks d" using inv by (auto simp: slab_inv_def)
  fix b x assume b: "b \<in> set fl" and x: "x \<in> span b 8"
  then have "b \<in> blocks d" using db by auto
  note bd = blocks_in_region [OF dg this]
  have "unat b + 8 \<le> region_end d" "region_end d < 2 ^ 64" using bd(2) dg by (auto simp: slab_geom_def)
  then have "unat x < region_end d" using x by (simp add: span_interval)
  then show "m x = m' x" using same by simp
qed

lemma slabs_init_fresh:
  assumes "slab_sizes_ok zs" "0 < unat heap" "256 dvd unat heap" "256 dvd unat off"
    and "unat heap + unat off + slab_bytes zs < 2 ^ 64"
  shows "\<exists>off' cs m' fls. slabs_init heap off zs m = Some (off', cs, m')
    \<and> unat off' = unat off + slab_bytes zs
    \<and> list_all2 (\<lambda>c fl. slab_inv c m' fl) cs fls \<and> list_all aligned_geom cs
    \<and> regions_from (unat heap + unat off) cs (unat heap + unat off')
    \<and> (\<forall>x. unat x < unat heap + unat off \<or> unat heap + unat off' \<le> unat x \<longrightarrow> m' x = m x)
    \<and> map obj_size cs = map snd zs \<and> map length fls = map (\<lambda>_. 512) zs
    \<and> map (\<lambda>c. unat (total c)) cs = map (\<lambda>_. 512) zs"
  using assms
proof (induction zs arbitrary: off m)
  case Nil
  then show ?case by (simp add: slab_bytes_def)
next
  case (Cons z zs)
  obtain c sz where z: "z = (c, sz)" by (cases z)
  have tot: "unat heap + unat off + 512 * unat sz + slab_bytes zs < 2 ^ 64"
    using Cons.prems(5) z by (simp add: slab_bytes_def algebra_simps)
  have "slab_sizes_ok [(c, sz)]" using Cons.prems(1) z by (simp add: slab_sizes_ok_def)
  from slab_carve [OF this Cons.prems(2-4), of m] tot obtain d m1 where
    start: "cadd heap off = Some (heap + off)" "cmul sz (of_nat OBJECTS_PER_CLASS) = Some (sz * 512)"
      "cadd off (sz * 512) = Some (off + sz * 512)" and off1: "unat (off + sz * 512) = unat off + 512 * unat sz"
    and m1: "slab_init c m (heap + off) OBJECTS_PER_CLASS = Some (d, m1)"
      "slab_inv d m1 (map (block d) [0..<OBJECTS_PER_CLASS])" "\<forall>x. \<not> in_region d x \<longrightarrow> m1 x = m x"
    and d: "aligned_geom d" "obj_size d = sz" "unat (total d) = 512"
      "unat (region_start d) = unat heap + unat off" "region_end d = unat heap + unat (off + sz * 512)"
    by auto
  have "256 dvd unat (off + sz * 512)"
    using Cons.prems(4) off1 by simp
  then obtain off' cs m' fls where IH: "slabs_init heap (off + sz * 512) zs m1 = Some (off', cs, m')"
    "unat off' = unat (off + sz * 512) + slab_bytes zs"
    "list_all2 (\<lambda>c fl. slab_inv c m' fl) cs fls" "list_all aligned_geom cs"
    "regions_from (unat heap + unat (off + sz * 512)) cs (unat heap + unat off')"
    "\<forall>x. unat x < unat heap + unat (off + sz * 512) \<or> unat heap + unat off' \<le> unat x \<longrightarrow> m' x = m1 x"
    "map obj_size cs = map snd zs" "map length fls = map (\<lambda>_. 512) zs"
    "map (\<lambda>c. unat (total c)) cs = map (\<lambda>_. 512) zs"
    using Cons.IH [of "off + sz * 512" m1] Cons.prems tot off1 by (auto simp: slab_sizes_ok_def)
  have "slab_inv d m' (map (block d) [0..<OBJECTS_PER_CLASS])"
    by (rule slab_inv_beyond [OF m1(2)]) (use IH(6) in \<open>simp add: d(5)\<close>)
  then have "list_all2 (\<lambda>c fl. slab_inv c m' fl) (d # cs) (map (block d) [0..<OBJECTS_PER_CLASS] # fls)"
    using IH(3) by simp
  moreover have "slabs_init heap off (z # zs) m = Some (off', d # cs, m')"
    using z start m1 IH(1) by simp
  moreover have "regions_from (unat heap + unat off) (d # cs) (unat heap + unat off')"
    using IH(5) by (simp add: d)
  moreover have "m' x = m x" if x: "unat x < unat heap + unat off \<or> unat heap + unat off' \<le> unat x" for x
    using IH(2,6) m1(3) x off1 by (auto simp: in_region_def d)
  moreover have "unat off' = unat off + slab_bytes (z # zs)"
    using IH(2) off1 z by (simp add: slab_bytes_def)
  moreover have "map obj_size (d # cs) = map snd (z # zs)" "map (\<lambda>c. unat (total c)) (d # cs) = map (\<lambda>_. 512) (z # zs)"
    using IH(7,9) z d by simp_all
  moreover have "map length (map (block d) [0..<OBJECTS_PER_CLASS] # fls) = map (\<lambda>_. 512) (z # zs)"
    using IH(8) by (simp add: OBJECTS_PER_CLASS_def)
  ultimately show ?case using d(1) IH(4)
    by (intro exI [of _ off'] exI [of _ "d # cs"] exI [of _ m']
        exI [of _ "map (block d) [0..<OBJECTS_PER_CLASS] # fls"] conjI) auto
qed

text \<open>The address ranges \<open>allocator::init\<close> may be given.\<close>

definition heap_args_ok :: "usize \<Rightarrow> usize \<Rightarrow> bool" where
  "heap_args_ok hv hs \<longleftrightarrow> 0 < unat hv \<and> 256 dvd unat hv \<and> unat SLAB_REGION_BYTES \<le> unat hs
     \<and> unat hv + unat hs < 2 ^ 64"

lemma SLAB_REGION_BYTES_value: "SLAB_REGION_BYTES = 258048"
  by (simp add: SLAB_REGION_BYTES_def OBJECTS_PER_CLASS_def)

lemma sa_new_slabs: "zip (slabs sa_new) SLAB_SIZES =
    [(slab_new 8, 8), (slab_new 16, 16), (slab_new 32, 32), (slab_new 64, 64), (slab_new 128, 128),
     (slab_new 256, 256)]"
  by (simp add: sa_new_def SLAB_SIZES_def)

lemma sa_new_sizes_ok: "slab_sizes_ok (zip (slabs sa_new) SLAB_SIZES)"
proof -
  have "\<exists>k. (8 :: nat) = 2 ^ k" "\<exists>k. (16 :: nat) = 2 ^ k" "\<exists>k. (32 :: nat) = 2 ^ k"
    "\<exists>k. (64 :: nat) = 2 ^ k" "\<exists>k. (128 :: nat) = 2 ^ k" "\<exists>k. (256 :: nat) = 2 ^ k"
    by (rule exI [of _ 3], simp, rule exI [of _ 4], simp, rule exI [of _ 5], simp,
        rule exI [of _ 6], simp, rule exI [of _ 7], simp, rule exI [of _ 8], simp)
  then show ?thesis by (simp add: slab_sizes_ok_def sa_new_slabs slab_new_def)
qed

lemma sa_init_heap_inv:
  assumes ok: "heap_args_ok hv hs"
  shows "\<exists>a m' fls. sa_init sa_new m hv hs = Some (a, m') \<and> heap_inv a m' {} fls
    \<and> heap_start a = hv \<and> bend (bump_reg a) = hv + hs
    \<and> map (\<lambda>c. unat (free_count c)) (slabs a) = replicate 6 512
    \<and> map obj_size (slabs a) = SLAB_SIZES
    \<and> unat (current (bump_reg a)) = unat hv + 258048
    \<and> (\<forall>x. unat x < unat hv \<or> unat hv + 258048 \<le> unat x \<longrightarrow> m' x = m x)"
proof -
  let ?zs = "zip (slabs sa_new) SLAB_SIZES"
  have bytes: "slab_bytes ?zs = 258048" by (simp add: slab_bytes_def sa_new_slabs)
  have hv: "0 < unat hv" "256 dvd unat hv" "258048 \<le> unat hs" "unat hv + unat hs < 2 ^ 64"
    using ok by (auto simp: heap_args_ok_def SLAB_REGION_BYTES_value)
  obtain off cs m' fls where run: "slabs_init hv 0 ?zs m = Some (off, cs, m')" "unat off = 258048"
    "list_all2 (\<lambda>c fl. slab_inv c m' fl) cs fls" "list_all aligned_geom cs"
    "regions_from (unat hv) cs (unat hv + 258048)"
    "\<forall>x. unat x < unat hv \<or> unat hv + 258048 \<le> unat x \<longrightarrow> m' x = m x"
    "map obj_size cs = map snd ?zs" "map length fls = map (\<lambda>_. 512) ?zs"
    using slabs_init_fresh [OF sa_new_sizes_ok hv(1,2), of 0 m] bytes hv by auto
  let ?a = "sa_new\<lparr>heap_start := hv, slabs := cs,
    bump_reg := \<lparr>current = hv + off, bend = hv + hs\<rparr>, initialized := True\<rparr>"
  have cur: "unat (hv + off) = unat hv + 258048" "unat (hv + hs) = unat hv + unat hs"
    using hv run(2) by (simp_all add: unat_plus_no_overflow)
  have "sa_init sa_new m hv hs = Some (?a, m')"
    using run(1,2) hv by (simp add: sa_init_def cadd_def)
  moreover have "heap_inv ?a m' {} fls"
    using run hv cur
    by (simp add: heap_inv_def slabs_inv_def bump_base_def SLAB_REGION_BYTES_value live_ok_def
        live_disjoint_def)
  moreover have "map (\<lambda>c. unat (free_count c)) cs = map length fls"
    using run(3) by (auto simp: list_all2_conv_all_nth slab_inv_def intro!: nth_equalityI)
  moreover have "map (\<lambda>_. 512) ?zs = replicate 6 (512 :: nat)"
    by (simp add: sa_new_slabs numeral_eq_Suc)
  moreover have "map snd ?zs = SLAB_SIZES"
    by (simp only: sa_new_slabs) (simp add: SLAB_SIZES_def)
  ultimately show ?thesis using run cur by auto
qed

lemma live_in_heap:
  assumes inv: "heap_inv a m L fls" and p: "(p, l) \<in> L"
  shows "p \<noteq> 0 \<and> unat (lalign l) dvd unat p \<and> unat (heap_start a) \<le> unat p
    \<and> unat p + unat (lsize l) \<le> unat (bend (bump_reg a))"
proof -
  from inv have si: "slabs_inv a m fls" and pos: "0 < unat (heap_start a)"
    and b: "bump_base a \<le> unat (current (bump_reg a))" "unat (current (bump_reg a)) \<le> unat (bend (bump_reg a))"
    by (auto simp: heap_inv_def)
  have al: "unat (lalign l) dvd unat p" using inv p by (auto simp: heap_inv_def live_ok_def)
  have lo: "unat (heap_start a) \<le> bump_base a" by (simp add: bump_base_def)
  from inv p have "slab_live a fls p l \<or> bump_live a p l" by (auto simp: heap_inv_def live_ok_def)
  then have "unat (heap_start a) \<le> unat p \<and> unat p + unat (lsize l) \<le> unat (bend (bump_reg a))"
  proof
    assume "slab_live a fls p l"
    then obtain i where i: "i < length (slabs a)" "p \<in> blocks (slabs a ! i)"
      "lsize l \<le> obj_size (slabs a ! i)" by (auto simp: slab_live_def)
    note ci = slabs_invD [OF si i(1)]
    from blocks_in_region [OF ci(2) i(2)] ci(6,7) i(3) b show ?thesis by (simp add: word_le_nat_alt)
  next
    assume "bump_live a p l"
    with b lo show ?thesis by (simp add: bump_live_def)
  qed
  with al pos show ?thesis by auto
qed

end
