(* ===== verification/HeapClient.thy ===== *)
theory HeapClient
  imports Heap
begin

text \<open>
  The kernel heap as its clients use it: \<open>GlobalAlloc\<close> as a locale, the runs of a client
  that allocates, frees and writes, and the interpretation on the kernel's allocator.
\<close>

section \<open>Client runs\<close>

datatype client_op =
    Alloc layout usize
  | Free usize layout
  | Write usize layout usize u8

text \<open>
  One step of a client: \<open>Alloc l p\<close> asks for \<open>l\<close> and receives \<open>p\<close> (null when the heap is
  exhausted), \<open>Free\<close> and \<open>Write\<close> name a live allocation, and a write stays inside it.
\<close>

inductive client_step ::
  "('s \<Rightarrow> layout \<Rightarrow> (usize \<times> 's) option) \<Rightarrow> ('s \<Rightarrow> usize \<Rightarrow> layout \<Rightarrow> 's option) \<Rightarrow>
   ('s \<Rightarrow> usize \<Rightarrow> u8 \<Rightarrow> 's) \<Rightarrow> ('s \<Rightarrow> layout \<Rightarrow> bool) \<Rightarrow>
   's \<times> (usize \<times> layout) set \<Rightarrow> client_op \<Rightarrow> 's \<times> (usize \<times> layout) set \<Rightarrow> bool"
  for al de wr ok where
  step_alloc: "ok s l \<Longrightarrow> al s l = Some (p, s') \<Longrightarrow> p \<noteq> 0 \<Longrightarrow>
    client_step al de wr ok (s, L) (Alloc l p) (s', insert (p, l) L)"
| step_exhausted: "ok s l \<Longrightarrow> al s l = Some (0, s') \<Longrightarrow>
    client_step al de wr ok (s, L) (Alloc l 0) (s', L)"
| step_free: "(p, l) \<in> L \<Longrightarrow> de s p l = Some s' \<Longrightarrow>
    client_step al de wr ok (s, L) (Free p l) (s', L - {(p, l)})"
| step_write: "(p, l) \<in> L \<Longrightarrow> x \<in> span p (unat (lsize l)) \<Longrightarrow>
    client_step al de wr ok (s, L) (Write p l x v) (wr s x v, L)"

inductive client_run ::
  "('s \<Rightarrow> layout \<Rightarrow> (usize \<times> 's) option) \<Rightarrow> ('s \<Rightarrow> usize \<Rightarrow> layout \<Rightarrow> 's option) \<Rightarrow>
   ('s \<Rightarrow> usize \<Rightarrow> u8 \<Rightarrow> 's) \<Rightarrow> ('s \<Rightarrow> layout \<Rightarrow> bool) \<Rightarrow>
   's \<times> (usize \<times> layout) set \<Rightarrow> client_op list \<Rightarrow> 's \<times> (usize \<times> layout) set \<Rightarrow> bool"
  for al de wr ok where
  run_nil: "client_run al de wr ok z [] z"
| run_cons: "client_step al de wr ok z e z' \<Longrightarrow> client_run al de wr ok z' es z'' \<Longrightarrow>
    client_run al de wr ok z (e # es) z''"

inductive_simps client_step_alloc_simps: "client_step al de wr ok (s, L) (Alloc l p) z'"
inductive_simps client_run_simps:
  "client_run al de wr ok z [] z'" "client_run al de wr ok z (e # es) z'"

text \<open>The operations of a run that free a given allocation or write through it.\<close>

fun touches :: "usize \<times> layout \<Rightarrow> client_op \<Rightarrow> bool" where
  "touches b (Alloc l p) \<longleftrightarrow> False"
| "touches b (Free p l) \<longleftrightarrow> b = (p, l)"
| "touches b (Write p l x v) \<longleftrightarrow> b = (p, l)"

section \<open>The \<open>GlobalAlloc\<close> contract\<close>

locale global_alloc =
  fixes al :: "'s \<Rightarrow> layout \<Rightarrow> (usize \<times> 's) option"
    and de :: "'s \<Rightarrow> usize \<Rightarrow> layout \<Rightarrow> 's option"
    and wr :: "'s \<Rightarrow> usize \<Rightarrow> u8 \<Rightarrow> 's"
    and rd :: "'s \<Rightarrow> usize \<Rightarrow> u8"
    and ok :: "'s \<Rightarrow> layout \<Rightarrow> bool"
    and inv :: "'s \<Rightarrow> (usize \<times> layout) set \<Rightarrow> bool"
  assumes alloc_law: "inv s L \<Longrightarrow> ok s l \<Longrightarrow>
      \<exists>p s'. al s l = Some (p, s') \<and> ok s' = ok s \<and> rd s' = rd s
        \<and> (if p = 0 then inv s' L else (\<forall>k. (p, k) \<notin> L) \<and> inv s' (insert (p, l) L))"
    and free_law: "inv s L \<Longrightarrow> (p, l) \<in> L \<Longrightarrow>
      \<exists>s'. de s p l = Some s' \<and> ok s' = ok s \<and> inv s' (L - {(p, l)})
        \<and> (\<forall>(q, k) \<in> L - {(p, l)}. \<forall>x \<in> span q (unat (lsize k)). rd s' x = rd s x)"
    and write_law: "inv s L \<Longrightarrow> (p, l) \<in> L \<Longrightarrow> x \<in> span p (unat (lsize l)) \<Longrightarrow>
      inv (wr s x v) L \<and> ok (wr s x v) = ok s \<and> rd (wr s x v) = (rd s)(x := v)"
    and disjoint_law: "inv s L \<Longrightarrow> live_disjoint L"
begin

lemma step_inv:
  assumes "client_step al de wr ok (s, L) e (s', L')" "inv s L"
  shows "inv s' L' \<and> ok s' = ok s"
  using assms(1)
proof (cases rule: client_step.cases)
  case (step_alloc l p)
  with alloc_law [OF assms(2), of l] show ?thesis by auto
next
  case (step_exhausted l)
  with alloc_law [OF assms(2), of l] show ?thesis by auto
next
  case (step_free p l)
  with free_law [OF assms(2), of p l] show ?thesis by auto
next
  case (step_write p l x v)
  with write_law [OF assms(2), of p l x v] show ?thesis by auto
qed

text \<open>A step changes no byte of a live block it neither frees nor writes through.\<close>

lemma step_isolated:
  assumes "client_step al de wr ok (s, L) e (s', L')" "inv s L" "(q, k) \<in> L" "\<not> touches (q, k) e"
    and x: "x \<in> span q (unat (lsize k))"
  shows "(q, k) \<in> L' \<and> rd s' x = rd s x"
  using assms(1)
proof (cases rule: client_step.cases)
  case (step_alloc l p)
  with alloc_law [OF assms(2), of l] assms(3) show ?thesis by auto
next
  case (step_exhausted l)
  with alloc_law [OF assms(2), of l] assms(3) show ?thesis by auto
next
  case (step_free p l)
  then have "(q, k) \<in> L - {(p, l)}" using assms(3,4) by auto
  with step_free free_law [OF assms(2), of p l] x show ?thesis by auto
next
  case (step_write p l y v)
  then have "span q (unat (lsize k)) \<inter> span p (unat (lsize l)) = {}"
    using assms(3,4) disjoint_law [OF assms(2)] unfolding live_disjoint_def by fastforce
  with step_write x have "x \<noteq> y" by auto
  with step_write write_law [OF assms(2), of p l y v] assms(3) show ?thesis by auto
qed

lemma run_inv:
  "client_run al de wr ok z es z' \<Longrightarrow> inv (fst z) (snd z) \<Longrightarrow>
    inv (fst z') (snd z') \<and> ok (fst z') = ok (fst z)"
proof (induction rule: client_run.induct)
  case (run_cons z e z' es z'')
  then show ?case using step_inv [of "fst z" "snd z" e "fst z'" "snd z'"] by auto
qed auto

lemma run_isolated:
  assumes "client_run al de wr ok z es z'" "inv (fst z) (snd z)" "(q, k) \<in> snd z"
    and "\<forall>e \<in> set es. \<not> touches (q, k) e" "x \<in> span q (unat (lsize k))"
  shows "(q, k) \<in> snd z' \<and> rd (fst z') x = rd (fst z) x"
  using assms
proof (induction rule: client_run.induct)
  case (run_cons z e z' es z'')
  then show ?case
    using step_inv [of "fst z" "snd z" e "fst z'" "snd z'"]
      step_isolated [of "fst z" "snd z" e "fst z'" "snd z'" q k x] by auto
qed auto

text \<open>Whatever a client may ask next, the allocator answers without a panic.\<close>

lemma never_panics:
  assumes "inv s L"
  shows "ok s l \<Longrightarrow> al s l \<noteq> None" and "(p, l) \<in> L \<Longrightarrow> de s p l \<noteq> None"
  using alloc_law [OF assms] free_law [OF assms] by fastforce+

end

section \<open>The kernel's allocator\<close>

text \<open>
  \<open>LockedAllocator\<close>: the state behind the lock together with the memory it manages.
\<close>

type_synonym kheap = "allocator \<times> mem"

definition kalloc :: "kheap \<Rightarrow> layout \<Rightarrow> (usize \<times> kheap) option" where
  "kalloc s l = map_option (\<lambda>(p, a). (p, (a, snd s))) (sa_alloc (fst s) (snd s) l)"

definition kdealloc :: "kheap \<Rightarrow> usize \<Rightarrow> layout \<Rightarrow> kheap option" where
  "kdealloc s p l = sa_dealloc (fst s) (snd s) p"

definition kwrite :: "kheap \<Rightarrow> usize \<Rightarrow> u8 \<Rightarrow> kheap" where
  "kwrite s x v = (fst s, (snd s)(x := v))"

definition kread :: "kheap \<Rightarrow> usize \<Rightarrow> u8" where
  "kread s = snd s"

definition kok :: "kheap \<Rightarrow> layout \<Rightarrow> bool" where
  "kok s = layout_ok (fst s)"

text \<open>The heap occupies the addresses from \<open>lo\<close> up to \<open>hi\<close>.\<close>

definition kinv :: "usize \<Rightarrow> usize \<Rightarrow> kheap \<Rightarrow> (usize \<times> layout) set \<Rightarrow> bool" where
  "kinv lo hi s L \<longleftrightarrow> (\<exists>fls. heap_inv (fst s) (snd s) L fls)
     \<and> heap_start (fst s) = lo \<and> bend (bump_reg (fst s)) = hi"

lemma layout_ok_bend: "bend (bump_reg a') = bend (bump_reg a) \<Longrightarrow> layout_ok a' = layout_ok a"
  by (simp add: layout_ok_def fun_eq_iff)

interpretation kernel_heap: global_alloc kalloc kdealloc kwrite kread kok "kinv lo hi" for lo hi
proof unfold_locales
  fix s L l assume inv: "kinv lo hi s L" and ok: "kok s l"
  obtain fls where h: "heap_inv (fst s) (snd s) L fls" using inv by (auto simp: kinv_def)
  obtain p a' where r: "sa_alloc (fst s) (snd s) l = Some (p, a')" "bend (bump_reg a') = bend (bump_reg (fst s))"
    "heap_start a' = heap_start (fst s)"
    "if p = 0 then a' = fst s else (\<forall>k. (p, k) \<notin> L) \<and> (\<exists>fls'. heap_inv a' (snd s) (insert (p, l) L) fls')"
    using heap_inv_alloc [OF h] ok unfolding kok_def by blast
  then show "\<exists>p s'. kalloc s l = Some (p, s') \<and> kok s' = kok s \<and> kread s' = kread s
      \<and> (if p = 0 then kinv lo hi s' L else (\<forall>k. (p, k) \<notin> L) \<and> kinv lo hi s' (insert (p, l) L))"
    using inv layout_ok_bend [OF r(2)]
    by (intro exI [of _ p] exI [of _ "(a', snd s)"]) (auto simp: kalloc_def kok_def kread_def kinv_def)
next
  fix s L p l assume inv: "kinv lo hi s L" and p: "(p, l) \<in> L"
  obtain fls where h: "heap_inv (fst s) (snd s) L fls" using inv by (auto simp: kinv_def)
  from heap_inv_dealloc [OF h p] inv
  show "\<exists>s'. kdealloc s p l = Some s' \<and> kok s' = kok s \<and> kinv lo hi s' (L - {(p, l)})
      \<and> (\<forall>(q, k) \<in> L - {(p, l)}. \<forall>x \<in> span q (unat (lsize k)). kread s' x = kread s x)"
    by (fastforce simp: kdealloc_def kok_def kread_def kinv_def dest: layout_ok_bend)
next
  fix s L p l x v assume "kinv lo hi s L" "(p, l) \<in> L" "x \<in> span p (unat (lsize l))"
  then show "kinv lo hi (kwrite s x v) L \<and> kok (kwrite s x v) = kok s \<and> kread (kwrite s x v) = (kread s)(x := v)"
    by (auto simp: kinv_def kwrite_def kok_def kread_def intro: heap_inv_write)
next
  fix s L assume "kinv lo hi s L"
  then show "live_disjoint L" by (auto simp: kinv_def heap_inv_def)
qed

definition kinit :: "mem \<Rightarrow> usize \<Rightarrow> usize \<Rightarrow> kheap option" where
  "kinit m hv hs = sa_init sa_new m hv hs"

lemma kinit_inv:
  assumes "heap_args_ok hv hs"
  shows "\<exists>s. kinit m hv hs = Some s \<and> kinv hv (hv + hs) s {}"
  using sa_init_heap_inv [OF assms, of m] by (fastforce simp: kinit_def kinv_def)

section \<open>Size-class policy\<close>

text \<open>
  A request is served by the first class, in the order of the slab sizes, that is large
  enough for size and alignment and has a free block, and by the bump region only when no
  class is.
\<close>

lemma sa_alloc_policy:
  assumes inv: "heap_inv a m L fls" and lok: "layout_ok a l" and run: "sa_alloc a m l = Some (p, a')"
  shows "(\<exists>i < length (slabs a). can_serve (slabs a ! i) (fls ! i) l \<and> p = hd (fls ! i)
           \<and> (\<forall>j < i. \<not> can_serve (slabs a ! j) (fls ! j) l))
    \<or> ((\<forall>j < length (slabs a). \<not> can_serve (slabs a ! j) (fls ! j) l)
        \<and> (\<exists>b. bump_alloc (bump_reg a) l = Some (p, b)))"
proof -
  have all2: "list_all2 (\<lambda>c fl. slab_inv c m fl) (slabs a) fls" and init: "initialized a"
    using inv by (auto simp: heap_inv_def slabs_inv_def)
  from slabs_alloc_spec [OF all2, of l] show ?thesis
  proof (elim disjE exE conjE)
    assume "slabs_alloc m l (slabs a) = Some (None, slabs a)"
      "\<forall>j < length (slabs a). \<not> can_serve (slabs a ! j) (fls ! j) l"
    with run init show ?thesis by (auto simp: sa_alloc_def split: Option.bind_splits)
  next
    fix i q fl c'
    assume "i < length (slabs a)" "fls ! i = q # fl" "can_serve (slabs a ! i) (fls ! i) l"
      "\<forall>j < i. \<not> can_serve (slabs a ! j) (fls ! j) l"
      "slabs_alloc m l (slabs a) = Some (Some q, (slabs a)[i := c'])"
    with run init show ?thesis by (intro disjI1 exI [of _ i]) (simp add: sa_alloc_def)
  qed
qed

lemma served_nonnull:
  assumes inv: "heap_inv a m L fls" and lok: "layout_ok a l"
    and i: "i < length (slabs a)" "can_serve (slabs a ! i) (fls ! i) l"
  shows "\<exists>p a'. sa_alloc a m l = Some (p, a') \<and> p \<noteq> 0"
proof -
  obtain p a' where run: "sa_alloc a m l = Some (p, a')" using heap_inv_alloc [OF inv lok] by blast
  from sa_alloc_policy [OF inv lok run] i obtain j where
    j: "j < length (slabs a)" "can_serve (slabs a ! j) (fls ! j) l" "p = hd (fls ! j)" by blast
  have si: "slabs_inv a m fls" using inv by (simp add: heap_inv_def)
  have "p \<in> blocks (slabs a ! j)"
    using j slabs_invD(5) [OF si j(1)] by (auto simp: can_serve_def)
  then have "p \<noteq> 0" by (rule blocks_in_region(3) [OF slabs_invD(2) [OF si j(1)]])
  with run show ?thesis by blast
qed

lemma fresh_heap_serves:
  assumes ok: "heap_args_ok hv hs" and s: "kinit m hv hs = Some s" and l: "kok s l"
    and sz: "lsize l \<le> 8" "lalign l \<le> 8"
  shows "\<exists>p s'. kalloc s l = Some (p, s') \<and> p \<noteq> 0"
proof -
  obtain a m' fls where a: "sa_init sa_new m hv hs = Some (a, m')" "heap_inv a m' {} fls"
    "map (\<lambda>c. unat (free_count c)) (slabs a) = replicate 6 512" "map obj_size (slabs a) = SLAB_SIZES"
    using sa_init_heap_inv [OF ok, of m] by blast
  with s have sa: "s = (a, m')" by (simp add: kinit_def)
  have len: "0 < length (slabs a)" using arg_cong [OF a(4), of length] by (simp add: SLAB_SIZES_def)
  have "slab_inv (slabs a ! 0) m' (fls ! 0)"
    using a(2) slabs_invD(1) [OF _ len] by (auto simp: heap_inv_def)
  moreover have "unat (free_count (slabs a ! 0)) = 512"
    using arg_cong [OF a(3), of "\<lambda>xs. xs ! 0"] len by simp
  ultimately have "fls ! 0 \<noteq> []" by (auto simp: slab_inv_def)
  moreover have "obj_size (slabs a ! 0) = 8"
    using arg_cong [OF a(4), of "\<lambda>xs. xs ! 0"] len by (simp add: SLAB_SIZES_def)
  ultimately have "can_serve (slabs a ! 0) (fls ! 0) l" using sz by (simp add: can_serve_def)
  moreover have "layout_ok a l" using l sa by (simp add: kok_def)
  ultimately obtain p a' where "sa_alloc a m' l = Some (p, a')" "p \<noteq> 0"
    using served_nonnull [OF a(2) _ len] by blast
  then show ?thesis by (auto simp: sa kalloc_def)
qed

section \<open>Properties\<close>

text \<open>A concrete heap for the witnesses: 16 MiB at 1 MiB.\<close>

lemma demo_heap:
  "heap_args_ok 0x100000 HEAP_SIZE"
  "\<exists>s. kinit (\<lambda>_. 0) 0x100000 HEAP_SIZE = Some s \<and> kok s \<lparr>lsize = 8, lalign = 8\<rparr>"
proof -
  show args: "heap_args_ok 0x100000 HEAP_SIZE"
    by (simp add: heap_args_ok_def SLAB_REGION_BYTES_value HEAP_SIZE_def)
  obtain s where "kinit (\<lambda>_. 0) 0x100000 HEAP_SIZE = Some s"
    "bend (bump_reg (fst s)) = 0x100000 + HEAP_SIZE"
    using kinit_inv [OF args, of "\<lambda>_. 0"] by (auto simp: kinv_def)
  moreover from this(2) have "kok s \<lparr>lsize = 8, lalign = 8\<rparr>"
    by (auto simp: kok_def layout_ok_def HEAP_SIZE_def intro!: exI [of _ 3])
  ultimately show "\<exists>s. kinit (\<lambda>_. 0) 0x100000 HEAP_SIZE = Some s \<and> kok s \<lparr>lsize = 8, lalign = 8\<rparr>"
    by blast
qed

lemma demo_alloc:
  "\<exists>s p s'. kinit (\<lambda>_. 0) 0x100000 HEAP_SIZE = Some s \<and> kok s \<lparr>lsize = 8, lalign = 8\<rparr> \<and> p \<noteq> 0
    \<and> client_run kalloc kdealloc kwrite kok (s, {}) [Alloc \<lparr>lsize = 8, lalign = 8\<rparr> p]
        (s', {(p, \<lparr>lsize = 8, lalign = 8\<rparr>)})"
proof -
  obtain s where s: "kinit (\<lambda>_. 0) 0x100000 HEAP_SIZE = Some s" "kok s \<lparr>lsize = 8, lalign = 8\<rparr>"
    using demo_heap(2) by blast
  obtain p s' where "kalloc s \<lparr>lsize = 8, lalign = 8\<rparr> = Some (p, s')" "p \<noteq> 0"
    using fresh_heap_serves [OF demo_heap(1) s] by auto
  with s show ?thesis by (auto simp: client_run_simps client_step_alloc_simps)
qed

lemma run_from_init:
  assumes "heap_args_ok hv hs" "kinit m hv hs = Some s"
    and "client_run kalloc kdealloc kwrite kok (s, {}) es (s', L)"
  shows "kinv hv (hv + hs) s' L"
  using kinit_inv [OF assms(1), of m] assms(2) kernel_heap.run_inv [OF assms(3), of hv "hv + hs"] by auto

text \<open>
  C3: after any sequence of allocations, frees and in-bounds writes from a freshly
  initialised heap, the live allocations do not overlap, none is null, and each lies inside
  the heap with its requested size and alignment.
\<close>

theorem heap_live_safe:
  assumes "heap_args_ok hv hs" "kinit m hv hs = Some s"
    and "client_run kalloc kdealloc kwrite kok (s, {}) es (s', L)"
  shows "live_disjoint L \<and> (\<forall>(p, l) \<in> L. p \<noteq> 0 \<and> unat (lalign l) dvd unat p
    \<and> unat hv \<le> unat p \<and> unat p + unat (lsize l) \<le> unat (hv + hs))"
proof -
  have inv: "kinv hv (hv + hs) s' L" by (rule run_from_init [OF assms])
  then have "live_disjoint L" by (rule kernel_heap.disjoint_law)
  with inv show ?thesis using live_in_heap by (fastforce simp: kinv_def)
qed

theorem heap_live_safe_witness:
  "\<exists>p. live_disjoint {(p, \<lparr>lsize = 8, lalign = 8\<rparr>)} \<and> p \<noteq> 0 \<and> 8 dvd unat p \<and> 0x100000 \<le> unat p"
proof -
  obtain s p s' where d: "kinit (\<lambda>_. 0) 0x100000 HEAP_SIZE = Some s"
    "client_run kalloc kdealloc kwrite kok (s, {}) [Alloc \<lparr>lsize = 8, lalign = 8\<rparr> p]
        (s', {(p, \<lparr>lsize = 8, lalign = 8\<rparr>)})" using demo_alloc by blast
  show ?thesis using heap_live_safe [OF demo_heap(1) d] by auto
qed



text \<open>
  C13: the allocator never panics: in every state a client can reach, any admissible request
  and the release of any live block return.
\<close>

theorem heap_never_panics:
  assumes "heap_args_ok hv hs" "kinit m hv hs = Some s0"
    and "client_run kalloc kdealloc kwrite kok (s0, {}) es (s, L)"
  shows "(\<forall>l. kok s l \<longrightarrow> kalloc s l \<noteq> None) \<and> (\<forall>(p, l) \<in> L. kdealloc s p l \<noteq> None)"
  using kernel_heap.never_panics [OF run_from_init [OF assms]] by blast

theorem heap_never_panics_witness:
  "\<exists>s. kinit (\<lambda>_. 0) 0x100000 HEAP_SIZE = Some s \<and> kok s \<lparr>lsize = 8, lalign = 8\<rparr>
    \<and> kalloc s \<lparr>lsize = 8, lalign = 8\<rparr> \<noteq> None"
proof -
  obtain s where s: "kinit (\<lambda>_. 0) 0x100000 HEAP_SIZE = Some s" "kok s \<lparr>lsize = 8, lalign = 8\<rparr>"
    using demo_heap(2) by blast
  with heap_never_panics [OF demo_heap(1) s(1) run_nil] show ?thesis by blast
qed

text \<open>
  initialisation over any 256-aligned range that is large enough succeeds, gives every
  slab class its 512 free blocks, starts the bump region right behind them and writes nothing
  below the heap.
\<close>

theorem heap_init:
  assumes "heap_args_ok hv hs"
  shows "\<exists>a m'. sa_init sa_new m hv hs = Some (a, m') \<and> map obj_size (slabs a) = SLAB_SIZES
    \<and> map (\<lambda>c. unat (free_count c)) (slabs a) = replicate 6 OBJECTS_PER_CLASS
    \<and> unat (current (bump_reg a)) = unat hv + unat SLAB_REGION_BYTES
    \<and> bend (bump_reg a) = hv + hs \<and> (\<forall>x. unat x < unat hv \<longrightarrow> m' x = m x)"
  using sa_init_heap_inv [OF assms, of m]
  by (auto simp: OBJECTS_PER_CLASS_def SLAB_REGION_BYTES_value)

theorem heap_init_witness:
  "\<exists>a m'. sa_init sa_new (\<lambda>_. 7) 0x100000 HEAP_SIZE = Some (a, m') \<and> map obj_size (slabs a) = SLAB_SIZES
    \<and> unat (current (bump_reg a)) = 0x13F000 \<and> m' 0xFFFFF = 7"
  using heap_init [OF demo_heap(1), of "\<lambda>_. 7"] by (auto simp: SLAB_REGION_BYTES_value)

text \<open>
  a freshly initialised slab class of \<open>count\<close> blocks serves exactly \<open>count\<close>
  allocations, in address order and all distinct, and the next one answers null.
\<close>

theorem slab_serves_all:
  assumes "8 \<le> unat (obj_size c)" "0 < unat start" "0 < count"
    "unat start + count * unat (obj_size c) < 2 ^ 64"
  shows "\<exists>d m' d'. slab_init c m start count = Some (d, m')
    \<and> take_blocks slab_alloc count d m' = Some (map (\<lambda>i. start + of_nat i * obj_size c) [0..<count], d')
    \<and> distinct (map (\<lambda>i. start + of_nat i * obj_size c) [0..<count])
    \<and> slab_alloc d' m' = Some (0, d')"
proof -
  define d where "d = c\<lparr>region_start := start, total := of_nat count, free_count := of_nat count,
    free_head := start\<rparr>"
  have b: "map (block d) [0..<count] = map (\<lambda>i. start + of_nat i * obj_size c) [0..<count]"
    by (simp add: block_def d_def)
  obtain m' where m': "slab_init c m start count = Some (d, m')" "slab_inv d m' (map (block d) [0..<count])"
    using slab_init_fresh [OF assms] by (auto simp: d_def)
  then show ?thesis
    using slab_pool.take_all_then_null [OF m'(2)] slab_pool.free_home [OF m'(2)]
    unfolding b by auto
qed

theorem slab_serves_all_witness:
  "\<exists>d m' d'. slab_init (slab_new 16) (\<lambda>_. 0) 0x1000 3 = Some (d, m')
    \<and> take_blocks slab_alloc 3 d m' = Some ([0x1000, 0x1010, 0x1020], d') \<and> slab_alloc d' m' = Some (0, d')"
  using slab_serves_all [of "slab_new 16" "0x1000" 3 "\<lambda>_. 0"] by (auto simp: slab_new_def upt_rec)

text \<open>
  the size-class policy. A request goes to the first class that is large enough for both
  size and alignment and has a free block; the bump region is tried only when there is none.
\<close>

theorem heap_size_class_policy:
  assumes "heap_inv a m L fls" "layout_ok a l" "sa_alloc a m l = Some (p, a')"
  shows "(\<exists>i < length (slabs a). can_serve (slabs a ! i) (fls ! i) l \<and> p = hd (fls ! i)
           \<and> (\<forall>j < i. \<not> can_serve (slabs a ! j) (fls ! j) l))
    \<or> ((\<forall>j < length (slabs a). \<not> can_serve (slabs a ! j) (fls ! j) l)
        \<and> (\<exists>b. bump_alloc (bump_reg a) l = Some (p, b)))"
  using assms by (rule sa_alloc_policy)

theorem heap_size_class_policy_witness:
  "\<exists>a m fls p a'. heap_inv a m {} fls \<and> sa_alloc a m \<lparr>lsize = 8, lalign = 8\<rparr> = Some (p, a')
    \<and> ((\<exists>i < length (slabs a). p = hd (fls ! i)) \<or> (\<exists>b. bump_alloc (bump_reg a) \<lparr>lsize = 8, lalign = 8\<rparr> = Some (p, b)))"
proof -
  obtain s where s: "kinit (\<lambda>_. 0) 0x100000 HEAP_SIZE = Some s" "kok s \<lparr>lsize = 8, lalign = 8\<rparr>"
    using demo_heap(2) by blast
  then obtain fls where h: "heap_inv (fst s) (snd s) {} fls"
    using kinit_inv [OF demo_heap(1), of "\<lambda>_. 0"] by (auto simp: kinv_def)
  have l: "layout_ok (fst s) \<lparr>lsize = 8, lalign = 8\<rparr>" using s(2) by (simp add: kok_def)
  obtain p a' where r: "sa_alloc (fst s) (snd s) \<lparr>lsize = 8, lalign = 8\<rparr> = Some (p, a')"
    using heap_inv_alloc [OF h l] by blast
  show ?thesis using heap_size_class_policy [OF h l r] h r by blast
qed

text \<open>
  \<open>align_up\<close> answers the least multiple of a power-of-two alignment at or above the
  address, whenever the sum fits the address space.
\<close>

theorem align_up_least:
  assumes "al = 2 ^ k" "k < 64" "unat addr + unat al < 2 ^ 64"
  shows "\<exists>r. align_up addr al = Some r \<and> unat al dvd unat r \<and> unat addr \<le> unat r
    \<and> (\<forall>n. unat al dvd n \<and> unat addr \<le> n \<longrightarrow> unat r \<le> n)"
proof -
  obtain r where r: "align_up addr al = Some r" "unat addr \<le> unat r" "unat r < unat addr + unat al"
    "unat al dvd unat r" using align_up_spec [OF assms] by blast
  have "unat r \<le> n" if n: "unat al dvd n" "unat addr \<le> n" for n
  proof (rule ccontr)
    assume "\<not> unat r \<le> n"
    then have "unat al dvd unat r - n" "0 < unat r - n" using r(4) n(1) by (auto intro: dvd_diff_nat)
    then have "unat al \<le> unat r - n" by (rule dvd_imp_le)
    with r(3) n(2) \<open>\<not> unat r \<le> n\<close> show False by linarith
  qed
  with r show ?thesis by blast
qed

theorem align_up_least_witness:
  "\<exists>r. align_up 0x1009 16 = Some r \<and> unat (16 :: usize) dvd unat r \<and> unat (0x1009 :: usize) \<le> unat r"
  using align_up_least [of 16 4 "0x1009"] by auto

end
