(* ===== verification/StdText.thy ===== *)
theory StdText
  imports RustStr "HOL-Library.List_Lexorder"
begin

text \<open>
  The parts of Rust's string and formatting library that the shell's commands use: lines and
  words of a text, substring search, number parsing and the number formats of \<open>print!\<close>.
\<close>

section \<open>Lines and words\<close>

text \<open>
  \<open>str::lines\<close>: a final newline ends the last line, and the carriage return before a newline is
  not part of its line.
\<close>

definition strip_cr :: "str \<Rightarrow> str" where
  "strip_cr s = (if s \<noteq> [] \<and> last s = 13 then butlast s else s)"

definition lines :: "str \<Rightarrow> str list" where
  "lines s =
     (let ps = split_on 10 s
      in map strip_cr (butlast ps) @ (if last ps = [] then [] else [last ps]))"

text \<open>\<open>str::split_whitespace\<close>.\<close>

fun split_if :: "(uchar \<Rightarrow> bool) \<Rightarrow> str \<Rightarrow> str list" where
  "split_if P [] = [[]]"
| "split_if P (x # s) =
     (if P x then [] # split_if P s
      else case split_if P s of [] \<Rightarrow> [[x]] | p # ps \<Rightarrow> (x # p) # ps)"

definition split_whitespace :: "str \<Rightarrow> str list" where
  "split_whitespace s = filter (\<lambda>p. p \<noteq> []) (split_if is_whitespace s)"

text \<open>\<open>str::contains\<close> and \<open>find\<close>/\<open>rfind\<close> of a character, which answer byte positions.\<close>

definition contains :: "str \<Rightarrow> str \<Rightarrow> bool" where
  "contains pat s \<longleftrightarrow> list_ex (\<lambda>i. starts_with pat (drop i s)) [0..<Suc (length s)]"

definition find_char :: "uchar \<Rightarrow> str \<Rightarrow> nat option" where
  "find_char c s = map_option (\<lambda>i. byte_len (take i s)) (position (\<lambda>x. x = c) s)"

definition rfind_char :: "uchar \<Rightarrow> str \<Rightarrow> nat option" where
  "rfind_char c s = map_option (\<lambda>i. byte_len (take i s)) (rposition (\<lambda>x. x = c) s)"

section \<open>Numbers\<close>

text \<open>\<open>parse::<usize>()\<close>: an optional plus sign, at least one digit, no overflow of 64 bits.\<close>

fun parse_digits :: "nat \<Rightarrow> str \<Rightarrow> nat option" where
  "parse_digits acc [] = Some acc"
| "parse_digits acc (c # s) =
     (if is_ascii_digit c \<and> acc * 10 + (c - 48) < 2 ^ 64 then parse_digits (acc * 10 + (c - 48)) s
      else None)"

definition parse_usize :: "str \<Rightarrow> nat option" where
  "parse_usize s =
     (let ds = (if starts_with [0x2B] s then tl s else s)
      in if ds = [] then None else parse_digits 0 ds)"

text \<open>\<open>{}\<close>, \<open>{:w}\<close> and \<open>{:#0wx}\<close> of an unsigned number.\<close>

fun digits_in :: "nat \<Rightarrow> nat \<Rightarrow> nat list" where
  "digits_in b n = (if n < b \<or> b < 2 then [n] else digits_in b (n div b) @ [n mod b])"

declare digits_in.simps [simp del]

definition digit_char :: "nat \<Rightarrow> uchar" where
  "digit_char d = (if d < 10 then 48 + d else 87 + d)"

definition dec :: "nat \<Rightarrow> str" where
  "dec n = map digit_char (digits_in 10 n)"

definition pad_left :: "nat \<Rightarrow> uchar \<Rightarrow> str \<Rightarrow> str" where
  "pad_left w c s = replicate (w - length s) c @ s"

definition dec_width :: "nat \<Rightarrow> nat \<Rightarrow> str" where
  "dec_width w n = pad_left w 32 (dec n)"

definition hex_width :: "nat \<Rightarrow> nat \<Rightarrow> str" where
  "hex_width w n = lit ''0x'' @ pad_left (w - 2) 48 (map digit_char (digits_in 16 n))"

section \<open>Facts\<close>

lemma position_rfind:
  assumes "rfind_char c s = Some b"
  shows "\<exists>p q. s = p @ c # q \<and> c \<notin> set q \<and> b = byte_len p"
proof -
  from assms obtain i where i: "position (\<lambda>x. x = c) (rev s) = Some i"
    "b = byte_len (take (length s - 1 - i) s)"
    by (auto simp: rfind_char_def rposition_def)
  from position_SomeD [OF i(1)] have lt: "i < length s" "rev s ! i = c" "\<forall>j < i. rev s ! j \<noteq> c" by auto
  let ?n = "length s - 1 - i"
  have at: "s ! ?n = c" using lt by (simp add: rev_nth)
  have "s = take ?n s @ s ! ?n # drop (Suc ?n) s" using lt by (intro id_take_nth_drop) simp
  moreover have "c \<notin> set (drop (Suc ?n) s)"
  proof
    assume "c \<in> set (drop (Suc ?n) s)"
    then obtain j where j: "j < i" "s ! (Suc ?n + j) = c" using lt(1) by (auto simp: in_set_conv_nth)
    have "length s - Suc (i - 1 - j) = Suc ?n + j" using lt(1) j(1) by simp
    then have "rev s ! (i - 1 - j) = c" using lt(1) j by (simp add: rev_nth)
    with lt(3) j(1) show False by auto
  qed
  ultimately show ?thesis using at i(2) by metis
qed

lemma position_find:
  assumes "find_char c s = Some b"
  shows "\<exists>p q. s = p @ c # q \<and> c \<notin> set p \<and> b = byte_len p"
proof -
  from assms obtain i where i: "position (\<lambda>x. x = c) s = Some i" "b = byte_len (take i s)"
    by (auto simp: find_char_def)
  from position_SomeD [OF i(1)] have lt: "i < length s" "s ! i = c" "\<forall>j < i. s ! j \<noteq> c" by auto
  have "s = take i s @ s ! i # drop (Suc i) s" using lt(1) by (rule id_take_nth_drop)
  moreover have "c \<notin> set (take i s)" using lt by (auto simp: in_set_conv_nth)
  ultimately show ?thesis using lt(2) i(2) by metis
qed

lemma byte_take_succ: "c < 0x80 \<Longrightarrow> byte_take (byte_len p + 1) (p @ c # q) = Some (p @ [c])"
  using byte_take_append [of "p @ [c]" q] by (simp add: utf8_width_def)

lemma byte_drop_succ: "c < 0x80 \<Longrightarrow> byte_drop (byte_len p + 1) (p @ c # q) = Some q"
  using byte_drop_append [of "p @ [c]" q] by (simp add: utf8_width_def)

lemma byte_len_ascii: "list_all (\<lambda>c. c < 0x80) s \<Longrightarrow> byte_len s = length s"
  by (induction s) (simp_all add: utf8_width_def)

lemma byte_slice_ascii:
  assumes "list_all (\<lambda>c. c < 0x80) s" "lo \<le> hi" "hi \<le> length s"
  shows "byte_slice lo hi s = Some (take (hi - lo) (drop lo s))"
proof -
  let ?a = "take lo s" and ?b = "take (hi - lo) (drop lo s)"
  have s: "s = ?a @ ?b @ drop hi s" using assms(2)
    by (metis append_take_drop_id drop_drop le_add_diff_inverse2)
  have "list_all (\<lambda>c. c < 0x80) ?a" "list_all (\<lambda>c. c < 0x80) ?b"
    using assms(1) by (metis append_take_drop_id list_all_append)+
  then have "byte_len ?a = lo" "byte_len ?b = hi - lo"
    using assms(2,3) by (simp_all add: byte_len_ascii)
  then show ?thesis using byte_slice_mid [of ?a ?b "drop hi s"] s assms(2) by simp
qed

end
