(* ===== verification/KernelState.thy ===== *)
theory KernelState
  imports Console Paths Env Ramfs HeapClient StdText
begin

text \<open>
  The state the shell works on, the kernel's global variables gathered in one record: the
  framebuffer writer, the shell itself (kernel/src/shell.rs), the working directory, the
  environment, the mounted root, the heap and the timer counters, with the ports written.
  What hardware, build and Unicode tables decide is a \<open>machine\<close>, a parameter.
\<close>

section \<open>State\<close>

definition BUF_CAP :: nat where "BUF_CAP = 256"
definition HIST_CAP :: nat where "HIST_CAP = 16"

record shell =
  buf :: "uchar list"
  len :: nat
  cursor_pos :: nat
  prompt_col :: nat
  history :: "uchar list list"
  hist_len :: "nat list"
  hist_count :: nat
  hist_cursor :: nat
  live_buf :: "uchar list"
  live_len :: nat

definition shell_new :: shell where
  "shell_new = \<lparr>buf = replicate BUF_CAP 0, len = 0, cursor_pos = 0, prompt_col = 0,
     history = replicate HIST_CAP (replicate BUF_CAP 0), hist_len = replicate HIST_CAP 0,
     hist_count = 0, hist_cursor = 0, live_buf = replicate BUF_CAP 0, live_len = 0\<rparr>"

text \<open>
  \<open>cpuid\<close> answers (eax, ebx, ecx, edx) of a leaf, \<open>kbc_status\<close> the value that the n-th read of
  the keyboard controller's status port gives, \<open>lowercase\<close> is \<open>str::to_lowercase\<close>.
\<close>

record machine =
  cpuid :: "u32 \<Rightarrow> u32 \<times> u32 \<times> u32 \<times> u32"
  kbc_status :: "nat \<Rightarrow> u8"
  lowercase :: "str \<Rightarrow> str"

datatype port_write = Outb u16 u8 | Outw u16 u16

text \<open>
  What happens around one use of the screen by the code outside interrupts: some timer
  interrupts while it holds the writer's lock, and then, before it takes the lock again, timer
  interrupts and other activity of the heap, of which only the statistics are visible.
\<close>

datatype pause = Pause_tick | Pause_heap allocator

type_synonym gap = "nat \<times> pause list"

record kernel =
  kwriter :: "fb_writer option"
  kshell :: shell
  kdirs :: dirs
  kenv :: env
  kroot :: "vnode option"
  kheap :: allocator
  kticks :: u64
  kblink :: u64
  kreads :: nat
  kports :: "port_write list"
  kgaps :: "gap list"

section \<open>The screen\<close>

text \<open>
  A function of \<open>hal::framebuffer\<close> run on the global writer, which is locked meanwhile.
\<close>

definition on_screen :: "(fb_writer option \<Rightarrow> fb_writer option option) \<Rightarrow> kernel \<Rightarrow> kernel option" where
  "on_screen f k = do { w \<leftarrow> f (kwriter k); Some (k\<lparr>kwriter := w\<rparr>) }"

text \<open>
  The part of \<open>timer::tick\<close> before the end of interrupt.  \<open>cursor_tick\<close> only tries the lock: an
  interrupt that finds the writer locked counts the tick and leaves the cursor alone.
\<close>

definition timer_tick :: "kernel \<Rightarrow> kernel option" where
  "timer_tick k =
     (let b = kblink k; k = k\<lparr>kticks := kticks k + 1, kblink := b + 1\<rparr>
      in if b mod 500 = 499 then on_screen cursor_tick k else Some k)"

definition locked_ticks :: "nat \<Rightarrow> kernel \<Rightarrow> kernel" where
  "locked_ticks n k = k\<lparr>kticks := kticks k + of_nat n, kblink := kblink k + of_nat n\<rparr>"

fun pass :: "pause \<Rightarrow> kernel \<Rightarrow> kernel option" where
  "pass Pause_tick k = timer_tick k"
| "pass (Pause_heap a) k = Some (k\<lparr>kheap := a\<rparr>)"

text \<open>
  The same with the interrupts around it; \<open>kgaps\<close> holds those of the uses of the screen to come,
  and with none left nothing interrupts.
\<close>

definition hal :: "(fb_writer option \<Rightarrow> fb_writer option option) \<Rightarrow> kernel \<Rightarrow> kernel option" where
  "hal f k =
     do { k \<leftarrow> on_screen f k;
          (case kgaps k of
             [] \<Rightarrow> Some k
           | (n, ps) # gs \<Rightarrow> for_each ps pass (locked_ticks n (k\<lparr>kgaps := gs\<rparr>))) }"

text \<open>\<open>print!\<close> and \<open>println!\<close>.\<close>

definition kprint :: "str \<Rightarrow> kernel \<Rightarrow> kernel option" where
  "kprint s = hal (fb_print s)"

definition kprintln :: "str \<Rightarrow> kernel \<Rightarrow> kernel option" where
  "kprintln s = kprint (s @ [10])"

definition on_shell :: "(shell \<Rightarrow> shell) \<Rightarrow> kernel \<Rightarrow> kernel" where
  "on_shell f k = k\<lparr>kshell := f (kshell k)\<rparr>"

text \<open>The file system calls on the mounted root.\<close>

definition lookup_node :: "kernel \<Rightarrow> str \<Rightarrow> vnode option" where
  "lookup_node k path = vfs_lookup v_lookup (kroot k) path"

definition root_names :: "kernel \<Rightarrow> str list option" where
  "root_names k = vfs_with_root v_readdir (kroot k)"

definition file_text :: "kernel \<Rightarrow> str \<Rightarrow> str option option" where
  "file_text k path = read_file_str v_kind v_size v_read v_lookup (kroot k) path"

definition kprint_file :: "str \<Rightarrow> kernel \<Rightarrow> (bool \<times> kernel) option" where
  "kprint_file path k =
     do { (s, found) \<leftarrow> print_file v_kind v_size v_read v_lookup (kroot k) path;
          k \<leftarrow> kprint s k;
          Some (found, k) }"

definition to_absolute :: "kernel \<Rightarrow> str \<Rightarrow> str" where
  "to_absolute k p = normalize (resolve (kdirs k) p)"

section \<open>The clock\<close>

definition uptime_ms :: "kernel \<Rightarrow> u64" where
  "uptime_ms k = kticks k"

section \<open>Invariants\<close>

text \<open>The screen is absent or shows some grid of characters.\<close>

definition screen_ok :: "fb_writer option \<Rightarrow> bool" where
  "screen_ok wo \<longleftrightarrow> (case wo of None \<Rightarrow> True | Some w \<Rightarrow> \<exists>c. fb_shows w c)"

definition shell_inv :: "shell \<Rightarrow> bool" where
  "shell_inv s \<longleftrightarrow> length (buf s) = BUF_CAP \<and> len s \<le> BUF_CAP \<and> cursor_pos s \<le> len s
     \<and> length (history s) = HIST_CAP \<and> (\<forall>h \<in> set (history s). length h = BUF_CAP)
     \<and> length (hist_len s) = HIST_CAP \<and> (\<forall>n \<in> set (hist_len s). n \<le> BUF_CAP)
     \<and> hist_cursor s \<le> min (hist_count s) HIST_CAP
     \<and> length (live_buf s) = BUF_CAP \<and> live_len s \<le> BUF_CAP"

text \<open>The working directory is unset, the root, or the canonical path of a directory.\<close>

definition path_ok :: "vnode option \<Rightarrow> str \<Rightarrow> bool" where
  "path_ok r p \<longleftrightarrow> p = [] \<or> p = [SLASH] \<or>
     (\<exists>parts. list_all component_ok parts \<and> parts \<noteq> [] \<and> p = path_of parts
        \<and> (\<exists>n es. r = Some n \<and> tree_at (v_view n) parts = Some (Dir es)))"

definition stats_ok :: "allocator \<Rightarrow> bool" where
  "stats_ok a \<longleftrightarrow> length (slabs a) = 6 \<and> (\<forall>c \<in> set (slabs a). free_count c \<le> total c)"

fun pause_ok :: "pause \<Rightarrow> bool" where
  "pause_ok Pause_tick \<longleftrightarrow> True"
| "pause_ok (Pause_heap a) \<longleftrightarrow> stats_ok a"

definition gaps_ok :: "gap list \<Rightarrow> bool" where
  "gaps_ok gs \<longleftrightarrow> (\<forall>(n, ps) \<in> set gs. list_all pause_ok ps)"

text \<open>What drawing and the interrupts around it need.\<close>

definition paint_ok :: "kernel \<Rightarrow> bool" where
  "paint_ok k \<longleftrightarrow> screen_ok (kwriter k) \<and> stats_ok (kheap k) \<and> gaps_ok (kgaps k)"

lemma paint_ok_update [simp]:
  "paint_ok (k\<lparr>kshell := s\<rparr>) = paint_ok k" "paint_ok (k\<lparr>kdirs := d\<rparr>) = paint_ok k"
  "paint_ok (k\<lparr>kenv := e\<rparr>) = paint_ok k" "paint_ok (k\<lparr>kroot := r\<rparr>) = paint_ok k"
  "paint_ok (k\<lparr>kreads := n\<rparr>) = paint_ok k" "paint_ok (k\<lparr>kports := l\<rparr>) = paint_ok k"
  by (simp_all add: paint_ok_def)

definition kernel_inv :: "kernel \<Rightarrow> bool" where
  "kernel_inv k \<longleftrightarrow> paint_ok k \<and> shell_inv (kshell k)
     \<and> path_ok (kroot k) (cwd (kdirs k)) \<and> path_ok (kroot k) (prev_cwd (kdirs k))
     \<and> pred_option v_ok (kroot k) \<and> env_inv (kenv k)"

lemma shell_inv_new: "shell_inv shell_new"
  by (simp add: shell_inv_def shell_new_def BUF_CAP_def HIST_CAP_def)

section \<open>Screen operations\<close>

text \<open>
  \<open>draws k k'\<close>: the states agree but for the screen, and the clock, the heap's statistics and the
  interrupts to come, which change around it; all of these are still well-formed.
\<close>

definition draws :: "kernel \<Rightarrow> kernel \<Rightarrow> bool" where
  "draws k k' \<longleftrightarrow> paint_ok k' \<and> kshell k' = kshell k \<and> kdirs k' = kdirs k \<and> kenv k' = kenv k
     \<and> kroot k' = kroot k \<and> kreads k' = kreads k \<and> kports k' = kports k"

lemma draws_refl: "paint_ok k \<Longrightarrow> draws k k"
  by (simp add: draws_def)

lemma draws_trans: "draws k k' \<Longrightarrow> draws k' k'' \<Longrightarrow> draws k k''"
  by (simp add: draws_def)

lemma draws_after: "draws k k' \<Longrightarrow> returns m (draws k') \<Longrightarrow> returns m (draws k)"
  by (rule returns_mono [OF _ draws_trans])

lemma drawsD:
  assumes "draws k k'"
  shows "paint_ok k'" "kshell k' = kshell k" "kdirs k' = kdirs k" "kenv k' = kenv k"
    "kroot k' = kroot k" "kreads k' = kreads k" "kports k' = kports k"
  using assms by (simp_all add: draws_def)

lemma draws_inv: "kernel_inv k \<Longrightarrow> draws k k' \<Longrightarrow> kernel_inv k'"
  by (simp add: kernel_inv_def draws_def)

definition safe_draw :: "(fb_writer \<Rightarrow> fb_writer option) \<Rightarrow> bool" where
  "safe_draw f \<longleftrightarrow> (\<forall>w c. fb_shows w c \<longrightarrow> (\<exists>w' c'. f w = Some w' \<and> fb_shows w' c'))"

lemma safe_drawI: "refines f g \<Longrightarrow> safe_draw f"
  unfolding safe_draw_def refines_def by blast

lemma safe_draw_bind: "safe_draw f \<Longrightarrow> safe_draw g \<Longrightarrow> safe_draw (\<lambda>w. f w \<bind> g)"
  unfolding safe_draw_def by (metis bind.bind_lunit option.distinct(1))

lemmas safe_draws [wp_rules] =
  safe_drawI [OF refines_show] safe_drawI [OF refines_hide] safe_drawI [OF refines_tick]
  safe_drawI [OF refines_backspace] safe_drawI [OF refines_clear] safe_drawI [OF refines_print]
  safe_drawI [OF refines_set_col] safe_drawI [OF refines_colors]

lemma on_screen_draws:
  assumes "safe_draw f" "paint_ok k"
  shows "returns (on_screen (on_writer f) k) (draws k)"
proof (cases "kwriter k")
  case None
  then have same: "k\<lparr>kwriter := None\<rparr> = k" by (cases k) simp
  show ?thesis using draws_refl [OF assms(2)] None by (simp add: on_screen_def on_writer_def same)
next
  case (Some w)
  with assms obtain w' c' where "f w = Some w'" "fb_shows w' c'"
    by (auto simp: safe_draw_def paint_ok_def screen_ok_def)
  with Some assms(2) show ?thesis
    by (auto simp: on_screen_def on_writer_def screen_ok_def paint_ok_def draws_def)
qed

lemma cursor_tick_draws: "paint_ok k \<Longrightarrow> returns (on_screen cursor_tick k) (draws k)"
  unfolding cursor_tick_def by (intro on_screen_draws safe_draws)

lemma timer_tick_draws:
  assumes k: "paint_ok k"
  shows "returns (timer_tick k) (draws k)"
proof -
  let ?k = "k\<lparr>kticks := kticks k + 1, kblink := kblink k + 1\<rparr>"
  have k1: "draws k ?k" using k by (simp add: paint_ok_def draws_def)
  have "returns (on_screen cursor_tick ?k) (draws k)"
    by (rule draws_after [OF k1 cursor_tick_draws [OF drawsD(1) [OF k1]]])
  with k1 show ?thesis by (simp add: timer_tick_def Let_def)
qed

lemma pauses_draw:
  "paint_ok k \<Longrightarrow> list_all pause_ok ps \<Longrightarrow> returns (for_each ps pass k) (draws k)"
proof (induction ps arbitrary: k)
  case (Cons p ps)
  have "returns (pass p k) (draws k)"
    using Cons.prems timer_tick_draws [of k] by (cases p) (auto simp: paint_ok_def draws_def)
  then obtain k1 where k1: "pass p k = Some k1" "draws k k1" by (auto simp: returns_def)
  from Cons.IH [OF drawsD(1) [OF k1(2)]] Cons.prems(2) have "returns (for_each ps pass k1) (draws k1)" by simp
  from draws_after [OF k1(2) this] k1(1) show ?case by simp
qed (simp add: draws_refl)

text \<open>A use of the screen draws, whatever interrupts it.\<close>

lemma hal_draws:
  assumes "safe_draw f" "paint_ok k"
  shows "returns (hal (on_writer f) k) (draws k)"
proof -
  from on_screen_draws [OF assms] obtain k1 where
    k1: "on_screen (on_writer f) k = Some k1" "draws k k1" by (auto simp: returns_def)
  show ?thesis
  proof (cases "kgaps k1")
    case Nil
    with k1 show ?thesis by (simp add: hal_def)
  next
    case (Cons g gs)
    obtain n ps where g: "g = (n, ps)" by (cases g)
    let ?k = "locked_ticks n (k1\<lparr>kgaps := gs\<rparr>)"
    have ok: "paint_ok ?k" "list_all pause_ok ps"
      using drawsD(1) [OF k1(2)] Cons g by (auto simp: paint_ok_def gaps_ok_def locked_ticks_def)
    then have "draws k1 ?k" by (simp add: draws_def locked_ticks_def)
    from draws_after [OF draws_trans [OF k1(2) this] pauses_draw [OF ok]] k1(1) Cons g show ?thesis
      by (simp add: hal_def)
  qed
qed

text \<open>It never touches the shell.\<close>

lemma on_screen_kshell: "on_screen f k = Some k' \<Longrightarrow> kshell k' = kshell k"
  by (auto simp: on_screen_def split: Option.bind_splits)

lemma pass_kshell: "pass p k = Some k' \<Longrightarrow> kshell k' = kshell k"
  by (cases p) (auto simp: timer_tick_def Let_def split: if_splits dest: on_screen_kshell)

lemma pauses_kshell: "for_each ps pass k = Some k' \<Longrightarrow> kshell k' = kshell k"
  by (induction ps arbitrary: k) (auto split: Option.bind_splits dest: pass_kshell)

lemma hal_kshell: "hal f k = Some k' \<Longrightarrow> kshell k' = kshell k"
  by (auto simp: hal_def locked_ticks_def split: Option.bind_splits list.splits prod.splits
      dest!: on_screen_kshell pauses_kshell)

lemma kprint_draws: "paint_ok k \<Longrightarrow> returns (kprint s k) (draws k)"
  unfolding kprint_def fb_print_def [abs_def] by (intro hal_draws safe_draws)

lemma kprintln_draws: "paint_ok k \<Longrightarrow> returns (kprintln s k) (draws k)"
  unfolding kprintln_def by (rule kprint_draws)

lemma set_fg_draws: "paint_ok k \<Longrightarrow> returns (hal (set_fg c) k) (draws k)"
  unfolding set_fg_def by (intro hal_draws safe_draws)

lemma reset_colors_draws: "paint_ok k \<Longrightarrow> returns (hal reset_colors k) (draws k)"
  unfolding reset_colors_def by (intro hal_draws safe_draws)

lemma cursor_show_draws: "paint_ok k \<Longrightarrow> returns (hal (cursor_show ch) k) (draws k)"
  unfolding cursor_show_def [abs_def] by (intro hal_draws safe_draws)

lemma kprint_file_draws:
  assumes "paint_ok k" "pred_option v_ok (kroot k)"
  shows "returns (kprint_file path k) (\<lambda>(b, k'). draws k k')"
proof -
  obtain s b where "print_file v_kind v_size v_read v_lookup (kroot k) path = Some (s, b)"
  proof (cases "kroot k")
    case None
    then show ?thesis using that [of "[]" False] by (simp add: print_file_def vfs_lookup_def)
  next
    case (Some r)
    with assms(2) ramfs.print_file_law [of r path] that show ?thesis
      by (auto split: option.splits)
  qed
  with kprint_draws [OF assms(1), of s] show ?thesis
    by (auto simp: kprint_file_def returns_def)
qed

lemma file_text_some: "pred_option v_ok (kroot k) \<Longrightarrow> \<exists>t. file_text k path = Some t"
proof (cases "kroot k")
  case None
  then show ?thesis by (simp add: file_text_def read_file_str_def vfs_lookup_def)
next
  case (Some r)
  assume "pred_option v_ok (kroot k)"
  with Some ramfs.read_file_law [of r path] show ?thesis by (simp add: file_text_def)
qed

end
