(* ===== verification/LineEditor.thy ===== *)
theory LineEditor
  imports KernelState
begin

text \<open>
  The line editor of kernel/src/shell.rs: the operations a key runs on the line buffer, the
  cursor and the history, with the drawing each does; and their abstract specification, an
  editor whose state is a line, a position in it and a list of past lines.
\<close>

section \<open>Operations\<close>

definition shell_cursor_char :: "shell \<Rightarrow> uchar option" where
  "shell_cursor_char s = (if cursor_pos s < len s then get_at (buf s) (cursor_pos s) else Some 32)"

definition show_cursor :: "kernel \<Rightarrow> kernel option" where
  "show_cursor k = do { ch \<leftarrow> shell_cursor_char (kshell k); hal (cursor_show ch) k }"

text \<open>\<open>for i in lo..hi { print!("{}", self.buf[i]); }\<close>\<close>

definition print_buf :: "nat \<Rightarrow> nat \<Rightarrow> kernel \<Rightarrow> kernel option" where
  "print_buf lo hi k = for_each [lo..<hi] (\<lambda>i k. do { c \<leftarrow> get_at (buf (kshell k)) i; kprint [c] k }) k"

text \<open>Moving the screen cursor to a column and showing it on the character it is on.\<close>

definition move_cursor :: "nat \<Rightarrow> kernel \<Rightarrow> kernel option" where
  "move_cursor c k =
     hal (on_writer (\<lambda>w. do { w \<leftarrow> fb_cursor_hide w;
                              let w = fb_set_col c w;
                              ch \<leftarrow> shell_cursor_char (kshell k);
                              fb_cursor_show ch w })) k"

definition redraw_from :: "nat \<Rightarrow> kernel \<Rightarrow> kernel option" where
  "redraw_from from k =
     do { k \<leftarrow> hal (on_writer (\<lambda>w. do { w \<leftarrow> fb_cursor_hide w;
                                       Some (fb_set_col (prompt_col (kshell k) + from) w) })) k;
          k \<leftarrow> print_buf from (len (kshell k)) k;
          k \<leftarrow> kprint (lit '' '') k;
          hal (on_writer (\<lambda>w. do { let w = fb_set_col (prompt_col (kshell k) + cursor_pos (kshell k)) w;
                                   ch \<leftarrow> shell_cursor_char (kshell k);
                                   fb_cursor_show ch w })) k }"

definition insert_char :: "uchar \<Rightarrow> kernel \<Rightarrow> kernel option" where
  "insert_char ch k =
     (let s = kshell k
      in if len s < BUF_CAP then
           (if cursor_pos s = len s then
              do { b \<leftarrow> set_at (buf s) (len s) ch;
                   let k = on_shell (\<lambda>s. s\<lparr>buf := b, len := len s + 1, cursor_pos := len s + 1\<rparr>) k;
                   k \<leftarrow> kprint [ch] k;
                   show_cursor k }
            else
              do { let draw_from = cursor_pos s;
                   b \<leftarrow> copy_within (cursor_pos s) (len s) (cursor_pos s + 1) (buf s);
                   b \<leftarrow> set_at b (cursor_pos s) ch;
                   redraw_from draw_from
                     (on_shell (\<lambda>s. s\<lparr>buf := b, len := len s + 1, cursor_pos := cursor_pos s + 1\<rparr>) k) })
         else show_cursor k)"

definition sh_backspace :: "kernel \<Rightarrow> kernel option" where
  "sh_backspace k =
     (let s = kshell k
      in if cursor_pos s = 0 then Some k
         else if cursor_pos s = len s then
           do { n \<leftarrow> checked_sub (len s) 1;
                p \<leftarrow> checked_sub (cursor_pos s) 1;
                hal (on_writer fb_backspace) (on_shell (\<lambda>s. s\<lparr>len := n, cursor_pos := p\<rparr>) k) }
         else
           do { b \<leftarrow> copy_within (cursor_pos s) (len s) (cursor_pos s - 1) (buf s);
                n \<leftarrow> checked_sub (len s) 1;
                p \<leftarrow> checked_sub (cursor_pos s) 1;
                redraw_from p (on_shell (\<lambda>s. s\<lparr>buf := b, len := n, cursor_pos := p\<rparr>) k) })"

definition cursor_left :: "kernel \<Rightarrow> kernel option" where
  "cursor_left k =
     (if cursor_pos (kshell k) = 0 then Some k
      else do { p \<leftarrow> checked_sub (cursor_pos (kshell k)) 1;
                move_cursor (prompt_col (kshell k) + p) (on_shell (\<lambda>s. s\<lparr>cursor_pos := p\<rparr>) k) })"

definition cursor_right :: "kernel \<Rightarrow> kernel option" where
  "cursor_right k =
     (if cursor_pos (kshell k) = len (kshell k) then Some k
      else let p = cursor_pos (kshell k) + 1
           in move_cursor (prompt_col (kshell k) + p) (on_shell (\<lambda>s. s\<lparr>cursor_pos := p\<rparr>) k))"

definition cursor_to_start :: "kernel \<Rightarrow> kernel option" where
  "cursor_to_start k = move_cursor (prompt_col (kshell k)) (on_shell (\<lambda>s. s\<lparr>cursor_pos := 0\<rparr>) k)"

definition cursor_to_end :: "kernel \<Rightarrow> kernel option" where
  "cursor_to_end k =
     move_cursor (prompt_col (kshell k) + len (kshell k)) (on_shell (\<lambda>s. s\<lparr>cursor_pos := len s\<rparr>) k)"

text \<open>\<open>for _ in 0..self.len { w.backspace(); }\<close>, and the line emptied after it.\<close>

definition erase_cells :: "nat \<Rightarrow> kernel \<Rightarrow> kernel option" where
  "erase_cells n k = for_each [0..<n] (\<lambda>_. hal (on_writer fb_backspace)) k"

definition clear_line :: "kernel \<Rightarrow> kernel option" where
  "clear_line k =
     do { k \<leftarrow> erase_cells (len (kshell k)) k; Some (on_shell (\<lambda>s. s\<lparr>len := 0, cursor_pos := 0\<rparr>) k) }"

definition erase_line :: "kernel \<Rightarrow> kernel option" where
  "erase_line k =
     do { k \<leftarrow> hal (on_writer (\<lambda>w. for_each [0..<len (kshell k)] (\<lambda>_. fb_backspace) w)) k;
          Some (on_shell (\<lambda>s. s\<lparr>len := 0, cursor_pos := 0\<rparr>) k) }"

definition print_prompt :: "kernel \<Rightarrow> kernel option" where
  "print_prompt k =
     do { let display = (if cwd (kdirs k) = [] then lit ''/'' else cwd (kdirs k));
          k \<leftarrow> kprint (lit ''amaterasu:'') k;
          k \<leftarrow> hal (set_fg COLOR_PROMPT) k;
          k \<leftarrow> kprint display k;
          k \<leftarrow> hal reset_colors k;
          k \<leftarrow> kprint (lit ''> '') k;
          let c = (case kwriter k of Some w \<Rightarrow> fb_get_col w | None \<Rightarrow> 0);
          show_cursor (on_shell (\<lambda>s. s\<lparr>prompt_col := c, cursor_pos := len s\<rparr>) k) }"

definition ctrl_c :: "kernel \<Rightarrow> kernel option" where
  "ctrl_c k =
     do { k \<leftarrow> kprintln (lit ''^C'') k;
          print_prompt (on_shell (\<lambda>s. s\<lparr>len := 0, cursor_pos := 0, hist_cursor := 0\<rparr>) k) }"

definition ctrl_l :: "kernel \<Rightarrow> kernel option" where
  "ctrl_l k =
     do { k \<leftarrow> hal (on_writer fb_clear) k;
          k \<leftarrow> print_prompt k;
          k \<leftarrow> print_buf 0 (len (kshell k)) k;
          show_cursor k }"

text \<open>
  The two loops of \<open>ctrl_w\<close>; the recursion is on the length of the line, which each turn
  decreases.
\<close>

fun delete_while :: "nat \<Rightarrow> (uchar \<Rightarrow> bool) \<Rightarrow> kernel \<Rightarrow> kernel option" where
  "delete_while 0 P k = Some k"
| "delete_while (Suc n) P k =
     do { c \<leftarrow> get_at (buf (kshell k)) n;
          if P c then
            do { k \<leftarrow> hal (on_writer fb_backspace) k;
                 delete_while n P (on_shell (\<lambda>s. s\<lparr>len := n, cursor_pos := n\<rparr>) k) }
          else Some k }"

definition ctrl_w :: "kernel \<Rightarrow> kernel option" where
  "ctrl_w k =
     do { k \<leftarrow> delete_while (len (kshell k)) (\<lambda>c. c = 32) k;
          delete_while (len (kshell k)) (\<lambda>c. c \<noteq> 32) k }"

definition ctrl_u :: "kernel \<Rightarrow> kernel option" where
  "ctrl_u k = clear_line k"

section \<open>History\<close>

definition reprint_buf :: "kernel \<Rightarrow> kernel option" where
  "reprint_buf k = print_buf 0 (len (kshell k)) k"

definition load_history_entry :: "kernel \<Rightarrow> kernel option" where
  "load_history_entry k =
     do { d \<leftarrow> checked_sub (hist_count (kshell k)) (hist_cursor (kshell k));
          let idx = d mod HIST_CAP;
          new_len \<leftarrow> get_at (hist_len (kshell k)) idx;
          k \<leftarrow> erase_line k;
          h \<leftarrow> get_at (history (kshell k)) idx;
          h \<leftarrow> slice 0 new_len h;
          b \<leftarrow> copy_prefix h (buf (kshell k));
          reprint_buf (on_shell (\<lambda>s. s\<lparr>buf := b, len := new_len, cursor_pos := new_len\<rparr>) k) }"

definition load_live :: "kernel \<Rightarrow> kernel option" where
  "load_live k =
     do { k \<leftarrow> erase_line k;
          h \<leftarrow> slice 0 (live_len (kshell k)) (live_buf (kshell k));
          b \<leftarrow> copy_prefix h (buf (kshell k));
          reprint_buf (on_shell (\<lambda>s. s\<lparr>buf := b, len := live_len s, cursor_pos := live_len s\<rparr>) k) }"

definition history_up :: "kernel \<Rightarrow> kernel option" where
  "history_up k =
     (let s = kshell k
      in if min (hist_count s) HIST_CAP \<le> hist_cursor s then Some k
         else
           do { k \<leftarrow> (if hist_cursor s = 0 then
                        do { h \<leftarrow> slice 0 (len s) (buf s);
                             b \<leftarrow> copy_prefix h (live_buf s);
                             Some (on_shell (\<lambda>s. s\<lparr>live_buf := b, live_len := len s\<rparr>) k) }
                      else Some k);
                k \<leftarrow> load_history_entry (on_shell (\<lambda>s. s\<lparr>hist_cursor := hist_cursor s + 1\<rparr>) k);
                show_cursor k })"

definition history_down :: "kernel \<Rightarrow> kernel option" where
  "history_down k =
     (if hist_cursor (kshell k) = 0 then Some k
      else
        do { n \<leftarrow> checked_sub (hist_cursor (kshell k)) 1;
             let k = on_shell (\<lambda>s. s\<lparr>hist_cursor := n\<rparr>) k;
             k \<leftarrow> (if n = 0 then load_live k else load_history_entry k);
             show_cursor k })"

text \<open>The part of \<open>submit\<close> that stores the line in the history.\<close>

definition remember_line :: "shell \<Rightarrow> shell option" where
  "remember_line s =
     (if len s > 0 then
        do { let last_slot = unat (of_nat (hist_count s) - 1 :: usize) mod HIST_CAP;
             l \<leftarrow> get_at (hist_len s) last_slot;
             is_dup \<leftarrow>
               (if hist_count s > 0 \<and> l = len s then
                  do { h \<leftarrow> get_at (history s) last_slot;
                       h \<leftarrow> slice 0 (len s) h;
                       b \<leftarrow> slice 0 (len s) (buf s);
                       Some (h = b) }
                else Some False);
             if is_dup then Some s
             else
               do { let slot = hist_count s mod HIST_CAP;
                    h \<leftarrow> get_at (history s) slot;
                    b \<leftarrow> slice 0 (len s) (buf s);
                    h \<leftarrow> copy_prefix b h;
                    hs \<leftarrow> set_at (history s) slot h;
                    ls \<leftarrow> set_at (hist_len s) slot (len s);
                    Some (s\<lparr>history := hs, hist_len := ls, hist_count := hist_count s + 1\<rparr>) } }
      else Some s)"

end
