(* ===== verification/Commands.thy ===== *)
theory Commands
  imports LineEditor
begin

text \<open>
  The shell's commands (kernel/src/cmd): each takes the kernel and the argument text, if there
  is one, and answers the kernel after it, or \<open>None\<close> for a panic.
\<close>

section \<open>The command table\<close>

datatype handler =
    Cmd_echo | Cmd_uname | Cmd_hostname | Cmd_wc | Cmd_head | Cmd_tail | Cmd_grep | Cmd_clear
  | Cmd_ls | Cmd_cat | Cmd_stat | Cmd_cd | Cmd_pwd | Cmd_cpu | Cmd_uptime | Cmd_heap
  | Cmd_reboot | Cmd_shutdown | Cmd_export | Cmd_history | Cmd_help

record cmd =
  cmd_name :: str
  usage :: str
  run :: handler

definition COMMANDS :: "cmd list" where
  "COMMANDS =
    [\<lparr>cmd_name = lit ''echo'', usage = lit ''echo [text]'', run = Cmd_echo\<rparr>,
     \<lparr>cmd_name = lit ''uname'', usage = lit ''uname [-a|-s|-r|-m]'', run = Cmd_uname\<rparr>,
     \<lparr>cmd_name = lit ''hostname'', usage = lit ''hostname'', run = Cmd_hostname\<rparr>,
     \<lparr>cmd_name = lit ''wc'', usage = lit ''wc [-l|-w|-c] <path>'', run = Cmd_wc\<rparr>,
     \<lparr>cmd_name = lit ''head'', usage = lit ''head [-n N] <path>'', run = Cmd_head\<rparr>,
     \<lparr>cmd_name = lit ''tail'', usage = lit ''tail [-n N] <path>'', run = Cmd_tail\<rparr>,
     \<lparr>cmd_name = lit ''grep'', usage = lit ''grep [-i|-n|-c] <pat> <path>'', run = Cmd_grep\<rparr>,
     \<lparr>cmd_name = lit ''clear'', usage = lit ''clear'', run = Cmd_clear\<rparr>,
     \<lparr>cmd_name = lit ''ls'', usage = lit ''ls [path]'', run = Cmd_ls\<rparr>,
     \<lparr>cmd_name = lit ''cat'', usage = lit ''cat <path>'', run = Cmd_cat\<rparr>,
     \<lparr>cmd_name = lit ''stat'', usage = lit ''stat <path>'', run = Cmd_stat\<rparr>,
     \<lparr>cmd_name = lit ''cd'', usage = lit ''cd [path]'', run = Cmd_cd\<rparr>,
     \<lparr>cmd_name = lit ''pwd'', usage = lit ''pwd'', run = Cmd_pwd\<rparr>,
     \<lparr>cmd_name = lit ''cpu'', usage = lit ''cpu'', run = Cmd_cpu\<rparr>,
     \<lparr>cmd_name = lit ''uptime'', usage = lit ''uptime'', run = Cmd_uptime\<rparr>,
     \<lparr>cmd_name = lit ''heap'', usage = lit ''heap'', run = Cmd_heap\<rparr>,
     \<lparr>cmd_name = lit ''reboot'', usage = lit ''reboot'', run = Cmd_reboot\<rparr>,
     \<lparr>cmd_name = lit ''shutdown'', usage = lit ''shutdown'', run = Cmd_shutdown\<rparr>,
     \<lparr>cmd_name = lit ''export'', usage = lit ''export [VAR=value | VAR | (none)]'', run = Cmd_export\<rparr>,
     \<lparr>cmd_name = lit ''history'', usage = lit ''history [n]'', run = Cmd_history\<rparr>,
     \<lparr>cmd_name = lit ''help'', usage = lit ''help [command]'', run = Cmd_help\<rparr>]"

text \<open>A line in the error colour, and a directory's name in the directory colour.\<close>

definition println_colored :: "rgb \<Rightarrow> str \<Rightarrow> kernel \<Rightarrow> kernel option" where
  "println_colored c s k =
     do { k \<leftarrow> hal (set_fg c) k; k \<leftarrow> kprintln s k; hal reset_colors k }"

section \<open>Files (cmd/fs.rs)\<close>

definition print_entry :: "str \<Rightarrow> str \<Rightarrow> kernel \<Rightarrow> kernel option" where
  "print_entry dir name k =
     (case lookup_node k (dir @ [SLASH] @ name) of
        Some n \<Rightarrow>
          if v_kind n = KDir then println_colored COLOR_DIR (name @ [SLASH]) k else kprintln name k
      | None \<Rightarrow> kprintln name k)"

definition print_names :: "str \<Rightarrow> str list \<Rightarrow> kernel \<Rightarrow> kernel option" where
  "print_names dir names k =
     (if names = [] then kprintln (lit ''(empty)'') k else for_each (sort names) (print_entry dir) k)"

definition cmd_ls :: "kernel \<Rightarrow> str option \<Rightarrow> kernel option" where
  "cmd_ls k path =
     (let path_str = (case path of Some p \<Rightarrow> to_absolute k p | None \<Rightarrow> cwd_get (kdirs k));
          is_root = (filter (\<lambda>s. s \<noteq> []) (split_on SLASH path_str) = [])
      in if is_root then
           (case root_names k of
              None \<Rightarrow> println_colored COLOR_ERROR (lit ''ls: no filesystem mounted'') k
            | Some names \<Rightarrow> print_names [] names k)
         else
           (case lookup_node k path_str of
              None \<Rightarrow> println_colored COLOR_ERROR (lit ''ls: not found: '' @ path_str) k
            | Some node \<Rightarrow>
                (case v_kind node of
                   KDir \<Rightarrow> print_names path_str (v_readdir node) k
                 | KFile \<Rightarrow>
                     (let parts = filter (\<lambda>s. s \<noteq> []) (split_on SLASH path_str)
                      in kprintln (if parts = [] then path_str else last parts) k))))"

definition cmd_cat :: "kernel \<Rightarrow> str option \<Rightarrow> kernel option" where
  "cmd_cat k arg =
     (case arg of
        None \<Rightarrow> kprintln (lit ''usage: cat <path>'') k
      | Some p \<Rightarrow>
          (let path = to_absolute k p
           in case lookup_node k path of
                None \<Rightarrow> kprintln (lit ''cat: not found: '' @ path) k
              | Some node \<Rightarrow>
                  (case v_kind node of
                     KDir \<Rightarrow> kprintln (lit ''cat: '' @ path @ lit '': is a directory'') k
                   | KFile \<Rightarrow>
                       if v_size node = 0 then Some k
                       else
                         do { let (b, n) = v_read node (replicate (v_size node) 0) 0;
                              bytes \<leftarrow> slice 0 n b;
                              (case from_utf8 bytes of
                                 Some s \<Rightarrow>
                                   do { k \<leftarrow> kprint s k;
                                        if ends_with [10] s then Some k else kprint [10] k }
                               | None \<Rightarrow>
                                   kprintln (lit ''cat: '' @ path @ lit '': binary file ('' @ dec n @ lit '' bytes)'') k) })))"

definition cmd_stat :: "kernel \<Rightarrow> str option \<Rightarrow> kernel option" where
  "cmd_stat k arg =
     (case arg of
        None \<Rightarrow> kprintln (lit ''usage: stat <path>'') k
      | Some p \<Rightarrow>
          (let path = to_absolute k p
           in case lookup_node k path of
                None \<Rightarrow> kprintln (lit ''stat: not found: '' @ path) k
              | Some node \<Rightarrow>
                  do { let kind_str = (case v_kind node of KFile \<Rightarrow> lit ''file'' | KDir \<Rightarrow> lit ''directory'');
                       k \<leftarrow> kprintln (lit ''path: '' @ path) k;
                       k \<leftarrow> kprintln (lit ''type: '' @ kind_str) k;
                       kprintln (lit ''size: '' @ dec (v_size node) @ lit '' bytes'') k }))"

definition change_dir :: "str \<Rightarrow> kernel \<Rightarrow> kernel" where
  "change_dir p k = k\<lparr>kdirs := cwd_set (kdirs k) p, kenv := env_set (kenv k) (lit ''PWD'') p\<rparr>"

definition cmd_cd :: "kernel \<Rightarrow> str option \<Rightarrow> kernel option" where
  "cmd_cd k arg =
     (case arg of
        None \<Rightarrow> Some (change_dir (lit ''/'') k)
      | Some path \<Rightarrow>
          if path = lit ''-'' then Some (change_dir (cwd_prev_get (kdirs k)) k)
          else
            (let resolved = to_absolute k path
             in if resolved = lit ''/'' then Some (change_dir (lit ''/'') k)
                else
                  (case lookup_node k resolved of
                     None \<Rightarrow> kprintln (lit ''cd: not found: '' @ path) k
                   | Some node \<Rightarrow>
                       (case v_kind node of
                          KFile \<Rightarrow> kprintln (lit ''cd: not a directory: '' @ path) k
                        | KDir \<Rightarrow> Some (change_dir resolved k)))))"

definition cmd_pwd :: "kernel \<Rightarrow> str option \<Rightarrow> kernel option" where
  "cmd_pwd k arg = kprintln (cwd_get (kdirs k)) k"

text \<open>One turn of the loop of \<open>grep\<close> over the numbered lines, with the count of matches.\<close>

definition grep_line :: "(str \<Rightarrow> str) \<Rightarrow> str \<Rightarrow> bool \<Rightarrow> bool \<Rightarrow> nat \<times> str \<Rightarrow> kernel \<times> nat \<Rightarrow> (kernel \<times> nat) option" where
  "grep_line fold_case pat show_numbers count_only il km =
     (case (il, km) of ((i, line), (k, matches)) \<Rightarrow>
        if contains pat (fold_case line) then
          if count_only then Some (k, matches + 1)
          else
            do { k \<leftarrow> kprintln (if show_numbers then dec (i + 1) @ lit '':'' @ line else line) k;
                 Some (k, matches + 1) }
        else Some (k, matches))"

definition cmd_grep :: "machine \<Rightarrow> kernel \<Rightarrow> str option \<Rightarrow> kernel option" where
  "cmd_grep m k arg =
     (let usage_line = lit ''usage: grep [-i] [-n] [-c] <pattern> <file>''
      in case arg of
           None \<Rightarrow> kprintln usage_line k
         | Some s \<Rightarrow>
             do { parsed \<leftarrow> parse_args s;
                  (case (get_arg parsed 0, get_arg parsed 1) of
                     (Some pattern, Some p) \<Rightarrow>
                       do { let path = to_absolute k p;
                            text \<leftarrow> file_text k path;
                            (case text of
                               None \<Rightarrow> kprintln (lit ''grep: '' @ path @ lit '': not found'') k
                             | Some content \<Rightarrow>
                                 do { let fold_case = (if has_flag parsed (cp (CHR ''i'')) then lowercase m else (\<lambda>s. s));
                                      let count_only = has_flag parsed (cp (CHR ''c''));
                                      let ls = lines content;
                                      (k, matches) \<leftarrow>
                                        for_each (zip [0..<length ls] ls)
                                          (grep_line fold_case (fold_case pattern)
                                             (has_flag parsed (cp (CHR ''n''))) count_only) (k, 0);
                                      if count_only then kprintln (dec matches) k else Some k }) }
                   | _ \<Rightarrow> kprintln usage_line k) })"

text \<open>\<open>flag_val('n').and_then(|v| v.parse().ok()).unwrap_or(10)\<close>.\<close>

definition line_count :: "parsed_args \<Rightarrow> nat" where
  "line_count parsed =
     (case Option.bind (flag_val parsed (cp (CHR ''n''))) parse_usize of Some n \<Rightarrow> n | None \<Rightarrow> 10)"

definition cmd_tail :: "kernel \<Rightarrow> str option \<Rightarrow> kernel option" where
  "cmd_tail k arg =
     (let usage_line = lit ''usage: tail [-n <count>] <file>''
      in case arg of
           None \<Rightarrow> kprintln usage_line k
         | Some s \<Rightarrow>
             do { parsed \<leftarrow> parse_args s;
                  let count = line_count parsed;
                  (case get_arg parsed 0 of
                     None \<Rightarrow> kprintln usage_line k
                   | Some p \<Rightarrow>
                       do { let path = to_absolute k p;
                            text \<leftarrow> file_text k path;
                            (case text of
                               None \<Rightarrow> kprintln (lit ''tail: '' @ path @ lit '': not found'') k
                             | Some content \<Rightarrow>
                                 do { let ls = lines content;
                                      rest \<leftarrow> slice_from (length ls - count) ls;
                                      for_each rest kprintln k }) }) })"

definition cmd_head :: "kernel \<Rightarrow> str option \<Rightarrow> kernel option" where
  "cmd_head k arg =
     (let usage_line = lit ''usage: head [-n <count>] <file>''
      in case arg of
           None \<Rightarrow> kprintln usage_line k
         | Some s \<Rightarrow>
             do { parsed \<leftarrow> parse_args s;
                  let count = line_count parsed;
                  (case get_arg parsed 0 of
                     None \<Rightarrow> kprintln usage_line k
                   | Some p \<Rightarrow>
                       do { let path = to_absolute k p;
                            text \<leftarrow> file_text k path;
                            (case text of
                               None \<Rightarrow> kprintln (lit ''head: '' @ path @ lit '': not found'') k
                             | Some content \<Rightarrow> for_each (take count (lines content)) kprintln k) }) })"

definition cmd_wc :: "kernel \<Rightarrow> str option \<Rightarrow> kernel option" where
  "cmd_wc k arg =
     (let usage_line = lit ''usage: wc [-l] [-w] [-c] <file>''
      in case arg of
           None \<Rightarrow> kprintln usage_line k
         | Some s \<Rightarrow>
             do { parsed \<leftarrow> parse_args s;
                  (case get_arg parsed 0 of
                     None \<Rightarrow> kprintln usage_line k
                   | Some p \<Rightarrow>
                       do { let path = to_absolute k p;
                            text \<leftarrow> file_text k path;
                            (case text of
                               None \<Rightarrow> kprintln (lit ''wc: '' @ path @ lit '': not found'') k
                             | Some content \<Rightarrow>
                                 do { let al = (flags parsed = [] \<and> flag_vals parsed = []);
                                      k \<leftarrow> (if al \<or> has_flag parsed (cp (CHR ''l''))
                                           then kprint (dec_width 8 (length (lines content))) k else Some k);
                                      k \<leftarrow> (if al \<or> has_flag parsed (cp (CHR ''w''))
                                           then kprint (dec_width 8 (length (split_whitespace content))) k else Some k);
                                      k \<leftarrow> (if al \<or> has_flag parsed (cp (CHR ''c''))
                                           then kprint (dec_width 8 (byte_len content)) k else Some k);
                                      kprintln (lit '' '' @ path) k }) }) })"

section \<open>System (cmd/sys.rs and hal/src/cpu.rs)\<close>

text \<open>The lines of \<open>heap\<close> for the six classes; \<open>used\<close> is the checked subtraction.\<close>

definition heap_class_line :: "heap_stats \<Rightarrow> nat \<Rightarrow> kernel \<Rightarrow> kernel option" where
  "heap_class_line s i k =
     do { t \<leftarrow> get_at (st_slab_total s) i;
          f \<leftarrow> get_at (st_slab_free s) i;
          used \<leftarrow> csub t f;
          sz \<leftarrow> get_at (st_slab_sizes s) i;
          kprintln (lit ''  '' @ dec_width 3 (unat sz) @ lit ''B  '' @ dec (unat used) @ lit ''/'' @ dec (unat t)) k }"

definition cmd_heap :: "kernel \<Rightarrow> str option \<Rightarrow> kernel option" where
  "cmd_heap k arg =
     do { let s = sa_stats (kheap k);
          k \<leftarrow> kprintln (lit ''heap start : '' @ hex_width 12 (unat (st_heap_start s))) k;
          k \<leftarrow> kprintln (lit ''heap size  : '' @ dec (unat (st_heap_size s) div (1024 * 1024)) @ lit '' MB'') k;
          k \<leftarrow> kprintln (lit ''bump used  : '' @ dec (unat (st_bump_used s) div 1024) @ lit '' / ''
                @ dec (unat (st_bump_capacity s) div 1024) @ lit '' KB'') k;
          k \<leftarrow> kprintln (lit ''slabs:'') k;
          k \<leftarrow> for_each [0..<6] (heap_class_line s) k;
          let probe = [0xDEADBEEF, 0xCAFEBABE :: u32];
          kprintln (lit ''alloc probe: Vec('' @ dec (length probe) @ lit '') OK'') k }"

definition cmd_uptime :: "kernel \<Rightarrow> str option \<Rightarrow> kernel option" where
  "cmd_uptime k arg =
     (let ms = unat (uptime_ms k)
      in kprintln (lit ''Uptime: '' @ dec (ms div 1000) @ lit ''s '' @ dec (ms mod 1000) @ lit ''ms'') k)"

definition cmd_hostname :: "kernel \<Rightarrow> str option \<Rightarrow> kernel option" where
  "cmd_hostname k arg =
     (let default = kprintln (lit ''amaterasu'') k
      in case lookup_node k (lit ''/etc/hostname'') of
           None \<Rightarrow> default
         | Some node \<Rightarrow>
             if v_kind node = KFile then
               do { let (b, n) = v_read node (replicate (v_size node) 0) 0;
                    bytes \<leftarrow> slice 0 n b;
                    (case from_utf8 bytes of Some s \<Rightarrow> kprintln (trim s) k | None \<Rightarrow> Some k) }
             else default)"

text \<open>\<open>CARGO_PKG_VERSION\<close> is the version of kernel/Cargo.toml.\<close>

definition cmd_uname :: "kernel \<Rightarrow> str option \<Rightarrow> kernel option" where
  "cmd_uname k arg =
     (let sysname = lit ''AmaterasuOS''; release = lit ''0.1.0''; machine = lit ''x86_64'';
          s = (case arg of Some s \<Rightarrow> s | None \<Rightarrow> [])
      in do { parsed \<leftarrow> parse_args s;
              if flags parsed = [] \<and> flag_vals parsed = [] \<or> has_flag parsed (cp (CHR ''a'')) then
                kprintln (sysname @ lit '' '' @ release @ lit '' '' @ machine) k
              else
                do { let parts = (if has_flag parsed (cp (CHR ''s'')) then [sysname] else [])
                       @ (if has_flag parsed (cp (CHR ''r'')) then [release] else [])
                       @ (if has_flag parsed (cp (CHR ''m'')) then [machine] else []);
                     let parts = (if parts = [] then [sysname] else parts);
                     kprintln (join_with 32 parts) k } })"

text \<open>\<open>u32_to_bytes\<close> (little-endian), and the strings \<open>cpuid\<close> spells.\<close>

definition u32_to_bytes :: "u32 \<Rightarrow> u8 list" where
  "u32_to_bytes v = map (\<lambda>i. ucast (drop_bit (8 * i) v)) [0..<4]"

definition cpu_vendor :: "machine \<Rightarrow> str" where
  "cpu_vendor m =
     (case cpuid m 0 of (eax, ebx, ecx, edx) \<Rightarrow>
        map unat (u32_to_bytes ebx) @ map unat (u32_to_bytes edx) @ map unat (u32_to_bytes ecx))"

text \<open>\<open>bytes[at..at + src.len()].copy_from_slice(src)\<close>.\<close>

definition copy_at :: "nat \<Rightarrow> 'a list \<Rightarrow> 'a list \<Rightarrow> 'a list option" where
  "copy_at at src xs =
     (if at + length src \<le> length xs then Some (take at xs @ src @ drop (at + length src) xs) else None)"

definition brand_leaf :: "machine \<Rightarrow> nat \<times> u32 \<Rightarrow> u8 list \<Rightarrow> u8 list option" where
  "brand_leaf m il bytes =
     (case il of (i, leaf) \<Rightarrow> case cpuid m leaf of (eax, ebx, ecx, edx) \<Rightarrow>
        do { let base = i * 16;
             bytes \<leftarrow> copy_at base (u32_to_bytes eax) bytes;
             bytes \<leftarrow> copy_at (base + 4) (u32_to_bytes ebx) bytes;
             bytes \<leftarrow> copy_at (base + 8) (u32_to_bytes ecx) bytes;
             copy_at (base + 12) (u32_to_bytes edx) bytes })"

definition cpu_brand :: "machine \<Rightarrow> str option option" where
  "cpu_brand m =
     (case cpuid m 0x80000000 of (max_leaf, _, _, _) \<Rightarrow>
        if max_leaf < 0x80000004 then Some None
        else
          do { bytes \<leftarrow> for_each [(0, 0x80000002), (1, 0x80000003), (2, 0x80000004)] (brand_leaf m) (replicate 48 0);
               let stop = (case position (\<lambda>b. b = 0) bytes of Some i \<Rightarrow> i | None \<Rightarrow> 48);
               text \<leftarrow> slice 0 stop bytes;
               let trimmed = trim (case from_utf8 text of Some s \<Rightarrow> s | None \<Rightarrow> []);
               Some (if trimmed = [] then None else Some trimmed) })"

definition cmd_cpu :: "machine \<Rightarrow> kernel \<Rightarrow> str option \<Rightarrow> kernel option" where
  "cmd_cpu m k arg =
     do { k \<leftarrow> kprintln (lit ''vendor:  '' @ cpu_vendor m) k;
          brand \<leftarrow> cpu_brand m;
          (case brand of
             Some b \<Rightarrow> kprintln (lit ''brand:   '' @ b) k
           | None \<Rightarrow> kprintln (lit ''brand:   (not available)'') k) }"

section \<open>Power (cmd/power.rs)\<close>

text \<open>\<open>acpi_power_off\<close>: SLP_EN and SLP_TYP of S5 to the PM1a control port.\<close>

definition acpi_power_off :: "kernel \<Rightarrow> kernel" where
  "acpi_power_off k = k\<lparr>kports := kports k @ [Outw 0x604 0x2000]\<rparr>"

definition cmd_shutdown :: "kernel \<Rightarrow> str option \<Rightarrow> kernel option" where
  "cmd_shutdown k arg = Some (acpi_power_off k)"

text \<open>
  \<open>while inb(0x64) & 0x02 != 0 {}\<close>: the number of status reads up to and including the one that
  finds the input buffer empty; \<open>None\<close> is the wait that never ends.
\<close>

partial_function (option) wait_input_empty :: "machine \<Rightarrow> nat \<Rightarrow> nat option" where
  "wait_input_empty m n = (if kbc_status m n AND 0x02 \<noteq> 0 then wait_input_empty m (n + 1) else Some (n + 1))"

definition cmd_reboot :: "machine \<Rightarrow> kernel \<Rightarrow> str option \<Rightarrow> kernel option" where
  "cmd_reboot m k arg =
     do { n \<leftarrow> wait_input_empty m (kreads k);
          Some (k\<lparr>kreads := n, kports := kports k @ [Outb 0x64 0xFE]\<rparr>) }"

section \<open>The interface (cmd/ui.rs)\<close>

definition cmd_clear :: "kernel \<Rightarrow> str option \<Rightarrow> kernel option" where
  "cmd_clear k arg = hal (on_writer fb_clear) k"

definition cmd_echo :: "kernel \<Rightarrow> str option \<Rightarrow> kernel option" where
  "cmd_echo k arg =
     do { parsed \<leftarrow> parse_args (case arg of Some s \<Rightarrow> s | None \<Rightarrow> []);
          let out = join_with 32 (positional parsed);
          if has_flag parsed (cp (CHR ''n'')) then kprint out k else kprintln out k }"

definition history_line :: "nat \<Rightarrow> nat \<Rightarrow> nat \<Rightarrow> kernel \<Rightarrow> kernel option" where
  "history_line start_slot start_num i k =
     do { let slot = (start_slot + i) mod HIST_CAP;
          n \<leftarrow> get_at (hist_len (kshell k)) slot;
          h \<leftarrow> get_at (history (kshell k)) slot;
          s \<leftarrow> slice 0 n h;
          kprintln (dec_width 4 (start_num + i) @ lit ''  '' @ s) k }"

definition cmd_history :: "kernel \<Rightarrow> str option \<Rightarrow> kernel option" where
  "cmd_history k arg =
     (let available = min (hist_count (kshell k)) HIST_CAP
      in if available = 0 then Some k
         else
           do { let limit = (case arg of
                               Some s \<Rightarrow> min (case parse_usize (trim s) of Some n \<Rightarrow> n | None \<Rightarrow> available) available
                             | None \<Rightarrow> available);
                skip \<leftarrow> checked_sub available limit;
                d \<leftarrow> checked_sub (hist_count (kshell k)) available;
                for_each [0..<limit] (history_line ((d + skip) mod HIST_CAP) (d + skip + 1)) k })"

definition cmd_help :: "kernel \<Rightarrow> str option \<Rightarrow> kernel option" where
  "cmd_help k arg =
     (case arg of
        None \<Rightarrow>
          do { k \<leftarrow> kprintln (lit ''AmaterasuOS -- available commands'' @ [10]) k;
               k \<leftarrow> for_each COMMANDS (\<lambda>c. kprintln (lit ''  '' @ usage c)) k;
               k \<leftarrow> kprintln ([10] @ lit ''Type '' @ [SQ] @ lit ''help <command>'' @ [SQ] @ lit '' for detailed usage.'') k;
               kprintln (lit ''Type '' @ [SQ] @ lit ''help tab'' @ [SQ] @ lit '' for tab completion tips.'') k }
      | Some name \<Rightarrow>
          do { (found, k) \<leftarrow> kprint_file (lit ''/sys/help/'' @ name) k;
               if found then Some k
               else
                 (case List.find (\<lambda>c. cmd_name c = name) COMMANDS of
                    Some entry \<Rightarrow> kprintln (usage entry) k
                  | None \<Rightarrow> kprintln (lit ''no help found for '' @ name) k) })"

text \<open>The variables, which \<open>sort_unstable_by\<close> the keys leaves in the map's order.\<close>

definition print_vars :: "kernel \<Rightarrow> kernel option" where
  "print_vars k =
     for_each (sort_key fst (env_list (kenv k))) (\<lambda>(key, val). kprintln (key @ lit ''='' @ val)) k"

definition cmd_export :: "kernel \<Rightarrow> str option \<Rightarrow> kernel option" where
  "cmd_export k arg =
     (case arg of
        None \<Rightarrow> print_vars k
      | Some s \<Rightarrow>
          (let s = trim s
           in case find_char 0x3D s of
                Some eq \<Rightarrow>
                  do { key \<leftarrow> byte_take eq s;
                       val \<leftarrow> byte_drop (eq + 1) s;
                       Some (k\<lparr>kenv := env_set (kenv k) key val\<rparr>) }
              | None \<Rightarrow>
                  if s = [] then print_vars k
                  else
                    (case env_get (kenv k) s of
                       Some v \<Rightarrow> kprintln (s @ lit ''='' @ v) k
                     | None \<Rightarrow> kprintln (lit ''export: '' @ s @ lit '': not set'') k)))"

section \<open>Running a command\<close>

fun run_handler :: "machine \<Rightarrow> handler \<Rightarrow> kernel \<Rightarrow> str option \<Rightarrow> kernel option" where
  "run_handler m Cmd_echo = cmd_echo"
| "run_handler m Cmd_uname = cmd_uname"
| "run_handler m Cmd_hostname = cmd_hostname"
| "run_handler m Cmd_wc = cmd_wc"
| "run_handler m Cmd_head = cmd_head"
| "run_handler m Cmd_tail = cmd_tail"
| "run_handler m Cmd_grep = cmd_grep m"
| "run_handler m Cmd_clear = cmd_clear"
| "run_handler m Cmd_ls = cmd_ls"
| "run_handler m Cmd_cat = cmd_cat"
| "run_handler m Cmd_stat = cmd_stat"
| "run_handler m Cmd_cd = cmd_cd"
| "run_handler m Cmd_pwd = cmd_pwd"
| "run_handler m Cmd_cpu = cmd_cpu m"
| "run_handler m Cmd_uptime = cmd_uptime"
| "run_handler m Cmd_heap = cmd_heap"
| "run_handler m Cmd_reboot = cmd_reboot m"
| "run_handler m Cmd_shutdown = cmd_shutdown"
| "run_handler m Cmd_export = cmd_export"
| "run_handler m Cmd_history = cmd_history"
| "run_handler m Cmd_help = cmd_help"

end
