(* ===== verification/Shell.thy ===== *)
theory Shell
  imports Commands
begin

text \<open>
  The shell's loop of kernel/src/shell.rs: completion, dispatch of a line, and the meaning of a
  key, with the events that reach the shell.
\<close>

section \<open>Completion\<close>

definition node_suffix :: "kernel \<Rightarrow> str \<Rightarrow> str" where
  "node_suffix k full =
     (case lookup_node k full of Some n \<Rightarrow> if v_kind n = KDir then [SLASH] else [] | None \<Rightarrow> [])"

definition listed_names :: "kernel \<Rightarrow> str \<Rightarrow> str list option" where
  "listed_names k dir_abs =
     (if dir_abs = lit ''/'' then root_names k
      else
        (case lookup_node k dir_abs of
           Some node \<Rightarrow> if v_kind node = KDir then Some (v_readdir node) else None
         | None \<Rightarrow> None))"

text \<open>The candidates for a partial path and the number of bytes of the last component typed.\<close>

definition complete_path :: "kernel \<Rightarrow> str \<Rightarrow> (str list \<times> nat) option" where
  "complete_path k partial =
     do { (dir_str, prefix) \<leftarrow>
            (case rfind_char SLASH partial of
               Some pos \<Rightarrow> do { d \<leftarrow> byte_take (pos + 1) partial; p \<leftarrow> byte_drop (pos + 1) partial; Some (d, p) }
             | None \<Rightarrow> Some ([], partial));
          let dir_abs = (if dir_str = [] then cwd_get (kdirs k) else to_absolute k dir_str);
          let names = listed_names k dir_abs;
          let dir_prefix = trim_end_char SLASH dir_abs;
          Some
            (case names of
               None \<Rightarrow> []
             | Some names \<Rightarrow>
                 map (\<lambda>name. name @ node_suffix k (dir_prefix @ [SLASH] @ name)) (filter (starts_with prefix) names),
             byte_len prefix) }"

definition command_names :: "str \<Rightarrow> str list" where
  "command_names prefix = map cmd_name (filter (\<lambda>c. starts_with prefix (cmd_name c)) COMMANDS)"

text \<open>The first half of \<open>complete\<close>: what could come next; \<open>Some None\<close> is its early return.\<close>

definition complete_candidates :: "kernel \<Rightarrow> (str list \<times> nat) option option" where
  "complete_candidates k =
     do { chars \<leftarrow> slice 0 (len (kshell k)) (buf (kshell k));
          (case position (\<lambda>c. \<not> is_whitespace c) chars of
             None \<Rightarrow> Some None
           | Some cmd_start \<Rightarrow>
               do { from_cmd \<leftarrow> slice_from cmd_start chars;
                    (case position is_whitespace from_cmd of
                       None \<Rightarrow> Some (Some (command_names from_cmd, length from_cmd))
                     | Some i \<Rightarrow>
                         do { let sp = cmd_start + i;
                              name \<leftarrow> slice cmd_start sp chars;
                              from_sp \<leftarrow> slice_from sp chars;
                              let arg_start = (case position (\<lambda>c. \<not> is_whitespace c) from_sp of
                                                 Some j \<Rightarrow> sp + j | None \<Rightarrow> len (kshell k));
                              arg \<leftarrow> slice_from arg_start chars;
                              if name = lit ''help'' then Some (Some (command_names arg, byte_len arg))
                              else map_option Some (complete_path k arg) }) }) }"

definition type_out :: "str \<Rightarrow> kernel \<Rightarrow> kernel option" where
  "type_out s k =
     for_each s (\<lambda>ch k.
       if len (kshell k) < BUF_CAP then
         do { b \<leftarrow> set_at (buf (kshell k)) (len (kshell k)) ch;
              kprint [ch] (on_shell (\<lambda>s. s\<lparr>buf := b, len := len s + 1\<rparr>) k) }
       else Some k) k"

definition complete_with :: "str list \<Rightarrow> nat \<Rightarrow> kernel \<Rightarrow> kernel option" where
  "complete_with candidates prefix_len k =
     (case candidates of
        [] \<Rightarrow> Some k
      | [c] \<Rightarrow>
          do { s \<leftarrow> byte_drop prefix_len c;
               k \<leftarrow> type_out s k;
               Some (on_shell (\<lambda>s. s\<lparr>cursor_pos := len s\<rparr>) k) }
      | c # _ # _ \<Rightarrow>
          (let lcp = longest_common_prefix candidates
           in if lcp > prefix_len then
                do { s \<leftarrow> byte_slice prefix_len lcp c;
                     k \<leftarrow> type_out s k;
                     Some (on_shell (\<lambda>s. s\<lparr>cursor_pos := len s\<rparr>) k) }
              else
                do { k \<leftarrow> kprint [10] k;
                     k \<leftarrow> for_each candidates (\<lambda>c. kprint (c @ lit ''  '')) k;
                     k \<leftarrow> kprint [10] k;
                     k \<leftarrow> print_prompt k;
                     k \<leftarrow> reprint_buf k;
                     show_cursor k }))"

definition complete :: "kernel \<Rightarrow> kernel option" where
  "complete k =
     do { r \<leftarrow> complete_candidates k;
          (case r of None \<Rightarrow> Some k | Some (candidates, prefix_len) \<Rightarrow> complete_with candidates prefix_len k) }"

section \<open>Dispatch\<close>

text \<open>\<open>find\<close> with a test that can panic.\<close>

fun find_cmd :: "(cmd \<Rightarrow> bool option) \<Rightarrow> cmd list \<Rightarrow> cmd option option" where
  "find_cmd P [] = Some None"
| "find_cmd P (c # cs) = do { b \<leftarrow> P c; if b then Some (Some c) else find_cmd P cs }"

text \<open>The loop over the commands for the nearest name.\<close>

fun nearest :: "uchar list \<Rightarrow> cmd list \<Rightarrow> nat \<Rightarrow> str \<Rightarrow> (nat \<times> str) option" where
  "nearest typed [] best_dist best_name = Some (best_dist, best_name)"
| "nearest typed (entry # entries) best_dist best_name =
     do { d \<leftarrow> edit_distance typed (cmd_name entry);
          if d < best_dist then nearest typed entries d (cmd_name entry)
          else nearest typed entries best_dist best_name }"

definition suggestion :: "uchar list \<Rightarrow> str option option" where
  "suggestion typed =
     (case List.find (\<lambda>e. starts_with typed (cmd_name e)) COMMANDS of
        Some entry \<Rightarrow> Some (Some (cmd_name entry))
      | None \<Rightarrow>
          do { (best_dist, best_name) \<leftarrow> nearest typed COMMANDS (2 ^ 64 - 1) [];
               Some (if best_dist \<le> 2 then Some best_name else None) })"

definition dispatch_one :: "machine \<Rightarrow> uchar list \<Rightarrow> kernel \<Rightarrow> kernel option" where
  "dispatch_one m c k =
     do { let start = (case position (\<lambda>c. \<not> is_whitespace c) c of Some i \<Rightarrow> i | None \<Rightarrow> length c);
          let stop = (case rposition (\<lambda>c. \<not> is_whitespace c) c of Some i \<Rightarrow> i + 1 | None \<Rightarrow> start);
          raw \<leftarrow> slice start stop c;
          let c = expand (kenv k) raw;
          if c = [] then Some k
          else
            do { arg \<leftarrow> cmd_arg c;
                 found \<leftarrow> find_cmd (\<lambda>e. name_eq c (cmd_name e)) COMMANDS;
                 (case found of
                    Some entry \<Rightarrow> run_handler m (run entry) k arg
                  | None \<Rightarrow>
                      do { k \<leftarrow> kprint (lit ''unknown command: '' @ c) k;
                           s \<leftarrow> suggestion c;
                           (case s of
                              Some name \<Rightarrow> kprintln (lit '' -- did you mean '' @ [SQ] @ name @ [SQ] @ lit ''?'') k
                            | None \<Rightarrow> kprintln [] k) }) } }"

definition dispatch :: "machine \<Rightarrow> kernel \<Rightarrow> kernel option" where
  "dispatch m k =
     do { input \<leftarrow> slice 0 (len (kshell k)) (buf (kshell k));
          segments \<leftarrow> split_commands input;
          for_each segments (\<lambda>seg k. if trim seg = [] then Some k else dispatch_one m (trim seg) k) k }"

definition submit :: "machine \<Rightarrow> kernel \<Rightarrow> kernel option" where
  "submit m k =
     do { k \<leftarrow> kprint [10] k;
          s \<leftarrow> remember_line (kshell k);
          k \<leftarrow> dispatch m (on_shell (\<lambda>_. s\<lparr>hist_cursor := 0\<rparr>) k);
          print_prompt (on_shell (\<lambda>s. s\<lparr>len := 0, cursor_pos := 0\<rparr>) k) }"

section \<open>Keys\<close>

text \<open>Every key but a printable one ends with showing the cursor.\<close>

definition push_char :: "machine \<Rightarrow> uchar \<Rightarrow> kernel \<Rightarrow> kernel option" where
  "push_char m ch k =
     (if ch = 0x08 then sh_backspace k \<bind> show_cursor
      else if ch = 10 then submit m k \<bind> show_cursor
      else if ch = 9 then complete k \<bind> show_cursor
      else if ch = 0x01 then cursor_to_start k \<bind> show_cursor
      else if ch = 0x02 then cursor_left k \<bind> show_cursor
      else if ch = 0x03 then ctrl_c k \<bind> show_cursor
      else if ch = 0x05 then cursor_to_end k \<bind> show_cursor
      else if ch = 0x06 then cursor_right k \<bind> show_cursor
      else if ch = 0x0C then ctrl_l k \<bind> show_cursor
      else if ch = 0x0E then history_down k \<bind> show_cursor
      else if ch = 0x10 then history_up k \<bind> show_cursor
      else if ch = 0x15 then ctrl_u k \<bind> show_cursor
      else if ch = 0x17 then ctrl_w k \<bind> show_cursor
      else insert_char ch k)"

text \<open>\<open>shell::prompt\<close>, and the state of the kernel's globals when \<open>kernel_main\<close> calls it.\<close>

definition prompt :: "kernel \<Rightarrow> kernel option" where
  "prompt k = print_prompt k"

definition kernel_boot :: "fb_writer option \<Rightarrow> vnode option \<Rightarrow> allocator \<Rightarrow> kernel" where
  "kernel_boot w r a = \<lparr>kwriter = w, kshell = shell_new, kdirs = dirs_init, kenv = env_init [], kroot = r,
     kheap = a, kticks = 0, kblink = 0, kreads = 0, kports = [], kgaps = []\<rparr>"

text \<open>
  What happens to the shell: a key of the keyboard ring, a timer interrupt between two keys, the
  other activity of the heap, and the decision when the coming keys will be interrupted.
\<close>

datatype event = Key uchar | Timer | Heap_activity allocator | Pauses "gap list"

fun on_event :: "machine \<Rightarrow> event \<Rightarrow> kernel \<Rightarrow> kernel option" where
  "on_event m (Key ch) k = push_char m ch k"
| "on_event m Timer k = timer_tick k"
| "on_event m (Heap_activity a) k = Some (k\<lparr>kheap := a\<rparr>)"
| "on_event m (Pauses gs) k = Some (k\<lparr>kgaps := gs\<rparr>)"

end
