(* ===== verification/EditorSpec.thy ===== *)
theory EditorSpec
  imports LineEditor
begin

text \<open>
  The abstract editor, and that every operation of \<open>LineEditor\<close> refines its counterpart
  without panicking: \<open>view\<close> reads the line, the position and the past lines (the newest
  first) out of the buffers and the ring of history slots.
\<close>

section \<open>The abstract editor\<close>

record editor =
  ed_line :: str
  ed_point :: nat
  ed_past :: "str list"
  ed_at :: nat
  ed_saved :: str

definition ed_insert :: "uchar \<Rightarrow> editor \<Rightarrow> editor" where
  "ed_insert ch e =
     (if length (ed_line e) < 256 then
        e\<lparr>ed_line := take (ed_point e) (ed_line e) @ ch # drop (ed_point e) (ed_line e),
          ed_point := ed_point e + 1\<rparr>
      else e)"

definition ed_backspace :: "editor \<Rightarrow> editor" where
  "ed_backspace e =
     e\<lparr>ed_line := take (ed_point e - 1) (ed_line e) @ drop (ed_point e) (ed_line e), ed_point := ed_point e - 1\<rparr>"

definition ed_left :: "editor \<Rightarrow> editor" where
  "ed_left e = e\<lparr>ed_point := ed_point e - 1\<rparr>"

definition ed_right :: "editor \<Rightarrow> editor" where
  "ed_right e = e\<lparr>ed_point := min (ed_point e + 1) (length (ed_line e))\<rparr>"

definition ed_start :: "editor \<Rightarrow> editor" where "ed_start e = e\<lparr>ed_point := 0\<rparr>"

definition ed_end :: "editor \<Rightarrow> editor" where "ed_end e = e\<lparr>ed_point := length (ed_line e)\<rparr>"

definition ed_load :: "str \<Rightarrow> editor \<Rightarrow> editor" where
  "ed_load l e = e\<lparr>ed_line := l, ed_point := length l\<rparr>"

definition ed_kill :: "editor \<Rightarrow> editor" where "ed_kill e = ed_load [] e"

definition ed_cancel :: "editor \<Rightarrow> editor" where "ed_cancel e = (ed_load [] e)\<lparr>ed_at := 0\<rparr>"

text \<open>Deleting a word at the end of the line, wherever the position is.\<close>

definition ed_strip :: "(uchar \<Rightarrow> bool) \<Rightarrow> editor \<Rightarrow> editor" where
  "ed_strip P e =
     (let l = rev (dropWhile P (rev (ed_line e))) in if l = ed_line e then e else ed_load l e)"

definition ed_word :: "editor \<Rightarrow> editor" where
  "ed_word e = ed_strip (\<lambda>c. c \<noteq> 32) (ed_strip (\<lambda>c. c = 32) e)"

definition ed_up :: "editor \<Rightarrow> editor" where
  "ed_up e =
     (if ed_at e < length (ed_past e) then
        ed_load (ed_past e ! ed_at e)
          (e\<lparr>ed_saved := (if ed_at e = 0 then ed_line e else ed_saved e), ed_at := ed_at e + 1\<rparr>)
      else e)"

definition ed_down :: "editor \<Rightarrow> editor" where
  "ed_down e =
     (if ed_at e = 0 then e
      else ed_load (if ed_at e = 1 then ed_saved e else ed_past e ! (ed_at e - 2)) (e\<lparr>ed_at := ed_at e - 1\<rparr>))"

definition ed_remember :: "editor \<Rightarrow> editor" where
  "ed_remember e =
     (if ed_line e = [] \<or> (\<exists>ps. ed_past e = ed_line e # ps) then e
      else e\<lparr>ed_past := take 16 (ed_line e # ed_past e)\<rparr>)"

text \<open>Enter: the line joins the past and the editor starts an empty one.\<close>

definition ed_enter :: "editor \<Rightarrow> editor" where
  "ed_enter e = ed_cancel (ed_remember e)"

section \<open>Reading it out of the shell\<close>

definition hist_entry :: "shell \<Rightarrow> nat \<Rightarrow> str" where
  "hist_entry s i = take (hist_len s ! (i mod HIST_CAP)) (history s ! (i mod HIST_CAP))"

definition view :: "shell \<Rightarrow> editor" where
  "view s = \<lparr>ed_line = take (len s) (buf s), ed_point = cursor_pos s,
     ed_past = map (\<lambda>i. hist_entry s (hist_count s - 1 - i)) [0..<min (hist_count s) HIST_CAP],
     ed_at = hist_cursor s, ed_saved = take (live_len s) (live_buf s)\<rparr>"

definition ed_ok :: "kernel \<Rightarrow> bool" where
  "ed_ok k \<longleftrightarrow> paint_ok k \<and> shell_inv (kshell k)"

text \<open>What an edit leaves alone.\<close>

definition rest_of :: "kernel \<Rightarrow> dirs \<times> env \<times> vnode option \<times> nat \<times> port_write list" where
  "rest_of k = (kdirs k, kenv k, kroot k, kreads k, kports k)"

definition edits :: "(editor \<Rightarrow> editor) \<Rightarrow> kernel \<Rightarrow> kernel \<Rightarrow> bool" where
  "edits f k k' \<longleftrightarrow> ed_ok k' \<and> view (kshell k') = f (view (kshell k)) \<and> rest_of k' = rest_of k"

lemma edits_cong: "f (view (kshell k)) = g (view (kshell k)) \<Longrightarrow> edits f k = edits g k"
  by (simp add: edits_def fun_eq_iff)

lemma edits_ok: "edits f k k' \<Longrightarrow> ed_ok k'"
  by (simp add: edits_def)

lemma edits_trans: "edits f k k' \<Longrightarrow> edits g k' k'' \<Longrightarrow> edits (\<lambda>e. g (f e)) k k''"
  by (simp add: edits_def)

lemma draws_edits: "ed_ok k \<Longrightarrow> draws k k' \<Longrightarrow> edits (\<lambda>e. e) k k'"
  by (simp add: edits_def ed_ok_def rest_of_def drawsD)

lemma on_shell_edits:
  "ed_ok k \<Longrightarrow> shell_inv (g (kshell k)) \<Longrightarrow> view (g (kshell k)) = f (view (kshell k)) \<Longrightarrow> edits f k (on_shell g k)"
  by (simp add: edits_def ed_ok_def on_shell_def rest_of_def)

lemma edits_kernel: "kernel_inv k \<Longrightarrow> edits f k k' \<Longrightarrow> kernel_inv k'"
  by (simp add: kernel_inv_def edits_def ed_ok_def rest_of_def)

text \<open>Sequencing an operation that edits, and one that draws, before another.\<close>

lemma then_edits [wp_rules]:
  assumes "returns m (edits f k)" "\<And>k'. edits f k k' \<Longrightarrow> returns (g k') (edits h k')"
  shows "returns (m \<bind> g) (edits (\<lambda>e. h (f e)) k)"
proof -
  from assms(1) obtain x where x: "m = Some x" "edits f k x" by (auto simp: returns_def)
  from assms(2) [OF x(2)] obtain y where "g x = Some y" "edits h x y" by (auto simp: returns_def)
  with x edits_trans [OF x(2)] show ?thesis by simp
qed

lemma then_draws:
  assumes "returns m (draws k)" "\<And>k'. draws k k' \<Longrightarrow> returns (g k') (draws k')"
  shows "returns (m \<bind> g) (draws k)"
proof -
  from assms(1) obtain x where x: "m = Some x" "draws k x" by (auto simp: returns_def)
  from assms(2) [OF x(2)] obtain y where "g x = Some y" "draws x y" by (auto simp: returns_def)
  with x draws_trans [OF x(2)] show ?thesis by simp
qed

lemma draw_then_edits:
  assumes "returns m (draws k)" "ed_ok k" "\<And>k'. draws k k' \<Longrightarrow> returns (g k') (edits h k')"
  shows "returns (m \<bind> g) (edits h k)"
proof -
  from assms(1) obtain x where x: "m = Some x" "draws k x" by (auto simp: returns_def)
  from assms(3) [OF x(2)] obtain y where "g x = Some y" "edits h x y" by (auto simp: returns_def)
  with x edits_trans [OF draws_edits [OF assms(2) x(2)]] show ?thesis by simp
qed

lemma edit_then_draws:
  assumes "edits f k k'" "returns m (draws k')"
  shows "returns m (edits f k)"
proof -
  from assms(2) obtain x where "m = Some x" "draws k' x" by (auto simp: returns_def)
  with edits_trans [OF assms(1) draws_edits [OF edits_ok [OF assms(1)]]] show ?thesis by simp
qed

lemma for_each_draws:
  assumes "paint_ok k" "\<And>x k'. x \<in> set xs \<Longrightarrow> draws k k' \<Longrightarrow> returns (body x k') (draws k')"
  shows "returns (for_each xs body k) (draws k)"
  using assms
proof (induction xs arbitrary: k)
  case (Cons x xs)
  have "returns (body x k) (draws k)" using Cons.prems(2) draws_refl [OF Cons.prems(1)] by simp
  moreover have "returns (for_each xs body k') (draws k')" if "draws k k'" for k'
    using that Cons.prems(2) draws_trans by (intro Cons.IH) (auto dest: drawsD(1))
  ultimately show ?case by (simp add: then_draws)
qed (simp add: draws_refl)

lemma safe_draw_for_each: "safe_draw f \<Longrightarrow> safe_draw (\<lambda>w. for_each xs (\<lambda>_. f) w)"
proof (induction xs)
  case (Cons x xs)
  then have "safe_draw (\<lambda>w. f w \<bind> for_each xs (\<lambda>_. f))" by (intro safe_draw_bind) simp_all
  then show ?case by simp
qed (auto simp: safe_draw_def)

section \<open>Drawing\<close>

lemma cursor_char_some: "shell_inv s \<Longrightarrow> \<exists>ch. shell_cursor_char s = Some ch"
  by (auto simp: shell_cursor_char_def shell_inv_def)

lemma show_cursor_draws: "ed_ok k \<Longrightarrow> returns (show_cursor k) (draws k)"
  using cursor_char_some [of "kshell k"] cursor_show_draws [of k] by (auto simp: ed_ok_def show_cursor_def)

lemma print_buf_draws: "ed_ok k \<Longrightarrow> hi \<le> len (kshell k) \<Longrightarrow> returns (print_buf lo hi k) (draws k)"
  unfolding print_buf_def ed_ok_def
proof (elim conjE, intro for_each_draws)
  fix x k'
  assume "x \<in> set [lo..<hi]" "draws k k'" "shell_inv (kshell k)" "hi \<le> len (kshell k)"
  then show "returns (do { c \<leftarrow> get_at (buf (kshell k')) x; kprint [c] k' }) (draws k')"
    using kprint_draws [of k'] by (auto simp: drawsD shell_inv_def)
qed

lemma move_cursor_draws: "ed_ok k \<Longrightarrow> returns (move_cursor c k) (draws k)"
proof -
  assume k: "ed_ok k"
  then obtain ch where ch: "shell_cursor_char (kshell k) = Some ch" using cursor_char_some by (auto simp: ed_ok_def)
  have "safe_draw (\<lambda>w. fb_cursor_hide w \<bind> (\<lambda>w. Some (fb_set_col c w) \<bind> fb_cursor_show ch))"
    by (intro safe_draw_bind safe_draws)
  with hal_draws k ch show ?thesis by (simp add: move_cursor_def ed_ok_def)
qed

lemma redraw_from_draws: "ed_ok k \<Longrightarrow> returns (redraw_from from k) (draws k)"
proof -
  assume k: "ed_ok k"
  have hide: "safe_draw (\<lambda>w. fb_cursor_hide w \<bind> (\<lambda>w. Some (fb_set_col c w)))" for c
    by (intro safe_draw_bind safe_draws)
  have shown: "safe_draw (\<lambda>w. Some (fb_set_col c w) \<bind> fb_cursor_show ch)" for c ch
    by (intro safe_draw_bind safe_draws)
  have ok: "ed_ok k'" if "draws k k'" for k' using that k by (simp add: ed_ok_def drawsD)
  have last: "returns (hal (on_writer (\<lambda>w. do { let w = fb_set_col (prompt_col (kshell k') + cursor_pos (kshell k')) w;
      ch \<leftarrow> shell_cursor_char (kshell k'); fb_cursor_show ch w })) k') (draws k')" if "ed_ok k'" for k'
    using that cursor_char_some [of "kshell k'"] hal_draws [OF shown, of k'] by (auto simp: ed_ok_def)
  show ?thesis unfolding redraw_from_def
  proof (intro then_draws)
    show "returns (hal (on_writer (\<lambda>w. fb_cursor_hide w \<bind> (\<lambda>w. Some (fb_set_col (prompt_col (kshell k) + from) w)))) k) (draws k)"
      using hal_draws [OF hide] k by (simp add: ed_ok_def)
  next
    fix k1 assume "draws k k1"
    then show "returns (print_buf from (len (kshell k1)) k1) (draws k1)" by (intro print_buf_draws ok) simp_all
  next
    fix k1 k2 assume "draws k k1" "draws k1 k2"
    then show "returns (kprint (lit '' '') k2) (draws k2)" by (auto intro: kprint_draws drawsD(1))
  next
    fix k1 k2 k3 assume "draws k k1" "draws k1 k2" "draws k2 k3"
    then have "ed_ok k3" using draws_trans ok by blast
    then show "returns (hal (on_writer (\<lambda>w. do { let w = fb_set_col (prompt_col (kshell k3) + cursor_pos (kshell k3)) w;
      ch \<leftarrow> shell_cursor_char (kshell k3); fb_cursor_show ch w })) k3) (draws k3)" by (rule last)
  qed
qed

lemma erase_cells_draws: "paint_ok k \<Longrightarrow> returns (erase_cells n k) (draws k)"
  unfolding erase_cells_def by (intro for_each_draws hal_draws safe_draws) (auto dest: drawsD(1))

end
