(* ===== verification/EditorOps.thy ===== *)
theory EditorOps
  imports EditorSpec
begin

text \<open>
  Each operation of the line editor refines its abstract counterpart and cannot panic.
\<close>

section \<open>Moving part of the buffer\<close>

lemma copy_for_insert:
  assumes "p \<le> n" "n < length b"
  shows "\<exists>b1. copy_within p n (p + 1) b = Some b1 \<and> length b1 = length b
    \<and> take (Suc n) (b1[p := ch]) = take p b @ ch # drop p (take n b)"
proof -
  let ?b1 = "take (Suc p) b @ take (n - p) (drop p b) @ drop (Suc p + (n - p)) b"
  have "?b1[p := ch] = take p b @ ch # take (n - p) (drop p b) @ drop (Suc p + (n - p)) b"
    using assms by (simp add: take_Suc_conv_app_nth list_update_append)
  then have "take (Suc n) (?b1[p := ch]) = take p b @ ch # drop p (take n b)"
    using assms by (simp add: take_Cons' drop_take Suc_diff_le)
  moreover have "length ?b1 = length b" using assms by simp
  moreover have "copy_within p n (p + 1) b = Some ?b1" using assms by (simp add: copy_within_def)
  ultimately show ?thesis by blast
qed

lemma copy_for_delete:
  assumes "0 < p" "p < n" "n \<le> length b"
  shows "\<exists>b1. copy_within p n (p - 1) b = Some b1 \<and> length b1 = length b
    \<and> take (n - 1) b1 = take (p - 1) b @ drop p (take n b)"
  using assms by (auto simp: copy_within_def drop_take min_def)

lemma copy_prefix_take:
  "length src \<le> length b \<Longrightarrow> \<exists>b1. copy_prefix src b = Some b1 \<and> length b1 = length b \<and> take (length src) b1 = src"
  by simp

section \<open>Keys that edit the line\<close>

lemma edits_then_draws:
  assumes "returns m (edits f k)" "\<And>k'. ed_ok k' \<Longrightarrow> returns (g k') (draws k')"
  shows "returns (m \<bind> g) (edits f k)"
proof -
  from assms(1) obtain x where x: "m = Some x" "edits f k x" by (auto simp: returns_def)
  from edit_then_draws [OF x(2) assms(2) [OF edits_ok [OF x(2)]]] x(1) show ?thesis by simp
qed

lemma ed_okD:
  assumes "ed_ok k"
  shows "paint_ok k" "shell_inv (kshell k)" "length (buf (kshell k)) = 256" "len (kshell k) \<le> 256"
    "cursor_pos (kshell k) \<le> len (kshell k)"
  using assms by (auto simp: ed_ok_def shell_inv_def BUF_CAP_def)

lemma view_simps:
  "ed_line (view s) = take (len s) (buf s)" "ed_point (view s) = cursor_pos s" "ed_at (view s) = hist_cursor s"
  "ed_saved (view s) = take (live_len s) (live_buf s)"
  by (simp_all add: view_def)

lemma view_update:
  "view (s\<lparr>buf := b\<rparr>) = (view s)\<lparr>ed_line := take (len s) b\<rparr>"
  "view (s\<lparr>len := n\<rparr>) = (view s)\<lparr>ed_line := take n (buf s)\<rparr>"
  "view (s\<lparr>cursor_pos := p\<rparr>) = (view s)\<lparr>ed_point := p\<rparr>"
  "view (s\<lparr>prompt_col := c\<rparr>) = view s"
  "view (s\<lparr>hist_cursor := a\<rparr>) = (view s)\<lparr>ed_at := a\<rparr>"
  "view (s\<lparr>live_buf := l\<rparr>) = (view s)\<lparr>ed_saved := take (live_len s) l\<rparr>"
  "view (s\<lparr>live_len := m\<rparr>) = (view s)\<lparr>ed_saved := take m (live_buf s)\<rparr>"
  by (simp_all add: view_def hist_entry_def)

lemma insert_char_refines:
  assumes k: "ed_ok k"
  shows "returns (insert_char ch k) (edits (ed_insert ch) k)"
proof -
  let ?s = "kshell k"
  note d = ed_okD [OF k]
  consider (full) "\<not> len ?s < 256" | (last) "len ?s < 256" "cursor_pos ?s = len ?s"
    | (mid) "len ?s < 256" "cursor_pos ?s < len ?s" using d(5) by linarith
  then show ?thesis
  proof cases
    case full
    then have "ed_insert ch (view ?s) = view ?s" using d by (simp add: ed_insert_def view_simps)
    then have "edits (ed_insert ch) k k" using k by (simp add: edits_def)
    from edit_then_draws [OF this show_cursor_draws [OF k]] full show ?thesis
      by (simp add: insert_char_def BUF_CAP_def Let_def)
  next
    case last
    let ?g = "\<lambda>s. s\<lparr>buf := (buf ?s)[len ?s := ch], len := len ?s + 1, cursor_pos := len ?s + 1\<rparr>"
    have e: "edits (ed_insert ch) k (on_shell ?g k)"
    proof (rule on_shell_edits [OF k])
      show "shell_inv (?g ?s)" using d(2) last by (simp add: shell_inv_def BUF_CAP_def)
      show "view (?g ?s) = ed_insert ch (view ?s)" using d last
        by (simp add: view_update view_simps ed_insert_def take_Suc_conv_app_nth)
    qed
    have "returns (kprint [ch] (on_shell ?g k) \<bind> show_cursor) (draws (on_shell ?g k))"
      using edits_ok [OF e] by (intro then_draws kprint_draws show_cursor_draws) (auto simp: ed_ok_def drawsD)
    from edit_then_draws [OF e this] last d show ?thesis
      by (simp add: insert_char_def BUF_CAP_def Let_def on_shell_def)
  next
    case mid
    from copy_for_insert [of "cursor_pos ?s" "len ?s" "buf ?s" ch] mid d obtain b1 where
      b1: "copy_within (cursor_pos ?s) (len ?s) (cursor_pos ?s + 1) (buf ?s) = Some b1" "length b1 = 256"
        "take (Suc (len ?s)) (b1[cursor_pos ?s := ch])
          = take (cursor_pos ?s) (buf ?s) @ ch # drop (cursor_pos ?s) (take (len ?s) (buf ?s))"
      by auto
    let ?g = "\<lambda>s. s\<lparr>buf := b1[cursor_pos ?s := ch], len := len ?s + 1, cursor_pos := cursor_pos ?s + 1\<rparr>"
    have e: "edits (ed_insert ch) k (on_shell ?g k)"
    proof (rule on_shell_edits [OF k])
      show "shell_inv (?g ?s)" using d(2) mid b1(2) by (simp add: shell_inv_def BUF_CAP_def)
      show "view (?g ?s) = ed_insert ch (view ?s)" using d mid b1(3)
        by (simp add: view_update view_simps ed_insert_def min_def)
    qed
    from edit_then_draws [OF e redraw_from_draws [OF edits_ok [OF e]]] mid d b1(1,2) show ?thesis
      by (simp add: insert_char_def BUF_CAP_def Let_def on_shell_def)
  qed
qed

lemma sh_backspace_refines:
  assumes k: "ed_ok k"
  shows "returns (sh_backspace k) (edits ed_backspace k)"
proof -
  let ?s = "kshell k"
  note d = ed_okD [OF k]
  consider (zero) "cursor_pos ?s = 0" | (last) "0 < cursor_pos ?s" "cursor_pos ?s = len ?s"
    | (mid) "0 < cursor_pos ?s" "cursor_pos ?s < len ?s" using d(5) by linarith
  then show ?thesis
  proof cases
    case zero
    then have "ed_backspace (view ?s) = view ?s" by (simp add: ed_backspace_def view_def)
    with zero k show ?thesis by (simp add: sh_backspace_def edits_def)
  next
    case last
    let ?g = "\<lambda>s. s\<lparr>len := len ?s - 1, cursor_pos := cursor_pos ?s - 1\<rparr>"
    have e: "edits ed_backspace k (on_shell ?g k)"
    proof (rule on_shell_edits [OF k])
      show "shell_inv (?g ?s)" using d(2) last by (auto simp: shell_inv_def BUF_CAP_def)
      show "view (?g ?s) = ed_backspace (view ?s)" using d last
        by (simp add: view_update view_simps ed_backspace_def min_def)
    qed
    have "returns (hal (on_writer fb_backspace) (on_shell ?g k)) (draws (on_shell ?g k))"
      using edits_ok [OF e] by (intro hal_draws safe_draws) (simp add: ed_ok_def)
    from edit_then_draws [OF e this] last d show ?thesis
      by (simp add: sh_backspace_def Let_def on_shell_def)
  next
    case mid
    from copy_for_delete [of "cursor_pos ?s" "len ?s" "buf ?s"] mid d obtain b1 where
      b1: "copy_within (cursor_pos ?s) (len ?s) (cursor_pos ?s - 1) (buf ?s) = Some b1" "length b1 = 256"
        "take (len ?s - 1) b1 = take (cursor_pos ?s - 1) (buf ?s) @ drop (cursor_pos ?s) (take (len ?s) (buf ?s))"
      by auto
    let ?g = "\<lambda>s. s\<lparr>buf := b1, len := len ?s - 1, cursor_pos := cursor_pos ?s - 1\<rparr>"
    have e: "edits ed_backspace k (on_shell ?g k)"
    proof (rule on_shell_edits [OF k])
      show "shell_inv (?g ?s)" using d(2) mid b1(2) by (auto simp: shell_inv_def BUF_CAP_def)
      show "view (?g ?s) = ed_backspace (view ?s)" using d mid b1(3)
        by (simp add: view_update view_simps ed_backspace_def min_def)
    qed
    from edit_then_draws [OF e redraw_from_draws [OF edits_ok [OF e]]] mid d b1(1,2) show ?thesis
      by (simp add: sh_backspace_def Let_def on_shell_def)
  qed
qed

text \<open>The keys that only move: the new position is in the line.\<close>

lemma move_refines:
  assumes k: "ed_ok k" and p: "p \<le> len (kshell k)" and f: "f (view (kshell k)) = (view (kshell k))\<lparr>ed_point := p\<rparr>"
  shows "returns (move_cursor c (on_shell (\<lambda>s. s\<lparr>cursor_pos := p\<rparr>) k)) (edits f k)"
proof -
  have e: "edits f k (on_shell (\<lambda>s. s\<lparr>cursor_pos := p\<rparr>) k)"
    using ed_okD(2) [OF k] p f by (intro on_shell_edits [OF k]) (simp_all add: view_update shell_inv_def)
  show ?thesis by (rule edit_then_draws [OF e move_cursor_draws [OF edits_ok [OF e]]])
qed

lemma cursor_left_refines: "ed_ok k \<Longrightarrow> returns (cursor_left k) (edits ed_left k)"
proof (cases "cursor_pos (kshell k) = 0")
  case True
  moreover assume "ed_ok k"
  ultimately show ?thesis by (simp add: cursor_left_def edits_def ed_left_def view_def)
next
  case False
  assume k: "ed_ok k"
  with move_refines [OF k, of "cursor_pos (kshell k) - 1" ed_left] ed_okD(5) [OF k] False show ?thesis
    by (simp add: cursor_left_def ed_left_def view_simps)
qed

lemma cursor_right_refines: "ed_ok k \<Longrightarrow> returns (cursor_right k) (edits ed_right k)"
proof (cases "cursor_pos (kshell k) = len (kshell k)")
  case True
  moreover assume k: "ed_ok k"
  ultimately show ?thesis using ed_okD [OF k] by (simp add: cursor_right_def edits_def ed_right_def view_def)
next
  case False
  assume k: "ed_ok k"
  with move_refines [OF k, of "cursor_pos (kshell k) + 1" ed_right] ed_okD [OF k] False show ?thesis
    by (simp add: cursor_right_def ed_right_def view_simps min_def)
qed

lemma cursor_to_start_refines: "ed_ok k \<Longrightarrow> returns (cursor_to_start k) (edits ed_start k)"
  by (simp add: cursor_to_start_def move_refines ed_start_def)

lemma cursor_to_end_refines: "ed_ok k \<Longrightarrow> returns (cursor_to_end k) (edits ed_end k)"
proof -
  assume k: "ed_ok k"
  with move_refines [OF k, of "len (kshell k)" ed_end] ed_okD [OF k]
  show ?thesis by (simp add: cursor_to_end_def ed_end_def view_simps on_shell_def)
qed

section \<open>Keys that empty or repaint the line\<close>

lemma load_edits:
  assumes "ed_ok k" "length b = 256" "n \<le> 256"
  shows "edits (ed_load (take n b)) k (on_shell (\<lambda>s. s\<lparr>buf := b, len := n, cursor_pos := n\<rparr>) k)"
  using ed_okD(2) [OF assms(1)] assms(2,3)
  by (intro on_shell_edits [OF assms(1)]) (simp_all add: view_update ed_load_def shell_inv_def BUF_CAP_def)

lemma clear_edits: "ed_ok k \<Longrightarrow> edits ed_kill k (on_shell (\<lambda>s. s\<lparr>len := 0, cursor_pos := 0\<rparr>) k)"
  by (intro on_shell_edits) (simp_all add: view_update ed_kill_def ed_load_def ed_ok_def shell_inv_def)

lemma clear_line_refines: "ed_ok k \<Longrightarrow> returns (clear_line k) (edits ed_kill k)"
  unfolding clear_line_def
  by (intro draw_then_edits erase_cells_draws)
    (auto intro!: clear_edits simp: ed_ok_def drawsD)

lemma erase_line_refines: "ed_ok k \<Longrightarrow> returns (erase_line k) (edits ed_kill k)"
  unfolding erase_line_def
  by (intro draw_then_edits hal_draws safe_draw_for_each safe_draws)
    (auto intro!: clear_edits simp: ed_ok_def drawsD)

lemma print_prompt_refines: "ed_ok k \<Longrightarrow> returns (print_prompt k) (edits ed_end k)"
proof -
  assume k: "ed_ok k"
  have ok: "ed_ok k'" if "draws k k'" for k' using that k by (simp add: ed_ok_def drawsD)
  have last: "returns (show_cursor (on_shell (\<lambda>s. s\<lparr>prompt_col := c, cursor_pos := len s\<rparr>) k')) (edits ed_end k')"
    if "ed_ok k'" for k' c
  proof -
    have e: "edits ed_end k' (on_shell (\<lambda>s. s\<lparr>prompt_col := c, cursor_pos := len s\<rparr>) k')"
      using ed_okD [OF that] by (intro on_shell_edits [OF that]) (simp_all add: view_update view_simps ed_end_def shell_inv_def)
    show ?thesis by (rule edit_then_draws [OF e show_cursor_draws [OF edits_ok [OF e]]])
  qed
  show ?thesis
    unfolding print_prompt_def Let_def
    by (intro draw_then_edits kprint_draws set_fg_draws reset_colors_draws last)
      (use k in \<open>auto simp: ed_ok_def drawsD\<close>)
qed

lemma ctrl_u_refines: "ed_ok k \<Longrightarrow> returns (ctrl_u k) (edits ed_kill k)"
  unfolding ctrl_u_def by (rule clear_line_refines)

lemma ctrl_c_refines:
  assumes "ed_ok k"
  shows "returns (ctrl_c k) (edits ed_cancel k)"
  unfolding ctrl_c_def
proof (rule draw_then_edits [OF kprintln_draws assms])
  fix k1
  assume "draws k k1"
  then have "ed_ok k1" using assms by (simp add: ed_ok_def drawsD)
  then have e: "edits ed_cancel k1 (on_shell (\<lambda>s. s\<lparr>len := 0, cursor_pos := 0, hist_cursor := 0\<rparr>) k1)"
    by (intro on_shell_edits) (simp_all add: view_update ed_cancel_def ed_load_def ed_ok_def shell_inv_def)
  have same: "(\<lambda>e. ed_end (ed_cancel e)) = ed_cancel"
    by (simp add: ed_end_def ed_cancel_def ed_load_def fun_eq_iff)
  obtain k2 where "print_prompt (on_shell (\<lambda>s. s\<lparr>len := 0, cursor_pos := 0, hist_cursor := 0\<rparr>) k1) = Some k2"
    "edits ed_end (on_shell (\<lambda>s. s\<lparr>len := 0, cursor_pos := 0, hist_cursor := 0\<rparr>) k1) k2"
    using print_prompt_refines [OF edits_ok [OF e]] by (auto simp: returns_def)
  with edits_trans [OF e this(2)] show "returns (print_prompt (on_shell (\<lambda>s. s\<lparr>len := 0, cursor_pos := 0, hist_cursor := 0\<rparr>) k1))
      (edits ed_cancel k1)" by (simp add: same)
qed (use assms in \<open>simp add: ed_ok_def\<close>)

lemma ctrl_l_refines:
  assumes "ed_ok k"
  shows "returns (ctrl_l k) (edits ed_end k)"
proof -
  have clear: "returns (hal (on_writer fb_clear) k) (draws k)"
    using assms by (intro hal_draws safe_draws) (simp add: ed_ok_def)
  have "returns (print_prompt k1 \<bind> (\<lambda>k. print_buf 0 (len (kshell k)) k \<bind> show_cursor)) (edits ed_end k1)"
    if "ed_ok k1" for k1
    using that print_prompt_refines
    by (intro edits_then_draws then_draws print_buf_draws show_cursor_draws) (auto simp: ed_ok_def drawsD)
  with clear assms show ?thesis
    unfolding ctrl_l_def by (intro draw_then_edits [OF clear assms]) (auto simp: ed_ok_def drawsD)
qed

lemma ed_strip_Cons:
  "ed_line e = l @ [c] \<Longrightarrow> ed_strip P e = (if P c then ed_strip P (ed_load l e) else e)"
proof -
  assume l: "ed_line e = l @ [c]"
  have "length (dropWhile P (rev l)) \<le> length l" using length_dropWhile_le [of P "rev l"] by simp
  then have "length (rev (dropWhile P (rev l))) \<noteq> length (l @ [c])" by simp
  then have "rev (dropWhile P (rev l)) \<noteq> l @ [c]" by fastforce
  moreover have "length (dropWhile P (rev l)) = length l" if "rev (dropWhile P (rev l)) = l"
    using that by (metis length_rev)
  ultimately show ?thesis using l by (simp add: ed_strip_def ed_load_def Let_def)
qed

lemma delete_while_refines:
  "ed_ok k \<Longrightarrow> len (kshell k) = n \<Longrightarrow> returns (delete_while n P k) (edits (ed_strip P) k)"
proof (induction n arbitrary: k)
  case 0
  then show ?case by (simp add: edits_def ed_strip_def view_simps)
next
  case (Suc n)
  note d = ed_okD [OF Suc.prems(1)]
  let ?c = "buf (kshell k) ! n"
  have line: "ed_line (view (kshell k)) = take n (buf (kshell k)) @ [?c]"
    using d Suc.prems(2) by (simp add: view_simps take_Suc_conv_app_nth)
  show ?case
  proof (cases "P ?c")
    case False
    with Suc.prems d ed_strip_Cons [OF line, of P] show ?thesis by (simp add: edits_def)
  next
    case True
    have "returns (hal (on_writer fb_backspace) k \<bind>
        (\<lambda>k. delete_while n P (on_shell (\<lambda>s. s\<lparr>len := n, cursor_pos := n\<rparr>) k))) (edits (ed_strip P) k)"
    proof (rule draw_then_edits)
      show "returns (hal (on_writer fb_backspace) k) (draws k)" using d(1) by (intro hal_draws safe_draws)
    next
      fix k1
      assume "draws k k1"
      with Suc.prems(1) have k1: "ed_ok k1" "kshell k1 = kshell k" by (simp_all add: ed_ok_def drawsD)
      let ?g = "\<lambda>s. s\<lparr>len := n, cursor_pos := n\<rparr>"
      have e: "edits (ed_load (take n (buf (kshell k)))) k1 (on_shell ?g k1)"
        using ed_okD [OF k1(1)] k1(2) d Suc.prems(2)
        by (intro on_shell_edits [OF k1(1)]) (simp_all add: view_update ed_load_def shell_inv_def BUF_CAP_def)
      obtain k2 where k2: "delete_while n P (on_shell ?g k1) = Some k2" "edits (ed_strip P) (on_shell ?g k1) k2"
        using Suc.IH [OF edits_ok [OF e]] by (auto simp: returns_def on_shell_def)
      have "edits (ed_strip P) k1 k2"
        using edits_trans [OF e k2(2)] ed_strip_Cons [OF line, of P] True k1(2) by (simp add: edits_def)
      with k2(1) show "returns (delete_while n P (on_shell ?g k1)) (edits (ed_strip P) k1)" by simp
    qed (rule Suc.prems(1))
    with True d Suc.prems(2) show ?thesis by simp
  qed
qed

lemma ctrl_w_refines: "ed_ok k \<Longrightarrow> returns (ctrl_w k) (edits ed_word k)"
  unfolding ctrl_w_def ed_word_def [abs_def]
  by (intro then_edits delete_while_refines) (auto dest: edits_ok)

section \<open>History\<close>

lemma ed_load_kill: "ed_load l (ed_kill e) = ed_load l e"
  by (simp add: ed_load_def ed_kill_def)

lemma reprint_edits:
  assumes "ed_ok k" "edits f k k'" shows "returns (reprint_buf k') (edits f k)"
  using edit_then_draws [OF assms(2)] print_buf_draws [OF edits_ok [OF assms(2)]] by (simp add: reprint_buf_def)

text \<open>Loading a saved line: the erased line is replaced by it.\<close>

lemma replace_line:
  assumes k: "ed_ok k" and l: "length l \<le> 256"
  shows "returns (erase_line k \<bind> (\<lambda>k. copy_prefix l (buf (kshell k)) \<bind>
      (\<lambda>b. reprint_buf (on_shell (\<lambda>s. s\<lparr>buf := b, len := length l, cursor_pos := length l\<rparr>) k)))) (edits (ed_load l) k)"
proof -
  have "returns (copy_prefix l (buf (kshell k1)) \<bind>
      (\<lambda>b. reprint_buf (on_shell (\<lambda>s. s\<lparr>buf := b, len := length l, cursor_pos := length l\<rparr>) k1))) (edits (ed_load l) k1)"
    if k1: "ed_ok k1" for k1
  proof -
    from copy_prefix_take [of l "buf (kshell k1)"] ed_okD(3) [OF k1] l obtain b where
      b: "copy_prefix l (buf (kshell k1)) = Some b" "length b = 256" "take (length l) b = l" by auto
    from load_edits [OF k1 b(2) l] b(3) have
      "edits (ed_load l) k1 (on_shell (\<lambda>s. s\<lparr>buf := b, len := length l, cursor_pos := length l\<rparr>) k1)" by simp
    from reprint_edits [OF k1 this] b(1) show ?thesis by simp
  qed
  then have "returns (erase_line k \<bind> (\<lambda>k. copy_prefix l (buf (kshell k)) \<bind>
      (\<lambda>b. reprint_buf (on_shell (\<lambda>s. s\<lparr>buf := b, len := length l, cursor_pos := length l\<rparr>) k))))
      (edits (\<lambda>e. ed_load l (ed_kill e)) k)"
    using edits_ok by (intro then_edits [OF erase_line_refines [OF k]]) blast
  then show ?thesis by (simp add: ed_load_kill)
qed

lemma erase_line_shell:
  assumes "erase_line k = Some k1"
  shows "kshell k1 = (kshell k)\<lparr>len := 0, cursor_pos := 0\<rparr>"
  using assms by (auto simp: erase_line_def on_shell_def split: Option.bind_splits dest!: hal_kshell)

lemma load_history_entry_refines:
  assumes k: "ed_ok k" and at: "0 < hist_cursor (kshell k)"
  shows "returns (load_history_entry k) (edits (\<lambda>e. ed_load (ed_past e ! (ed_at e - 1)) e) k)"
proof -
  let ?s = "kshell k"
  let ?i = "(hist_count ?s - hist_cursor ?s) mod HIST_CAP"
  have inv: "shell_inv ?s" using k by (simp add: ed_ok_def)
  have i: "?i < 16" by (simp add: HIST_CAP_def)
  have le: "hist_cursor ?s \<le> hist_count ?s" "hist_cursor ?s \<le> 16" using inv by (auto simp: shell_inv_def HIST_CAP_def)
  have lens: "length (hist_len ?s) = 16" "length (history ?s) = 16" using inv by (simp_all add: shell_inv_def HIST_CAP_def)
  have row: "length (history ?s ! ?i) = 256" "hist_len ?s ! ?i \<le> 256"
    using inv lens i by (auto simp: shell_inv_def BUF_CAP_def HIST_CAP_def)
  obtain n where n: "hist_cursor ?s = Suc n" using at by (cases "hist_cursor ?s") auto
  then have past: "ed_past (view ?s) ! (hist_cursor ?s - 1) = hist_entry ?s (hist_count ?s - hist_cursor ?s)"
    using le by (simp add: view_def HIST_CAP_def)
  let ?l = "hist_entry ?s (hist_count ?s - hist_cursor ?s)"
  have len: "length ?l = hist_len ?s ! ?i" "length ?l \<le> 256" using row by (simp_all add: hist_entry_def)
  from erase_line_refines [OF k] obtain k1 where k1: "erase_line k = Some k1" by (auto simp: returns_def)
  have "load_history_entry k = erase_line k \<bind> (\<lambda>k. copy_prefix ?l (buf (kshell k)) \<bind>
      (\<lambda>b. reprint_buf (on_shell (\<lambda>s. s\<lparr>buf := b, len := length ?l, cursor_pos := length ?l\<rparr>) k)))"
    using k1 erase_line_shell [OF k1] le i lens row
    by (simp add: load_history_entry_def Let_def hist_entry_def len(1) [unfolded hist_entry_def])
  with replace_line [OF k len(2)] show ?thesis
    by (subst edits_cong [where g = "ed_load ?l"]) (simp_all add: past [simplified] view_simps)
qed

lemma load_live_refines:
  assumes k: "ed_ok k"
  shows "returns (load_live k) (edits (\<lambda>e. ed_load (ed_saved e) e) k)"
proof -
  let ?s = "kshell k"
  let ?l = "take (live_len ?s) (live_buf ?s)"
  have inv: "live_len ?s \<le> 256" "length (live_buf ?s) = 256" using k by (auto simp: ed_ok_def shell_inv_def BUF_CAP_def)
  from erase_line_refines [OF k] obtain k1 where k1: "erase_line k = Some k1" by (auto simp: returns_def)
  have "load_live k = erase_line k \<bind> (\<lambda>k. copy_prefix ?l (buf (kshell k)) \<bind>
      (\<lambda>b. reprint_buf (on_shell (\<lambda>s. s\<lparr>buf := b, len := length ?l, cursor_pos := length ?l\<rparr>) k)))"
    using k1 erase_line_shell [OF k1] inv by (simp add: load_live_def on_shell_def min_def)
  with replace_line [OF k, of ?l] inv show ?thesis
    by (subst edits_cong [where g = "ed_load ?l"]) (simp_all add: view_simps)
qed


text \<open>The first step into the history keeps the line being typed, to come back to.\<close>

lemma save_live_refines:
  assumes k: "ed_ok k"
  defines "f \<equiv> \<lambda>e. e\<lparr>ed_saved := (if ed_at e = 0 then ed_line e else ed_saved e)\<rparr>"
  shows "returns (if hist_cursor (kshell k) = 0 then
      do { h \<leftarrow> slice 0 (len (kshell k)) (buf (kshell k)); b \<leftarrow> copy_prefix h (live_buf (kshell k));
           Some (on_shell (\<lambda>s. s\<lparr>live_buf := b, live_len := len s\<rparr>) k) } else Some k)
    (\<lambda>k1. edits f k k1 \<and> hist_cursor (kshell k1) = hist_cursor (kshell k)
      \<and> hist_count (kshell k1) = hist_count (kshell k))"
proof (cases "hist_cursor (kshell k) = 0")
  case False
  with k show ?thesis by (simp add: f_def edits_def view_simps)
next
  case z: True
  let ?s = "kshell k"
  note d = ed_okD [OF k]
  let ?l = "take (len ?s) (buf ?s)"
  have "length ?l \<le> length (live_buf ?s)" using d by (auto simp: shell_inv_def BUF_CAP_def)
  from copy_prefix_take [OF this] d obtain b where
    b: "copy_prefix ?l (live_buf ?s) = Some b" "length b = length (live_buf ?s)" "take (len ?s) b = ?l"
    by (auto simp: min_def)
  have "edits f k (on_shell (\<lambda>s. s\<lparr>live_buf := b, live_len := len s\<rparr>) k)"
    unfolding f_def
    using d b z by (intro on_shell_edits [OF k]) (simp_all add: view_update view_simps shell_inv_def)
  with z d b show ?thesis by (simp add: on_shell_def)
qed

lemma history_up_refines:
  assumes k: "ed_ok k"
  shows "returns (history_up k) (edits ed_up k)"
proof -
  let ?s = "kshell k" and ?e = "view (kshell k)"
  have past: "length (ed_past ?e) = min (hist_count ?s) HIST_CAP" by (simp add: view_def)
  show ?thesis
  proof (cases "hist_cursor ?s < min (hist_count ?s) HIST_CAP")
    case False
    then have "ed_up ?e = ?e" by (auto simp: ed_up_def past view_simps)
    moreover have "history_up k = Some k" using False by (simp only: history_up_def Let_def not_less if_True)
    ultimately show ?thesis using k by (simp add: edits_def)
  next
    case True
    let ?f = "\<lambda>e. e\<lparr>ed_saved := (if ed_at e = 0 then ed_line e else ed_saved e)\<rparr>"
    from save_live_refines [OF k] obtain k1 where k1: "(if hist_cursor ?s = 0 then
        do { h \<leftarrow> slice 0 (len ?s) (buf ?s); b \<leftarrow> copy_prefix h (live_buf ?s);
             Some (on_shell (\<lambda>s. s\<lparr>live_buf := b, live_len := len s\<rparr>) k) } else Some k) = Some k1"
      "edits ?f k k1" "hist_cursor (kshell k1) = hist_cursor ?s" "hist_count (kshell k1) = hist_count ?s"
      by (auto simp: returns_def)
    let ?g = "\<lambda>s. s\<lparr>hist_cursor := hist_cursor s + 1\<rparr>"
    have e2: "edits (\<lambda>e. e\<lparr>ed_at := ed_at e + 1\<rparr>) k1 (on_shell ?g k1)"
      using ed_okD(2) [OF edits_ok [OF k1(2)]] True k1(3,4)
      by (intro on_shell_edits [OF edits_ok [OF k1(2)]]) (simp_all add: view_update view_simps shell_inv_def)
    have "returns (load_history_entry (on_shell ?g k1) \<bind> show_cursor)
        (edits (\<lambda>e. ed_load (ed_past e ! (ed_at e - 1)) e) (on_shell ?g k1))"
      using load_history_entry_refines [OF edits_ok [OF e2]]
      by (intro edits_then_draws show_cursor_draws) (simp_all add: on_shell_def)
    then obtain k3 where k3: "load_history_entry (on_shell ?g k1) \<bind> show_cursor = Some k3"
      "edits (\<lambda>e. ed_load (ed_past e ! (ed_at e - 1)) e) (on_shell ?g k1) k3" by (auto simp: returns_def)
    have "edits ed_up k k3"
      using edits_trans [OF k1(2) edits_trans [OF e2 k3(2)]] True past
      by (simp add: edits_def ed_up_def view_simps ed_load_def)
    with k1(1) k3(1) True show ?thesis by (simp add: history_up_def Let_def min_le_iff_disj)
  qed
qed

lemma history_down_refines:
  assumes k: "ed_ok k"
  shows "returns (history_down k) (edits ed_down k)"
proof -
  let ?s = "kshell k" and ?n = "hist_cursor (kshell k) - 1"
  note d = ed_okD [OF k]
  show ?thesis
  proof (cases "hist_cursor ?s = 0")
    case True
    with k show ?thesis by (simp add: history_down_def edits_def ed_down_def view_simps)
  next
    case False
    let ?g = "\<lambda>s. s\<lparr>hist_cursor := ?n\<rparr>"
    have e: "edits (\<lambda>e. e\<lparr>ed_at := ed_at e - 1\<rparr>) k (on_shell ?g k)"
      using d by (intro on_shell_edits [OF k]) (auto simp: view_update view_simps shell_inv_def)
    let ?f = "\<lambda>e. ed_load (if ed_at e = 0 then ed_saved e else ed_past e ! (ed_at e - 1)) e"
    have "returns (if ?n = 0 then load_live (on_shell ?g k) else load_history_entry (on_shell ?g k))
        (edits ?f (on_shell ?g k))"
    proof (cases "?n = 0")
      case True
      with load_live_refines [OF edits_ok [OF e]] show ?thesis
        by (subst edits_cong [where g = "\<lambda>e. ed_load (ed_saved e) e"]) (simp_all add: view_simps on_shell_def)
    next
      case False
      with load_history_entry_refines [OF edits_ok [OF e]] show ?thesis
        by (subst edits_cong [where g = "\<lambda>e. ed_load (ed_past e ! (ed_at e - 1)) e"])
          (simp_all add: view_simps on_shell_def)
    qed
    then obtain k1 where k1: "(if ?n = 0 then load_live (on_shell ?g k) else load_history_entry (on_shell ?g k)) = Some k1"
      "edits ?f (on_shell ?g k) k1" by (auto simp: returns_def)
    have "edits ed_down k k1"
      using edits_trans [OF e k1(2)] False by (simp add: edits_def ed_down_def view_simps ed_load_def numeral_2_eq_2)
    note this = edit_then_draws [OF this show_cursor_draws [OF edits_ok [OF this]]]
    moreover have "history_down k = (if ?n = 0 then load_live (on_shell ?g k) else load_history_entry (on_shell ?g k)) \<bind> show_cursor"
      using False by (simp add: history_down_def Let_def)
    ultimately show ?thesis using k1(1) by simp
  qed
qed


section \<open>Remembering a line\<close>

lemma wrapping_pred:
  assumes "0 < n"
  shows "unat (of_nat n - 1 :: usize) mod 16 = (n - 1) mod 16"
proof -
  have "(of_nat n - 1 :: usize) = of_nat (n - 1)" using assms by (simp add: of_nat_diff)
  then have "unat (of_nat n - 1 :: usize) = (n - 1) mod 2 ^ 64" by (simp add: unat_of_nat)
  moreover have "(16 :: nat) dvd 2 ^ 64" by simp
  ultimately show ?thesis by (simp add: mod_mod_cancel)
qed

lemma hist_entry_at:
  assumes "shell_inv s"
  shows "length (history s ! (i mod HIST_CAP)) = 256" "hist_len s ! (i mod HIST_CAP) \<le> 256"
    "length (hist_entry s i) = hist_len s ! (i mod HIST_CAP)"
proof -
  have "i mod HIST_CAP < HIST_CAP" by (simp add: HIST_CAP_def)
  then show h: "length (history s ! (i mod HIST_CAP)) = 256" "hist_len s ! (i mod HIST_CAP) \<le> 256"
    using assms by (auto simp: shell_inv_def BUF_CAP_def)
  then show "length (hist_entry s i) = hist_len s ! (i mod HIST_CAP)" by (simp add: hist_entry_def)
qed

lemma past_length: "length (ed_past (view s)) = min (hist_count s) 16"
  by (simp add: view_def HIST_CAP_def)

lemma past_nth: "i < min (hist_count s) 16 \<Longrightarrow> ed_past (view s) ! i = hist_entry s (hist_count s - 1 - i)"
  by (simp add: view_def HIST_CAP_def)

lemma past_Nil: "hist_count s = 0 \<Longrightarrow> ed_past (view s) = []"
  by (simp add: view_def)

lemma past_first: "0 < hist_count s \<Longrightarrow> (\<exists>ps. ed_past (view s) = l # ps) \<longleftrightarrow> hist_entry s (hist_count s - 1) = l"
  using past_nth [of 0 s] past_length [of s] by (cases "ed_past (view s)") auto

text \<open>Writing the next slot: the sixteen newest lines are the new one and the fifteen before it.\<close>

lemma past_push:
  assumes s: "shell_inv s" and b: "take (len s) b' = take (len s) (buf s)" "length b' = 256"
  defines "n \<equiv> hist_count s"
  defines "s' \<equiv> s\<lparr>history := (history s)[n mod HIST_CAP := b'], hist_len := (hist_len s)[n mod HIST_CAP := len s],
      hist_count := n + 1\<rparr>"
  shows "view s' = (view s)\<lparr>ed_past := take 16 (take (len s) (buf s) # ed_past (view s))\<rparr>" "shell_inv s'"
proof -
  have lens: "length (history s) = 16" "length (hist_len s) = 16" using s by (simp_all add: shell_inv_def HIST_CAP_def)
  have new: "hist_entry s' n = take (len s) (buf s)"
    using lens b by (simp add: hist_entry_def s'_def HIST_CAP_def)
  have old: "hist_entry s' (n - i) = hist_entry s (n - i)" if "0 < i" "i < 16" "i \<le> n" for i
  proof -
    have "(n - i) mod 16 \<noteq> n mod 16"
    proof
      assume "(n - i) mod 16 = n mod 16"
      then have "16 dvd n - (n - i)" by (metis mod_eq_dvd_iff_nat diff_le_self)
      with that show False by (auto dest: dvd_imp_le)
    qed
    then show ?thesis by (simp add: hist_entry_def s'_def HIST_CAP_def)
  qed
  have "ed_past (view s') = take 16 (take (len s) (buf s) # ed_past (view s))"
  proof (rule nth_equalityI)
    show "length (ed_past (view s')) = length (take 16 (take (len s) (buf s) # ed_past (view s)))"
      unfolding length_take length_Cons past_length by (simp add: s'_def n_def)
  next
    fix i
    assume "i < length (ed_past (view s'))"
    then have i: "i < min (hist_count s') 16" "i < 16" "i \<le> n" by (simp_all add: past_length s'_def)
    have at: "ed_past (view s') ! i = hist_entry s' (n - i)" using past_nth [OF i(1)] by (simp add: s'_def)
    show "ed_past (view s') ! i = take 16 (take (len s) (buf s) # ed_past (view s)) ! i"
    proof (cases i)
      case 0
      with new at show ?thesis by simp
    next
      case (Suc j)
      with i old [of i] at past_nth [of j s] show ?thesis by (simp add: n_def)
    qed
  qed
  then show "view s' = (view s)\<lparr>ed_past := take 16 (take (len s) (buf s) # ed_past (view s))\<rparr>"
    by (simp add: view_def s'_def)
  show "shell_inv s'"
    using s b(2) by (auto simp: shell_inv_def s'_def BUF_CAP_def n_def dest!: set_update_subset_insert [THEN subsetD])
qed

lemma remember_line_refines:
  assumes s: "shell_inv s"
  shows "\<exists>s'. remember_line s = Some s' \<and> shell_inv s' \<and> view s' = ed_remember (view s)
    \<and> len s' = len s \<and> buf s' = buf s"
proof (cases "0 < len s")
  case False
  then show ?thesis using s by (simp add: remember_line_def ed_remember_def view_simps)
next
  case True
  let ?i = "unat (of_nat (hist_count s) - 1 :: usize) mod HIST_CAP" and ?l = "take (len s) (buf s)"
  have i: "?i < 16" by (simp add: HIST_CAP_def)
  have sizes: "length (buf s) = 256" "len s \<le> 256" "length (hist_len s) = 16" "length (history s) = 16"
    using s by (simp_all add: shell_inv_def BUF_CAP_def HIST_CAP_def)
  have line: "ed_line (view s) = ?l" "?l \<noteq> []" using True sizes by (auto simp: view_simps)
  have last: "0 < hist_count s \<Longrightarrow> ?i = (hist_count s - 1) mod HIST_CAP" using wrapping_pred by (simp add: HIST_CAP_def)
  note entry = hist_entry_at [OF s, of "hist_count s - 1"]
  have dup: "hist_len s ! ?i = len s \<and> take (len s) (history s ! ?i) = ?l \<longleftrightarrow> hist_entry s (hist_count s - 1) = ?l"
    if "0 < hist_count s"
    using entry sizes unfolding last [OF that] by (auto simp: hist_entry_def) (metis entry(3) hist_entry_def length_take min.absorb2)+
  obtain b' where b': "copy_prefix ?l (history s ! (hist_count s mod HIST_CAP)) = Some b'"
      "take (len s) b' = ?l" "length b' = 256"
    using copy_prefix_take [of ?l "history s ! (hist_count s mod HIST_CAP)"] hist_entry_at(1) [OF s] sizes by auto
  note push = past_push [OF s b'(2,3)]
  have mods: "hist_count s mod HIST_CAP < 16" by (simp add: HIST_CAP_def)
  show ?thesis
  proof (cases "0 < hist_count s \<and> hist_entry s (hist_count s - 1) = ?l")
    case True
    then have "ed_remember (view s) = view s" using past_first [of s ?l] line by (simp add: ed_remember_def)
    moreover have "remember_line s = Some s"
      using True dup i sizes line \<open>0 < len s\<close> entry(1) last by (simp add: remember_line_def Let_def)
    ultimately show ?thesis using s by simp
  next
    case False
    then have "\<not> (\<exists>ps. ed_past (view s) = ?l # ps)" using past_first [of s ?l] past_Nil [of s]
      by (cases "hist_count s = 0") simp_all
    then have "ed_remember (view s) = (view s)\<lparr>ed_past := take 16 (?l # ed_past (view s))\<rparr>"
      using line by (simp add: ed_remember_def)
    moreover have "remember_line s = Some (s\<lparr>history := (history s)[hist_count s mod HIST_CAP := b'],
        hist_len := (hist_len s)[hist_count s mod HIST_CAP := len s], hist_count := hist_count s + 1\<rparr>)"
      using False dup i sizes line \<open>0 < len s\<close> entry(1) last b'(1) mods
      by (auto simp: remember_line_def Let_def)
    ultimately show ?thesis using push by simp
  qed
qed

end
