(* ===== verification/CommandSplit.thy ===== *)
theory CommandSplit
  imports ShellText
begin

text \<open>
  \<open>split_commands\<close> against a specification on characters: the byte positions it slices at are
  always character boundaries, the segments rejoin to the line, and no segment holds a
  separator outside quotes.
\<close>

fun cons_first :: "uchar \<Rightarrow> str list \<Rightarrow> str list" where
  "cons_first c [] = [[c]]"
| "cons_first c (p # ps) = (c # p) # ps"

text \<open>The same split read off the characters; \<open>q\<close> is the quote that is open.\<close>

fun split_spec :: "uchar option \<Rightarrow> str \<Rightarrow> str list" where
  "split_spec q [] = [[]]"
| "split_spec q (c # s) =
     (case q of
        Some x \<Rightarrow> cons_first c (split_spec (if c = x then None else Some x) s)
      | None \<Rightarrow>
          if c = DQ \<or> c = SQ then cons_first c (split_spec (Some c) s)
          else if c = SEMI then [] # split_spec None s
          else
            (case s of
               d # s' \<Rightarrow>
                 if c = AMP \<and> d = AMP then [] # split_spec None s'
                 else cons_first c (split_spec None s)
             | [] \<Rightarrow> [[c]]))"

text \<open>Whether a separator occurs outside quotes.\<close>

fun has_separator :: "uchar option \<Rightarrow> str \<Rightarrow> bool" where
  "has_separator q [] = False"
| "has_separator q (c # s) =
     (case q of
        Some x \<Rightarrow> has_separator (if c = x then None else Some x) s
      | None \<Rightarrow>
          if c = DQ \<or> c = SQ then has_separator (Some c) s
          else c = SEMI \<or> (c = AMP \<and> s \<noteq> [] \<and> hd s = AMP)
            \<or> has_separator None s)"

fun rejoin :: "str list \<Rightarrow> str list \<Rightarrow> str" where
  "rejoin [] seps = []"
| "rejoin (p # ps) [] = p"
| "rejoin (p # ps) (x # xs) = p @ x @ rejoin ps xs"

lemma split_spec_not_Nil [simp]: "split_spec q s \<noteq> []"
proof (cases s)
  case (Cons c s')
  have "cons_first d ps \<noteq> []" for d ps by (cases ps) auto
  then show ?thesis
    unfolding Cons by (subst split_spec.simps(2)) (simp del: split_spec.simps split: option.split list.split)
qed simp

definition prepend :: "str \<Rightarrow> str list \<Rightarrow> str list" where
  "prepend cur ps = (cur @ hd ps) # tl ps"

lemma prepend_cons_first: "ps \<noteq> [] \<Longrightarrow> prepend cur (cons_first c ps) = prepend (cur @ [c]) ps"
  by (cases ps) (simp_all add: prepend_def)

lemma prepend_simps [simp]: "prepend cur (p # ps) = (cur @ p) # ps" "ps \<noteq> [] \<Longrightarrow> prepend [] ps = ps"
  by (simp_all add: prepend_def)

text \<open>An ordinary character outside quotes, with one after it, is kept.\<close>

lemma split_spec_other:
  "\<not> (c = DQ \<or> c = SQ) \<Longrightarrow> c \<noteq> SEMI \<Longrightarrow> \<not> (c = AMP \<and> d = AMP) \<Longrightarrow>
    split_spec None (c # d # s) = cons_first c (split_spec None (d # s))"
  by (subst split_spec.simps(2)) (auto simp del: split_spec.simps)

lemma split_loop_other:
  "\<not> (c = DQ \<or> c = SQ) \<Longrightarrow> c \<noteq> SEMI \<Longrightarrow> \<not> (c = AMP \<and> d = AMP) \<Longrightarrow>
    split_loop input None start ((n, c) # (m, d) # cs) out = split_loop input None start ((m, d) # cs) out"
  by (subst split_loop.simps(2)) (auto simp del: split_loop.simps)

lemma byte_slice_cur: "byte_slice (byte_len pre) (byte_len pre + byte_len cur) (pre @ cur @ s) = Some cur"
  by (rule byte_slice_mid)

text \<open>
  The cases of the scan, shared by the proofs below: inside quotes, an opening quote, the two
  separators, and an ordinary character that is the last one or not.
\<close>

lemma split_cases [case_names Nil Quoted Open Semi And Last Keep]:
  assumes "\<And>q. P q []"
    and "\<And>x c s. P (if c = x then None else Some x) s \<Longrightarrow> P (Some x) (c # s)"
    and "\<And>c s. c = DQ \<or> c = SQ \<Longrightarrow> P (Some c) s \<Longrightarrow> P None (c # s)"
    and "\<And>s. P None s \<Longrightarrow> P None (SEMI # s)"
    and "\<And>s. P None s \<Longrightarrow> P None (AMP # AMP # s)"
    and "\<And>c. \<not> (c = DQ \<or> c = SQ) \<Longrightarrow> c \<noteq> SEMI \<Longrightarrow> P None [c]"
    and "\<And>c d s. \<not> (c = DQ \<or> c = SQ) \<Longrightarrow> c \<noteq> SEMI \<Longrightarrow> \<not> (c = AMP \<and> d = AMP)
      \<Longrightarrow> P None (d # s) \<Longrightarrow> P None (c # d # s)"
  shows "P q s"
proof (induction q s rule: split_spec.induct)
  case (2 q c s)
  show ?case
  proof (cases q)
    case (Some x)
    with assms(2) "2.IH"(5) show ?thesis by simp
  next
    case None
    consider "c = DQ \<or> c = SQ" | "\<not> (c = DQ \<or> c = SQ)" "c = SEMI"
      | "\<not> (c = DQ \<or> c = SQ)" "c \<noteq> SEMI" "s = []"
      | d s' where "\<not> (c = DQ \<or> c = SQ)" "c \<noteq> SEMI" "s = d # s'" "c = AMP \<and> d = AMP"
      | d s' where "\<not> (c = DQ \<or> c = SQ)" "c \<noteq> SEMI" "s = d # s'" "\<not> (c = AMP \<and> d = AMP)"
      by (cases s) blast+
    then show ?thesis
    proof cases
      case 1
      with assms(3) "2.IH"(1) None show ?thesis by blast
    next
      case semi: 2
      with assms(4) "2.IH"(2) None show ?thesis by blast
    next
      case 3
      with assms(6) None show ?thesis by blast
    next
      case 4
      with assms(5) "2.IH"(3) None show ?thesis by blast
    next
      case 5
      with assms(7) "2.IH"(4) None show ?thesis by blast
    qed
  qed
qed (rule assms(1))

text \<open>One step of the scan over the bytes, with the pending segment \<open>cur\<close> extended by \<open>c\<close>.\<close>

lemma extend_cur:
  assumes "split_loop (pre @ (cur @ [c]) @ s) q' (byte_len pre)
      (char_indices_from (byte_len (pre @ cur @ [c])) s) out = Some (out @ prepend (cur @ [c]) (split_spec q' s))"
  shows "split_loop (pre @ cur @ c # s) q' (byte_len pre)
      (char_indices_from (byte_len pre + byte_len cur + utf8_width c) s) out
    = Some (out @ prepend cur (cons_first c (split_spec q' s)))"
  using assms by (simp del: split_loop.simps split_spec.simps char_indices_from.simps
      add: prepend_cons_first add.assoc)

lemma split_loop_spec:
  "split_loop (pre @ cur @ s) q (byte_len pre) (char_indices_from (byte_len (pre @ cur)) s) out
     = Some (out @ prepend cur (split_spec q s))"
proof (induction q s arbitrary: pre cur out rule: split_cases)
  case (Quoted x c s)
  from extend_cur [OF Quoted] show ?case by simp
next
  case (Open c s)
  from extend_cur [OF Open(2)] Open(1) show ?case by simp
next
  case (Semi s)
  have "utf8_width SEMI = 1" by (simp add: utf8_width_def)
  with Semi [of "pre @ cur @ [SEMI]" "[]" "out @ [cur]"] byte_slice_cur
  show ?case by (simp add: add.assoc)
next
  case (And s)
  have w: "utf8_width AMP = 1" by (simp add: utf8_width_def)
  with And [of "pre @ cur @ [AMP, AMP]" "[]" "out @ [cur]"]
  have "split_loop (pre @ cur @ AMP # AMP # s) None (byte_len pre + byte_len cur + 2)
      (char_indices_from (byte_len pre + byte_len cur + 2) s) (out @ [cur])
      = Some (out @ cur # split_spec None s)"
    by (simp add: add.assoc)
  with w byte_slice_cur [of pre cur "AMP # AMP # s"] show ?case by (simp add: numeral_2_eq_2)
next
  case (Last c)
  then show ?case by (simp add: prepend_def)
next
  case (Keep c d s)
  from extend_cur [OF Keep(4)] show ?case
    by (simp only: split_spec_other [OF Keep(1-3)] split_loop_other [OF Keep(1-3)]
        char_indices_from.simps byte_len_simps(3))
qed simp

lemma split_commands_eq_spec: "split_commands input = Some (split_spec None input)"
  using split_loop_spec [of "[]" "[]" input None "[]"]
  by (simp add: split_commands_def char_indices_def)

lemma rejoin_cons_first: "ps \<noteq> [] \<Longrightarrow> rejoin (cons_first c ps) xs = c # rejoin ps xs"
  by (cases ps; cases xs) simp_all

lemma length_cons_first: "ps \<noteq> [] \<Longrightarrow> length (cons_first c ps) = length ps"
  by (cases ps) simp_all

lemma rejoin_Nil: "ps \<noteq> [] \<Longrightarrow> rejoin ([] # ps) (x # xs) = x @ rejoin ps xs"
  by simp

text \<open>\<open>ps\<close> are the pieces of \<open>s\<close> around separators.\<close>

definition pieces_of :: "str \<Rightarrow> str list \<Rightarrow> bool" where
  "pieces_of s ps \<longleftrightarrow> (\<exists>seps. set seps \<subseteq> {lit '';'', lit ''&&''} \<and> length ps = Suc (length seps)
     \<and> rejoin ps seps = s)"

lemma pieces_of_keep: "pieces_of s (split_spec q s) \<Longrightarrow> pieces_of (c # s) (cons_first c (split_spec q s))"
  by (simp add: pieces_of_def rejoin_cons_first length_cons_first)

lemma pieces_of_cut: "pieces_of s ps \<Longrightarrow> x \<in> {lit '';'', lit ''&&''} \<Longrightarrow> pieces_of (x @ s) ([] # ps)"
  unfolding pieces_of_def
  by (elim exE, rule_tac x = "x # seps" in exI) (cases ps; auto)

lemma pieces_of_one: "pieces_of s [s]"
  by (auto simp: pieces_of_def intro: exI [of _ "[]"])

lemma split_spec_rejoins: "pieces_of s (split_spec q s)"
proof (induction q s rule: split_cases)
  case (Semi s)
  from pieces_of_cut [OF this, of "[SEMI]"] show ?case by simp
next
  case (And s)
  from pieces_of_cut [OF this, of "[AMP, AMP]"] show ?case by simp
next
  case (Keep c d s)
  from pieces_of_keep [OF Keep(4)] show ?case by (simp only: split_spec_other [OF Keep(1-3)])
qed (simp_all add: pieces_of_keep pieces_of_one)

text \<open>A segment starts the way the text it was cut from does.\<close>

lemma hd_split_spec: "hd (split_spec q (d # s)) = [] \<or> hd (hd (split_spec q (d # s))) = d"
proof -
  have "hd (cons_first c ps) \<noteq> [] \<and> hd (hd (cons_first c ps)) = c" for c ps by (cases ps) auto
  then show ?thesis
    by (subst (1 2) split_spec.simps(2)) (simp del: split_spec.simps split: option.split list.split)
qed

lemma has_separator_cons_first:
  "(\<forall>p \<in> set ps. P p) \<Longrightarrow> ps \<noteq> [] \<Longrightarrow> Q (c # hd ps) \<Longrightarrow> Q (hd (cons_first c ps)) \<and> (\<forall>p \<in> set (tl (cons_first c ps)). P p)"
  by (cases ps) auto

text \<open>The first segment is read with the open quote \<open>q\<close>, the others with none.\<close>

definition unsplit :: "uchar option \<Rightarrow> str list \<Rightarrow> bool" where
  "unsplit q ps \<longleftrightarrow> \<not> has_separator q (hd ps) \<and> (\<forall>p \<in> set (tl ps). \<not> has_separator None p)"

lemma unsplit_keep:
  assumes IH: "unsplit q' (split_spec q' s)"
    and step: "\<And>p. \<not> has_separator q' p \<Longrightarrow> p = [] \<or> s \<noteq> [] \<and> hd p = hd s \<Longrightarrow> \<not> has_separator q (c # p)"
  shows "unsplit q (cons_first c (split_spec q' s))"
proof -
  obtain p ps where p: "split_spec q' s = p # ps" by (cases "split_spec q' s") auto
  have "p = [] \<or> s \<noteq> [] \<and> hd p = hd s"
  proof (cases s)
    case (Cons d s')
    with hd_split_spec [of q' d s'] p show ?thesis by (simp del: split_spec.simps)
  qed (use p in simp)
  with step [of p] IH p show ?thesis by (simp add: unsplit_def del: split_spec.simps)
qed

lemma unsplit_cut: "unsplit None (split_spec None t) \<Longrightarrow> unsplit None ([] # split_spec None t)"
  by (cases "split_spec None t") (auto simp: unsplit_def)

lemma split_spec_no_separator: "unsplit q (split_spec q s)"
proof (induction q s rule: split_cases)
  case (Quoted x c s)
  then show ?case by (simp add: unsplit_keep)
next
  case (Open c s)
  then have "unsplit None (cons_first c (split_spec (Some c) s))" by (intro unsplit_keep) auto
  with Open(1) show ?case by simp
next
  case (Keep c d s)
  then have "unsplit None (cons_first c (split_spec None (d # s)))" by (intro unsplit_keep) auto
  with Keep(1-3) show ?case by (simp only: split_spec_other not_False_eq_True)
next
  case (Semi s)
  from unsplit_cut [OF this] show ?case by simp
next
  case (And s)
  from unsplit_cut [OF this] show ?case by simp
qed (simp_all add: unsplit_def)

section \<open>Properties\<close>


end
