(* ===== verification/Arguments.thy ===== *)
theory Arguments
  imports ShellText
begin

text \<open>
  Tokens, flags and the raw argument of a command: what \<open>tokenize_quoted\<close>, \<open>parse_args\<close> and
  \<open>cmd_arg\<close> give for a line assembled from its parts.
\<close>

section \<open>Tokens\<close>

definition quoted :: "str \<Rightarrow> str" where "quoted w = DQ # w @ [DQ]"

lemma tokenize_in_quotes:
  "DQ \<notin> set w \<Longrightarrow> tokenize_loop (Some DQ) cur toks (w @ DQ # s) = tokenize_loop None (cur @ w) toks s"
  by (induction w arbitrary: cur) auto

lemma tokenize_quoted_words:
  "list_all (\<lambda>w. w \<noteq> [] \<and> DQ \<notin> set w) ws \<Longrightarrow>
    tokenize_loop None [] toks (join_with 32 (map quoted ws)) = toks @ ws"
proof (induction ws arbitrary: toks)
  case (Cons w ws)
  then have w: "w \<noteq> []" "DQ \<notin> set w" and IH: "\<And>toks. tokenize_loop None [] toks (join_with 32 (map quoted ws)) = toks @ ws"
    by auto
  have head: "tokenize_loop None [] toks (quoted w @ s) = tokenize_loop None w toks s" for s
    using tokenize_in_quotes [OF w(2), of "[]" toks s] by (simp add: quoted_def)
  show ?case
  proof (cases ws)
    case Nil
    with head [of "[]"] w show ?thesis by simp
  next
    case (Cons v vs)
    have "tokenize_loop None [] toks (join_with 32 (map quoted (w # ws)))
        = tokenize_loop None w toks (32 # join_with 32 (map quoted ws))"
      unfolding Cons using head by simp
    also have "\<dots> = tokenize_loop None [] (toks @ [w]) (join_with 32 (map quoted ws))"
      using w by (simp add: is_whitespace_def)
    finally show ?thesis using IH by simp
  qed
qed simp

lemma tokenize_join: "list_all (\<lambda>w. w \<noteq> [] \<and> DQ \<notin> set w) ws \<Longrightarrow>
    tokenize_quoted (join_with 32 (map quoted ws)) = ws"
  by (simp add: tokenize_quoted_def tokenize_quoted_words)

lemma tokenize_nonempty:
  "list_all (\<lambda>w. w \<noteq> []) toks \<Longrightarrow> list_all (\<lambda>w. w \<noteq> []) (tokenize_loop q cur toks s)"
  by (induction q cur toks s rule: tokenize_loop.induct) (auto split: option.splits)

section \<open>Flags\<close>

lemma tilde_expand_eq:
  "tilde_expand s = Some (if starts_with [TILDE] s then SLASH # tl s else s)"
  by (cases s) (auto simp: tilde_expand_def starts_with_def byte_drop_ascii)

definition tilde :: "str \<Rightarrow> str" where
  "tilde s = (if starts_with [TILDE] s then SLASH # tl s else s)"

lemma tilde_expand_tilde: "tilde_expand s = Some (tilde s)"
  by (simp add: tilde_expand_eq tilde_def)

lemma flag_loop_letters:
  "cs \<noteq> [] \<Longrightarrow> list_all (\<lambda>c. \<not> is_ascii_digit c) (tl cs) \<Longrightarrow> nxt = None \<or> (\<exists>d ds. nxt = Some (d # ds) \<and> \<not> is_ascii_digit d) \<Longrightarrow>
    flag_loop cs nxt pa = (pa\<lparr>flags := flags pa @ cs\<rparr>, False)"
proof (induction cs arbitrary: pa)
  case (Cons c cs)
  then show ?case by (cases cs; cases nxt) auto
qed simp

lemma parse_value:
  assumes "is_ascii_digit d"
  shows "parse_loop False ((DASH # f # d # ds) # toks) pa
    = parse_loop False toks (pa\<lparr>flag_vals := flag_vals pa @ [(f, d # ds)]\<rparr>)"
  using assms by (simp add: starts_with_def byte_drop_ascii)

lemma parse_letters:
  assumes "cs \<noteq> []" "cs \<noteq> [DASH]" "list_all (\<lambda>c. \<not> is_ascii_digit c) (tl cs)"
  shows "parse_loop False ((DASH # cs) # [DASH, DASH] # toks) pa
    = parse_loop False ([DASH, DASH] # toks) (pa\<lparr>flags := flags pa @ cs\<rparr>)"
proof -
  have "flag_loop cs (Some [DASH, DASH]) pa = (pa\<lparr>flags := flags pa @ cs\<rparr>, False)"
    using assms by (intro flag_loop_letters) (auto simp: is_ascii_digit_def)
  with assms show ?thesis
    by (subst parse_loop.simps) (simp add: starts_with_def byte_drop_ascii del: parse_loop.simps)
qed

lemma parse_stopped:
  "parse_loop True toks pa = Some (pa\<lparr>positional := positional pa @ map tilde toks\<rparr>)"
  by (induction toks arbitrary: pa) (simp_all add: tilde_expand_tilde)

lemma parse_end_of_flags:
  "parse_loop False ([DASH, DASH] # toks) pa = Some (pa\<lparr>positional := positional pa @ map tilde toks\<rparr>)"
  by (simp add: starts_with_def parse_stopped)

lemma parse_values:
  "list_all (\<lambda>(f, v). v \<noteq> [] \<and> is_ascii_digit (hd v)) fvs \<Longrightarrow>
    parse_loop False (map (\<lambda>(f, v). DASH # f # v) fvs @ toks) pa
      = parse_loop False toks (pa\<lparr>flag_vals := flag_vals pa @ fvs\<rparr>)"
proof (induction fvs arbitrary: pa)
  case (Cons fv fvs)
  obtain f d ds where fv: "fv = (f, d # ds)" using Cons.prems by (cases fv; cases "snd fv") auto
  with Cons show ?case by (simp add: parse_value del: parse_loop.simps)
qed (simp del: parse_loop.simps)

text \<open>A command line with the given flags, values and arguments, every token quoted.\<close>

definition arg_tokens :: "parsed_args \<Rightarrow> str list" where
  "arg_tokens pa =
     map (\<lambda>(f, v). DASH # f # v) (flag_vals pa)
     @ (if flags pa = [] then [] else [DASH # flags pa])
     @ [DASH, DASH] # positional pa"

definition args_ok :: "parsed_args \<Rightarrow> bool" where
  "args_ok pa \<longleftrightarrow>
     list_all (\<lambda>(f, v). v \<noteq> [] \<and> is_ascii_digit (hd v)) (flag_vals pa)
   \<and> flags pa \<noteq> [DASH] \<and> list_all (\<lambda>c. \<not> is_ascii_digit c) (tl (flags pa))
   \<and> list_all (\<lambda>w. w \<noteq> [] \<and> DQ \<notin> set w) (arg_tokens pa)"

definition arg_line :: "parsed_args \<Rightarrow> str" where
  "arg_line pa = join_with 32 (map quoted (arg_tokens pa))"

lemma parse_arg_tokens:
  assumes "args_ok pa"
  shows "parse_loop False (arg_tokens pa) \<lparr>flags = [], flag_vals = [], positional = []\<rparr>
    = Some (pa\<lparr>positional := map tilde (positional pa)\<rparr>)"
proof (cases "flags pa = []")
  case True
  with assms show ?thesis
    by (simp add: arg_tokens_def args_ok_def parse_values parse_end_of_flags del: parse_loop.simps)
next
  case False
  with assms show ?thesis
    by (simp add: arg_tokens_def args_ok_def parse_values parse_letters parse_end_of_flags del: parse_loop.simps)
qed

section \<open>The raw argument\<close>

definition unquote :: "str \<Rightarrow> str" where
  "unquote s = (if 2 \<le> length s \<and> hd s = last s \<and> hd s \<in> {DQ, SQ} then butlast (tl s) else s)"

lemma rposition_take:
  assumes "rposition P xs = Some i"
  shows "take (i + 1) xs = rev (dropWhile (\<lambda>x. \<not> P x) (rev xs))"
proof -
  from assms obtain k where k: "position P (rev xs) = Some k" "i = length xs - 1 - k"
    by (auto simp: rposition_def)
  from position_SomeD [OF k(1)] have "k < length xs" by simp
  with k(2) have "take (i + 1) xs = rev (drop k (rev xs))" by (simp add: rev_drop Suc_diff_Suc)
  with position_dropWhile [OF k(1)] show ?thesis by simp
qed

lemma rposition_None: "rposition P xs = None \<longleftrightarrow> (\<forall>x \<in> set xs. \<not> P x)"
  by (simp add: rposition_def position_None)

lemma byte_slice_unquote:
  assumes q: "q \<in> {DQ, SQ}" and "starts_with [q] s" "ends_with [q] s" "2 \<le> byte_len s"
  shows "2 \<le> length s \<and> hd s = last s \<and> hd s = q" and "byte_slice 1 (byte_len s - 1) s = Some (butlast (tl s))"
proof -
  have w: "utf8_width q = 1" using q by (auto simp: utf8_width_def)
  from assms(2) obtain r where r: "s = q # r" by (cases s) (auto simp: starts_with_def)
  with assms(4) w have "r \<noteq> []" by auto
  then obtain t x where t: "r = t @ [x]" by (cases r rule: rev_cases) auto
  with assms(3) r have "x = q" by (auto simp: ends_with_def)
  with r t have s: "s = [q] @ t @ [q]" by simp
  then show "2 \<le> length s \<and> hd s = last s \<and> hd s = q" by simp
  show "byte_slice 1 (byte_len s - 1) s = Some (butlast (tl s))"
    using byte_slice_mid [of "[q]" t "[q]"] w by (simp add: s)
qed

lemma cmd_arg_unquote:
  "(if byte_len raw \<ge> 2
      \<and> (starts_with [DQ] raw \<and> ends_with [DQ] raw \<or> starts_with [SQ] raw \<and> ends_with [SQ] raw)
    then byte_slice 1 (byte_len raw - 1) raw else Some raw) = Some (unquote raw)"
proof (cases "byte_len raw \<ge> 2
      \<and> (starts_with [DQ] raw \<and> ends_with [DQ] raw \<or> starts_with [SQ] raw \<and> ends_with [SQ] raw)")
  case True
  then obtain q where q: "q \<in> {DQ, SQ}" "starts_with [q] raw" "ends_with [q] raw" "2 \<le> byte_len raw" by auto
  from byte_slice_unquote [OF q] True show ?thesis using q(1) by (auto simp: unquote_def)
next
  case False
  have "unquote raw = raw"
  proof (rule ccontr)
    assume "unquote raw \<noteq> raw"
    then have u: "2 \<le> length raw" "hd raw = last raw" "hd raw \<in> {DQ, SQ}"
      by (auto simp: unquote_def split: if_splits)
    then obtain t where t: "raw = hd raw # t @ [hd raw]"
      by (cases raw; cases "tl raw" rule: rev_cases) auto
    have "utf8_width (hd raw) = 1" using u(3) by (auto simp: utf8_width_def)
    then have "byte_len (hd raw # t @ [hd raw]) \<ge> 2" by simp
    moreover have "starts_with [hd raw] (hd raw # t @ [hd raw])" "ends_with [hd raw] (hd raw # t @ [hd raw])"
      by (simp_all add: starts_with_def ends_with_def)
    ultimately show False using False u(3) t by (metis insertE singletonD)
  qed
  then show ?thesis unfolding if_not_P [OF False] by simp
qed

lemma cmd_arg_spec:
  "cmd_arg chars =
     (let t = trim (dropWhile (\<lambda>c. \<not> is_whitespace c) chars)
      in Some (if t = [] then None else Some (tilde (unquote t))))"
proof (cases "position is_whitespace chars")
  case None
  then have "dropWhile (\<lambda>c. \<not> is_whitespace c) chars = []" by (simp add: position_None)
  then have "trim (dropWhile (\<lambda>c. \<not> is_whitespace c) chars) = []"
    by (simp only: trim_def trim_start_def trim_end_def dropWhile.simps rev.simps)
  with None show ?thesis by (simp add: cmd_arg_def)
next
  case (Some sp)
  let ?rest = "drop (sp + 1) chars"
  from position_SomeD [OF Some] have sp: "sp < length chars" "is_whitespace (chars ! sp)" by auto
  then have "drop sp chars = chars ! sp # ?rest" by (simp add: Cons_nth_drop_Suc)
  with position_dropWhile [OF Some]
  have dw: "dropWhile (\<lambda>c. \<not> is_whitespace c) chars = chars ! sp # ?rest" by metis
  have ws: "trim_start (dropWhile (\<lambda>c. \<not> is_whitespace c) chars) = dropWhile is_whitespace ?rest"
    unfolding dw using sp(2) by (simp add: trim_start_def)
  show ?thesis
  proof (cases "position (\<lambda>c. \<not> is_whitespace c) ?rest")
    case None
    then have "dropWhile is_whitespace ?rest = []" by (simp add: position_None)
    then have "trim (dropWhile (\<lambda>c. \<not> is_whitespace c) chars) = []"
      unfolding trim_def ws by (simp only: trim_end_def dropWhile.simps rev.simps)
    with None Some sp show ?thesis by (simp add: cmd_arg_def)
  next
    case (Some start)
    let ?tr = "dropWhile is_whitespace ?rest"
    from position_SomeD [OF Some] have start: "start < length ?rest" "\<not> is_whitespace (?rest ! start)" by auto
    from position_dropWhile [OF Some] have tr: "drop start ?rest = ?tr" by simp
    have head: "?tr = ?rest ! start # drop (Suc start) ?rest"
      using Cons_nth_drop_Suc [OF start(1)] tr by metis
    then have "rposition (\<lambda>c. \<not> is_whitespace c) ?tr \<noteq> None" using start by (auto simp: rposition_None)
    then obtain i where i: "rposition (\<lambda>c. \<not> is_whitespace c) ?tr = Some i" by auto
    have te: "take (i + 1) ?tr = trim_end ?tr" using rposition_take [OF i] by (simp add: trim_end_def)
    have ilen: "i + 1 \<le> length ?tr"
      using i head by (auto simp: rposition_def)
    have ne: "trim_end ?tr \<noteq> []" using te head by (metis take_eq_Nil list.distinct(1) add_is_0 one_neq_zero)
    have "cmd_arg chars = Some (Some (tilde (unquote (trim_end ?tr))))"
      using \<open>position is_whitespace chars = Some sp\<close> Some sp start tr i ilen te
      by (simp add: cmd_arg_def cmd_arg_unquote tilde_expand_tilde del: drop_drop)
    with ne ws show ?thesis by (simp add: trim_def Let_def)
  qed
qed

lemma name_eq_spec: "name_eq chars s = Some (takeWhile (\<lambda>c. \<not> is_whitespace c) chars = s)"
proof -
  let ?w = "takeWhile (\<lambda>c. \<not> is_whitespace c) chars"
  have e: "(case position is_whitespace chars of None \<Rightarrow> length chars | Some i \<Rightarrow> i) = length ?w"
    by (rule position_takeWhile_length)
  have "take (length ?w) chars = ?w" by (metis takeWhile_eq_take)
  moreover have "chars_eq ?w s \<longleftrightarrow> ?w = s"
    by (auto simp: chars_eq_def list_all_length intro: nth_equalityI)
  ultimately show ?thesis
    using length_takeWhile_le [of "\<lambda>c. \<not> is_whitespace c" chars] by (simp add: name_eq_def e Let_def)
qed

section \<open>Properties\<close>

text \<open>
  C27: Argument parsing inverts assembling a command line: any flag values that start with a
  digit, any non-digit flag letters and, after \<open>--\<close>, any nonempty arguments come back from the
  line that quotes them, spaces, dashes and semicolons included, with a leading tilde of an
  argument expanded.
\<close>

theorem parse_args_roundtrip:
  assumes "args_ok pa"
  shows "parse_args (arg_line pa) = Some (pa\<lparr>positional := map tilde (positional pa)\<rparr>)"
  using parse_arg_tokens [OF assms] assms
  by (simp add: parse_args_def arg_line_def tokenize_join args_ok_def del: parse_loop.simps)

theorem parse_args_roundtrip_witness:
  "let pa = \<lparr>flags = lit ''il'', flag_vals = [(cp (CHR ''n''), lit ''10'')], positional = [lit ''a b'', lit ''~/x'']\<rparr>
   in parse_args (arg_line pa) = Some (pa\<lparr>positional := [lit ''a b'', lit ''//x'']\<rparr>)"
proof -
  let ?pa = "\<lparr>flags = lit ''il'', flag_vals = [(cp (CHR ''n''), lit ''10'')], positional = [lit ''a b'', lit ''~/x'']\<rparr>"
  have "args_ok ?pa" by (simp add: args_ok_def arg_tokens_def is_ascii_digit_def)
  from parse_args_roundtrip [OF this] show ?thesis by (simp add: tilde_def starts_with_def)
qed

text \<open>
  C34: A command's name is its text up to the first whitespace, and its argument is the rest,
  trimmed, with one pair of matching outer quotes removed and then a leading tilde expanded;
  there is no argument exactly when the rest is blank, and extracting it never panics.
\<close>

theorem name_and_argument:
  "name_eq chars name = Some (takeWhile (\<lambda>c. \<not> is_whitespace c) chars = name)
   \<and> cmd_arg chars = Some (let t = trim (dropWhile (\<lambda>c. \<not> is_whitespace c) chars)
        in if t = [] then None else Some (tilde (unquote t)))"
  by (simp add: name_eq_spec cmd_arg_spec Let_def)

end
