(* ===== verification/EditDistance.thy ===== *)
theory EditDistance
  imports ShellText
begin

text \<open>
  The one-row dynamic program \<open>edit_distance\<close> computes the Levenshtein distance: \<open>lev\<close> is the
  textbook recursion the rows tabulate, and \<open>edit_script\<close> what an edit script of a given cost is.
\<close>

section \<open>Edit scripts\<close>

inductive edit_script :: "nat \<Rightarrow> 'a list \<Rightarrow> 'a list \<Rightarrow> bool" where
  edits_done: "edit_script 0 [] []"
| edits_keep: "edit_script n xs ys \<Longrightarrow> edit_script n (x # xs) (x # ys)"
| edits_delete: "edit_script n xs ys \<Longrightarrow> edit_script (Suc n) (x # xs) ys"
| edits_insert: "edit_script n xs ys \<Longrightarrow> edit_script (Suc n) xs (y # ys)"
| edits_replace: "edit_script n xs ys \<Longrightarrow> edit_script (Suc n) (x # xs) (y # ys)"

lemma edits_append: "edit_script n xs ys \<Longrightarrow> edit_script m us vs \<Longrightarrow> edit_script (n + m) (xs @ us) (ys @ vs)"
  by (induction rule: edit_script.induct) (auto intro: edit_script.intros)

lemma edits_rev: "edit_script n xs ys \<Longrightarrow> edit_script n (rev xs) (rev ys)"
proof (induction rule: edit_script.induct)
  case (edits_keep n xs ys x)
  from edits_append [OF edits_keep.IH edit_script.edits_keep [OF edits_done]] show ?case by simp
next
  case (edits_delete n xs ys x)
  from edits_append [OF edits_delete.IH edit_script.edits_delete [OF edits_done]] show ?case by simp
next
  case (edits_insert n xs ys y)
  from edits_append [OF edits_insert.IH edit_script.edits_insert [OF edits_done]] show ?case by simp
next
  case (edits_replace n xs ys x y)
  from edits_append [OF edits_replace.IH edit_script.edits_replace [OF edits_done]] show ?case by simp
qed (simp add: edits_done)

section \<open>The recursion\<close>

fun lev :: "'a list \<Rightarrow> 'a list \<Rightarrow> nat" where
  "lev [] ys = length ys"
| "lev (x # xs) [] = Suc (length xs)"
| "lev (x # xs) (y # ys) =
     (if x = y then lev xs ys else 1 + min (min (lev xs ys) (lev xs (y # ys))) (lev (x # xs) ys))"

lemma lev_Nil_right [simp]: "lev xs [] = length xs"
  by (cases xs) auto

lemma edits_insert_all: "edit_script (length ys) [] ys"
  by (induction ys) (auto intro: edit_script.intros)

lemma edits_delete_all: "edit_script (length xs) xs []"
  by (induction xs) (auto intro: edit_script.intros)

lemma edits_lev: "edit_script (lev xs ys) xs ys"
proof (induction xs ys rule: lev.induct)
  case (2 x xs)
  show ?case using edits_delete_all [of "x # xs"] by simp
next
  case (3 x xs y ys)
  show ?case
  proof (cases "x = y")
    case False
    consider "lev (x # xs) (y # ys) = Suc (lev xs ys)" | "lev (x # xs) (y # ys) = Suc (lev xs (y # ys))"
      | "lev (x # xs) (y # ys) = Suc (lev (x # xs) ys)"
      using False by (cases "lev xs ys \<le> lev xs (y # ys)"; cases "min (lev xs ys) (lev xs (y # ys)) \<le> lev (x # xs) ys")
        (simp_all add: min_absorb1 min_absorb2)
    then show ?thesis using 3(2-4) [OF False] by cases (auto intro: edit_script.intros simp del: lev.simps)
  qed (use 3(1) in \<open>auto intro: edits_keep\<close>)
qed (simp add: edits_insert_all)

lemma lev_sym: "lev xs ys = lev ys xs"
  by (induction xs ys rule: lev.induct) (auto simp: min.commute min.left_commute min.assoc)

text \<open>One letter more on either side costs at most one edit more, and saves at most one.\<close>

lemma lev_step: "lev (x # xs) ys \<le> Suc (lev xs ys) \<and> lev xs ys \<le> Suc (lev (x # xs) ys)"
proof (induction "length xs + length ys" arbitrary: x xs ys rule: less_induct)
  case less
  show ?case
  proof (cases ys)
    case Nil
    then show ?thesis by simp
  next
    case (Cons y ys')
    have left: "lev xs ys' \<le> Suc (lev (x # xs) ys')" using less [of xs ys' x] Cons by simp
    have right: "lev xs (y # ys') \<le> Suc (lev xs ys')" "lev xs ys' \<le> Suc (lev xs (y # ys'))"
      using less [of ys' xs y] Cons lev_sym [of xs] by simp_all
    show ?thesis
    proof (cases "x = y")
      case True
      then show ?thesis using right by (simp add: Cons)
    next
      case False
      have "lev xs (y # ys') \<le> Suc (Suc (lev xs ys'))" "lev xs (y # ys') \<le> Suc (Suc (lev (x # xs) ys'))"
        using left right by linarith+
      with False show ?thesis by (simp add: Cons min_le_iff_disj)
    qed
  qed
qed

lemma lev_least: "edit_script n xs ys \<Longrightarrow> lev xs ys \<le> n"
proof (induction rule: edit_script.induct)
  case (edits_delete n xs ys x)
  then show ?case using lev_step [of x xs ys] by linarith
next
  case (edits_insert n xs ys y)
  then show ?case using lev_step [of y ys xs] lev_sym [of xs] by (metis le_trans Suc_le_mono)
next
  case (edits_replace n xs ys x y)
  then show ?case using lev_step by (auto simp: min_le_iff_disj)
next
  case (edits_keep n xs ys x)
  then show ?case by simp
qed simp

lemma lev_rev: "lev (rev xs) (rev ys) = lev xs ys"
proof (rule antisym)
  show "lev (rev xs) (rev ys) \<le> lev xs ys" by (rule lev_least [OF edits_rev [OF edits_lev]])
  show "lev xs ys \<le> lev (rev xs) (rev ys)"
    using lev_least [OF edits_rev [OF edits_lev [of "rev xs" "rev ys"]]] by simp
qed

section \<open>The row-by-row computation\<close>

text \<open>The table the rows run through, on prefixes.\<close>

definition lev_at :: "'a list \<Rightarrow> 'a list \<Rightarrow> nat \<Rightarrow> nat \<Rightarrow> nat" where
  "lev_at a b i j = lev (rev (take i a)) (rev (take j b))"

lemma lev_at_edges: "j \<le> length b \<Longrightarrow> lev_at a b 0 j = j" "i \<le> length a \<Longrightarrow> lev_at a b i 0 = i"
  by (simp_all add: lev_at_def)

lemma lev_at_Suc:
  "i < length a \<Longrightarrow> j < length b \<Longrightarrow> lev_at a b (Suc i) (Suc j) =
     (if a ! i = b ! j then lev_at a b i j
      else 1 + min (min (lev_at a b i j) (lev_at a b i (Suc j))) (lev_at a b (Suc i) j))"
  by (simp add: lev_at_def take_Suc_conv_app_nth)

text \<open>The row while index \<open>j\<close> is next: new entries before it, old ones from it on.\<close>

definition mixed_row :: "'a list \<Rightarrow> 'a list \<Rightarrow> nat \<Rightarrow> nat \<Rightarrow> nat list" where
  "mixed_row a b i j = map (\<lambda>k. lev_at a b (if k < j then Suc i else i) k) [0..<length b + 1]"

lemma mixed_row_update:
  assumes "j < length b"
  shows "(mixed_row a b i (Suc j))[Suc j := lev_at a b (Suc i) (Suc j)] = mixed_row a b i (Suc (Suc j))"
proof (rule nth_equalityI)
  fix k assume "k < length ((mixed_row a b i (Suc j))[Suc j := lev_at a b (Suc i) (Suc j)])"
  then have "k < length b + 1" by (simp add: mixed_row_def)
  then show "(mixed_row a b i (Suc j))[Suc j := lev_at a b (Suc i) (Suc j)] ! k = mixed_row a b i (Suc (Suc j)) ! k"
    by (cases "k = Suc j") (auto simp: mixed_row_def nth_list_update simp del: upt_Suc)
qed (simp add: mixed_row_def)

lemma ed_inner_spec:
  assumes "i < length a" "j \<le> length b"
  shows "ed_inner (a ! i) b [Suc j..<length b + 1] (lev_at a b i j) (mixed_row a b i (Suc j))
    = Some (mixed_row a b i (Suc (length b)))"
  using assms(2)
proof (induction "length b - j" arbitrary: j)
  case (Suc d)
  then have j: "j < length b" by simp
  then have split: "[Suc j..<length b + 1] = Suc j # [Suc (Suc j)..<length b + 1]"
    by (simp add: upt_conv_Cons)
  have row: "length (mixed_row a b i (Suc j)) = length b + 1"
    "mixed_row a b i (Suc j) ! Suc j = lev_at a b i (Suc j)"
    "mixed_row a b i (Suc j) ! j = lev_at a b (Suc i) j"
    using j by (simp_all add: mixed_row_def del: upt_Suc)
  have new: "(if a ! i = b ! j then lev_at a b i j
      else 1 + min (min (lev_at a b i j) (lev_at a b i (Suc j))) (lev_at a b (Suc i) j))
      = lev_at a b (Suc i) (Suc j)"
    using lev_at_Suc [OF assms(1) j] by simp
  have "ed_inner (a ! i) b [Suc (Suc j)..<length b + 1] (lev_at a b i (Suc j)) (mixed_row a b i (Suc (Suc j)))
    = Some (mixed_row a b i (Suc (length b)))"
    using Suc.hyps(1) [of "Suc j"] Suc.hyps(2) j by simp
  then show ?case
    unfolding split using j row new mixed_row_update [OF j, of a i]
    by (simp del: upt_Suc One_nat_def) 
next
  case 0
  then show ?case by simp
qed

definition table_row :: "'a list \<Rightarrow> 'a list \<Rightarrow> nat \<Rightarrow> nat list" where
  "table_row a b i = map (lev_at a b i) [0..<length b + 1]"

lemma ed_outer_spec:
  assumes "i \<le> length a"
  shows "ed_outer a b [Suc i..<length a + 1] (table_row a b i) = Some (table_row a b (length a))"
  using assms
proof (induction "length a - i" arbitrary: i)
  case (Suc d)
  then have i: "i < length a" by simp
  then have split: "[Suc i..<length a + 1] = Suc i # [Suc (Suc i)..<length a + 1]"
    by (simp add: upt_conv_Cons)
  have start: "(table_row a b i)[0 := Suc i] = mixed_row a b i (Suc 0)"
    using i by (intro nth_equalityI)
      (auto simp: table_row_def mixed_row_def nth_list_update lev_at_edges simp del: upt_Suc)
  have inner: "ed_inner (a ! i) b [1..<length b + 1] i ((table_row a b i)[0 := Suc i]) = Some (table_row a b (Suc i))"
    using ed_inner_spec [OF i, of 0 b] i start
    by (simp add: lev_at_edges table_row_def mixed_row_def del: upt_Suc cong: map_cong)
  have "table_row a b i ! 0 = i" "0 < length (table_row a b i)"
    using i by (simp_all add: table_row_def lev_at_edges del: upt_Suc)
  with inner i Suc.hyps(1) [of "Suc i"] Suc.hyps(2) show ?case
    unfolding split by (simp del: upt_Suc One_nat_def)
next
  case 0
  then show ?case by simp
qed

lemma edit_distance_lev: "edit_distance a b = Some (lev a b)"
proof -
  have "table_row a b 0 = [0..<length b + 1]"
    by (intro nth_equalityI) (simp_all add: table_row_def lev_at_edges del: upt_Suc)
  with ed_outer_spec [of 0 a b] have "edit_distance a b = get_at (table_row a b (length a)) (length b)"
    by (simp add: edit_distance_def del: upt_Suc)
  then show ?thesis by (simp add: table_row_def lev_at_def lev_rev del: upt_Suc)
qed

section \<open>Properties\<close>

text \<open>
  C29: The distance behind "did you mean" is exactly the Levenshtein distance: computing it never
  indexes out of range, some edit script of that many insertions, deletions and replacements
  turns the typed word into the command name, and no shorter one does.
\<close>

theorem edit_distance_least:
  "\<exists>d. edit_distance a b = Some d \<and> edit_script d a b \<and> (\<forall>n. edit_script n a b \<longrightarrow> d \<le> n)"
  using edit_distance_lev edits_lev lev_least by blast

theorem edit_distance_least_witness:
  "\<exists>d. edit_distance (lit ''sl'') (lit ''ls'') = Some d \<and> edit_script d (lit ''sl'') (lit ''ls'')
    \<and> (\<forall>n. edit_script n (lit ''sl'') (lit ''ls'') \<longrightarrow> d \<le> n)"
  by (rule edit_distance_least)

end
