(* ===== verification/CommandSafety.thy ===== *)
theory CommandSafety
  imports Shell EditorOps CommandSplit Arguments EditDistance
begin

text \<open>
  Every command returns from every state that satisfies the kernel's invariant, keeps the
  invariant, and touches neither the shell, the mounted root nor the clock.
\<close>

section \<open>Operations that cannot panic\<close>

lemma parse_loop_total: "\<exists>pa'. parse_loop stop toks pa = Some pa'"
proof (induction stop toks pa rule: parse_loop.induct)
  case (2 stop tok toks pa)
  show ?case
  proof (cases "stop \<or> \<not> starts_with [DASH] tok \<or> tok = [DASH]")
    case True
    with 2(1) show ?thesis by (auto simp: tilde_expand_tilde)
  next
    case False
    then obtain t where t: "tok = DASH # t" by (cases tok) (auto simp: starts_with_def)
    show ?thesis
    proof (cases "tok = [DASH, DASH]")
      case True
      with False 2(2) show ?thesis by simp
    next
      case other: False
      have "byte_drop 1 tok = Some t" using t byte_drop_ascii [of DASH t] by simp
      with 2(3) [OF False other this] False other show ?thesis by (auto split: prod.splits)
    qed
  qed
qed simp

lemma parse_args_total: "\<exists>pa. parse_args s = Some pa"
  unfolding parse_args_def by (rule parse_loop_total)

lemma wait_input_empty_total:
  assumes "kbc_status m (n + d) AND 0x02 = 0"
  shows "\<exists>r. wait_input_empty m n = Some r \<and> n < r \<and> r \<le> n + d + 1"
  using assms
proof (induction d arbitrary: n)
  case 0
  then show ?case by (subst wait_input_empty.simps) simp
next
  case (Suc d)
  show ?case
  proof (cases "kbc_status m n AND 0x02 = 0")
    case True
    then show ?thesis by (subst wait_input_empty.simps) simp
  next
    case False
    from Suc.IH [of "n + 1"] Suc.prems obtain r where
      "wait_input_empty m (n + 1) = Some r" "n + 1 < r" "r \<le> n + 1 + d + 1" by auto
    with False show ?thesis by (subst wait_input_empty.simps) simp
  qed
qed

text \<open>The keyboard controller takes what is written to it: its input buffer is empty again and again.\<close>

definition controller_ready :: "machine \<Rightarrow> bool" where
  "controller_ready m \<longleftrightarrow> (\<forall>n. \<exists>i \<ge> n. kbc_status m i AND 0x02 = 0)"

lemma copy_at_total:
  "at + length src \<le> length xs \<Longrightarrow> \<exists>ys. copy_at at src xs = Some ys \<and> length ys = length xs"
  by (auto simp: copy_at_def)

lemma length_u32_to_bytes [simp]: "length (u32_to_bytes v) = 4"
  by (simp add: u32_to_bytes_def)

lemma brand_leaf_total:
  assumes "i < 3" "length bytes = 48"
  shows "\<exists>ys. brand_leaf m (i, leaf) bytes = Some ys \<and> length ys = 48"
proof -
  obtain a b c d where r: "cpuid m leaf = (a, b, c, d)" by (cases "cpuid m leaf")
  from copy_at_total [of "i * 16" "u32_to_bytes a" bytes] assms obtain b1 where
    b1: "copy_at (i * 16) (u32_to_bytes a) bytes = Some b1" "length b1 = 48" by auto
  from copy_at_total [of "i * 16 + 4" "u32_to_bytes b" b1] assms b1(2) obtain b2 where
    b2: "copy_at (i * 16 + 4) (u32_to_bytes b) b1 = Some b2" "length b2 = 48" by auto
  from copy_at_total [of "i * 16 + 8" "u32_to_bytes c" b2] assms b2(2) obtain b3 where
    b3: "copy_at (i * 16 + 8) (u32_to_bytes c) b2 = Some b3" "length b3 = 48" by auto
  from copy_at_total [of "i * 16 + 12" "u32_to_bytes d" b3] assms b3(2) obtain b4 where
    "copy_at (i * 16 + 12) (u32_to_bytes d) b3 = Some b4" "length b4 = 48" by auto
  with r b1 b2 b3 show ?thesis by (simp add: brand_leaf_def Let_def)
qed

lemma cpu_brand_total: "\<exists>b. cpu_brand m = Some b"
proof -
  obtain b1 where b1: "brand_leaf m (0, 0x80000002) (replicate 48 0) = Some b1" "length b1 = 48"
    using brand_leaf_total [of 0 "replicate 48 0"] by auto
  obtain b2 where b2: "brand_leaf m (1, 0x80000003) b1 = Some b2" "length b2 = 48"
    using brand_leaf_total [of 1 b1] b1(2) by auto
  obtain b3 where b3: "brand_leaf m (2, 0x80000004) b2 = Some b3" "length b3 = 48"
    using brand_leaf_total [of 2 b2] b2(2) by auto
  have "(case position (\<lambda>b. b = 0) b3 of Some i \<Rightarrow> i | None \<Rightarrow> 48) \<le> length b3"
    using position_SomeD [of "\<lambda>b. b = 0" b3] b3(2) by (auto split: option.split dest: less_imp_le)
  with b1 b2 b3 show ?thesis by (auto simp: cpu_brand_def Let_def split: prod.split)
qed

section \<open>Nodes\<close>

lemma lookup_node_ok:
  assumes "kernel_inv k" "lookup_node k path = Some n"
  shows "v_ok n" "\<exists>r. kroot k = Some r \<and> tree_at (v_view r) (components path) = Some (v_view n)"
proof -
  obtain r where r: "kroot k = Some r" using assms(2) by (cases "kroot k") (simp_all add: lookup_node_def vfs_lookup_def)
  with assms have "v_ok r" "vfs_lookup v_lookup (Some r) path = Some n"
    by (simp_all add: kernel_inv_def lookup_node_def)
  from ramfs.lookup_some [OF this] r show "v_ok n"
    "\<exists>r. kroot k = Some r \<and> tree_at (v_view r) (components path) = Some (v_view n)" by simp_all
qed

lemma read_file_node:
  assumes "v_ok n" "v_kind n = KFile"
  shows "\<exists>d. v_read n (replicate (v_size n) 0) 0 = (d, length d) \<and> v_view n = File d \<and> v_size n = length d"
proof -
  obtain d where "v_view n = File d"
    using assms ramfs.kind_law [of n] by (cases "v_view n") simp_all
  with assms(1) ramfs.read_whole [OF assms(1)] ramfs.size_law [of n] show ?thesis by simp
qed

lemma kind_dir: "v_ok n \<Longrightarrow> v_kind n = KDir \<Longrightarrow> \<exists>es. v_view n = Dir es"
  using ramfs.kind_law [of n] by (cases "v_view n") simp_all

section \<open>Commands that only print\<close>

named_theorems paints "rules for operations that only draw"

lemma inv_screen [simp]: "kernel_inv k \<Longrightarrow> paint_ok k"
  by (simp add: kernel_inv_def)

lemma screen_after [simp]: "draws k k' \<Longrightarrow> paint_ok k'"
  by (rule drawsD(1))

lemma bind_known: "m = Some x \<Longrightarrow> returns (f x) Q \<Longrightarrow> returns (m \<bind> f) Q"
  by simp

declare kprint_draws [paints] kprintln_draws [paints] set_fg_draws [paints] reset_colors_draws [paints]
  then_draws [paints] returns_if [paints] returns_option [paints] for_each_draws [paints]

lemma println_colored_draws [paints]:
  "paint_ok k \<Longrightarrow> returns (println_colored c s k) (draws k)"
  unfolding println_colored_def by (intro paints) simp_all

lemma print_entry_draws [paints]: "paint_ok k \<Longrightarrow> returns (print_entry dir name k) (draws k)"
  unfolding print_entry_def by (intro paints) simp_all

lemma print_names_draws [paints]: "paint_ok k \<Longrightarrow> returns (print_names dir names k) (draws k)"
  unfolding print_names_def by (intro paints) simp_all

lemma cmd_ls_draws: "kernel_inv k \<Longrightarrow> returns (cmd_ls k arg) (draws k)"
  unfolding cmd_ls_def Let_def
  by (auto split: option.split node_kind.split intro!: paints)

lemma cmd_cat_draws:
  assumes k: "kernel_inv k"
  shows "returns (cmd_cat k arg) (draws k)"
proof (cases arg)
  case None
  with k show ?thesis by (simp add: cmd_cat_def kprintln_draws)
next
  case (Some p)
  let ?path = "to_absolute k p"
  show ?thesis
  proof (cases "lookup_node k ?path")
    case None
    with Some k show ?thesis by (simp add: cmd_cat_def Let_def kprintln_draws)
  next
    case node: (Some n)
    show ?thesis
    proof (cases "v_kind n")
      case KDir
      with Some node k show ?thesis by (simp add: cmd_cat_def Let_def kprintln_draws)
    next
      case KFile
      with read_file_node [OF lookup_node_ok(1) [OF k node]] obtain d where
        d: "v_read n (replicate (v_size n) 0) 0 = (d, length d)" "v_size n = length d" by blast
      have "returns (kprint s k \<bind> (\<lambda>k. if ends_with [10] s then Some k else kprint [10] k)) (draws k)" for s
        using k by (intro paints) (auto intro: draws_refl)
      with Some node KFile d k show ?thesis
        by (auto simp: cmd_cat_def Let_def kprintln_draws draws_refl split: option.split)
    qed
  qed
qed

lemma cmd_stat_draws: "kernel_inv k \<Longrightarrow> returns (cmd_stat k arg) (draws k)"
  unfolding cmd_stat_def Let_def
  by (auto split: option.split intro!: paints)

lemma cmd_pwd_draws: "kernel_inv k \<Longrightarrow> returns (cmd_pwd k arg) (draws k)"
  unfolding cmd_pwd_def by (intro paints) simp

text \<open>The commands that read a file by a parsed argument share this frame.\<close>

lemma file_command_draws:
  assumes k: "kernel_inv k" and body: "\<And>path content. returns (body path content) (draws k)"
  shows "returns (file_text k path \<bind> (\<lambda>text. case text of None \<Rightarrow> kprintln (msg path) k | Some content \<Rightarrow> body path content))
    (draws k)"
proof -
  obtain t where "file_text k path = Some t" using file_text_some [of k path] k by (auto simp: kernel_inv_def)
  with k body show ?thesis by (auto intro: kprintln_draws split: option.split)
qed

lemma grep_loop_draws:
  "paint_ok k \<Longrightarrow>
    returns (for_each xs (grep_line f pat b c) (k, n)) (\<lambda>(k', n'). draws k k')"
proof (induction xs arbitrary: k n)
  case (Cons x xs)
  obtain i line where x: "x = (i, line)" by (cases x)
  have step: "returns (grep_line f pat b c x (k, n)) (\<lambda>(k', n'). draws k k')"
  proof -
    obtain k1 where "kprintln (if b then dec (i + 1) @ lit '':'' @ line else line) k = Some k1" "draws k k1"
      using kprintln_draws [OF Cons.prems] by (auto simp: returns_def)
    with Cons.prems show ?thesis by (auto simp: grep_line_def x draws_refl)
  qed
  then obtain k1 n1 where k1: "grep_line f pat b c x (k, n) = Some (k1, n1)" "draws k k1" by (auto simp: returns_def)
  from Cons.IH [of k1 n1] k1(2) obtain k2 n2 where
    "for_each xs (grep_line f pat b c) (k1, n1) = Some (k2, n2)" "draws k1 k2"
    by (auto simp: returns_def)
  with k1 draws_trans [OF k1(2)] show ?case by simp
qed (simp add: draws_refl)

lemma cmd_grep_draws:
  assumes k: "kernel_inv k"
  shows "returns (cmd_grep m k arg) (draws k)"
proof (cases arg)
  case None
  with k show ?thesis by (simp add: cmd_grep_def kprintln_draws)
next
  case (Some s)
  obtain pa where pa: "parse_args s = Some pa" using parse_args_total by blast
  have body: "returns (for_each xs (grep_line f pat b c) (k, 0) \<bind>
      (\<lambda>(k, matches). if c then kprintln (dec matches) k else Some k)) (draws k)" for xs f pat b c
  proof -
    obtain k1 n1 where k1: "for_each xs (grep_line f pat b c) (k, 0) = Some (k1, n1)" "draws k k1"
      using grep_loop_draws [of k xs f pat b c 0] k by (auto simp: returns_def)
    obtain k2 where "kprintln (dec n1) k1 = Some k2" "draws k1 k2"
      using kprintln_draws [of k1] k1(2) by (auto simp: returns_def)
    with k1 draws_trans [OF k1(2)] show ?thesis by simp
  qed
  show ?thesis
    unfolding cmd_grep_def Some Let_def option.case pa bind.bind_lunit
    by (auto split: option.split simp: kprintln_draws k intro!: file_command_draws [OF k] body)
qed

lemma cmd_tail_draws:
  assumes k: "kernel_inv k"
  shows "returns (cmd_tail k arg) (draws k)"
proof (cases arg)
  case (Some s)
  obtain pa where pa: "parse_args s = Some pa" using parse_args_total by blast
  have "returns (for_each xs kprintln k) (draws k)" for xs using k by (intro paints) auto
  with k show ?thesis
    unfolding cmd_tail_def Some Let_def option.case pa bind.bind_lunit
    by (auto split: option.split intro!: file_command_draws [OF k] paints)
qed (simp add: cmd_tail_def kprintln_draws k)

lemma cmd_head_draws:
  assumes k: "kernel_inv k"
  shows "returns (cmd_head k arg) (draws k)"
proof (cases arg)
  case (Some s)
  obtain pa where pa: "parse_args s = Some pa" using parse_args_total by blast
  have "returns (for_each xs kprintln k) (draws k)" for xs using k by (intro paints) auto
  with k show ?thesis
    unfolding cmd_head_def Some Let_def option.case pa bind.bind_lunit
    by (auto split: option.split intro!: file_command_draws [OF k] paints)
qed (simp add: cmd_head_def kprintln_draws k)

lemma maybe_draws [paints]:
  "paint_ok k \<Longrightarrow> returns (if c then kprint s k else Some k) (draws k)"
  by (simp add: kprint_draws draws_refl)

lemma cmd_wc_draws:
  assumes k: "kernel_inv k"
  shows "returns (cmd_wc k arg) (draws k)"
proof (cases arg)
  case (Some s)
  obtain pa where pa: "parse_args s = Some pa" using parse_args_total by blast
  have body: "returns (do { k \<leftarrow> (if a then kprint s1 k else Some k); k \<leftarrow> (if b then kprint s2 k else Some k);
      k \<leftarrow> (if c then kprint s3 k else Some k); kprintln s4 k }) (draws k)" for a b c s1 s2 s3 s4
    using k by (intro then_draws maybe_draws kprintln_draws) auto
  show ?thesis
    unfolding cmd_wc_def Some Let_def option.case pa bind.bind_lunit
    by (auto split: option.split simp: kprintln_draws k intro!: file_command_draws [OF k] body)
qed (simp add: cmd_wc_def kprintln_draws k)

section \<open>Commands about the system\<close>

lemma heap_class_line_draws:
  assumes k: "paint_ok k" and a: "stats_ok a" and i: "i < 6"
  shows "returns (heap_class_line (sa_stats a) i k) (draws k)"
proof -
  have "free_count (slabs a ! i) \<le> total (slabs a ! i)" "i < length (slabs a)"
    using a i by (auto simp: stats_ok_def)
  with k i show ?thesis
    by (simp add: heap_class_line_def sa_stats_def csub_def SLAB_SIZES_def kprintln_draws)
qed

lemma cmd_heap_draws:
  assumes k: "kernel_inv k"
  shows "returns (cmd_heap k arg) (draws k)"
proof -
  have a: "stats_ok (kheap k)" using k by (simp add: kernel_inv_def paint_ok_def)
  show ?thesis
    unfolding cmd_heap_def Let_def
    by (intro then_draws kprintln_draws for_each_draws heap_class_line_draws [OF _ a]) (use k in auto)
qed

lemma cmd_uptime_draws: "kernel_inv k \<Longrightarrow> returns (cmd_uptime k arg) (draws k)"
  by (simp add: cmd_uptime_def Let_def kprintln_draws)

lemma cmd_hostname_draws:
  assumes k: "kernel_inv k"
  shows "returns (cmd_hostname k arg) (draws k)"
proof (cases "lookup_node k (lit ''/etc/hostname'')")
  case None
  then show ?thesis using k by (simp add: cmd_hostname_def Let_def kprintln_draws del: lit_Cons)
next
  case (Some n)
  show ?thesis
  proof (cases "v_kind n")
    case KFile
    from read_file_node [OF lookup_node_ok(1) [OF k Some] this] obtain d where
      "v_read n (replicate (v_size n) 0) 0 = (d, length d)" by blast
    with Some KFile k show ?thesis
      by (simp add: cmd_hostname_def Let_def kprintln_draws draws_refl split: option.split del: lit_Cons)
  next
    case KDir
    with Some k show ?thesis by (simp add: cmd_hostname_def Let_def kprintln_draws del: lit_Cons)
  qed
qed

lemma parsed_draws:
  assumes "\<And>pa. returns (body pa) (draws k)"
  shows "returns (parse_args s \<bind> body) (draws k)"
  using assms parse_args_total [of s] by auto

lemma cmd_uname_draws: "kernel_inv k \<Longrightarrow> returns (cmd_uname k arg) (draws k)"
  unfolding cmd_uname_def Let_def by (intro parsed_draws paints) simp_all

lemma cmd_echo_draws: "kernel_inv k \<Longrightarrow> returns (cmd_echo k arg) (draws k)"
  unfolding cmd_echo_def Let_def by (intro parsed_draws paints) simp_all

lemma cmd_cpu_draws:
  assumes k: "kernel_inv k"
  shows "returns (cmd_cpu m k arg) (draws k)"
proof -
  obtain b where "cpu_brand m = Some b" using cpu_brand_total by blast
  then show ?thesis unfolding cmd_cpu_def
    using k by (intro then_draws kprintln_draws) (auto intro: kprintln_draws split: option.split)
qed

lemma cmd_clear_draws: "kernel_inv k \<Longrightarrow> returns (cmd_clear k arg) (draws k)"
  unfolding cmd_clear_def by (intro hal_draws safe_draws) simp

lemma cmd_help_draws:
  assumes k: "kernel_inv k"
  shows "returns (cmd_help k arg) (draws k)"
proof (cases arg)
  case None
  with k show ?thesis unfolding cmd_help_def None option.case
    by (intro then_draws kprintln_draws for_each_draws) auto
next
  case (Some name)
  obtain b k1 where k1: "kprint_file (lit ''/sys/help/'' @ name) k = Some (b, k1)" "draws k k1"
    using kprint_file_draws [of k "lit ''/sys/help/'' @ name"] k by (auto simp: returns_def kernel_inv_def)
  have tail: "returns (case List.find (\<lambda>c. cmd_name c = name) COMMANDS of
      None \<Rightarrow> kprintln (lit ''no help found for '' @ name) k1 | Some entry \<Rightarrow> kprintln (usage entry) k1) (draws k1)"
    using k1(2) by (auto intro: kprintln_draws split: option.split)
  then have "returns (if b then Some k1 else (case List.find (\<lambda>c. cmd_name c = name) COMMANDS of
      None \<Rightarrow> kprintln (lit ''no help found for '' @ name) k1 | Some entry \<Rightarrow> kprintln (usage entry) k1)) (draws k)"
    using k1(2) draws_trans [OF k1(2)] returns_mono [OF tail] by auto
  then show ?thesis unfolding cmd_help_def Some option.case k1(1) by simp
qed

lemma history_line_draws:
  assumes "paint_ok k" "shell_inv (kshell k)"
  shows "returns (history_line a n i k) (draws k)"
proof -
  note e = hist_entry_at [OF assms(2), of "a + i"]
  have "(a + i) mod HIST_CAP < HIST_CAP" by (simp add: HIST_CAP_def)
  then have "(a + i) mod HIST_CAP < length (hist_len (kshell k))" "(a + i) mod HIST_CAP < length (history (kshell k))"
    using assms(2) by (simp_all add: shell_inv_def)
  with e assms(1) show ?thesis by (simp add: history_line_def Let_def kprintln_draws)
qed

lemma cmd_history_draws:
  assumes k: "kernel_inv k"
  shows "returns (cmd_history k arg) (draws k)"
proof -
  have inv: "shell_inv (kshell k)" using k by (simp add: kernel_inv_def)
  let ?a = "min (hist_count (kshell k)) HIST_CAP"
  have "returns (for_each xs (history_line c d) k) (draws k)" for xs c d
    using k inv by (intro for_each_draws history_line_draws) (auto simp: drawsD)
  moreover have "(case arg of None \<Rightarrow> ?a | Some s \<Rightarrow> min (case parse_usize (trim s) of None \<Rightarrow> ?a | Some n \<Rightarrow> n) ?a) \<le> ?a"
    by (cases arg) (simp_all only: option.case min.cobounded2 order_refl)
  ultimately show ?thesis using k by (simp add: cmd_history_def Let_def draws_refl)
qed

lemma print_vars_draws: "kernel_inv k \<Longrightarrow> returns (print_vars k) (draws k)"
  unfolding print_vars_def by (intro for_each_draws) (auto intro: kprintln_draws)

section \<open>Commands that change the kernel\<close>

text \<open>What a command leaves alone.\<close>

definition keeps :: "kernel \<Rightarrow> kernel \<Rightarrow> bool" where
  "keeps k k' \<longleftrightarrow> kernel_inv k' \<and> kshell k' = kshell k \<and> kroot k' = kroot k"

lemma draws_keeps: "kernel_inv k \<Longrightarrow> draws k k' \<Longrightarrow> keeps k k'"
  using draws_inv by (auto simp: keeps_def drawsD)

lemma keeps_trans: "keeps k k' \<Longrightarrow> keeps k' k'' \<Longrightarrow> keeps k k''"
  by (simp add: keeps_def)

lemma returns_keeps: "kernel_inv k \<Longrightarrow> returns m (draws k) \<Longrightarrow> returns m (keeps k)"
  by (rule returns_mono [OF _ draws_keeps])

lemma change_dir_keeps: "kernel_inv k \<Longrightarrow> path_ok (kroot k) p \<Longrightarrow> keeps k (change_dir p k)"
  by (simp add: keeps_def change_dir_def kernel_inv_def cwd_set_def env_inv_set)

lemma to_absolute_canonical: "\<exists>parts. list_all component_ok parts \<and> to_absolute k p = path_of parts"
  using walk_parts_ok [of "[]" "resolve (kdirs k) p"] by (auto simp: to_absolute_def normalize_eq)

lemma components_path_of: "list_all component_ok parts \<Longrightarrow> components (path_of parts) = parts"
proof -
  assume ok: "list_all component_ok parts"
  then have "filter (\<lambda>s. s \<noteq> []) parts = parts" by (intro filter_True) (auto simp: list_all_iff component_ok_def)
  with ok show ?thesis by (cases "parts = []") (simp_all add: components_def path_of_def split_path_of)
qed

lemma looked_up_dir:
  assumes k: "kernel_inv k" and n: "lookup_node k (to_absolute k p) = Some n" and dir: "v_kind n = KDir"
  shows "path_ok (kroot k) (to_absolute k p)"
proof -
  obtain parts where parts: "list_all component_ok parts" "to_absolute k p = path_of parts"
    using to_absolute_canonical by blast
  from lookup_node_ok [OF k n] obtain r where
    r: "v_ok n" "kroot k = Some r" "tree_at (v_view r) parts = Some (v_view n)"
    using parts components_path_of by auto
  from kind_dir [OF r(1) dir] obtain es where "v_view n = Dir es" by blast
  with r parts show ?thesis by (cases "parts = []") (auto simp: path_ok_def path_of_def)
qed

lemma cmd_cd_keeps:
  assumes k: "kernel_inv k"
  shows "returns (cmd_cd k arg) (keeps k)"
proof -
  have print: "returns (kprintln s k) (keeps k)" for s by (rule returns_keeps [OF k kprintln_draws]) (simp add: k)
  have root: "keeps k (change_dir (lit ''/'') k)" by (rule change_dir_keeps [OF k]) (simp add: path_ok_def)
  have prev: "keeps k (change_dir (cwd_prev_get (kdirs k)) k)"
    using k by (intro change_dir_keeps [OF k]) (auto simp: cwd_prev_get_def path_ok_def kernel_inv_def)
  show ?thesis
    using root prev print change_dir_keeps [OF k looked_up_dir [OF k]]
    unfolding cmd_cd_def Let_def
    by (auto split: option.split node_kind.split simp del: lit_Cons)
qed

lemma cmd_export_keeps:
  assumes k: "kernel_inv k"
  shows "returns (cmd_export k arg) (keeps k)"
proof -
  have vars: "returns (print_vars k) (keeps k)" by (rule returns_keeps [OF k print_vars_draws [OF k]])
  have print: "returns (kprintln s k) (keeps k)" for s by (rule returns_keeps [OF k kprintln_draws]) (simp add: k)
  have setv: "keeps k (k\<lparr>kenv := env_set (kenv k) key val\<rparr>)" for key val
    using k by (simp add: keeps_def kernel_inv_def env_inv_set)
  have assign: "returns (byte_take eq s \<bind> (\<lambda>key. byte_drop (eq + 1) s \<bind>
      (\<lambda>val. Some (k\<lparr>kenv := env_set (kenv k) key val\<rparr>)))) (keeps k)" if "find_char 0x3D s = Some eq" for s eq
  proof -
    from position_find [OF that] obtain p q where "s = p @ 0x3D # q" "eq = byte_len p" by blast
    with setv byte_drop_succ show ?thesis by simp
  qed
  show ?thesis
    unfolding cmd_export_def Let_def using vars print assign by (auto split: option.split simp del: lit_Cons)
qed

lemma cmd_shutdown_keeps: "kernel_inv k \<Longrightarrow> returns (cmd_shutdown k arg) (keeps k)"
  by (simp add: cmd_shutdown_def acpi_power_off_def keeps_def kernel_inv_def)

lemma cmd_reboot_keeps:
  assumes "kernel_inv k" "controller_ready m"
  shows "returns (cmd_reboot m k arg) (keeps k)"
proof -
  from assms(2) obtain i where "kreads k \<le> i" "kbc_status m i AND 0x02 = 0" by (auto simp: controller_ready_def)
  with wait_input_empty_total [of m "kreads k" "i - kreads k"] obtain r where
    "wait_input_empty m (kreads k) = Some r" by auto
  with assms(1) show ?thesis by (simp add: cmd_reboot_def keeps_def kernel_inv_def)
qed

lemmas command_draws = cmd_echo_draws cmd_uname_draws cmd_hostname_draws cmd_wc_draws cmd_head_draws
  cmd_tail_draws cmd_grep_draws cmd_clear_draws cmd_ls_draws cmd_cat_draws cmd_stat_draws cmd_pwd_draws
  cmd_cpu_draws cmd_uptime_draws cmd_heap_draws cmd_history_draws cmd_help_draws

lemma run_handler_keeps:
  assumes "kernel_inv k" "controller_ready m"
  shows "returns (run_handler m h k arg) (keeps k)"
  using assms
  by (cases h) (simp_all add: returns_keeps command_draws cmd_cd_keeps cmd_export_keeps cmd_shutdown_keeps cmd_reboot_keeps)

section \<open>Dispatch\<close>

lemma find_cmd_total: "(\<And>c. \<exists>b. P c = Some b) \<Longrightarrow> \<exists>r. find_cmd P cs = Some r"
proof (induction cs)
  case (Cons c cs)
  from Cons.prems obtain b where "P c = Some b" by blast
  with Cons show ?case by auto
qed simp

lemma nearest_total: "\<exists>r. nearest typed cs d n = Some r"
  by (induction cs arbitrary: d n) (simp_all add: edit_distance_lev)

lemma suggestion_total: "\<exists>s. suggestion typed = Some s"
  using nearest_total [of typed COMMANDS "2 ^ 64 - 1" "[]"] by (auto simp: suggestion_def split: option.split prod.split)

lemma trimmed_slice:
  "\<exists>raw. slice (case position P c of Some i \<Rightarrow> i | None \<Rightarrow> length c)
     (case rposition P c of Some i \<Rightarrow> i + 1 | None \<Rightarrow> case position P c of Some i \<Rightarrow> i | None \<Rightarrow> length c) c = Some raw"
proof (cases "position P c")
  case None
  then have "rposition P c = None" by (simp add: rposition_None position_None)
  with None show ?thesis by (simp add: slice_def)
next
  case (Some i)
  note i = position_SomeD [OF Some]
  show ?thesis
  proof (cases "position P (rev c)")
    case None
    moreover have "c ! i \<in> set c" using i by simp
    ultimately have "\<not> P (c ! i)" by (simp only: position_None set_rev) blast
    with i show ?thesis by blast
  next
    case rev: (Some j)
    note j = position_SomeD [OF rev]
    have "i \<le> length c - 1 - j" using i j by (metis length_rev not_le rev_nth diff_Suc_eq_diff_pred)
    moreover have "Suc (length c - Suc j) \<le> length c" using j [THEN conjunct1] by simp
    ultimately show ?thesis using Some rev by (simp add: rposition_def slice_def)
  qed
qed

lemma dispatch_one_keeps:
  assumes k: "kernel_inv k" and m: "controller_ready m"
  shows "returns (dispatch_one m c k) (keeps k)"
proof -
  obtain raw where raw: "slice (case position (\<lambda>c. \<not> is_whitespace c) c of Some i \<Rightarrow> i | None \<Rightarrow> length c)
     (case rposition (\<lambda>c. \<not> is_whitespace c) c of Some i \<Rightarrow> i + 1
      | None \<Rightarrow> case position (\<lambda>c. \<not> is_whitespace c) c of Some i \<Rightarrow> i | None \<Rightarrow> length c) c = Some raw"
    using trimmed_slice by blast
  let ?c = "expand (kenv k) raw"
  obtain arg where arg: "cmd_arg ?c = Some arg" using cmd_arg_spec [of ?c] unfolding Let_def by blast
  obtain found where found: "find_cmd (\<lambda>e. name_eq ?c (cmd_name e)) COMMANDS = Some found"
    using find_cmd_total [of "\<lambda>e. name_eq ?c (cmd_name e)"] name_eq_spec by blast
  obtain s where s: "suggestion ?c = Some s" using suggestion_total by blast
  have unknown: "returns (kprint t k \<bind> (\<lambda>k. case s of
      Some name \<Rightarrow> kprintln (lit '' -- did you mean '' @ [SQ] @ name @ [SQ] @ lit ''?'') k | None \<Rightarrow> kprintln [] k)) (keeps k)" for t
    using k by (intro returns_keeps [OF k] then_draws kprint_draws) (auto intro: kprintln_draws split: option.split)
  show ?thesis
    using run_handler_keeps [OF k m] unknown [simplified append_Cons append_Nil] k
    by (cases found) (simp_all add: dispatch_one_def Let_def raw arg found s keeps_def del: lit_Cons)
qed

end
