(* ===== verification/ShellKeys.thy ===== *)
theory ShellKeys
  imports CommandSafety
begin

text \<open>
  What a key does: Enter remembers the line and runs it, Tab completes it, the others edit it;
  none panics, as long as the file names are ASCII.
\<close>

section \<open>Enter\<close>

lemma dispatch_keeps:
  assumes k: "kernel_inv k" and m: "controller_ready m"
  shows "returns (dispatch m k) (keeps k)"
proof -
  have "returns (for_each segs (\<lambda>seg k. if trim seg = [] then Some k else dispatch_one m (trim seg) k) k) (keeps k)"
    if "kernel_inv k" for segs and k
    using that
  proof (induction segs arbitrary: k)
    case (Cons seg segs)
    have "returns (if trim seg = [] then Some k else dispatch_one m (trim seg) k) (keeps k)"
      using dispatch_one_keeps [OF Cons.prems m] Cons.prems by (simp add: keeps_def)
    then obtain k1 where k1: "(if trim seg = [] then Some k else dispatch_one m (trim seg) k) = Some k1" "keeps k k1"
      by (auto simp: returns_def)
    from Cons.IH [of k1] k1(2) obtain k2 where
      "for_each segs (\<lambda>seg k. if trim seg = [] then Some k else dispatch_one m (trim seg) k) k1 = Some k2" "keeps k1 k2"
      by (auto simp: returns_def keeps_def)
    with k1 keeps_trans [OF k1(2)] show ?case by simp
  qed (simp add: keeps_def)
  moreover have "len (kshell k) \<le> length (buf (kshell k))"
    using k by (auto simp: kernel_inv_def shell_inv_def)
  ultimately show ?thesis using k by (simp add: dispatch_def split_commands_eq_spec)
qed

lemma kernel_ed_ok: "kernel_inv k \<Longrightarrow> ed_ok k"
  by (simp add: kernel_inv_def ed_ok_def)

lemma submit_refines:
  assumes k: "kernel_inv k" and m: "controller_ready m"
  shows "returns (submit m k) (\<lambda>k'. kernel_inv k' \<and> kroot k' = kroot k \<and> view (kshell k') = ed_enter (view (kshell k)))"
proof -
  from kprint_draws [of k "[10]"] k obtain k1 where k1: "kprint [10] k = Some k1" "draws k k1" by (auto simp: returns_def)
  note inv1 = draws_inv [OF k k1(2)]
  from remember_line_refines [of "kshell k1"] inv1 obtain s where
    s: "remember_line (kshell k1) = Some s" "shell_inv s" "view s = ed_remember (view (kshell k))"
    using drawsD(2) [OF k1(2)] by (auto simp: kernel_inv_def)
  let ?s = "s\<lparr>hist_cursor := 0\<rparr>"
  have inv2: "kernel_inv (on_shell (\<lambda>_. ?s) k1)"
    using inv1 s(2) by (simp add: kernel_inv_def on_shell_def shell_inv_def)
  from dispatch_keeps [OF inv2 m] obtain k2 where
    k2: "dispatch m (on_shell (\<lambda>_. ?s) k1) = Some k2" "keeps (on_shell (\<lambda>_. ?s) k1) k2" by (auto simp: returns_def)
  have inv3: "kernel_inv k2" and sh: "kshell k2 = ?s" and root: "kroot k2 = kroot k1"
    using k2(2) by (auto simp: keeps_def on_shell_def)
  let ?g = "\<lambda>s. s\<lparr>len := 0, cursor_pos := 0\<rparr>"
  have e: "edits ed_kill k2 (on_shell ?g k2)" by (rule clear_edits [OF kernel_ed_ok [OF inv3]])
  from print_prompt_refines [OF edits_ok [OF e]] obtain k3 where
    k3: "print_prompt (on_shell ?g k2) = Some k3" "edits ed_end (on_shell ?g k2) k3" by (auto simp: returns_def)
  note e3 = edits_trans [OF e k3(2)]
  have "view (kshell k3) = ed_end (ed_kill ((view s)\<lparr>ed_at := 0\<rparr>))"
    using e3 sh by (simp add: edits_def view_update)
  also have "\<dots> = ed_enter (view (kshell k))"
    using s(3) by (simp add: ed_end_def ed_kill_def ed_load_def ed_enter_def ed_cancel_def)
  finally have "view (kshell k3) = ed_enter (view (kshell k))" .
  moreover have "kroot k3 = kroot k"
    using e3 root drawsD(5) [OF k1(2)] by (simp add: edits_def rest_of_def)
  ultimately show ?thesis using k1 s k2 k3 edits_kernel [OF inv3 e3] by (simp add: submit_def)
qed

section \<open>The keys that edit\<close>

text \<open>The abstract meaning of every key but Tab.\<close>

definition ed_key :: "uchar \<Rightarrow> editor \<Rightarrow> editor" where
  "ed_key ch =
     (if ch = 0x08 then ed_backspace
      else if ch = 10 then ed_enter
      else if ch = 0x01 then ed_start
      else if ch = 0x02 then ed_left
      else if ch = 0x03 then ed_cancel
      else if ch = 0x05 then ed_end
      else if ch = 0x06 then ed_right
      else if ch = 0x0C then ed_end
      else if ch = 0x0E then ed_down
      else if ch = 0x10 then ed_up
      else if ch = 0x15 then ed_kill
      else if ch = 0x17 then ed_word
      else ed_insert ch)"

lemma after_edit:
  assumes k: "kernel_inv k" and op: "returns r (edits g k)"
  shows "returns (r \<bind> show_cursor) (\<lambda>k'. kernel_inv k' \<and> kroot k' = kroot k \<and> view (kshell k') = g (view (kshell k)))"
proof -
  have "returns (r \<bind> show_cursor) (edits g k)"
    by (rule edits_then_draws [OF op show_cursor_draws])
  then show ?thesis
    by (rule returns_mono) (use edits_kernel [OF k] in \<open>auto simp: edits_def rest_of_def\<close>)
qed

lemma show_after:
  assumes "returns r (\<lambda>k'. kernel_inv k' \<and> kroot k' = rt \<and> view (kshell k') = e)"
  shows "returns (r \<bind> show_cursor) (\<lambda>k'. kernel_inv k' \<and> kroot k' = rt \<and> view (kshell k') = e)"
proof -
  from assms obtain k1 where k1: "r = Some k1" "kernel_inv k1" "kroot k1 = rt" "view (kshell k1) = e"
    by (auto simp: returns_def)
  from show_cursor_draws [OF kernel_ed_ok [OF k1(2)]] obtain k2 where k2: "show_cursor k1 = Some k2" "draws k1 k2"
    by (auto simp: returns_def)
  with k1 draws_inv [OF k1(2) k2(2)] drawsD [OF k2(2)] show ?thesis by simp
qed

lemmas key_refines = sh_backspace_refines cursor_to_start_refines cursor_left_refines ctrl_c_refines
  cursor_to_end_refines cursor_right_refines ctrl_l_refines history_down_refines history_up_refines
  ctrl_u_refines ctrl_w_refines

lemma push_key_refines:
  assumes k: "kernel_inv k" and m: "controller_ready m" and tab: "ch \<noteq> 9"
  shows "returns (push_char m ch k)
    (\<lambda>k'. kernel_inv k' \<and> kroot k' = kroot k \<and> view (kshell k') = ed_key ch (view (kshell k)))"
proof -
  note ok = kernel_ed_ok [OF k]
  have ins: "returns (insert_char ch k)
      (\<lambda>k'. kernel_inv k' \<and> kroot k' = kroot k \<and> view (kshell k') = ed_insert ch (view (kshell k)))"
    by (rule returns_mono [OF insert_char_refines [OF ok]])
      (use edits_kernel [OF k] in \<open>auto simp: edits_def rest_of_def\<close>)
  note keys = key_refines [OF ok, THEN after_edit [OF k]]
  show ?thesis
    using tab ins show_after [OF submit_refines [OF k m]] keys
    by (simp add: push_char_def ed_key_def)
qed

end
