(* ===== verification/Completion.thy ===== *)
theory Completion
  imports ShellKeys
begin

text \<open>
  Tab: the longest common prefix, and that with ASCII file names completion never panics and
  extends the line by what all candidates share.
\<close>

section \<open>The longest common prefix\<close>

definition common_prefix :: "str list \<Rightarrow> u8 list \<Rightarrow> bool" where
  "common_prefix cs p \<longleftrightarrow> (\<forall>c \<in> set cs. take (length p) (as_bytes c) = p)"

lemma takeWhile_agree:
  assumes "n \<le> length xs" "n \<le> length ys"
  shows "take (length (takeWhile (\<lambda>i. xs ! i = ys ! i) [0..<n])) xs = take (length (takeWhile (\<lambda>i. xs ! i = ys ! i) [0..<n])) ys"
    "j \<le> n \<Longrightarrow> take j xs = take j ys \<Longrightarrow> j \<le> length (takeWhile (\<lambda>i. xs ! i = ys ! i) [0..<n])"
proof -
  let ?P = "\<lambda>i. xs ! i = ys ! i"
  let ?k = "length (takeWhile ?P [0..<n])"
  have k: "?k \<le> n" using length_takeWhile_le [of ?P "[0..<n]"] by simp
  have "xs ! i = ys ! i" if "i < ?k" for i
    using takeWhile_nth [of i ?P "[0..<n]"] nth_mem [OF that] set_takeWhileD [of "takeWhile ?P [0..<n] ! i" ?P "[0..<n]"] that k
    by simp
  then show "take ?k xs = take ?k ys" using k assms by (intro nth_equalityI) auto
  show "j \<le> ?k" if "j \<le> n" "take j xs = take j ys"
  proof (rule ccontr)
    assume "\<not> j \<le> ?k"
    then have lt: "?k < j" "?k < length [0..<n]" using that by auto
    then have "\<not> ?P ([0..<n] ! ?k)" by (intro nth_length_takeWhile)
    moreover have "[0..<n] ! ?k = ?k" using lt(2) by simp
    moreover have "xs ! ?k = take j xs ! ?k" "ys ! ?k = take j ys ! ?k" using nth_take [OF lt(1)] by metis+
    ultimately show False using that(2) by metis
  qed
qed

lemma lcp_loop_spec:
  assumes "n \<le> length first"
  shows "lcp_loop first n cs \<le> n"
    and "\<forall>c \<in> set cs. take (lcp_loop first n cs) (as_bytes c) = take (lcp_loop first n cs) first"
    and "j \<le> n \<Longrightarrow> \<forall>c \<in> set cs. take j (as_bytes c) = take j first \<Longrightarrow> j \<le> lcp_loop first n cs"
proof -
  have "lcp_loop first n cs \<le> n \<and> (\<forall>c \<in> set cs. take (lcp_loop first n cs) (as_bytes c) = take (lcp_loop first n cs) first)
      \<and> (\<forall>j \<le> n. (\<forall>c \<in> set cs. take j (as_bytes c) = take j first) \<longrightarrow> j \<le> lcp_loop first n cs)"
    using assms
  proof (induction cs arbitrary: n)
    case (Cons c cs)
    let ?b = "as_bytes c"
    let ?m = "min n (length ?b)"
    let ?k = "length (takeWhile (\<lambda>i. first ! i = ?b ! i) [0..<?m])"
    have m: "?m \<le> length first" "?m \<le> length ?b" using Cons.prems by auto
    have k: "?k \<le> ?m" using length_takeWhile_le [of "\<lambda>i. first ! i = ?b ! i" "[0..<?m]"] by simp
    note agree = takeWhile_agree [OF m]
    have le: "j \<le> ?k" if "j \<le> n" "take j ?b = take j first" for j
    proof -
      have "length (take j ?b) = length (take j first)" using that(2) by simp
      then have "j \<le> ?m" using that(1) Cons.prems by auto
      from agree(2) [OF this] that(2) show ?thesis by simp
    qed
    show ?case
    proof (cases "?k = 0")
      case True
      then have "lcp_loop first n (c # cs) = 0" by (simp add: Let_def)
      with le True show ?thesis by auto
    next
      case False
      then have eq: "lcp_loop first n (c # cs) = lcp_loop first ?k cs" by (simp add: Let_def)
      have "?k \<le> length first" by (rule order_trans [OF k m(1)])
      note IH = Cons.IH [OF this]
      have "take (lcp_loop first ?k cs) ?b = take (lcp_loop first ?k cs) first"
      proof -
        have "lcp_loop first ?k cs \<le> ?k" using IH by blast
        moreover have "take (lcp_loop first ?k cs) (take ?k ?b) = take (lcp_loop first ?k cs) (take ?k first)"
          by (simp only: agree(1))
        ultimately show ?thesis by (simp only: take_take min.absorb1)
      qed
      with IH eq k le show ?thesis by (auto intro: order_trans)
    qed
  qed simp
  then show "lcp_loop first n cs \<le> n"
    "\<forall>c \<in> set cs. take (lcp_loop first n cs) (as_bytes c) = take (lcp_loop first n cs) first"
    "j \<le> n \<Longrightarrow> \<forall>c \<in> set cs. take j (as_bytes c) = take j first \<Longrightarrow> j \<le> lcp_loop first n cs" by blast+
qed

lemma lcp_spec:
  assumes "cs \<noteq> []"
  shows "longest_common_prefix cs \<le> length (as_bytes (hd cs))"
    "common_prefix cs (take (longest_common_prefix cs) (as_bytes (hd cs)))"
    "common_prefix cs p \<Longrightarrow> length p \<le> longest_common_prefix cs"
proof -
  obtain c cs' where cs: "cs = c # cs'" using assms by (cases cs) auto
  let ?f = "as_bytes c"
  note loop = lcp_loop_spec [of "length ?f" ?f, simplified]
  show le: "longest_common_prefix cs \<le> length (as_bytes (hd cs))" using loop(1) cs by simp
  then show "common_prefix cs (take (longest_common_prefix cs) (as_bytes (hd cs)))"
    using loop(2) [of cs'] cs by (auto simp: common_prefix_def min_def)
  show "length p \<le> longest_common_prefix cs" if "common_prefix cs p"
  proof -
    have p: "take (length p) (as_bytes d) = p" if "d \<in> set (c # cs')" for d
      using \<open>common_prefix cs p\<close> that unfolding common_prefix_def cs by blast
    have "length p \<le> length ?f" using p [of c] by (metis length_take list.set_intros(1) min.cobounded1)
    with loop(3) [of "length p" cs'] p cs show ?thesis by simp
  qed
qed

section \<open>ASCII text\<close>

definition ascii :: "str \<Rightarrow> bool" where
  "ascii s \<longleftrightarrow> list_all (\<lambda>c. c < 0x80) s"

fun ascii_tree :: "node \<Rightarrow> bool" where
  "ascii_tree (File d) = True"
| "ascii_tree (Dir es) = list_all (\<lambda>(n, c). ascii n \<and> ascii_tree c) es"

lemma as_bytes_ascii: "ascii s \<Longrightarrow> as_bytes s = map of_nat s"
  by (induction s) (simp_all add: ascii_def as_bytes_def utf8_char_def)

lemma length_ascii: "ascii s \<Longrightarrow> length (as_bytes s) = length s"
  by (simp add: as_bytes_ascii)

lemma of_nat_ascii: "c < 0x80 \<Longrightarrow> d < 0x80 \<Longrightarrow> (of_nat c :: u8) = of_nat d \<longleftrightarrow> c = d"
proof -
  assume "c < 0x80" "d < 0x80"
  then have "unat (of_nat c :: u8) = c" "unat (of_nat d :: u8) = d" by (simp_all add: unat_byte)
  then show ?thesis by metis
qed

lemma tree_at_ascii: "ascii_tree n \<Longrightarrow> tree_at n ps = Some m \<Longrightarrow> ascii_tree m"
proof (induction n ps rule: tree_at.induct)
  case (3 es p ps)
  from 3(3) obtain c where c: "map_of es p = Some c" "tree_at c ps = Some m" by (auto split: Option.bind_splits)
  from c(1) 3(2) have "ascii_tree c" by (auto simp: list_all_iff dest!: map_of_SomeD)
  with 3(1) c show ?case by simp
qed auto

definition ascii_root :: "vnode option \<Rightarrow> bool" where
  "ascii_root r \<longleftrightarrow> pred_option (\<lambda>n. ascii_tree (v_view n)) r"

lemma readdir_ascii: "v_ok n \<Longrightarrow> ascii_tree (v_view n) \<Longrightarrow> name \<in> set (v_readdir n) \<Longrightarrow> ascii name"
  using ramfs.readdir_law [of n] by (cases "v_view n") (auto simp: list_all_iff)

lemma commands_ascii: "e \<in> set COMMANDS \<Longrightarrow> ascii (cmd_name e)"
  by (auto simp: COMMANDS_def ascii_def)

lemma starts_with_append: "starts_with p s \<longleftrightarrow> (\<exists>t. s = p @ t)"
  by (auto simp: starts_with_def) (metis append_take_drop_id)

lemma byte_drop_prefix: "starts_with p s \<Longrightarrow> \<exists>t. byte_drop (byte_len p) s = Some t \<and> s = p @ t"
  by (auto simp: starts_with_append)

section \<open>Candidates\<close>

text \<open>Every candidate extends what was typed, and is ASCII; \<open>n\<close> is how many bytes were typed.\<close>

definition candidates_ok :: "str list \<Rightarrow> nat \<Rightarrow> bool" where
  "candidates_ok cs n \<longleftrightarrow> (\<exists>p. n = byte_len p \<and> (\<forall>c \<in> set cs. ascii c \<and> starts_with p c))"

lemma command_names_ok: "candidates_ok (command_names p) (byte_len p)"
  unfolding candidates_ok_def command_names_def by (auto dest: commands_ascii)

lemma command_names_ok': "candidates_ok (command_names p) (length p)"
proof (cases "command_names p")
  case Nil
  then show ?thesis unfolding candidates_ok_def
    by (intro exI [of _ "replicate (length p) 0"]) (simp add: byte_len_ascii list_all_iff)
next
  case (Cons c cs)
  then have "c \<in> set (command_names p)" by simp
  with command_names_ok [of p] have "ascii c" "starts_with p c"
    by (auto simp: command_names_def dest: commands_ascii)
  then have "byte_len p = length p" by (intro byte_len_ascii) (auto simp: ascii_def starts_with_append)
  with command_names_ok [of p] show ?thesis by simp
qed

lemma listed_names_ascii:
  assumes k: "kernel_inv k" and a: "ascii_root (kroot k)"
    and ns: "listed_names k dir = Some ns" "name \<in> set ns"
  shows "ascii name"
proof (cases "dir = lit ''/''")
  case True
  with ns a k readdir_ascii show ?thesis
    by (auto simp: listed_names_def root_names_def vfs_with_root_def ascii_root_def kernel_inv_def)
next
  case False
  with ns(1) obtain n where n: "lookup_node k dir = Some n" "ns = v_readdir n"
    by (auto simp: listed_names_def split: option.splits if_splits)
  from lookup_node_ok [OF k n(1)] obtain r where
    r: "v_ok n" "kroot k = Some r" "tree_at (v_view r) (components dir) = Some (v_view n)" by blast
  have "ascii_tree (v_view n)" using a r(2) tree_at_ascii [OF _ r(3)] by (simp add: ascii_root_def)
  with readdir_ascii [OF r(1)] ns(2) n(2) show ?thesis by blast
qed

lemma complete_path_ok:
  assumes k: "kernel_inv k" and a: "ascii_root (kroot k)"
  shows "\<exists>cs n. complete_path k partial = Some (cs, n) \<and> candidates_ok cs n"
proof -
  obtain d p where split: "(case rfind_char SLASH partial of
               Some pos \<Rightarrow> do { d \<leftarrow> byte_take (pos + 1) partial; p \<leftarrow> byte_drop (pos + 1) partial; Some (d, p) }
             | None \<Rightarrow> Some ([], partial)) = Some (d, p)"
  proof (cases "rfind_char SLASH partial")
    case (Some pos)
    from position_rfind [OF Some] obtain q r where "partial = q @ SLASH # r" "pos = byte_len q" by blast
    with Some that byte_take_succ [of SLASH q r] byte_drop_succ [of SLASH q r] show ?thesis by simp
  qed (use that in simp)
  have listed: "ascii name" if "Some ns = listed_names k dir" "name \<in> set ns" for dir ns name
    by (rule listed_names_ascii [OF k a that(1) [symmetric] that(2)])
  have suffix: "ascii (node_suffix k f)" for f by (auto simp: node_suffix_def ascii_def split: option.split)
  have ext: "ascii (name @ node_suffix k f) \<and> starts_with p (name @ node_suffix k f)"
    if "ascii name" "starts_with p name" for name f
    using that suffix [of f] by (auto simp: ascii_def starts_with_append)
  show ?thesis
    unfolding complete_path_def split Let_def bind.bind_lunit prod.case candidates_ok_def
    by (auto split: option.split intro!: exI [of _ p] ext dest: listed)
qed

lemma complete_candidates_ok:
  assumes k: "kernel_inv k" and a: "ascii_root (kroot k)"
  shows "\<exists>r. complete_candidates k = Some r \<and> (\<forall>cs n. r = Some (cs, n) \<longrightarrow> candidates_ok cs n)"
proof -
  let ?chars = "take (len (kshell k)) (buf (kshell k))"
  note d = ed_okD [OF kernel_ed_ok [OF k]]
  have chars: "slice 0 (len (kshell k)) (buf (kshell k)) = Some ?chars" using d by simp
  show ?thesis
  proof (cases "position (\<lambda>c. \<not> is_whitespace c) ?chars")
    case None
    with chars show ?thesis by (simp add: complete_candidates_def)
  next
    case start: (Some i)
    then have i: "i < length ?chars" using position_SomeD by fastforce
    show ?thesis
    proof (cases "position is_whitespace (drop i ?chars)")
      case None
      with chars start i show ?thesis
        by (simp add: complete_candidates_def command_names_ok' [of "drop i ?chars", simplified])
    next
      case (Some j)
      then have j: "j < length (drop i ?chars)" using position_SomeD by fastforce
      let ?sp = "i + j"
      let ?from = "drop ?sp ?chars"
      have sp: "?sp \<le> length (buf (kshell k))" "?sp \<le> len (kshell k)" using j d by auto
      let ?start = "case position (\<lambda>c. \<not> is_whitespace c) ?from of Some l \<Rightarrow> ?sp + l | None \<Rightarrow> len (kshell k)"
      have le: "?start \<le> length ?chars"
        using position_SomeD [of "\<lambda>c. \<not> is_whitespace c" ?from] j d by (auto split: option.split)
      from complete_path_ok [OF k a, of "drop ?start ?chars"] obtain cs n where
        cs: "complete_path k (drop ?start ?chars) = Some (cs, n)" "candidates_ok cs n" by blast
      show ?thesis
        unfolding complete_candidates_def chars bind.bind_lunit start option.case
        using i j Some le cs command_names_ok [of "drop ?start ?chars"] sp
        by (simp add: slice_def slice_from_def Let_def)
    qed
  qed
qed


section \<open>Typing a completion\<close>

definition ed_type :: "str \<Rightarrow> editor \<Rightarrow> editor" where
  "ed_type s e = e\<lparr>ed_line := take 256 (ed_line e @ s)\<rparr>"

lemma type_out_refines: "ed_ok k \<Longrightarrow> returns (type_out s k) (edits (ed_type s) k)"
proof (induction s arbitrary: k)
  case Nil
  then show ?case using ed_okD [OF Nil] by (simp add: type_out_def edits_def ed_type_def view_def)
next
  case (Cons ch s)
  note d = ed_okD [OF Cons.prems]
  show ?case
  proof (cases "len (kshell k) < BUF_CAP")
    case False
    then have "ed_type (ch # s) (view (kshell k)) = ed_type s (view (kshell k))"
      using d by (simp add: ed_type_def view_def BUF_CAP_def)
    with Cons False show ?thesis
      by (subst edits_cong [where g = "ed_type s"]) (simp_all add: type_out_def)
  next
    case True
    let ?g = "\<lambda>t. t\<lparr>buf := (buf (kshell k))[len (kshell k) := ch], len := len t + 1\<rparr>"
    have e: "edits (ed_type [ch]) k (on_shell ?g k)"
      using d True by (intro on_shell_edits [OF Cons.prems])
        (simp_all add: view_update view_simps ed_type_def shell_inv_def BUF_CAP_def take_Suc_conv_app_nth)
    from edit_then_draws [OF e kprint_draws [of "on_shell ?g k" "[ch]"]] edits_ok [OF e] obtain k1 where
      k1: "kprint [ch] (on_shell ?g k) = Some k1" "edits (ed_type [ch]) k k1"
      by (auto simp: returns_def ed_ok_def)
    from Cons.IH [OF edits_ok [OF k1(2)]] obtain k2 where
      k2: "type_out s k1 = Some k2" "edits (ed_type s) k1 k2" by (auto simp: returns_def)
    have "edits (\<lambda>e. ed_type s (ed_type [ch] e)) k k2" by (rule edits_trans [OF k1(2) k2(2)])
    moreover have "ed_type s (ed_type [ch] e) = ed_type (ch # s) e" if "length (ed_line e) < 256" for e
      using that by (simp add: ed_type_def)
    ultimately have "edits (ed_type (ch # s)) k k2" using d True by (simp add: edits_def view_simps BUF_CAP_def)
    with k1(1) k2(1) True d show ?thesis by (simp add: type_out_def on_shell_def BUF_CAP_def)
  qed
qed

text \<open>The text a list of candidates adds to the line.\<close>

definition completion :: "str list \<Rightarrow> nat \<Rightarrow> str option" where
  "completion cs n =
     (case cs of
        [] \<Rightarrow> Some []
      | [c] \<Rightarrow> byte_drop n c
      | c # _ # _ \<Rightarrow>
          if longest_common_prefix cs > n then byte_slice n (longest_common_prefix cs) c else Some [])"

definition ed_complete :: "str list \<Rightarrow> str \<Rightarrow> editor \<Rightarrow> editor" where
  "ed_complete cs s e = (if cs = [] then e else ed_end (ed_type s e))"

lemma type_to_end:
  assumes "ed_ok k"
  shows "returns (type_out s k \<bind> (\<lambda>k. Some (on_shell (\<lambda>s. s\<lparr>cursor_pos := len s\<rparr>) k))) (edits (\<lambda>e. ed_end (ed_type s e)) k)"
proof (rule then_edits [OF type_out_refines [OF assms]])
  fix k1
  assume "edits (ed_type s) k k1"
  then have "ed_ok k1" by (rule edits_ok)
  then show "returns (Some (on_shell (\<lambda>s. s\<lparr>cursor_pos := len s\<rparr>) k1)) (edits ed_end k1)"
    using ed_okD by (auto intro!: on_shell_edits simp: view_update view_simps ed_end_def shell_inv_def)
qed

lemma list_candidates:
  assumes "ed_ok k"
  shows "returns (do { k \<leftarrow> kprint [10] k; k \<leftarrow> for_each cs (\<lambda>c. kprint (c @ lit ''  '')) k; k \<leftarrow> kprint [10] k;
      k \<leftarrow> print_prompt k; k \<leftarrow> reprint_buf k; show_cursor k }) (edits ed_end k)"
proof -
  have ok: "ed_ok k'" if "draws k k'" for k' using that assms by (simp add: ed_ok_def drawsD)
  have tail: "returns (do { k \<leftarrow> print_prompt k; k \<leftarrow> reprint_buf k; show_cursor k }) (edits ed_end k)" if "ed_ok k" for k
    using that unfolding reprint_buf_def
    by (intro edits_then_draws print_prompt_refines then_draws print_buf_draws show_cursor_draws)
      (auto simp: ed_ok_def drawsD)
  have "returns (do { k \<leftarrow> kprint [10] k; k \<leftarrow> for_each cs (\<lambda>c. kprint (c @ lit ''  '')) k; kprint [10] k }) (draws k)"
    by (intro then_draws kprint_draws for_each_draws) (use assms in \<open>auto simp: ed_ok_def drawsD\<close>)
  then obtain k1 where k1: "do { k \<leftarrow> kprint [10] k; k \<leftarrow> for_each cs (\<lambda>c. kprint (c @ lit ''  '')) k; kprint [10] k } = Some k1"
    "draws k k1" by (auto simp: returns_def)
  from tail [OF ok [OF k1(2)]] obtain k2 where
    k2: "do { k \<leftarrow> print_prompt k1; k \<leftarrow> reprint_buf k; show_cursor k } = Some k2" "edits ed_end k1 k2"
    by (auto simp: returns_def)
  have "edits ed_end k k2" using edits_trans [OF draws_edits [OF assms k1(2)] k2(2)] by simp
  with k1(1) k2(1) show ?thesis by (auto simp: bind_eq_Some_conv)
qed

lemma complete_with_refines:
  assumes ok: "ed_ok k" and s: "completion cs n = Some s"
  shows "returns (complete_with cs n k) (edits (ed_complete cs s) k)"
proof -
  consider (none) "cs = []" | (one) c where "cs = [c]" | (many) c d cs' where "cs = c # d # cs'"
    by (cases cs rule: list.exhaust) (metis list.exhaust)+
  then show ?thesis
  proof cases
    case none
    with ok show ?thesis by (simp add: complete_with_def ed_complete_def edits_def)
  next
    case one
    with type_to_end [OF ok, of s] s show ?thesis
      by (simp add: complete_with_def ed_complete_def [abs_def] completion_def)
  next
    case many
    let ?l = "longest_common_prefix cs"
    show ?thesis
    proof (cases "n < ?l")
      case True
      with many type_to_end [OF ok, of s] s show ?thesis
        by (simp add: complete_with_def ed_complete_def [abs_def] completion_def Let_def)
    next
      case False
      then have "s = []" using s many by (simp add: completion_def split: if_splits)
      moreover have "ed_type [] (view (kshell k)) = view (kshell k)"
        using ed_okD [OF ok] by (simp add: ed_type_def view_def)
      ultimately have "edits (ed_complete cs s) k = edits ed_end k"
        using many by (intro edits_cong) (simp add: ed_complete_def)
      with False many list_candidates [OF ok, of cs] show ?thesis by (simp add: complete_with_def Let_def)
    qed
  qed
qed

text \<open>On ASCII candidates the byte prefix the scan measures is a prefix in characters.\<close>

lemma ascii_bytes_inj:
  assumes "ascii q" "ascii r" "map of_nat q = (map of_nat r :: u8 list)"
  shows "q = r"
  using assms(3)
  by (rule map_inj_on) (use assms(1,2) in \<open>auto simp: inj_on_def ascii_def list_all_iff of_nat_ascii\<close>)

lemma ascii_take: "ascii x \<Longrightarrow> ascii (take n x)"
  by (auto simp: ascii_def list_all_iff dest: in_set_takeD)

lemma lcp_common_ascii:
  assumes all: "\<forall>x \<in> set (c # cs). ascii x" and x: "x \<in> set (c # cs)"
  shows "starts_with (take (longest_common_prefix (c # cs)) c) x"
proof -
  let ?l = "longest_common_prefix (c # cs)"
  note spec = lcp_spec [of "c # cs", OF list.distinct(2)]
  have asc: "ascii x" "ascii c" using all x by auto
  have "take ?l (as_bytes x) = take ?l (as_bytes c)"
    using bspec [OF spec(2) [unfolded common_prefix_def] x] spec(1)
    by (simp add: min.absorb2 del: longest_common_prefix.simps)
  then have "map of_nat (take ?l x) = (map of_nat (take ?l c) :: u8 list)"
    by (simp add: as_bytes_ascii asc take_map)
  then have "take ?l x = take ?l c" by (rule ascii_bytes_inj [OF asc [THEN ascii_take]])
  then show ?thesis by (metis append_take_drop_id starts_with_append)
qed

lemma lcp_longest_ascii:
  assumes all: "\<forall>x \<in> set cs. ascii x" and ne: "cs \<noteq> []" and q: "\<forall>x \<in> set cs. starts_with q x"
  shows "length q \<le> longest_common_prefix cs"
proof -
  have bytes: "take (length (as_bytes q)) (as_bytes x) = as_bytes q \<and> length (as_bytes q) = length q"
    if "x \<in> set cs" for x
  proof -
    obtain t where t: "x = q @ t" using q \<open>x \<in> set cs\<close> by (auto simp: starts_with_append)
    have "ascii q" using all that t by (auto simp: ascii_def)
    then show ?thesis by (simp add: t as_bytes_def length_ascii [unfolded as_bytes_def])
  qed
  then have "common_prefix cs (as_bytes q)" unfolding common_prefix_def by blast
  moreover have "length (as_bytes q) = length q" using bytes [of "hd cs"] ne by simp
  ultimately show ?thesis using lcp_spec(3) [OF ne] by metis
qed

lemma completion_shared:
  assumes all: "\<forall>x \<in> set (c # d # ds). ascii x" and n: "n \<le> longest_common_prefix (c # d # ds)"
  shows "completion (c # d # ds) n = Some (drop n (take (longest_common_prefix (c # d # ds)) c))"
proof -
  have "longest_common_prefix (c # d # ds) \<le> length c"
    using lcp_spec(1) [of "c # d # ds"] length_ascii [of c] all by simp
  with all n show ?thesis by (auto simp: completion_def byte_slice_ascii ascii_def drop_take)
qed

text \<open>The added text exists, and is what the candidates all go on with.\<close>

lemma completion_ascii:
  assumes cs: "candidates_ok cs n" and ne: "cs \<noteq> []"
  shows "\<exists>s p. completion cs n = Some s \<and> n = byte_len p \<and> (\<forall>c \<in> set cs. starts_with (p @ s) c)
    \<and> (\<forall>q. (\<forall>c \<in> set cs. starts_with (p @ q) c) \<longrightarrow> length q \<le> length s)"
proof -
  from cs obtain p where p: "n = byte_len p" "\<forall>c \<in> set cs. ascii c" "\<forall>c \<in> set cs. starts_with p c"
    by (auto simp: candidates_ok_def)
  obtain c cs' where c: "cs = c # cs'" using ne by (cases cs) auto
  have asc: "ascii c" "starts_with p c" using p c by auto
  then have "ascii p" by (auto simp: starts_with_append ascii_def)
  then have n: "n = length p" using p(1) by (simp add: byte_len_ascii ascii_def)
  show ?thesis
  proof (cases cs')
    case Nil
    from byte_drop_prefix [OF asc(2)] obtain t where "byte_drop n c = Some t" "c = p @ t" using p(1) by auto
    with Nil c p(1) show ?thesis
      by (intro exI [of _ t] exI [of _ p]) (auto simp: completion_def starts_with_append)
  next
    case (Cons d ds)
    let ?l = "longest_common_prefix cs"
    have le: "n \<le> ?l" using lcp_longest_ascii [OF p(2) ne p(3)] n by simp
    have join: "p @ drop n (take ?l c) = take ?l c"
      using asc(2) n le by (auto simp: starts_with_append)
    show ?thesis
    proof (intro exI conjI ballI allI impI)
      show "completion cs n = Some (drop n (take ?l c))"
        using completion_shared [of c d ds n] p(2) le c Cons by simp
      show "n = byte_len p" by (rule p(1))
      show "starts_with (p @ drop n (take ?l c)) x" if "x \<in> set cs" for x
        using lcp_common_ascii [of c cs' x] p(2) that unfolding join by (simp add: c del: longest_common_prefix.simps)
      show "length q \<le> length (drop n (take ?l c))" if "\<forall>x \<in> set cs. starts_with (p @ q) x" for q
        using lcp_longest_ascii [OF p(2) ne that] lcp_spec(1) [OF ne] c length_ascii [OF asc(1)] n by simp
    qed
  qed
qed

lemma complete_refines:
  assumes k: "kernel_inv k" and a: "ascii_root (kroot k)"
  shows "\<exists>r. complete_candidates k = Some r \<and>
    (case r of None \<Rightarrow> complete k = Some k
     | Some (cs, n) \<Rightarrow> candidates_ok cs n \<and> (\<exists>s. completion cs n = Some s \<and> returns (complete k) (edits (ed_complete cs s) k)))"
proof -
  from complete_candidates_ok [OF k a] obtain r where
    r: "complete_candidates k = Some r" "\<And>cs n. r = Some (cs, n) \<Longrightarrow> candidates_ok cs n" by blast
  show ?thesis
  proof (cases r)
    case None
    with r show ?thesis by (simp add: complete_def)
  next
    case (Some cn)
    obtain cs n where cn: "cn = (cs, n)" by (cases cn)
    have ok: "candidates_ok cs n" using r(2) Some cn by simp
    obtain s where s: "completion cs n = Some s"
    proof (cases "cs = []")
      case True
      then show ?thesis using that by (simp add: completion_def)
    next
      case False
      from completion_ascii [OF ok this] that show ?thesis by blast
    qed
    from complete_with_refines [OF kernel_ed_ok [OF k] s] s ok r(1) Some cn show ?thesis
      by (simp add: complete_def)
  qed
qed

end
