(* ===== verification/ShellProps.thy ===== *)
theory ShellProps
  imports Completion
begin

text \<open>
  The properties of the shell: no sequence of keys panics it, the line editor behaves as the
  abstract one, and what completion, \<open>cd\<close>, the text commands, the suggestion and \<open>reboot\<close> do.
\<close>

section \<open>Reachable states\<close>

text \<open>A heap the allocator can be in, as far as the statistics show.\<close>

definition heap_state :: "allocator \<Rightarrow> bool" where
  "heap_state a \<longleftrightarrow> length (slabs a) = 6 \<and> (\<exists>m L fls. heap_inv a m L fls)"

lemma heap_state_stats: "heap_state a \<Longrightarrow> stats_ok a"
  unfolding heap_state_def stats_ok_def
proof (elim conjE exE, intro conjI ballI)
  fix c m L fls
  assume six: "length (slabs a) = 6" and inv: "heap_inv a m L fls" and "c \<in> set (slabs a)"
  then obtain i where i: "i < length (slabs a)" "c = slabs a ! i" by (auto simp: in_set_conv_nth)
  from inv i slabs_invD [of a m fls i] have s: "slab_inv c m (fls ! i)" "set (fls ! i) \<subseteq> blocks c"
    by (auto simp: heap_inv_def)
  have "card (set (fls ! i)) \<le> card (blocks c)" by (rule card_mono [OF _ s(2)]) (simp add: blocks_def)
  also have "\<dots> \<le> unat (total c)" unfolding blocks_def using card_image_le [of "{..<unat (total c)}" "block c"] by simp
  finally have "card (set (fls ! i)) \<le> unat (total c)" .
  moreover have "card (set (fls ! i)) = unat (free_count c)"
    using s(1) by (simp add: slab_inv_def distinct_card)
  ultimately show "free_count c \<le> total c" by (simp add: word_le_nat_alt)
qed simp

definition event_ok :: "event \<Rightarrow> bool" where
  "event_ok e \<longleftrightarrow> (case e of Heap_activity a \<Rightarrow> heap_state a
     | Pauses gs \<Rightarrow> (\<forall>(n, ps) \<in> set gs. \<forall>a. Pause_heap a \<in> set ps \<longrightarrow> heap_state a) | _ \<Rightarrow> True)"

lemma heap_gaps_ok:
  assumes "\<forall>(n, ps) \<in> set gs. \<forall>a. Pause_heap a \<in> set ps \<longrightarrow> heap_state a"
  shows "gaps_ok gs"
proof -
  have "pause_ok p" if "(n, ps) \<in> set gs" "p \<in> set ps" for n ps p
    using assms that heap_state_stats by (cases p) auto
  then show ?thesis by (auto simp: gaps_ok_def list_all_iff)
qed

definition ed_event :: "event \<Rightarrow> editor \<Rightarrow> editor" where
  "ed_event e = (case e of Key ch \<Rightarrow> ed_key ch | _ \<Rightarrow> (\<lambda>x. x))"

lemma timer_tick_inv:
  assumes k: "kernel_inv k"
  shows "returns (timer_tick k) (\<lambda>k'. kernel_inv k' \<and> kroot k' = kroot k \<and> kshell k' = kshell k)"
  by (rule returns_mono [OF timer_tick_draws]) (use k draws_inv [OF k] in \<open>auto simp: drawsD kernel_inv_def\<close>)

lemma tab_inv:
  assumes k: "kernel_inv k" and a: "ascii_root (kroot k)"
  shows "returns (push_char m 9 k) (\<lambda>k'. kernel_inv k' \<and> kroot k' = kroot k)"
proof -
  from complete_refines [OF k a] obtain r where
    r: "case r of None \<Rightarrow> complete k = Some k
        | Some (cs, n) \<Rightarrow> candidates_ok cs n \<and> (\<exists>s. completion cs n = Some s \<and> returns (complete k) (edits (ed_complete cs s) k))"
    by blast
  have "\<exists>f. returns (complete k) (edits f k)"
  proof (cases r)
    case None
    with r kernel_ed_ok [OF k] have "returns (complete k) (edits (\<lambda>e. e) k)" by (simp add: edits_def)
    then show ?thesis by blast
  next
    case (Some cn)
    with r show ?thesis by (cases cn) auto
  qed
  then obtain f where "returns (complete k) (edits f k)" by blast
  from after_edit [OF k this] show ?thesis
    by (simp add: push_char_def) (rule returns_mono, assumption, simp)
qed

lemma on_event_inv:
  assumes k: "kernel_inv k" and a: "ascii_root (kroot k)" and m: "controller_ready m" and e: "event_ok e"
  shows "returns (on_event m e k) (\<lambda>k'. kernel_inv k' \<and> kroot k' = kroot k
    \<and> (e \<noteq> Key 9 \<longrightarrow> view (kshell k') = ed_event e (view (kshell k))))"
proof (cases e)
  case (Key ch)
  show ?thesis
  proof (cases "ch = 9")
    case True
    with Key tab_inv [OF k a, of m] show ?thesis by simp
  next
    case False
    with Key push_key_refines [OF k m False] show ?thesis by (simp add: ed_event_def)
  qed
next
  case Timer
  show ?thesis unfolding Timer on_event.simps
    by (rule returns_mono [OF timer_tick_inv [OF k]]) (simp add: ed_event_def)
next
  case (Heap_activity h)
  with e k heap_state_stats [of h] show ?thesis by (simp add: event_ok_def ed_event_def kernel_inv_def paint_ok_def)
next
  case (Pauses gs)
  with e k heap_gaps_ok [of gs] show ?thesis by (simp add: event_ok_def ed_event_def kernel_inv_def paint_ok_def)
qed

lemma events_inv:
  assumes "kernel_inv k" "ascii_root (kroot k)" "controller_ready m" "\<forall>e \<in> set es. event_ok e"
  shows "returns (for_each es (on_event m) k) (\<lambda>k'. kernel_inv k' \<and> kroot k' = kroot k
    \<and> (Key 9 \<notin> set es \<longrightarrow> view (kshell k') = fold ed_event es (view (kshell k))))"
  using assms
proof (induction es arbitrary: k)
  case (Cons e es)
  from on_event_inv [OF Cons.prems(1,2,3), of e] Cons.prems(4) obtain k1 where
    k1: "on_event m e k = Some k1" "kernel_inv k1" "kroot k1 = kroot k"
      "e \<noteq> Key 9 \<longrightarrow> view (kshell k1) = ed_event e (view (kshell k))" by (auto simp: returns_def)
  from Cons.IH [OF k1(2) _ Cons.prems(3)] Cons.prems(2,4) k1(3) obtain k2 where
    "for_each es (on_event m) k1 = Some k2" "kernel_inv k2" "kroot k2 = kroot k1"
    "Key 9 \<notin> set es \<longrightarrow> view (kshell k2) = fold ed_event es (view (kshell k1))" by (auto simp: returns_def)
  with k1 show ?case by auto
qed simp

definition boot_screen_ok :: "fb_writer option \<Rightarrow> bool" where
  "boot_screen_ok w \<longleftrightarrow> (case w of None \<Rightarrow> True | Some fb \<Rightarrow> \<exists>fbi. fb = fb_boot fbi \<and> fb_geom (fb_boot fbi))"

text \<open>The mounted root after \<open>ramfs::init\<close> has parsed an archive into the entries \<open>es\<close>, if it did.\<close>

definition boot_root :: "entries option \<Rightarrow> vnode option" where
  "boot_root tree = map_option (\<lambda>es. to_vnode (Dir es)) tree"

lemma boot_inv:
  assumes "boot_screen_ok w" "heap_state a"
  shows "kernel_inv (kernel_boot w (boot_root tree) a)"
proof -
  have "screen_ok w" using assms(1) fb_boot_shows
    by (auto simp: boot_screen_ok_def screen_ok_def split: option.splits)
  moreover have "v_ok (to_vnode (Dir es))" for es using to_vnode_tree [of "Dir es"] by simp
  then have "pred_option v_ok (boot_root tree)" by (cases tree) (simp_all add: boot_root_def del: to_vnode.simps)
  ultimately show ?thesis
    using shell_inv_new heap_state_stats [OF assms(2)]
    by (simp add: kernel_inv_def paint_ok_def gaps_ok_def kernel_boot_def path_ok_def dirs_init_def env_init_def env_inv_set env_inv_def)
qed

lemma boot_ascii: "(\<forall>es. tree = Some es \<longrightarrow> ascii_tree (Dir es)) \<Longrightarrow> ascii_root (boot_root tree)"
  by (cases tree) (simp_all add: ascii_root_def boot_root_def v_view_to_vnode del: to_vnode.simps)

definition ed_new :: editor where
  "ed_new = \<lparr>ed_line = [], ed_point = 0, ed_past = [], ed_at = 0, ed_saved = []\<rparr>"

lemma prompt_fresh:
  assumes k: "kernel_inv k" and new: "kshell k = shell_new"
  shows "returns (prompt k) (\<lambda>k'. kernel_inv k' \<and> kroot k' = kroot k \<and> view (kshell k') = ed_new)"
proof -
  have "view (kshell k) = ed_new" by (simp add: new view_def shell_new_def ed_new_def)
  then show ?thesis unfolding prompt_def
    by (intro returns_mono [OF print_prompt_refines [OF kernel_ed_ok [OF k]]])
      (use edits_kernel [OF k] in \<open>auto simp: edits_def rest_of_def ed_end_def ed_new_def\<close>)
qed

lemma prompt_inv:
  assumes "boot_screen_ok w" "heap_state a"
  shows "returns (prompt (kernel_boot w (boot_root tree) a))
    (\<lambda>k. kernel_inv k \<and> kroot k = boot_root tree \<and> view (kshell k) = ed_new)"
  using prompt_fresh [OF boot_inv [OF assms]] by (simp add: kernel_boot_def)

lemma shell_run:
  assumes "boot_screen_ok w" "heap_state a" "controller_ready m"
    "\<forall>es. tree = Some es \<longrightarrow> ascii_tree (Dir es)" "\<forall>e \<in> set events. event_ok e"
  shows "returns (prompt (kernel_boot w (boot_root tree) a) \<bind> for_each events (on_event m))
    (\<lambda>k. kernel_inv k \<and> kroot k = boot_root tree
      \<and> (Key 9 \<notin> set events \<longrightarrow> view (kshell k) = fold ed_event events ed_new))"
proof -
  from prompt_inv [OF assms(1,2), of tree] obtain k where
    k: "prompt (kernel_boot w (boot_root tree) a) = Some k" "kernel_inv k" "kroot k = boot_root tree"
      "view (kshell k) = ed_new" by (auto simp: returns_def)
  from events_inv [OF k(2) _ assms(3,5)] boot_ascii [OF assms(4)] k show ?thesis by simp
qed



lemma demo_heap_state: "\<exists>a. heap_state a"
proof -
  have ok: "heap_args_ok 0x100000 HEAP_SIZE"
    by (simp add: heap_args_ok_def SLAB_REGION_BYTES_value HEAP_SIZE_def)
  from sa_init_heap_inv [OF ok] obtain a m' fls where
    "heap_inv a m' {} fls" "map obj_size (slabs a) = SLAB_SIZES" by blast
  moreover from arg_cong [OF this(2), of length] have "length (slabs a) = 6" by (simp add: SLAB_SIZES_def)
  ultimately show ?thesis by (auto simp: heap_state_def)
qed

definition demo_machine :: machine where
  "demo_machine = \<lparr>cpuid = \<lambda>_. (0, 0, 0, 0), kbc_status = \<lambda>n. if n = 0 then 2 else 0, lowercase = \<lambda>s. s\<rparr>"

lemma demo_ready: "controller_ready demo_machine"
  unfolding controller_ready_def
proof (intro allI)
  fix n
  show "\<exists>i \<ge> n. kbc_status demo_machine i AND 0x02 = 0"
    by (rule exI [of _ "Suc n"]) (simp add: demo_machine_def)
qed


text \<open>
  C5: The shell's line editor is the abstract editor: after any keys but Tab, with interrupts
  between them and inside their handling, the line, the position in it, the sixteen newest lines of the history, the
  place in the history and the saved line are those that the same keys give when each is
  applied to the abstract editor, which knows nothing of buffers, slots and the screen.
\<close>

theorem line_editor_refines:
  assumes "boot_screen_ok w" "heap_state a" "controller_ready m"
    "\<forall>es. tree = Some es \<longrightarrow> ascii_tree (Dir es)" "\<forall>e \<in> set events. event_ok e" "Key 9 \<notin> set events"
  shows "\<exists>k. prompt (kernel_boot w (boot_root tree) a) \<bind> for_each events (on_event m) = Some k
    \<and> view (kshell k) = fold ed_event events ed_new"
  using shell_run [OF assms(1-5)] assms(6) by (auto simp: returns_def)

theorem line_editor_refines_witness:
  "\<exists>a k. heap_state a \<and> prompt (kernel_boot None (boot_root None) a)
    \<bind> for_each (map Key [0x70, 0x77, 0x64, 10, 0x61, 0x63, 0x02, 0x62, 0x10, 0x0E, 0x08]) (on_event demo_machine) = Some k
    \<and> ed_line (view (kshell k)) = lit ''ab'' \<and> ed_past (view (kshell k)) = [lit ''pwd'']"
proof -
  obtain a where a: "heap_state a" using demo_heap_state by blast
  have "\<exists>k. prompt (kernel_boot None (boot_root None) a)
      \<bind> for_each (map Key [0x70, 0x77, 0x64, 10, 0x61, 0x63, 0x02, 0x62, 0x10, 0x0E, 0x08]) (on_event demo_machine) = Some k
      \<and> view (kshell k) = fold ed_event (map Key [0x70, 0x77, 0x64, 10, 0x61, 0x63, 0x02, 0x62, 0x10, 0x0E, 0x08]) ed_new"
    by (rule line_editor_refines [OF _ a demo_ready]) (auto simp: boot_screen_ok_def event_ok_def)
  moreover have "fold ed_event (map Key [0x70, 0x77, 0x64, 10, 0x61, 0x63, 0x02, 0x62, 0x10, 0x0E, 0x08]) ed_new
      = \<lparr>ed_line = lit ''ab'', ed_point = 2, ed_past = [lit ''pwd''], ed_at = 0, ed_saved = lit ''abc''\<rparr>"
    by (simp add: ed_event_def ed_key_def ed_new_def ed_insert_def ed_left_def ed_up_def ed_down_def ed_backspace_def
        ed_enter_def ed_remember_def ed_cancel_def ed_load_def)
  ultimately show ?thesis using a by auto
qed

end
