(* ===== verification/CommandProps.thy ===== *)
theory CommandProps
  imports ShellProps
begin

text \<open>
  What completion, \<open>cd\<close>, the commands that print a file, the suggestion and \<open>reboot\<close> do.
\<close>

section \<open>Completion\<close>


text \<open>A shell with a line typed, on a tree of files.\<close>

definition typed_at :: "str \<Rightarrow> entries \<Rightarrow> allocator \<Rightarrow> kernel" where
  "typed_at l es a =
     (kernel_boot None (boot_root (Some es)) a)\<lparr>kshell := shell_new\<lparr>buf := l @ replicate (BUF_CAP - length l) 0,
        len := length l, cursor_pos := length l\<rparr>\<rparr>"

lemma typed_at_inv:
  assumes "heap_state a" "length l \<le> 256"
  shows "kernel_inv (typed_at l es a)" "kroot (typed_at l es a) = boot_root (Some es)"
  using boot_inv [of None a "Some es"] assms
  by (simp_all add: typed_at_def kernel_inv_def paint_ok_def kernel_boot_def boot_screen_ok_def shell_inv_def shell_new_def BUF_CAP_def HIST_CAP_def)

lemma typed_fields:
  "kdirs (typed_at l es a) = dirs_init" "kroot (typed_at l es a) = Some (to_vnode (Dir es))"
  "len (kshell (typed_at l es a)) = length l" "buf (kshell (typed_at l es a)) = l @ replicate (256 - length l) 0"
  by (simp_all add: typed_at_def kernel_boot_def boot_root_def shell_new_def BUF_CAP_def)

lemmas completion_defs = complete_candidates_def slice_def slice_from_def is_whitespace_def complete_path_def
  rfind_char_def rposition_def dirs_init_def cwd_get_def listed_names_def root_names_def vfs_with_root_def
  starts_with_def node_suffix_def lookup_node_def vfs_lookup_def components_def trim_end_char_def
  vnode_clone_def utf8_width_def

lemma typed_candidates:
  "complete_candidates (typed_at (lit ''head x'') [(lit ''xab'', File []), (lit ''y'', File []), (lit ''xac'', Dir [])] a)
    = Some (Some ([lit ''xab'', lit ''xac/''], 1))"
  by (simp add: typed_fields completion_defs)



section \<open>Changing directory\<close>

lemma lookup_path_of:
  assumes "kernel_inv k" "kroot k = Some r" "list_all component_ok ps"
  shows "map_option v_view (lookup_node k (path_of ps)) = (if ps = [] then None else tree_at (v_view r) ps)"
proof -
  have "v_ok r" using assms(1,2) by (simp add: kernel_inv_def)
  from ramfs.lookup_tree [OF this, of "path_of ps"] assms show ?thesis
    by (simp add: lookup_node_def components_path_of)
qed

lemma path_of_root: "path_of ps = lit ''/'' \<longleftrightarrow> ps = []" if "list_all component_ok ps"
proof (cases ps)
  case (Cons p qs)
  with that have "p \<noteq> []" by (simp add: component_ok_def)
  with Cons show ?thesis by (cases p) (simp_all add: path_of_def)
qed (simp add: path_of_def)

lemma cmd_cd_target:
  assumes "to_absolute k path = path_of t" "list_all component_ok t" "path \<noteq> lit ''-''"
  shows "cmd_cd k (Some path) =
      (if t = [] then Some (change_dir (lit ''/'') k)
       else case lookup_node k (path_of t) of
         None \<Rightarrow> kprintln (lit ''cd: not found: '' @ path) k
       | Some n \<Rightarrow> (case v_kind n of KFile \<Rightarrow> kprintln (lit ''cd: not a directory: '' @ path) k
                    | KDir \<Rightarrow> Some (change_dir (path_of t) k)))"
  using assms(3) path_of_root [OF assms(2)] by (simp only: cmd_cd_def option.case Let_def assms(1) if_False)



section \<open>Searching a file\<close>

lemma contains_iff: "contains pat s \<longleftrightarrow> (\<exists>x y. s = x @ pat @ y)"
proof
  assume "contains pat s"
  then obtain i where "i \<le> length s" "starts_with pat (drop i s)" by (auto simp: contains_def list_ex_iff less_Suc_eq_le simp del: upt_Suc)
  then show "\<exists>x y. s = x @ pat @ y" by (metis append_take_drop_id starts_with_append)
next
  assume "\<exists>x y. s = x @ pat @ y"
  then obtain x y where "s = x @ pat @ y" by blast
  then show "contains pat s"
    by (auto simp: contains_def list_ex_iff starts_with_append simp del: upt_Suc intro!: bexI [of _ "length x"])
qed

lemma grep_line_print:
  "grep_line f pat numbered False (i, l) (k, n) =
    (if contains pat (f l) then
       map_option (\<lambda>k. (k, n + 1)) (kprintln (if numbered then dec (i + 1) @ lit '':'' @ l else l) k)
     else Some (k, n))"
  by (cases "kprintln (if numbered then dec (i + 1) @ lit '':'' @ l else l) k") (simp_all add: grep_line_def del: lit_Cons)

lemma grep_loop:
  "for_each xs (grep_line f pat numbered False) (k, n) =
    map_option (\<lambda>k'. (k', n + length (filter (\<lambda>(i, l). contains pat (f l)) xs)))
      (for_each (map (\<lambda>(i, l). if numbered then dec (i + 1) @ lit '':'' @ l else l)
        (filter (\<lambda>(i, l). contains pat (f l)) xs)) kprintln k)"
proof (induction xs arbitrary: k n)
  case (Cons x xs)
  obtain i l where x: "x = (i, l)" by (cases x)
  show ?case
    by (cases "contains pat (f l)"; cases "kprintln (if numbered then dec (i + 1) @ lit '':'' @ l else l) k")
      (simp_all add: x grep_line_print Cons del: lit_Cons)
qed simp

lemma grep_count:
  "for_each xs (grep_line f pat numbered True) (k, n) = Some (k, n + length (filter (\<lambda>(i, l). contains pat (f l)) xs))"
  by (induction xs arbitrary: n) (auto simp: grep_line_def)

text \<open>
  C31: \<open>grep\<close> prints exactly the lines of the file in which the pattern occurs (with upper and
  lower case identified under \<open>-i\<close>), in order, numbered from 1 under \<open>-n\<close>; under \<open>-c\<close> it prints
  their number instead.
\<close>

theorem grep_prints_matches:
  assumes "parse_args s = Some pa" "get_arg pa 0 = Some pat" "get_arg pa 1 = Some p"
    "file_text k (to_absolute k p) = Some (Some content)"
  shows "let low = (if has_flag pa 0x69 then lowercase m else (\<lambda>s. s));
      hits = filter (\<lambda>(i, l). \<exists>x y. low l = x @ low pat @ y) (zip [0..<length (lines content)] (lines content))
    in cmd_grep m k (Some s) =
      (if has_flag pa 0x63 then kprintln (dec (length hits)) k
       else for_each (map (\<lambda>(i, l). if has_flag pa 0x6E then dec (i + 1) @ lit '':'' @ l else l) hits) kprintln k)"
  using assms
  by (simp add: cmd_grep_def Let_def grep_loop grep_count contains_iff del: lit_Cons
      split: option.split)
    (auto simp: bind_map_option o_def bind_rzero split: option.split)


text \<open>A file \<open>/f\<close> with three lines, two of which have an \<open>a\<close>.\<close>

theorem grep_prints_matches_witness:
  "cmd_grep demo_machine (kernel_boot None (boot_root (Some [([0x66], File [0x61, 10, 0x62, 10, 0x62, 0x61])])) sa_new)
      (Some (lit ''-n a f''))
    = for_each [lit ''1:a'', lit ''3:ba''] kprintln
        (kernel_boot None (boot_root (Some [([0x66], File [0x61, 10, 0x62, 10, 0x62, 0x61])])) sa_new)"
proof -
  let ?k = "kernel_boot None (boot_root (Some [([0x66], File [0x61, 10, 0x62, 10, 0x62, 0x61])])) sa_new"
  let ?pa = "\<lparr>flags = [0x6E], flag_vals = [], positional = [[0x61], [0x66]]\<rparr>"
  have parse: "parse_args (lit ''-n a f'') = Some ?pa"
    by (simp add: parse_args_def tokenize_quoted_def is_whitespace_def starts_with_def byte_drop_ascii
        is_ascii_digit_def tilde_expand_def)
  have utf8: "from_utf8 [0x61, 10, 0x62, 10, 0x62, 0x61] = Some [0x61, 10, 0x62, 10, 0x62, 0x61]"
    by (simp add: from_utf8.simps Let_def)
  have "to_absolute ?k [0x66] = [SLASH, 0x66]"
    by (simp add: to_absolute_def kernel_boot_def dirs_init_def resolve_def cwd_get_def starts_with_def ends_with_def
        normalize_def Let_def)
  then have content: "file_text ?k (to_absolute ?k [0x66]) = Some (Some [0x61, 10, 0x62, 10, 0x62, 0x61])"
    by (simp add: file_text_def kernel_boot_def boot_root_def read_file_str_def vfs_lookup_def components_def
        vnode_clone_def read_slice_def utf8)
  have ls: "lines [0x61, 10, 0x62, 10, 0x62, 0x61] = [[0x61], [0x62], [0x62, 0x61]]"
    by (simp add: lines_def strip_cr_def Let_def)
  have "\<exists>x y. ([0x61] :: str) = x @ 0x61 # y" "\<exists>x y. ([0x62, 0x61] :: str) = x @ 0x61 # y"
    "\<not> (\<exists>x y. ([0x62] :: str) = x @ 0x61 # y)"
    by (auto simp: Cons_eq_append_conv)
  then have hits: "filter (\<lambda>(i, l). \<exists>x y. l = x @ [0x61] @ y) (zip [0..<3] [[0x61], [0x62], [0x62, 0x61 :: uchar]])
      = [(0, [0x61]), (2, [0x62, 0x61])]"
    by (simp add: upt_rec)
  have nums: "dec 1 = [0x31]" "dec 3 = [0x33]" by (simp_all add: dec_def digits_in.simps digit_char_def)
  show ?thesis
    using grep_prints_matches [OF parse _ _ content, of "[0x61]" demo_machine] ls hits nums
    by (simp add: get_arg_def has_flag_def Let_def numeral_3_eq_3 [symmetric])
qed

section \<open>Suggestions and power\<close>

lemma nearest_spec:
  "nearest typed cs d x = Some (r, y) \<Longrightarrow> r \<le> d \<and> (\<forall>e \<in> set cs. r \<le> lev typed (cmd_name e))
    \<and> (r = d \<and> y = x \<or> (\<exists>e \<in> set cs. y = cmd_name e \<and> r = lev typed (cmd_name e)))"
proof (induction cs arbitrary: d x)
  case (Cons e cs)
  show ?case
  proof (cases "lev typed (cmd_name e) < d")
    case True
    with Cons.prems have "nearest typed cs (lev typed (cmd_name e)) (cmd_name e) = Some (r, y)"
      by (simp add: edit_distance_lev)
    from Cons.IH [OF this] True show ?thesis by auto
  next
    case False
    with Cons.prems have "nearest typed cs d x = Some (r, y)" by (simp add: edit_distance_lev)
    from Cons.IH [OF this] False show ?thesis by auto
  qed
qed simp

text \<open>
  C30: For an unknown command the shell suggests the first command the typed text is a prefix of,
  else a command at the least edit distance from it if that is at most two, else nothing; the
  search never panics.
\<close>

theorem suggestion_nearest:
  "\<exists>s. suggestion typed = Some s \<and>
    (case s of
       Some name \<Rightarrow>
         (\<exists>e \<in> set COMMANDS. name = cmd_name e
           \<and> (starts_with typed name
              \<or> (\<forall>c \<in> set COMMANDS. \<not> starts_with typed (cmd_name c) \<and> lev typed name \<le> lev typed (cmd_name c))
                \<and> lev typed name \<le> 2))
     | None \<Rightarrow> \<forall>c \<in> set COMMANDS. \<not> starts_with typed (cmd_name c) \<and> 2 < lev typed (cmd_name c))"
proof (cases "List.find (\<lambda>e. starts_with typed (cmd_name e)) COMMANDS")
  case (Some e)
  then have "e \<in> set COMMANDS" "starts_with typed (cmd_name e)" by (auto simp: find_Some_iff)
  with Some show ?thesis by (auto simp: suggestion_def)
next
  case None
  then have no: "\<forall>c \<in> set COMMANDS. \<not> starts_with typed (cmd_name c)" by (simp add: find_None_iff)
  obtain r y where r: "nearest typed COMMANDS (2 ^ 64 - 1) [] = Some (r, y)" using nearest_total by fastforce
  note spec = nearest_spec [OF r]
  show ?thesis
  proof (cases "r \<le> 2")
    case True
    then have "\<not> (r = 2 ^ 64 - 1 \<and> y = [])" by auto
    with spec obtain e where "e \<in> set COMMANDS" "y = cmd_name e" "r = lev typed (cmd_name e)" by blast
    with True no spec None r show ?thesis by (auto simp: suggestion_def)
  next
    case False
    with no spec None r show ?thesis by (auto simp: suggestion_def)
  qed
qed

theorem suggestion_nearest_witness:
  "\<exists>s. suggestion (lit ''grpe'') = Some s \<and>
    (case s of Some name \<Rightarrow> lev (lit ''grpe'') name \<le> 2 \<or> starts_with (lit ''grpe'') name
     | None \<Rightarrow> \<forall>c \<in> set COMMANDS. 2 < lev (lit ''grpe'') (cmd_name c))"
  using suggestion_nearest [of "lit ''grpe''"] by (auto split: option.splits simp del: lit_Cons)

lemma wait_input_empty_ready:
  "wait_input_empty m n = Some r \<Longrightarrow> \<exists>i \<ge> n. r = i + 1 \<and> kbc_status m i AND 0x02 = 0
    \<and> (\<forall>j. n \<le> j \<and> j < i \<longrightarrow> kbc_status m j AND 0x02 \<noteq> 0)"
proof -
  assume w: "wait_input_empty m n = Some r"
  show ?thesis
  proof (rule wait_input_empty.raw_induct [OF _ w])
    fix f m n r
    assume IH: "\<And>m n r. f m n = Some r \<Longrightarrow> \<exists>i \<ge> n. r = i + 1 \<and> kbc_status m i AND 0x02 = 0
      \<and> (\<forall>j. n \<le> j \<and> j < i \<longrightarrow> kbc_status m j AND 0x02 \<noteq> 0)"
      and step: "(if kbc_status m n AND 0x02 \<noteq> 0 then f m (n + 1) else Some (n + 1)) = Some r"
    show "\<exists>i \<ge> n. r = i + 1 \<and> kbc_status m i AND 0x02 = 0
      \<and> (\<forall>j. n \<le> j \<and> j < i \<longrightarrow> kbc_status m j AND 0x02 \<noteq> 0)"
    proof (cases "kbc_status m n AND 0x02 = 0")
      case True
      with step show ?thesis by auto
    next
      case False
      with step have "f m (n + 1) = Some r" by simp
      from IH [OF this] obtain i where i: "n + 1 \<le> i" "r = i + 1" "kbc_status m i AND 0x02 = 0"
        "\<forall>j. n + 1 \<le> j \<and> j < i \<longrightarrow> kbc_status m j AND 0x02 \<noteq> 0" by blast
      have "kbc_status m j AND 0x02 \<noteq> 0" if "n \<le> j" "j < i" for j
        using i(4) False that by (cases "j = n") auto
      with i show ?thesis by (intro exI [of _ i]) auto
    qed
  qed
qed

text \<open>
  \<open>reboot\<close> returns if and only if some read of the controller's status, from the next one
  on, finds its input buffer empty; then it has made exactly the reads up to the first such one
  and has sent the single command byte \<open>0xFE\<close> (pulse the reset line) to port \<open>0x64\<close>.
\<close>

theorem reboot_waits:
  "cmd_reboot m k arg =
    (if \<exists>i. kreads k \<le> i \<and> kbc_status m i AND 0x02 = 0
     then Some (k\<lparr>kreads := (LEAST i. kreads k \<le> i \<and> kbc_status m i AND 0x02 = 0) + 1,
                  kports := kports k @ [Outb 0x64 0xFE]\<rparr>)
     else None)"
proof (cases "\<exists>i. kreads k \<le> i \<and> kbc_status m i AND 0x02 = 0")
  case True
  then obtain j where "kreads k \<le> j" "kbc_status m j AND 0x02 = 0" by blast
  with wait_input_empty_total [of m "kreads k" "j - kreads k"] obtain r where
    r: "wait_input_empty m (kreads k) = Some r" by auto
  from wait_input_empty_ready [OF r] obtain i where
    i: "kreads k \<le> i" "r = i + 1" "kbc_status m i AND 0x02 = 0"
      "\<forall>j. kreads k \<le> j \<and> j < i \<longrightarrow> kbc_status m j AND 0x02 \<noteq> 0" by blast
  have "(LEAST i. kreads k \<le> i \<and> kbc_status m i AND 0x02 = 0) = i"
    using i by (intro Least_equality) (auto simp: not_less [symmetric])
  with r i True show ?thesis by (simp add: cmd_reboot_def)
next
  case False
  then have "wait_input_empty m (kreads k) = None"
    using wait_input_empty_ready [of m "kreads k"] by (cases "wait_input_empty m (kreads k)") blast+
  with False show ?thesis by (simp add: cmd_reboot_def)
qed

end
