(* ===== verification/BootMemory.thy ===== *)
theory BootMemory
  imports ShellProps
begin

text \<open>
  kernel/src/memory.rs: the heap is anchored at the first usable region of the boot loader's
  memory map that is large enough, and handed to the allocator.
\<close>

section \<open>The model\<close>

text \<open>A region of the boot loader's map; \<open>mr_usable\<close> is \<open>kind == MemoryRegionKind::Usable\<close>.\<close>

record memory_region =
  mr_start :: u64
  mr_end :: u64
  mr_usable :: bool

text \<open>The loop of \<open>init\<close>, with the heap's address once it is found.\<close>

fun memory_scan :: "usize \<Rightarrow> memory_region list \<Rightarrow> u64 option \<Rightarrow> u64 option option" where
  "memory_scan phys_off [] heap = Some heap"
| "memory_scan phys_off (r # rs) heap =
     (if \<not> mr_usable r then memory_scan phys_off rs heap
      else do { size \<leftarrow> csub (mr_end r) (mr_start r);
                (if heap = None \<and> size \<ge> HEAP_SIZE
                 then do { _ \<leftarrow> cadd (mr_start r) phys_off; memory_scan phys_off rs (Some (mr_start r)) }
                 else memory_scan phys_off rs heap) })"

definition memory_init :: "memory_region list \<Rightarrow> usize \<Rightarrow> u64 option" where
  "memory_init regions phys_off = do { heap \<leftarrow> memory_scan phys_off regions None; heap }"

definition heap_start_virt :: "u64 \<Rightarrow> usize \<Rightarrow> usize option" where
  "heap_start_virt heap_phys phys_off = cadd heap_phys phys_off"

section \<open>The first region that fits\<close>

definition holds_heap :: "memory_region \<Rightarrow> bool" where
  "holds_heap r \<longleftrightarrow> mr_usable r \<and> HEAP_SIZE \<le> mr_end r - mr_start r"

lemma memory_scan_found:
  "\<forall>r \<in> set rs. mr_usable r \<longrightarrow> mr_start r \<le> mr_end r \<Longrightarrow> memory_scan po rs (Some h) = Some (Some h)"
  by (induction rs) (auto simp: csub_def)

lemma memory_init_first_fit:
  assumes "\<forall>r \<in> set rs. mr_usable r \<longrightarrow> mr_start r \<le> mr_end r"
    and "pred_option (\<lambda>r. unat (mr_start r) + unat po < 2 ^ 64) (List.find holds_heap rs)"
  shows "memory_init rs po = map_option mr_start (List.find holds_heap rs)"
proof -
  have "memory_scan po rs None = Some (map_option mr_start (List.find holds_heap rs))"
    using assms
  proof (induction rs)
    case (Cons r rs)
    then show ?case
      using memory_scan_found [of rs po "mr_start r"]
      by (auto simp: holds_heap_def csub_def cadd_def split: if_splits)
  qed simp
  then show ?thesis by (simp add: memory_init_def)
qed

section \<open>The heap after the boot\<close>

lemma kinit_heap:
  assumes "heap_args_ok hv HEAP_SIZE"
  shows "\<exists>a m'. kinit m hv HEAP_SIZE = Some (a, m') \<and> heap_state a
    \<and> (\<forall>x. unat x < unat hv \<or> unat hv + unat HEAP_SIZE \<le> unat x \<longrightarrow> m' x = m x)"
proof -
  from sa_init_heap_inv [OF assms, of m] obtain a m' fls where
    a: "sa_init sa_new m hv HEAP_SIZE = Some (a, m')" "heap_inv a m' {} fls"
      "map obj_size (slabs a) = SLAB_SIZES"
      "\<forall>x. unat x < unat hv \<or> unat hv + 258048 \<le> unat x \<longrightarrow> m' x = m x" by blast
  moreover from arg_cong [OF a(3), of length] have "length (slabs a) = 6" by (simp add: SLAB_SIZES_def)
  moreover have "unat HEAP_SIZE = 16777216" by (simp add: HEAP_SIZE_def)
  ultimately show ?thesis by (auto simp: kinit_def heap_state_def)
qed

end
