(* ===== verification/RingBuf.thy ===== *)
theory RingBuf
  imports Prelude
begin

text \<open>
  The keyboard input ring of kernel/src/keyboard.rs: interrupt handlers push bytes, the main
  loop drains them.  \<open>rb_push\<close> and \<open>rb_pop\<close> are the two ends, \<open>fifo\<close> is the queue contract
  they meet, and \<open>ring_step\<close> interleaves a handler with every atomic action of \<open>drain\<close>.
\<close>

section \<open>The model\<close>

definition RB_CAP :: nat where "RB_CAP = 64"
definition RB_MASK :: nat where "RB_MASK = RB_CAP - 1"

record ring =
  rb_buf :: "u8 list"
  rb_head :: nat
  rb_tail :: nat

definition rb_new :: ring where
  "rb_new = \<lparr>rb_buf = replicate RB_CAP 0, rb_head = 0, rb_tail = 0\<rparr>"

text \<open>\<open>rb_push\<close>: the slot before the tail stays empty, so a full ring drops the byte.\<close>

definition rb_push :: "ring \<Rightarrow> u8 \<Rightarrow> ring option" where
  "rb_push r b =
     (let next = (rb_head r + 1) AND RB_MASK
      in if next = rb_tail r then Some r
         else do { buf \<leftarrow> set_at (rb_buf r) (rb_head r) b;
                   Some (r\<lparr>rb_buf := buf, rb_head := next\<rparr>) })"

text \<open>One turn of the loop of \<open>drain\<close>: the byte it would hand to the shell, if any.\<close>

definition rb_pop :: "ring \<Rightarrow> (u8 option \<times> ring) option" where
  "rb_pop r =
     (let tail = rb_tail r
      in if tail = rb_head r then Some (None, r)
         else do { b \<leftarrow> get_at (rb_buf r) tail;
                   Some (Some b, r\<lparr>rb_tail := (tail + 1) AND RB_MASK\<rparr>) })"

text \<open>The whole loop with no interrupt in between; the fuel bounds its turns.\<close>

fun rb_drain :: "nat \<Rightarrow> ring \<Rightarrow> (u8 list \<times> ring) option" where
  "rb_drain 0 r = None"
| "rb_drain (Suc fuel) r =
     do { (b, r') \<leftarrow> rb_pop r;
          (case b of
             None \<Rightarrow> Some ([], r')
           | Some x \<Rightarrow> do { (xs, r'') \<leftarrow> rb_drain fuel r'; Some (x # xs, r'') }) }"

section \<open>The queue contract\<close>

locale fifo =
  fixes push :: "'r \<Rightarrow> 'a \<Rightarrow> 'r option"
    and pop :: "'r \<Rightarrow> ('a option \<times> 'r) option"
    and items :: "'r \<Rightarrow> 'a list"
    and inv :: "'r \<Rightarrow> bool"
    and cap :: nat
  assumes push_law: "inv r \<Longrightarrow> \<exists>r'. push r x = Some r' \<and> inv r'
      \<and> items r' = (if length (items r) < cap then items r @ [x] else items r)"
    and pop_empty: "inv r \<Longrightarrow> items r = [] \<Longrightarrow> pop r = Some (None, r)"
    and pop_head: "inv r \<Longrightarrow> items r = x # xs \<Longrightarrow>
      \<exists>r'. pop r = Some (Some x, r') \<and> inv r' \<and> items r' = xs"
    and bounded: "inv r \<Longrightarrow> length (items r) \<le> cap"

datatype 'a queue_op = Push 'a | Pop

text \<open>
  A run of queue operations: the bytes popped and the final queue; its specification on a
  plain list of bounded length.
\<close>

fun queue_run :: "('r \<Rightarrow> 'a \<Rightarrow> 'r option) \<Rightarrow> ('r \<Rightarrow> ('a option \<times> 'r) option) \<Rightarrow> 'a queue_op list \<Rightarrow> 'r
    \<Rightarrow> ('a list \<times> 'r) option" where
  "queue_run push pop [] r = Some ([], r)"
| "queue_run push pop (Push x # ops) r = do { r' \<leftarrow> push r x; queue_run push pop ops r' }"
| "queue_run push pop (Pop # ops) r =
     do { (b, r') \<leftarrow> pop r;
          (out, r'') \<leftarrow> queue_run push pop ops r';
          Some ((case b of None \<Rightarrow> out | Some x \<Rightarrow> x # out), r'') }"

fun queue_spec :: "nat \<Rightarrow> 'a queue_op list \<Rightarrow> 'a list \<Rightarrow> 'a list \<times> 'a list" where
  "queue_spec cap [] q = ([], q)"
| "queue_spec cap (Push x # ops) q = queue_spec cap ops (if length q < cap then q @ [x] else q)"
| "queue_spec cap (Pop # ops) q =
     (case q of
        [] \<Rightarrow> queue_spec cap ops []
      | x # q' \<Rightarrow> (let (out, q'') = queue_spec cap ops q' in (x # out, q'')))"

context fifo
begin

lemma run_refines_list:
  "inv r \<Longrightarrow> \<exists>r'. queue_run push pop ops r = Some (fst (queue_spec cap ops (items r)), r') \<and> inv r'
    \<and> items r' = snd (queue_spec cap ops (items r))"
proof (induction ops arbitrary: r)
  case (Cons op ops)
  show ?case
  proof (cases op)
    case (Push x)
    from push_law [OF Cons.prems] obtain r' where r': "push r x = Some r'" "inv r'"
      "items r' = (if length (items r) < cap then items r @ [x] else items r)" by blast
    from Cons.IH [OF r'(2)] r' Push show ?thesis by simp
  next
    case Pop
    show ?thesis
    proof (cases "items r")
      case Nil
      with Cons.IH [OF Cons.prems] pop_empty [OF Cons.prems] Pop show ?thesis by auto
    next
      case (Cons x xs)
      from pop_head [OF Cons.prems this] obtain r' where r': "pop r = Some (Some x, r')" "inv r'"
        "items r' = xs" by blast
      with Cons.IH [OF r'(2)] Cons Pop show ?thesis
        by (auto simp: case_prod_beta Let_def)
    qed
  qed
qed simp

end

section \<open>The ring is a bounded queue\<close>

definition rb_items :: "ring \<Rightarrow> u8 list" where
  "rb_items r = map (\<lambda>i. rb_buf r ! ((rb_tail r + i) mod RB_CAP))
     [0..<(rb_head r + RB_CAP - rb_tail r) mod RB_CAP]"

definition rb_inv :: "ring \<Rightarrow> bool" where
  "rb_inv r \<longleftrightarrow> length (rb_buf r) = RB_CAP \<and> rb_head r < RB_CAP \<and> rb_tail r < RB_CAP"

lemma and_RB_MASK: "n AND RB_MASK = n mod RB_CAP"
proof -
  have "RB_MASK = mask 6" by (simp add: RB_MASK_def RB_CAP_def mask_eq_exp_minus_1)
  then have "n AND RB_MASK = take_bit 6 n" by (simp add: take_bit_eq_mask)
  then show ?thesis by (simp add: take_bit_eq_mod RB_CAP_def)
qed

lemma rb_inv_new: "rb_inv rb_new" and rb_items_new: "rb_items rb_new = []"
  by (simp_all add: rb_inv_def rb_new_def rb_items_def RB_CAP_def)

text \<open>The number of pending bytes, and how one push or pop moves it.\<close>

definition rb_used :: "ring \<Rightarrow> nat" where
  "rb_used r = (rb_head r + RB_CAP - rb_tail r) mod RB_CAP"

lemma rb_used_cases:
  "rb_inv r \<Longrightarrow> rb_used r = (if rb_tail r \<le> rb_head r then rb_head r - rb_tail r
                      else rb_head r + RB_CAP - rb_tail r)"
  by (auto simp: rb_used_def rb_inv_def mod_if)

lemma length_rb_items: "length (rb_items r) = rb_used r"
  by (simp add: rb_items_def rb_used_def)

lemma rb_used_zero: "rb_inv r \<Longrightarrow> rb_used r = 0 \<longleftrightarrow> rb_tail r = rb_head r"
  by (auto simp: rb_used_cases) (auto simp: rb_inv_def)

lemma rb_full_iff: "rb_inv r \<Longrightarrow> (rb_head r + 1) mod RB_CAP = rb_tail r \<longleftrightarrow> rb_used r = RB_CAP - 1"
  by (auto simp: rb_used_cases) (auto simp: rb_inv_def RB_CAP_def mod_if split: if_splits)

lemma rb_used_less: "rb_inv r \<Longrightarrow> rb_used r < RB_CAP"
  by (auto simp: rb_used_def RB_CAP_def)

lemma rb_slot_head: "rb_inv r \<Longrightarrow> (rb_tail r + rb_used r) mod RB_CAP = rb_head r"
  by (auto simp: rb_used_cases) (auto simp: rb_inv_def mod_if)

lemma rb_items_nth: "i < rb_used r \<Longrightarrow> rb_items r ! i = rb_buf r ! ((rb_tail r + i) mod RB_CAP)"
  by (simp add: rb_items_def rb_used_def)

lemma rb_slot_other:
  assumes inv: "rb_inv r" and i: "i < rb_used r"
  shows "(rb_tail r + i) mod RB_CAP \<noteq> rb_head r"
proof -
  have bounds: "rb_tail r < RB_CAP" "rb_head r < RB_CAP" using inv by (simp_all add: rb_inv_def)
  show ?thesis
  proof (cases "rb_tail r + i < RB_CAP")
    case True
    with i bounds rb_used_cases [OF inv] show ?thesis by (auto split: if_splits)
  next
    case False
    have "i < RB_CAP" using i rb_used_cases [OF inv] bounds by (auto split: if_splits)
    with False bounds have "(rb_tail r + i) mod RB_CAP = rb_tail r + i - RB_CAP"
      by (simp add: mod_if)
    with False i bounds rb_used_cases [OF inv] show ?thesis by (auto split: if_splits)
  qed
qed

lemma rb_push_spec:
  assumes inv: "rb_inv r"
  shows "\<exists>r'. rb_push r b = Some r' \<and> rb_inv r'
    \<and> rb_items r' = (if length (rb_items r) < RB_CAP - 1 then rb_items r @ [b] else rb_items r)"
proof (cases "rb_used r = RB_CAP - 1")
  case True
  with rb_full_iff [OF inv] inv show ?thesis
    by (auto simp: rb_push_def and_RB_MASK Let_def length_rb_items)
next
  case False
  let ?r = "r\<lparr>rb_buf := (rb_buf r)[rb_head r := b], rb_head := (rb_head r + 1) mod RB_CAP\<rparr>"
  have inv': "rb_inv ?r" using inv by (simp add: rb_inv_def RB_CAP_def)
  have push: "rb_push r b = Some ?r"
    using False rb_full_iff [OF inv] inv by (simp add: rb_push_def and_RB_MASK Let_def rb_inv_def)
  have used: "rb_used ?r = Suc (rb_used r)"
    using False rb_used_less [OF inv] inv inv' rb_full_iff [OF inv]
    by (auto simp: rb_used_cases) (auto simp: rb_inv_def mod_if split: if_splits)
  have "rb_items ?r = rb_items r @ [b]"
  proof (rule nth_equalityI)
    show "length (rb_items ?r) = length (rb_items r @ [b])" using used by (simp add: length_rb_items)
    fix i assume "i < length (rb_items ?r)"
    then have i: "i < Suc (rb_used r)" using used by (simp add: length_rb_items)
    show "rb_items ?r ! i = (rb_items r @ [b]) ! i"
    proof (cases "i = rb_used r")
      case True
      have "rb_items ?r ! i = rb_buf ?r ! rb_head r"
        using rb_items_nth [of i ?r] rb_slot_head [OF inv] used True by simp
      then show ?thesis using True inv by (simp add: nth_append length_rb_items rb_inv_def)
    next
      case False
      with i have lt: "i < rb_used r" by simp
      have "rb_items ?r ! i = rb_buf r ! ((rb_tail r + i) mod RB_CAP)"
        using rb_items_nth [of i ?r] rb_slot_other [OF inv lt] used lt by simp
      then show ?thesis using lt rb_items_nth [OF lt] by (simp add: nth_append length_rb_items)
    qed
  qed
  with push inv' False rb_used_less [OF inv] show ?thesis by (auto simp: length_rb_items)
qed

lemma rb_pop_empty: "rb_inv r \<Longrightarrow> rb_items r = [] \<Longrightarrow> rb_pop r = Some (None, r)"
  using rb_used_zero [of r] length_rb_items [of r] by (simp add: rb_pop_def)

lemma rb_pop_head:
  assumes inv: "rb_inv r" and items: "rb_items r = x # xs"
  shows "\<exists>r'. rb_pop r = Some (Some x, r') \<and> rb_inv r' \<and> rb_items r' = xs"
proof -
  let ?r = "r\<lparr>rb_tail := (rb_tail r + 1) mod RB_CAP\<rparr>"
  have used: "rb_used r = Suc (length xs)" using items length_rb_items [of r] by simp
  have ne: "rb_tail r \<noteq> rb_head r" using used rb_used_zero [OF inv] by simp
  have inv': "rb_inv ?r" using inv by (simp add: rb_inv_def RB_CAP_def)
  have used': "rb_used ?r = length xs"
    using used ne inv inv' by (auto simp: rb_used_cases) (auto simp: rb_inv_def mod_if split: if_splits)
  have "x = rb_buf r ! rb_tail r" using rb_items_nth [of 0 r] used items inv by (simp add: rb_inv_def)
  then have "rb_pop r = Some (Some x, ?r)"
    using ne inv by (simp add: rb_pop_def and_RB_MASK rb_inv_def Let_def)
  moreover have "rb_items ?r = xs"
  proof (rule nth_equalityI)
    show "length (rb_items ?r) = length xs" using used' by (simp add: length_rb_items)
    fix i assume "i < length (rb_items ?r)"
    then have i: "i < length xs" using used' by (simp add: length_rb_items)
    have "xs ! i = rb_items r ! Suc i" using items by simp
    also have "\<dots> = rb_buf r ! ((rb_tail r + Suc i) mod RB_CAP)" using rb_items_nth [of "Suc i" r] used i by simp
    also have "\<dots> = rb_items ?r ! i"
      using rb_items_nth [of i ?r] i used' by (simp add: mod_simps add.commute)
    finally show "rb_items ?r ! i = xs ! i" by simp
  qed
  ultimately show ?thesis using inv' by blast
qed

interpretation kbd_ring: fifo rb_push rb_pop rb_items rb_inv "RB_CAP - 1"
proof unfold_locales
  fix r x
  assume inv: "rb_inv r"
  show "\<exists>r'. rb_push r x = Some r' \<and> rb_inv r'
      \<and> rb_items r' = (if length (rb_items r) < RB_CAP - 1 then rb_items r @ [x] else rb_items r)"
    by (rule rb_push_spec [OF inv])
  show "length (rb_items r) \<le> RB_CAP - 1" using rb_used_less [OF inv] by (simp add: length_rb_items)
qed (fact rb_pop_empty rb_pop_head)+

lemma rb_push_accepts: "rb_inv r \<Longrightarrow> length (rb_items r) < RB_CAP - 1 \<Longrightarrow>
    \<exists>r'. rb_push r b = Some r' \<and> rb_inv r' \<and> rb_items r' = rb_items r @ [b]"
  using rb_push_spec [of r b] by simp

lemma rb_push_drops:
  assumes "rb_inv r" "\<not> length (rb_items r) < RB_CAP - 1"
  shows "rb_push r b = Some r"
proof -
  have "rb_used r = RB_CAP - 1" using assms rb_used_less [of r] by (simp add: length_rb_items)
  then show ?thesis using rb_full_iff [OF assms(1)] by (simp add: rb_push_def and_RB_MASK Let_def)
qed

lemma rb_push_tail: "rb_push r b = Some r' \<Longrightarrow> rb_tail r' = rb_tail r"
  by (auto simp: rb_push_def Let_def split: if_splits Option.bind_splits)

lemma rb_drain_items:
  "rb_inv r \<Longrightarrow> length (rb_items r) < fuel \<Longrightarrow>
    \<exists>r'. rb_drain fuel r = Some (rb_items r, r') \<and> rb_inv r' \<and> rb_items r' = []"
proof (induction fuel r rule: rb_drain.induct)
  case (2 fuel r)
  show ?case
  proof (cases "rb_items r")
    case Nil
    with rb_pop_empty [OF 2(2)] 2(2) show ?thesis by simp
  next
    case (Cons x xs)
    from rb_pop_head [OF 2(2) this] obtain r' where r': "rb_pop r = Some (Some x, r')" "rb_inv r'"
      "rb_items r' = xs" by blast
    from 2(1) [OF r'(1) refl refl r'(2)] 2(3) Cons r' show ?thesis by auto
  qed
qed simp

section \<open>Interrupts between the actions of the drain loop\<close>

text \<open>
  The consumer's position inside one turn of the loop of \<open>drain\<close>, with its locals, and the
  state it shares with the interrupt handlers.  \<open>accepted\<close> and \<open>delivered\<close> are histories:
  the bytes a handler stored in the ring and the bytes \<open>push_char\<close> received.  A handler runs
  with interrupts disabled, so its \<open>rb_push\<close> is one step; the loop can be interrupted between
  any two of its atomic actions.
\<close>

datatype drain_pc = Idle | Tail_loaded nat | Nonempty nat | Byte_read nat u8 | Tail_stored u8

record drain_state =
  d_ring :: ring
  d_pc :: drain_pc
  accepted :: "u8 list"
  delivered :: "u8 list"

inductive ring_step :: "drain_state \<Rightarrow> drain_state \<Rightarrow> bool" where
  isr_stored: "rb_push (d_ring s) b = Some r \<Longrightarrow> rb_head r \<noteq> rb_head (d_ring s) \<Longrightarrow>
    ring_step s (s\<lparr>d_ring := r, accepted := accepted s @ [b]\<rparr>)"
| isr_dropped: "rb_push (d_ring s) b = Some r \<Longrightarrow> rb_head r = rb_head (d_ring s) \<Longrightarrow>
    ring_step s (s\<lparr>d_ring := r\<rparr>)"
| load_tail: "d_pc s = Idle \<Longrightarrow> ring_step s (s\<lparr>d_pc := Tail_loaded (rb_tail (d_ring s))\<rparr>)"
| see_empty: "d_pc s = Tail_loaded t \<Longrightarrow> t = rb_head (d_ring s) \<Longrightarrow> ring_step s (s\<lparr>d_pc := Idle\<rparr>)"
| see_nonempty: "d_pc s = Tail_loaded t \<Longrightarrow> t \<noteq> rb_head (d_ring s) \<Longrightarrow>
    ring_step s (s\<lparr>d_pc := Nonempty t\<rparr>)"
| read_byte: "d_pc s = Nonempty t \<Longrightarrow> get_at (rb_buf (d_ring s)) t = Some b \<Longrightarrow>
    ring_step s (s\<lparr>d_pc := Byte_read t b\<rparr>)"
| store_tail: "d_pc s = Byte_read t b \<Longrightarrow>
    ring_step s (s\<lparr>d_ring := (d_ring s)\<lparr>rb_tail := (t + 1) AND RB_MASK\<rparr>, d_pc := Tail_stored b\<rparr>)"
| deliver: "d_pc s = Tail_stored b \<Longrightarrow>
    ring_step s (s\<lparr>d_pc := Idle, delivered := delivered s @ [b]\<rparr>)"

definition drain_init :: drain_state where
  "drain_init = \<lparr>d_ring = rb_new, d_pc = Idle, accepted = [], delivered = []\<rparr>"

inductive ring_reach :: "drain_state \<Rightarrow> bool" where
  reach_init: "ring_reach drain_init"
| reach_step: "ring_reach s \<Longrightarrow> ring_step s s' \<Longrightarrow> ring_reach s'"

fun in_flight :: "drain_pc \<Rightarrow> u8 list" where
  "in_flight (Tail_stored b) = [b]"
| "in_flight pc = []"

fun pc_ok :: "ring \<Rightarrow> drain_pc \<Rightarrow> bool" where
  "pc_ok r Idle = True"
| "pc_ok r (Tail_loaded t) \<longleftrightarrow> t = rb_tail r"
| "pc_ok r (Nonempty t) \<longleftrightarrow> t = rb_tail r \<and> rb_items r \<noteq> []"
| "pc_ok r (Byte_read t b) \<longleftrightarrow> t = rb_tail r \<and> (\<exists>xs. rb_items r = b # xs)"
| "pc_ok r (Tail_stored b) = True"

definition drain_inv :: "drain_state \<Rightarrow> bool" where
  "drain_inv s \<longleftrightarrow> rb_inv (d_ring s) \<and> pc_ok (d_ring s) (d_pc s)
     \<and> accepted s = delivered s @ in_flight (d_pc s) @ rb_items (d_ring s)"

lemma pc_ok_push:
  "pc_ok r pc \<Longrightarrow> rb_tail r' = rb_tail r \<Longrightarrow> rb_items r' = rb_items r @ ys \<Longrightarrow> pc_ok r' pc"
  by (cases pc) auto

lemma rb_push_cases:
  assumes inv: "rb_inv r" and push: "rb_push r b = Some r'"
  shows "rb_head r' = rb_head r \<and> r' = r \<or>
    rb_head r' \<noteq> rb_head r \<and> rb_inv r' \<and> rb_items r' = rb_items r @ [b]"
proof (cases "length (rb_items r) < RB_CAP - 1")
  case True
  from rb_push_accepts [OF inv this, of b] push have "rb_inv r'" "rb_items r' = rb_items r @ [b]" by auto
  moreover from this(2) have "rb_used r' = Suc (rb_used r)" by (metis length_rb_items length_append_singleton)
  then have "rb_head r' \<noteq> rb_head r" using rb_push_tail [OF push] by (auto simp: rb_used_def)
  ultimately show ?thesis by blast
next
  case False
  with rb_push_drops [OF inv] push show ?thesis by simp
qed

lemma rb_items_cons:
  assumes "rb_inv r" "rb_items r = b # xs"
  shows "rb_tail r \<noteq> rb_head r" and "rb_buf r ! rb_tail r = b"
proof -
  have "rb_used r > 0" using assms(2) length_rb_items [of r] by simp
  then show "rb_tail r \<noteq> rb_head r" using rb_used_zero [OF assms(1)] by simp
  show "rb_buf r ! rb_tail r = b"
    using rb_items_nth [of 0 r] \<open>rb_used r > 0\<close> assms by (simp add: rb_inv_def)
qed

lemma drain_inv_step: "ring_step s s' \<Longrightarrow> drain_inv s \<Longrightarrow> drain_inv s'"
proof (induction rule: ring_step.induct)
  case (isr_stored s b r)
  from isr_stored(3) have inv: "rb_inv (d_ring s)" by (simp add: drain_inv_def)
  from rb_push_cases [OF inv isr_stored(1)] isr_stored(2)
  have "rb_inv r" "rb_items r = rb_items (d_ring s) @ [b]" by auto
  with isr_stored pc_ok_push rb_push_tail [OF isr_stored(1)] show ?case by (auto simp: drain_inv_def)
next
  case (isr_dropped s b r)
  from isr_dropped(3) have "rb_inv (d_ring s)" by (simp add: drain_inv_def)
  from rb_push_cases [OF this isr_dropped(1)] isr_dropped show ?case by (auto simp: drain_inv_def)
next
  case (see_nonempty s t)
  then have "rb_items (d_ring s) \<noteq> []"
    using rb_used_zero [of "d_ring s"] length_rb_items [of "d_ring s"] by (auto simp: drain_inv_def)
  with see_nonempty show ?case by (auto simp: drain_inv_def)
next
  case (read_byte s t b)
  then obtain x xs where items: "rb_items (d_ring s) = x # xs" "t = rb_tail (d_ring s)"
    by (auto simp: drain_inv_def neq_Nil_conv)
  from read_byte have inv: "rb_inv (d_ring s)" by (simp add: drain_inv_def)
  from rb_items_cons [OF inv items(1)] read_byte(2) items(2) inv have "x = b"
    by (simp add: rb_inv_def)
  with items read_byte show ?case by (auto simp: drain_inv_def)
next
  case (store_tail s t b)
  then obtain xs where items: "rb_items (d_ring s) = b # xs" and t: "t = rb_tail (d_ring s)"
    and inv: "rb_inv (d_ring s)" by (auto simp: drain_inv_def)
  from rb_pop_head [OF inv items] rb_items_cons [OF inv items] inv
  have "rb_inv ((d_ring s)\<lparr>rb_tail := (t + 1) AND RB_MASK\<rparr>)"
    "rb_items ((d_ring s)\<lparr>rb_tail := (t + 1) AND RB_MASK\<rparr>) = xs"
    by (auto simp: rb_pop_def t Let_def rb_inv_def)
  with store_tail items show ?case by (simp add: drain_inv_def)
qed (auto simp: drain_inv_def)

lemma ring_reach_inv: "ring_reach s \<Longrightarrow> drain_inv s"
proof (induction rule: ring_reach.induct)
  case reach_init
  show ?case by (simp add: drain_inv_def drain_init_def rb_inv_new rb_items_new)
qed (rule drain_inv_step)

section \<open>Properties\<close>

text \<open>
  C6: Whatever interrupts arrive between the loads and stores of the drain loop, the bytes the
  handlers stored are exactly those the shell has received, then the one in the loop's hand,
  then those still in the ring, in that order: no byte is lost, duplicated or reordered, and
  neither side ever indexes outside the buffer.
\<close>

theorem ring_fifo:
  assumes "ring_reach s"
  shows "accepted s = delivered s @ in_flight (d_pc s) @ rb_items (d_ring s)
    \<and> (\<exists>r. rb_push (d_ring s) b = Some r) \<and> (\<exists>s'. ring_step s s' \<and> d_pc s' \<noteq> d_pc s)"
proof -
  from ring_reach_inv [OF assms] have inv: "drain_inv s" .
  then have rinv: "rb_inv (d_ring s)" by (simp add: drain_inv_def)
  have "\<exists>s'. ring_step s s' \<and> d_pc s' \<noteq> d_pc s"
  proof (cases "d_pc s")
    case Idle
    with load_tail [OF this] show ?thesis by force
  next
    case (Tail_loaded t)
    with see_empty [OF this] see_nonempty [OF this] show ?thesis by force
  next
    case (Nonempty t)
    with inv rinv have "get_at (rb_buf (d_ring s)) t = Some (rb_buf (d_ring s) ! t)"
      by (simp add: drain_inv_def rb_inv_def)
    from read_byte [OF Nonempty this] Nonempty show ?thesis by force
  next
    case (Byte_read t x)
    with store_tail [OF this] show ?thesis by force
  next
    case (Tail_stored x)
    with deliver [OF this] show ?thesis by force
  qed
  with inv rb_push_spec [OF rinv, of b] show ?thesis by (auto simp: drain_inv_def)
qed

lemma ring_fifo_witness:
  "let s = drain_init\<lparr>d_ring := rb_new\<lparr>rb_buf := (replicate RB_CAP 0)[0 := 104], rb_head := 1\<rparr>,
             accepted := [104], d_pc := Tail_loaded 0\<rparr>
   in accepted s = delivered s @ in_flight (d_pc s) @ rb_items (d_ring s)
     \<and> (\<exists>r. rb_push (d_ring s) 105 = Some r) \<and> (\<exists>s'. ring_step s s' \<and> d_pc s' \<noteq> d_pc s)"
proof -
  let ?r = "rb_new\<lparr>rb_buf := (replicate RB_CAP 0)[0 := 104], rb_head := 1\<rparr>"
  let ?s1 = "drain_init\<lparr>d_ring := ?r, accepted := [104]\<rparr>"
  let ?s2 = "?s1\<lparr>d_pc := Tail_loaded 0\<rparr>"
  have push: "rb_push (d_ring drain_init) 104 = Some ?r"
    by (simp add: rb_push_def drain_init_def rb_new_def RB_CAP_def and_RB_MASK Let_def)
  have "ring_step drain_init ?s1"
    using ring_step.isr_stored [OF push] by (simp add: drain_init_def rb_new_def)
  from reach_step [OF reach_init this] have "ring_reach ?s1" .
  moreover have "ring_step ?s1 ?s2"
    using load_tail [of ?s1] by (simp add: drain_init_def rb_new_def)
  ultimately have "ring_reach ?s2" by (rule reach_step)
  from ring_fifo [OF this, of 105] show ?thesis by (simp only: Let_def)
qed

text \<open>
  Run from the empty ring, any sequence of pushes and pops gives the bytes and the pending
  queue of a plain first-in first-out list that holds 63 bytes and ignores a push when full;
  a drain that no handler interrupts then empties it in order within 64 turns.
\<close>

theorem ring_refines_queue:
  "\<exists>r r'. queue_run rb_push rb_pop ops rb_new = Some (fst (queue_spec 63 ops []), r)
     \<and> rb_items r = snd (queue_spec 63 ops [])
     \<and> rb_drain 64 r = Some (snd (queue_spec 63 ops []), r') \<and> rb_items r' = []"
proof -
  from kbd_ring.run_refines_list [OF rb_inv_new, of ops] obtain r where
    r: "queue_run rb_push rb_pop ops rb_new = Some (fst (queue_spec 63 ops []), r)" "rb_inv r"
      "rb_items r = snd (queue_spec 63 ops [])"
    by (auto simp: rb_items_new RB_CAP_def)
  have "length (rb_items r) < 64" using kbd_ring.bounded [OF r(2)] by (simp add: RB_CAP_def)
  from rb_drain_items [OF r(2) this] r show ?thesis by auto
qed

end
