(* ===== verification/Keyboard.thy ===== *)
theory Keyboard
  imports RingBuf RustStr
begin

text \<open>
  Key decoding in kernel/src/keyboard.rs: PS/2 scancodes (set 1) and USB HID boot reports both
  end as bytes in the input ring.  The state is the module's statics; \<open>process_scancode\<close> and
  \<open>process_hid_report\<close> are its two entry points, called by the interrupt handlers.
\<close>

section \<open>The model\<close>

record modifiers =
  shift :: bool
  caps_lock :: bool
  ctrl :: bool

record kbd =
  extended :: bool
  mods :: modifiers
  hid_caps_lock :: bool
  hid_prev :: "u8 list"
  ring_of :: ring

definition kbd_init :: kbd where
  "kbd_init = \<lparr>extended = False, mods = \<lparr>shift = False, caps_lock = False, ctrl = False\<rparr>,
               hid_caps_lock = False, hid_prev = replicate 6 0, ring_of = rb_new\<rparr>"

definition MAP :: "u8 list" where
  "MAP =
  [0, 0, 49, 50, 51, 52, 53, 54, 55, 56, 57, 48, 45, 61, 8, 9,
   113, 119, 101, 114, 116, 121, 117, 105, 111, 112, 91, 93, 10, 0, 97, 115,
   100, 102, 103, 104, 106, 107, 108, 59, 39, 96, 0, 92, 122, 120, 99, 118,
   98, 110, 109, 44, 46, 47, 0, 42, 0, 32]"

definition SHIFT_MAP :: "u8 list" where
  "SHIFT_MAP =
  [0, 0, 33, 64, 35, 36, 37, 94, 38, 42, 40, 41, 95, 43, 8, 9,
   81, 87, 69, 82, 84, 89, 85, 73, 79, 80, 123, 125, 10, 0, 65, 83,
   68, 70, 71, 72, 74, 75, 76, 58, 34, 126, 0, 124, 90, 88, 67, 86,
   66, 78, 77, 60, 62, 63, 0, 42, 0, 32]"

definition is_letter :: "u8 \<Rightarrow> bool" where
  "is_letter sc \<longleftrightarrow> 0x10 \<le> sc \<and> sc \<le> 0x19 \<or> 0x1E \<le> sc \<and> sc \<le> 0x26 \<or> 0x2C \<le> sc \<and> sc \<le> 0x32"

definition scancode_to_char :: "u8 \<Rightarrow> bool \<Rightarrow> bool \<Rightarrow> uchar option" where
  "scancode_to_char sc shft caps =
     (let use_shift = (if is_letter sc then shft \<noteq> caps else shft);
          table = (if use_shift then SHIFT_MAP else MAP)
      in do { b \<leftarrow> get_at table (unat sc); if b = 0 then None else Some (unat b) })"

text \<open>The \<open>effective\<close> character of both decoders: ctrl and a letter make a control byte.\<close>

definition effective :: "bool \<Rightarrow> uchar \<Rightarrow> u8" where
  "effective ctl ch =
     (if ctl \<and> is_ascii_alphabetic ch then of_nat (to_ascii_lowercase ch) AND 0x1F else of_nat ch)"

definition push_byte :: "kbd \<Rightarrow> u8 \<Rightarrow> kbd option" where
  "push_byte k b = do { r \<leftarrow> rb_push (ring_of k) b; Some (k\<lparr>ring_of := r\<rparr>) }"

definition process_scancode :: "kbd \<Rightarrow> u8 \<Rightarrow> kbd option" where
  "process_scancode k sc =
     (if sc = 0xE0 then Some (k\<lparr>extended := True\<rparr>)
      else
        let ext = extended k; k = k\<lparr>extended := False\<rparr>
        in if ext then
             (if sc = 0x48 then push_byte k 0x10
              else if sc = 0x50 then push_byte k 0x0E
              else if sc = 0x4B then push_byte k 0x02
              else if sc = 0x4D then push_byte k 0x06
              else if sc = 0x47 then push_byte k 0x01
              else if sc = 0x4F then push_byte k 0x05
              else Some k)
           else if sc = 0x2A \<or> sc = 0x36 then Some (k\<lparr>mods := (mods k)\<lparr>shift := True\<rparr>\<rparr>)
           else if sc = 0xAA \<or> sc = 0xB6 then Some (k\<lparr>mods := (mods k)\<lparr>shift := False\<rparr>\<rparr>)
           else if sc = 0x1D then Some (k\<lparr>mods := (mods k)\<lparr>ctrl := True\<rparr>\<rparr>)
           else if sc = 0x9D then Some (k\<lparr>mods := (mods k)\<lparr>ctrl := False\<rparr>\<rparr>)
           else if sc = 0x3A then
             Some (k\<lparr>mods := (mods k)\<lparr>caps_lock := \<not> caps_lock (mods k)\<rparr>\<rparr>)
           else if sc AND 0x80 \<noteq> 0 then Some k
           else
             (case scancode_to_char sc (shift (mods k)) (caps_lock (mods k)) of
                None \<Rightarrow> Some k
              | Some ch \<Rightarrow> push_byte k (effective (ctrl (mods k)) ch)))"

definition hid_to_ascii :: "u8 \<Rightarrow> bool \<Rightarrow> bool \<Rightarrow> u8" where
  "hid_to_ascii usage shft caps =
     (if 0x04 \<le> usage \<and> usage \<le> 0x1D then
        (let base = 97 + (usage - 0x04) in if shft \<noteq> caps then base - 32 else base)
      else if usage = 0x1E then (if shft then 33 else 49)
      else if usage = 0x1F then (if shft then 64 else 50)
      else if usage = 0x20 then (if shft then 35 else 51)
      else if usage = 0x21 then (if shft then 36 else 52)
      else if usage = 0x22 then (if shft then 37 else 53)
      else if usage = 0x23 then (if shft then 94 else 54)
      else if usage = 0x24 then (if shft then 38 else 55)
      else if usage = 0x25 then (if shft then 42 else 56)
      else if usage = 0x26 then (if shft then 40 else 57)
      else if usage = 0x27 then (if shft then 41 else 48)
      else if usage = 0x28 then 10
      else if usage = 0x2A then 0x08
      else if usage = 0x2B then 9
      else if usage = 0x2C then 32
      else if usage = 0x2D then (if shft then 95 else 45)
      else if usage = 0x2E then (if shft then 43 else 61)
      else if usage = 0x2F then (if shft then 123 else 91)
      else if usage = 0x30 then (if shft then 125 else 93)
      else if usage = 0x31 then (if shft then 124 else 92)
      else if usage = 0x33 then (if shft then 58 else 59)
      else if usage = 0x34 then (if shft then 34 else 39)
      else if usage = 0x35 then (if shft then 126 else 96)
      else if usage = 0x36 then (if shft then 60 else 44)
      else if usage = 0x37 then (if shft then 62 else 46)
      else if usage = 0x38 then (if shft then 63 else 47)
      else 0)"

definition hid_nav :: "u8 \<Rightarrow> u8 option" where
  "hid_nav usage =
     (if usage = 0x52 then Some 0x10
      else if usage = 0x51 then Some 0x0E
      else if usage = 0x50 then Some 0x02
      else if usage = 0x4F then Some 0x06
      else if usage = 0x4A then Some 0x01
      else if usage = 0x4D then Some 0x05
      else None)"

text \<open>The \<open>for\<close> loop of \<open>process_hid_report\<close>; \<open>caps\<close> and \<open>prev\<close> were read before it.\<close>

fun hid_loop :: "bool \<Rightarrow> bool \<Rightarrow> bool \<Rightarrow> u8 list \<Rightarrow> u8 list \<Rightarrow> kbd \<Rightarrow> kbd option" where
  "hid_loop shft ctl caps prev [] k = Some k"
| "hid_loop shft ctl caps prev (usage # us) k =
     do { k \<leftarrow> (if usage = 0 \<or> usage = 0x01 then Some k
                else if usage \<in> set prev then Some k
                else if usage = 0x39 then Some (k\<lparr>hid_caps_lock := \<not> caps\<rparr>)
                else case hid_nav usage of
                  Some b \<Rightarrow> push_byte k b
                | None \<Rightarrow>
                    (let b = hid_to_ascii usage shft caps
                     in if b \<noteq> 0 then push_byte k (effective ctl (unat b)) else Some k));
          hid_loop shft ctl caps prev us k }"

definition process_hid_report :: "kbd \<Rightarrow> u8 list \<Rightarrow> kbd option" where
  "process_hid_report k report =
     do { m \<leftarrow> get_at report 0;
          keys \<leftarrow> slice 2 8 report;
          k \<leftarrow> hid_loop (m AND 0x22 \<noteq> 0) (m AND 0x11 \<noteq> 0) (hid_caps_lock k) (hid_prev k) keys k;
          Some (k\<lparr>hid_prev := keys\<rparr>) }"

section \<open>Finite tables\<close>

definition typable :: "u8 \<Rightarrow> bool" where
  "typable b \<longleftrightarrow> 1 \<le> b \<and> b \<le> 0x7E"

lemma MAP_typable: "list_all (\<lambda>b. b = 0 \<or> typable b) MAP"
  and SHIFT_MAP_typable: "list_all (\<lambda>b. b = 0 \<or> typable b) SHIFT_MAP"
  by (simp_all add: MAP_def SHIFT_MAP_def typable_def)

lemma scancode_typable: "scancode_to_char sc a c = Some ch \<Longrightarrow> \<exists>b. ch = unat b \<and> typable b"
  using MAP_typable SHIFT_MAP_typable
  by (auto simp: scancode_to_char_def Let_def list_all_length get_at_def
      split: if_splits Option.bind_splits)

lemma hid_typable: "hid_to_ascii u a c \<noteq> 0 \<Longrightarrow> typable (hid_to_ascii u a c)"
proof (cases "0x04 \<le> u \<and> u \<le> 0x1D")
  case True
  then have "4 \<le> unat u" "unat u \<le> 0x1D" by (simp_all add: word_le_nat_alt)
  then show ?thesis
    by (rule u8_range) (cases a; cases c; simp add: hid_to_ascii_def typable_def upt_rec)
next
  case False
  then show "hid_to_ascii u a c \<noteq> 0 \<Longrightarrow> ?thesis"
    unfolding hid_to_ascii_def by (simp add: typable_def split: if_splits)
qed

lemma effective_typable: "typable b \<Longrightarrow> typable (effective ctl (unat b))"
proof (cases "ctl \<and> is_ascii_alphabetic (unat b)")
  case True
  then consider "65 \<le> unat b" "unat b \<le> 90" | "97 \<le> unat b" "unat b \<le> 122"
    by (auto simp: is_ascii_alphabetic_def)
  then show ?thesis
    by cases (erule (1) u8_range, simp add: True effective_def to_ascii_lowercase_def typable_def upt_rec
        is_ascii_alphabetic_def)+
qed (auto simp: effective_def)

lemma hid_nav_typable: "hid_nav u = Some b \<Longrightarrow> typable b"
  by (auto simp: hid_nav_def typable_def split: if_splits)

section \<open>Bytes pushed in a row\<close>

text \<open>What pushing \<open>bs\<close> leaves in the ring: the first 63 bytes of the pending ones and \<open>bs\<close>.\<close>

definition kbd_inv :: "kbd \<Rightarrow> bool" where
  "kbd_inv k \<longleftrightarrow> rb_inv (ring_of k) \<and> list_all typable (rb_items (ring_of k)) \<and> length (hid_prev k) = 6"

definition pending :: "kbd \<Rightarrow> u8 list" where
  "pending k = rb_items (ring_of k)"

lemma push_byte_spec:
  assumes "rb_inv (ring_of k)"
  shows "\<exists>r. push_byte k b = Some (k\<lparr>ring_of := r\<rparr>) \<and> rb_inv r
    \<and> rb_items r = take 63 (pending k @ [b])"
proof -
  from rb_push_spec [OF assms, of b] obtain r where
    r: "rb_push (ring_of k) b = Some r" "rb_inv r"
      "rb_items r = (if length (pending k) < 63 then pending k @ [b] else pending k)"
    by (auto simp: RB_CAP_def pending_def)
  moreover have "length (pending k) \<le> 63"
    using kbd_ring.bounded [OF assms] by (simp add: pending_def RB_CAP_def)
  ultimately show ?thesis by (auto simp: push_byte_def)
qed

lemma kbd_inv_init: "kbd_inv kbd_init"
  by (simp add: kbd_inv_def kbd_init_def rb_inv_new rb_items_new)

lemma push_byte_ok [wp_rules]:
  assumes "kbd_inv k" "typable b" "\<And>k'. kbd_inv k' \<Longrightarrow> Q k'"
  shows "returns (push_byte k b) Q"
proof -
  from assms(1) have inv: "rb_inv (ring_of k)" by (simp add: kbd_inv_def)
  from push_byte_spec [OF inv, of b] obtain r where
    r: "push_byte k b = Some (k\<lparr>ring_of := r\<rparr>)" "rb_inv r" "rb_items r = take 63 (pending k @ [b])" by blast
  with assms have "list_all typable (rb_items r)"
    by (auto simp: kbd_inv_def pending_def list_all_iff dest: in_set_takeD)
  with r assms show ?thesis by (auto simp: kbd_inv_def)
qed

lemma kbd_inv_update [inv_intros]:
  "kbd_inv k \<Longrightarrow> kbd_inv (k\<lparr>extended := e\<rparr>)"
  "kbd_inv k \<Longrightarrow> kbd_inv (k\<lparr>mods := m\<rparr>)"
  "kbd_inv k \<Longrightarrow> kbd_inv (k\<lparr>hid_caps_lock := b\<rparr>)"
  by (simp_all add: kbd_inv_def)

lemma typable_lits [inv_intros]:
  "typable 0x10" "typable 0x0E" "typable 0x02" "typable 0x06" "typable 0x01" "typable 0x05"
  by (simp_all add: typable_def)

lemma process_scancode_ok: "kbd_inv k \<Longrightarrow> returns (process_scancode k sc) kbd_inv"
  unfolding process_scancode_def Let_def
  by (intro wp_rules inv_intros) (auto intro: inv_intros dest!: scancode_typable intro: effective_typable)

lemma hid_loop_ok: "kbd_inv k \<Longrightarrow> returns (hid_loop a c caps prev us k) kbd_inv"
proof (induction us arbitrary: k)
  case (Cons u us)
  show ?case
    unfolding hid_loop.simps Let_def
    by (intro wp_rules Cons.IH inv_intros Cons.prems effective_typable)
      (auto intro: hid_typable hid_nav_typable Cons.IH Cons.prems inv_intros)
qed simp

lemma process_hid_report_ok:
  assumes "kbd_inv k" "length report = 8"
  shows "returns (process_hid_report k report) kbd_inv"
proof -
  have "kbd_inv k' \<Longrightarrow> kbd_inv (k'\<lparr>hid_prev := take 6 (drop 2 report)\<rparr>)" for k'
    using assms(2) by (simp add: kbd_inv_def)
  with returns_mono [OF hid_loop_ok [OF assms(1)]] assms(2) show ?thesis
    by (auto simp: process_hid_report_def slice_def intro!: returns_bind)
qed

section \<open>Sequences of events\<close>

datatype kbd_event = Scancode u8 | Report "u8 list"

fun kbd_handle :: "kbd \<Rightarrow> kbd_event \<Rightarrow> kbd option" where
  "kbd_handle k (Scancode sc) = process_scancode k sc"
| "kbd_handle k (Report r) = process_hid_report k r"

fun kbd_run :: "kbd \<Rightarrow> kbd_event list \<Rightarrow> kbd option" where
  "kbd_run k [] = Some k"
| "kbd_run k (e # es) = do { k \<leftarrow> kbd_handle k e; kbd_run k es }"

fun event_ok :: "kbd_event \<Rightarrow> bool" where
  "event_ok (Scancode sc) = True"
| "event_ok (Report r) = (length r = 8)"

lemma kbd_handle_ok [wp_rules]:
  "kbd_inv k \<Longrightarrow> event_ok e \<Longrightarrow> (\<And>k'. kbd_inv k' \<Longrightarrow> Q k') \<Longrightarrow> returns (kbd_handle k e) Q"
  by (cases e) (auto intro: returns_mono [OF process_scancode_ok] returns_mono [OF process_hid_report_ok])

lemma kbd_run_ok: "kbd_inv k \<Longrightarrow> list_all event_ok es \<Longrightarrow> returns (kbd_run k es) kbd_inv"
proof (induction es arbitrary: k)
  case (Cons e es)
  then show ?case unfolding kbd_run.simps by (intro wp_rules) auto
qed simp

text \<open>
  C14: No sequence of scancodes and eight-byte HID reports makes the keyboard handlers panic, and
  whatever arrives, the ring holds at most 63 bytes, each between 1 and 0x7E, so every byte the
  shell drains is an ASCII character and never NUL.
\<close>

theorem keyboard_safe:
  assumes "list_all event_ok es"
  shows "\<exists>k. kbd_run kbd_init es = Some k \<and> length (pending k) \<le> 63
    \<and> list_all (\<lambda>b. 1 \<le> b \<and> b \<le> 0x7E) (pending k)"
proof -
  from kbd_run_ok [OF kbd_inv_init assms] obtain k where "kbd_run kbd_init es = Some k" "kbd_inv k"
    by (auto simp: returns_def)
  moreover from this(2) have "length (rb_items (ring_of k)) \<le> RB_CAP - 1"
    using kbd_ring.bounded by (simp add: kbd_inv_def)
  ultimately show ?thesis by (auto simp: kbd_inv_def pending_def typable_def [abs_def] RB_CAP_def)
qed

theorem keyboard_safe_witness:
  "\<exists>k. kbd_run kbd_init [Scancode 0x2A, Scancode 0x1E, Report [0, 0, 4, 0, 0, 0, 0, 0]] = Some k
    \<and> length (pending k) \<le> 63 \<and> list_all (\<lambda>b. 1 \<le> b \<and> b \<le> 0x7E) (pending k)"
  by (rule keyboard_safe) simp

section \<open>The two keyboards type the same\<close>

text \<open>Scancode (set 1) and HID usage of every key that both decoders print.\<close>

definition US_KEYS :: "(u8 \<times> u8) list" where
  "US_KEYS = zip
     [0x1E, 0x30, 0x2E, 0x20, 0x12, 0x21, 0x22, 0x23, 0x17, 0x24, 0x25, 0x26, 0x32, 0x31, 0x18, 0x19,
      0x10, 0x13, 0x1F, 0x14, 0x16, 0x2F, 0x11, 0x2D, 0x15, 0x2C,
      0x02, 0x03, 0x04, 0x05, 0x06, 0x07, 0x08, 0x09, 0x0A, 0x0B,
      0x1C, 0x0E, 0x0F, 0x39, 0x0C, 0x0D, 0x1A, 0x1B, 0x2B, 0x27, 0x28, 0x29, 0x33, 0x34, 0x35]
     ([0x04, 0x05, 0x06, 0x07, 0x08, 0x09, 0x0A, 0x0B, 0x0C, 0x0D, 0x0E, 0x0F, 0x10, 0x11, 0x12, 0x13,
      0x14, 0x15, 0x16, 0x17, 0x18, 0x19, 0x1A, 0x1B, 0x1C, 0x1D,
      0x1E, 0x1F, 0x20, 0x21, 0x22, 0x23, 0x24, 0x25, 0x26, 0x27,
      0x28, 0x2A, 0x2B, 0x2C, 0x2D, 0x2E, 0x2F, 0x30, 0x31, 0x33, 0x34, 0x35, 0x36, 0x37, 0x38])"

definition hid_char :: "u8 \<Rightarrow> bool \<Rightarrow> bool \<Rightarrow> uchar option" where
  "hid_char u a c = (let b = hid_to_ascii u a c in if b = 0 then None else Some (unat b))"

lemma keys_agree: "list_all (\<lambda>(sc, u). scancode_to_char sc a c = hid_char u a c
    \<and> scancode_to_char sc a c \<noteq> None) US_KEYS"
  by (cases a; cases c) (simp_all add: US_KEYS_def scancode_to_char_def hid_char_def hid_to_ascii_def
      MAP_def SHIFT_MAP_def is_letter_def get_at_def)

definition key_codes :: "nat list" where
  "key_codes = map (\<lambda>(sc, u). unat sc) US_KEYS"

lemma unmapped_codes:
  "list_all (\<lambda>i. i = 0x37 \<or> i \<in> set key_codes \<or> MAP ! i = 0 \<and> SHIFT_MAP ! i = 0) [0..<58]"
  by code_simp

lemma scancodes_covered:
  assumes "scancode_to_char sc a c = Some ch" "sc \<noteq> 0x37"
  shows "sc \<in> set (map fst US_KEYS)"
proof -
  have len: "length MAP = 58" "length SHIFT_MAP = 58" by (simp_all add: MAP_def SHIFT_MAP_def)
  with assms(1) have "unat sc < 58" "\<not> (MAP ! unat sc = 0 \<and> SHIFT_MAP ! unat sc = 0)"
    by (auto simp: scancode_to_char_def Let_def get_at_def split: if_splits Option.bind_splits)
  moreover have "unat sc \<noteq> 0x37" using assms(2) by (auto simp: word_unat_eq_iff)
  ultimately have "unat sc \<in> set key_codes" using unmapped_codes by (auto simp: list_all_iff)
  then show ?thesis by (auto simp: key_codes_def image_iff) (force simp: word_unat_eq_iff)
qed

lemma usages_covered:
  assumes "hid_char u a c = Some ch"
  shows "u \<in> set (map snd US_KEYS)"
proof (cases "0x04 \<le> u \<and> u \<le> 0x1D")
  case True
  then have "4 \<le> unat u" "unat u \<le> 0x1D" by (simp_all add: word_le_nat_alt)
  then show ?thesis by (rule u8_range) (simp add: US_KEYS_def upt_rec)
next
  case False
  with assms show ?thesis
    by (auto simp: hid_char_def Let_def hid_to_ascii_def US_KEYS_def split: if_splits)
qed


section \<open>PS/2 modifiers follow the scancodes\<close>

text \<open>The scancodes not under an 0xE0 prefix; the flag says a prefix is pending.\<close>

fun unprefixed :: "bool \<Rightarrow> u8 list \<Rightarrow> u8 list" where
  "unprefixed e [] = []"
| "unprefixed e (sc # scs) =
     (if sc = 0xE0 then unprefixed True scs
      else if e then unprefixed False scs else sc # unprefixed False scs)"

text \<open>A key with make codes \<open>on\<close> and break codes \<open>off\<close> is as its last event left it.\<close>

definition last_event :: "u8 set \<Rightarrow> u8 set \<Rightarrow> bool \<Rightarrow> u8 list \<Rightarrow> bool" where
  "last_event on off b scs = fold (\<lambda>sc b. if sc \<in> on then True else if sc \<in> off then False else b) scs b"

definition SHIFT_ON :: "u8 set" where "SHIFT_ON = {0x2A, 0x36}"
definition SHIFT_OFF :: "u8 set" where "SHIFT_OFF = {0xAA, 0xB6}"

lemma last_event_simps:
  "last_event on off b [] = b"
  "last_event on off b (sc # scs) = last_event on off (if sc \<in> on then True else if sc \<in> off then False else b) scs"
  by (simp_all add: last_event_def)

lemma push_byte_only_ring: "push_byte k b = Some k' \<Longrightarrow> mods k' = mods k \<and> extended k' = extended k"
  by (auto simp: push_byte_def split: Option.bind_splits)

lemmas scancode_mods_simps = process_scancode_def Let_def SHIFT_ON_def SHIFT_OFF_def

lemma scancode_extended: "process_scancode k sc = Some k' \<Longrightarrow> extended k' = (sc = 0xE0)"
  by (auto simp: process_scancode_def Let_def dest: push_byte_only_ring split: if_splits option.splits)

lemma scancode_mods_prefixed:
  "process_scancode k sc = Some k' \<Longrightarrow> extended k \<or> sc = 0xE0 \<Longrightarrow> mods k' = mods k"
  by (auto simp: process_scancode_def Let_def dest!: push_byte_only_ring split: if_splits)

lemma scancode_mods:
  assumes "process_scancode k sc = Some k'" "\<not> extended k" "sc \<noteq> 0xE0"
  shows "shift (mods k') = last_event SHIFT_ON SHIFT_OFF (shift (mods k)) [sc]"
    and "ctrl (mods k') = last_event {0x1D} {0x9D} (ctrl (mods k)) [sc]"
    and "caps_lock (mods k') = (caps_lock (mods k) \<noteq> (sc = 0x3A))"
proof -
  consider "sc = 0x2A" | "sc = 0x36" | "sc = 0xAA" | "sc = 0xB6" | "sc = 0x1D" | "sc = 0x9D" | "sc = 0x3A"
    | "sc \<notin> {0x2A, 0x36, 0xAA, 0xB6, 0x1D, 0x9D, 0x3A}" "mods k' = mods k"
  proof -
    have "mods k' = mods k" if "sc \<notin> {0x2A, 0x36, 0xAA, 0xB6, 0x1D, 0x9D, 0x3A}"
      using assms that by (auto simp: process_scancode_def Let_def dest!: push_byte_only_ring
          split: if_splits option.splits)
    then show ?thesis using that by blast
  qed
  note cases = this
  show "shift (mods k') = last_event SHIFT_ON SHIFT_OFF (shift (mods k)) [sc]"
    using cases by cases (use assms in \<open>auto simp: scancode_mods_simps last_event_simps\<close>)
  show "ctrl (mods k') = last_event {0x1D} {0x9D} (ctrl (mods k)) [sc]"
    using cases by cases (use assms in \<open>auto simp: scancode_mods_simps last_event_simps\<close>)
  show "caps_lock (mods k') = (caps_lock (mods k) \<noteq> (sc = 0x3A))"
    using cases by cases (use assms in \<open>auto simp: scancode_mods_simps last_event_simps\<close>)
qed

lemma mods_after:
  "kbd_run k (map Scancode scs) = Some k' \<Longrightarrow>
     shift (mods k') = last_event SHIFT_ON SHIFT_OFF (shift (mods k)) (unprefixed (extended k) scs)
   \<and> ctrl (mods k') = last_event {0x1D} {0x9D} (ctrl (mods k)) (unprefixed (extended k) scs)
   \<and> caps_lock (mods k') = (caps_lock (mods k) \<noteq> odd (count_list (unprefixed (extended k) scs) 0x3A))"
proof (induction scs arbitrary: k)
  case (Cons sc scs)
  then obtain k1 where k1: "process_scancode k sc = Some k1" "kbd_run k1 (map Scancode scs) = Some k'"
    by (auto split: Option.bind_splits)
  note IH = Cons.IH [OF k1(2)] and ext = scancode_extended [OF k1(1)]
  show ?case
  proof (cases "extended k \<or> sc = 0xE0")
    case True
    with IH ext scancode_mods_prefixed [OF k1(1) True] show ?thesis by auto
  next
    case False
    with IH ext scancode_mods [OF k1(1)] show ?thesis by (auto simp: last_event_simps)
  qed
qed (simp add: last_event_simps)

text \<open>
  After any scancodes the PS/2 modifier state is what the unprefixed codes say: shift and
  ctrl are as their latest make or break left them (either shift key's release clears shift,
  whichever was pressed), caps lock has flipped once per 0x3A, and codes under an 0xE0 prefix
  (such as the fake shifts of the navigation keys) change no modifier.
\<close>

theorem modifiers_follow_scancodes:
  "\<exists>k. kbd_run kbd_init (map Scancode scs) = Some k
     \<and> shift (mods k) = last_event SHIFT_ON SHIFT_OFF False (unprefixed False scs)
     \<and> ctrl (mods k) = last_event {0x1D} {0x9D} False (unprefixed False scs)
     \<and> caps_lock (mods k) = odd (count_list (unprefixed False scs) 0x3A)"
proof -
  have "list_all event_ok (map Scancode scs)" by (simp add: list_all_iff)
  from kbd_run_ok [OF kbd_inv_init this] obtain k where "kbd_run kbd_init (map Scancode scs) = Some k"
    by (auto simp: returns_def)
  with mods_after [OF this] show ?thesis by (simp add: kbd_init_def)
qed

section \<open>HID reports\<close>

text \<open>The keys of a report that were not in the one before, and the bytes one key types.\<close>

definition newly_pressed :: "u8 list \<Rightarrow> u8 list \<Rightarrow> u8 list" where
  "newly_pressed prev keys = filter (\<lambda>u. u \<noteq> 0 \<and> u \<noteq> 1 \<and> u \<notin> set prev) keys"

definition key_bytes :: "bool \<Rightarrow> bool \<Rightarrow> bool \<Rightarrow> u8 \<Rightarrow> u8 list" where
  "key_bytes shft ctl caps u =
     (if u = 0x39 then []
      else case hid_nav u of
        Some b \<Rightarrow> [b]
      | None \<Rightarrow> (case hid_char u shft caps of None \<Rightarrow> [] | Some ch \<Rightarrow> [effective ctl ch]))"

lemma take_append_take: "take n (take n xs @ ys) = take n (xs @ ys)"
  by (cases "length xs \<le> n") simp_all

text \<open>What the loop over the keys \<open>us\<close> of a report leaves: caps lock toggled, the bytes queued.\<close>

definition hid_done ::
  "bool \<Rightarrow> bool \<Rightarrow> bool \<Rightarrow> u8 list \<Rightarrow> u8 list \<Rightarrow> kbd \<Rightarrow> kbd option \<Rightarrow> bool" where
  "hid_done shft ctl caps prev us k res \<longleftrightarrow> (\<exists>r. res
      = Some (k\<lparr>hid_caps_lock := (if 0x39 \<in> set (newly_pressed prev us) then \<not> caps else hid_caps_lock k),
                ring_of := r\<rparr>)
    \<and> rb_inv r
    \<and> rb_items r = take 63 (pending k @ concat (map (key_bytes shft ctl caps) (newly_pressed prev us))))"

lemma hid_done_push:
  assumes inv: "rb_inv (ring_of k)"
    and IH: "\<And>k. rb_inv (ring_of k) \<Longrightarrow> hid_done shft ctl caps prev us k (hid_loop shft ctl caps prev us k)"
    and step: "hid_loop shft ctl caps prev (u # us) k = push_byte k b \<bind> hid_loop shft ctl caps prev us"
    and bytes: "key_bytes shft ctl caps u = [b]" and new: "u \<noteq> 0" "u \<noteq> 1" "u \<notin> set prev" "u \<noteq> 0x39"
  shows "hid_done shft ctl caps prev (u # us) k (hid_loop shft ctl caps prev (u # us) k)"
proof -
  from push_byte_spec [OF inv, of b] obtain r where
    r: "push_byte k b = Some (k\<lparr>ring_of := r\<rparr>)" "rb_inv r" "rb_items r = take 63 (pending k @ [b])" by blast
  have "pending (k\<lparr>ring_of := r\<rparr>) = take 63 (pending k @ [b])" using r(3) by (simp add: pending_def)
  moreover have "newly_pressed prev (u # us) = u # newly_pressed prev us"
    using new by (simp add: newly_pressed_def)
  moreover have "hid_done shft ctl caps prev us (k\<lparr>ring_of := r\<rparr>)
      (hid_loop shft ctl caps prev us (k\<lparr>ring_of := r\<rparr>))"
    using IH r(2) by simp
  ultimately show ?thesis
    unfolding hid_done_def step r(1) Option.bind_lunit
    using bytes new(4) by (auto simp: take_append_take simp del: take_append cong: if_cong)
qed

lemma hid_loop_spec:
  "rb_inv (ring_of k) \<Longrightarrow> hid_done shft ctl caps prev us k (hid_loop shft ctl caps prev us k)"
proof (induction us arbitrary: k)
  case Nil
  have "length (pending k) \<le> 63"
    using kbd_ring.bounded [OF Nil] by (simp add: pending_def RB_CAP_def)
  with Nil show ?case
    by (auto simp: hid_done_def newly_pressed_def pending_def intro!: exI [of _ "ring_of k"])
next
  case (Cons u us)
  note push = hid_done_push [OF Cons.prems Cons.IH]
  consider (skip) "u = 0 \<or> u = 1 \<or> u \<in> set prev"
    | (caps) "\<not> (u = 0 \<or> u = 1 \<or> u \<in> set prev)" "u = 0x39"
    | (nav) b where "\<not> (u = 0 \<or> u = 1 \<or> u \<in> set prev)" "u \<noteq> 0x39" "hid_nav u = Some b"
    | (key) "\<not> (u = 0 \<or> u = 1 \<or> u \<in> set prev)" "u \<noteq> 0x39" "hid_nav u = None"
    by (cases "hid_nav u") auto
  then show ?case
  proof cases
    case skip
    with Cons.IH [OF Cons.prems] show ?thesis by (auto simp: hid_done_def newly_pressed_def)
  next
    case caps
    with Cons.IH [of "k\<lparr>hid_caps_lock := \<not> caps\<rparr>"] Cons.prems show ?thesis
      by (simp add: hid_done_def newly_pressed_def key_bytes_def pending_def cong: if_cong)
  next
    case nav
    show ?thesis by (rule push [where b = b]) (use nav in \<open>simp_all add: key_bytes_def\<close>)
  next
    case key
    show ?thesis
    proof (cases "hid_to_ascii u shft caps = 0")
      case True
      with key Cons.IH [OF Cons.prems] show ?thesis
        by (simp add: hid_done_def newly_pressed_def key_bytes_def hid_char_def)
    next
      case False
      show ?thesis
        by (rule push) (use key False in \<open>simp_all add: key_bytes_def hid_char_def Let_def\<close>)
    qed
  qed
qed

lemma process_hid_report_step:
  assumes "rb_inv (ring_of k)" "length report = 8"
  shows "\<exists>r. process_hid_report k report
      = Some (k\<lparr>hid_caps_lock := (if 0x39 \<in> set (newly_pressed (hid_prev k) (drop 2 report))
                                  then \<not> hid_caps_lock k else hid_caps_lock k),
               ring_of := r, hid_prev := drop 2 report\<rparr>)
    \<and> rb_items r = take 63 (pending k @ concat (map
        (key_bytes (hd report AND 0x22 \<noteq> 0) (hd report AND 0x11 \<noteq> 0) (hid_caps_lock k))
        (newly_pressed (hid_prev k) (drop 2 report))))"
proof -
  have "hd report = report ! 0" using assms(2) by (cases report) auto
  with hid_loop_spec [OF assms(1), of "hd report AND 0x22 \<noteq> 0" "hd report AND 0x11 \<noteq> 0" "hid_caps_lock k"
      "hid_prev k" "drop 2 report"] assms(2)
  show ?thesis by (auto simp: hid_done_def process_hid_report_def slice_def)
qed

text \<open>
  C16: One HID report does exactly this: each key of the report that was not in the previous
  report types its byte, in report order, with the report's shift and ctrl and the caps lock
  state from before the report, until the ring holds 63 bytes; a newly pressed caps lock key
  flips the caps lock; the report's keys become the previous ones; nothing else changes.
\<close>

theorem hid_report_spec:
  assumes "rb_inv (ring_of k)" "length report = 8"
  shows "\<exists>r. process_hid_report k report
      = Some (k\<lparr>hid_caps_lock := (if 0x39 \<in> set (newly_pressed (hid_prev k) (drop 2 report))
                                  then \<not> hid_caps_lock k else hid_caps_lock k),
               ring_of := r, hid_prev := drop 2 report\<rparr>)
    \<and> rb_items r = take 63 (pending k @ concat (map
        (key_bytes (hd report AND 0x22 \<noteq> 0) (hd report AND 0x11 \<noteq> 0) (hid_caps_lock k))
        (newly_pressed (hid_prev k) (drop 2 report))))"
  using process_hid_report_step [OF assms] .

theorem hid_report_spec_witness:
  "\<exists>r. process_hid_report kbd_init [2, 0, 4, 0x39, 0x52, 0, 0, 0]
      = Some (kbd_init\<lparr>hid_caps_lock := True, ring_of := r, hid_prev := [4, 0x39, 0x52, 0, 0, 0]\<rparr>)
    \<and> rb_items r = [65, 0x10]"
  using hid_report_spec [of kbd_init "[2, 0, 4, 0x39, 0x52, 0, 0, 0]"]
  by (simp add: kbd_init_def rb_inv_new rb_items_new pending_def newly_pressed_def key_bytes_def hid_nav_def
      hid_char_def hid_to_ascii_def effective_def)

text \<open>
  A held key types once: after any keyboard activity, repeating the report just processed
  changes nothing at all.
\<close>

theorem held_keys_silent:
  assumes "kbd_run kbd_init es = Some k" "list_all event_ok es" "length report = 8"
    "process_hid_report k report = Some k'"
  shows "process_hid_report k' report = Some k'"
proof -
  have loop: "hid_loop a c caps prev us k = Some k" if "set us \<subseteq> set prev" for a c caps prev us k
    using that by (induction us) auto
  have "hid_prev k' = drop 2 report"
    using assms(3,4) by (auto simp: process_hid_report_def slice_def split: Option.bind_splits)
  then show ?thesis using assms(3) by (simp add: process_hid_report_def slice_def loop)
qed

theorem held_keys_silent_witness:
  "\<exists>k'. process_hid_report kbd_init [0, 0, 4, 0, 0, 0, 0, 0] = Some k'
     \<and> process_hid_report k' [0, 0, 4, 0, 0, 0, 0, 0] = Some k'"
proof -
  from process_hid_report_ok [OF kbd_inv_init, of "[0, 0, 4, 0, 0, 0, 0, 0]"] obtain k' where
    k': "process_hid_report kbd_init [0, 0, 4, 0, 0, 0, 0, 0] = Some k'" by (auto simp: returns_def)
  from held_keys_silent [of "[]" kbd_init, OF _ _ _ k'] k' show ?thesis by simp
qed

text \<open>
  The phantom-state report (every key slot 0x01, which a keyboard sends when too many keys
  are down) makes the decoder forget what is held: a key that was down before and after it is
  typed a second time, although it was never released.
\<close>

theorem rollover_retypes_held_key:
  assumes "rb_inv (ring_of k)" "length (pending k) < 62" "u \<notin> set (hid_prev k)" "u \<noteq> 0x39"
    "hid_nav u = None" "hid_char u False (hid_caps_lock k) = Some ch" "1 < u"
  shows "\<exists>k'. kbd_run k [Report [0, 0, u, 0, 0, 0, 0, 0], Report [0, 0, 1, 1, 1, 1, 1, 1],
                        Report [0, 0, u, 0, 0, 0, 0, 0]] = Some k'
    \<and> pending k' = pending k @ [effective False ch, effective False ch]"
proof -
  have "u \<noteq> 0" "u \<noteq> 1" using assms(7) by auto
  note u = this assms(3-6)
  have bytes: "key_bytes False False (hid_caps_lock k) u = [effective False ch]" by (simp add: key_bytes_def u)
  from hid_loop_spec [OF assms(1), of False False "hid_caps_lock k" "hid_prev k" "[u, 0, 0, 0, 0, 0]"]
  obtain r1 where r1: "hid_loop False False (hid_caps_lock k) (hid_prev k) [u, 0, 0, 0, 0, 0] k = Some (k\<lparr>ring_of := r1\<rparr>)"
    "rb_inv r1" "rb_items r1 = pending k @ [effective False ch]"
    using assms(2) u bytes by (auto simp: hid_done_def newly_pressed_def)
  let ?k1 = "k\<lparr>ring_of := r1, hid_prev := [u, 0, 0, 0, 0, 0]\<rparr>"
  let ?k2 = "k\<lparr>ring_of := r1, hid_prev := [1, 1, 1, 1, 1, 1]\<rparr>"
  have s1: "process_hid_report k [0, 0, u, 0, 0, 0, 0, 0] = Some ?k1"
    using r1(1) by (simp add: process_hid_report_def slice_def del: hid_loop.simps)
  have s2: "process_hid_report ?k1 [0, 0, 1, 1, 1, 1, 1, 1] = Some ?k2"
    by (simp add: process_hid_report_def slice_def)
  from hid_loop_spec [of ?k2 False False "hid_caps_lock k" "[1, 1, 1, 1, 1, 1]" "[u, 0, 0, 0, 0, 0]"]
  obtain r2 where r2: "hid_loop False False (hid_caps_lock k) [1, 1, 1, 1, 1, 1] [u, 0, 0, 0, 0, 0] ?k2
      = Some (?k2\<lparr>ring_of := r2\<rparr>)" "rb_items r2 = pending k @ [effective False ch, effective False ch]"
    using r1 assms(2) u bytes by (auto simp: hid_done_def newly_pressed_def pending_def)
  have "process_hid_report ?k2 [0, 0, u, 0, 0, 0, 0, 0]
      = Some (k\<lparr>ring_of := r2, hid_prev := [u, 0, 0, 0, 0, 0]\<rparr>)"
    using r2(1) by (simp add: process_hid_report_def slice_def del: hid_loop.simps)
  with s1 s2 r2(2) show ?thesis by (simp add: pending_def)
qed

theorem rollover_retypes_held_key_witness:
  "\<exists>k'. kbd_run kbd_init [Report [0, 0, 4, 0, 0, 0, 0, 0], Report [0, 0, 1, 1, 1, 1, 1, 1],
                          Report [0, 0, 4, 0, 0, 0, 0, 0]] = Some k'
    \<and> pending k' = [97, 97]"
  using rollover_retypes_held_key [of kbd_init 4 97]
  by (simp add: kbd_init_def rb_inv_new rb_items_new pending_def hid_nav_def hid_char_def hid_to_ascii_def
      effective_def)

end
