(* ===== verification/XhciRing.thy ===== *)
theory XhciRing
  imports Prelude
begin

text \<open>
  The transfer request block (TRB) rings of hal/src/xhci.rs.  The driver produces on the
  command ring, the EP0 ring and the keyboard's interrupt ring: \<open>cmd_push\<close>, \<open>ep0_push\<close> and
  \<open>arm_kbd_ep_raw\<close>, the last slot of each being a Link TRB.  \<open>trb_ring\<close> is the contract the
  three share; its consumer \<open>ring_fetch\<close> follows the cycle bits as the xHCI specification
  prescribes for the controller.
\<close>

section \<open>The model\<close>

record trb =
  dw0 :: u32
  dw1 :: u32
  dw2 :: u32
  dw3 :: u32

abbreviation TRB :: "u32 \<Rightarrow> u32 \<Rightarrow> u32 \<Rightarrow> u32 \<Rightarrow> trb" where
  "TRB a b c d \<equiv> \<lparr>dw0 = a, dw1 = b, dw2 = c, dw3 = d\<rparr>"

definition trb_zero :: trb where "trb_zero = TRB 0 0 0 0"

definition CMD_N :: nat where "CMD_N = 16"
definition EVT_N :: nat where "EVT_N = 64"
definition EP0_N :: nat where "EP0_N = 8"
definition INT_N :: nat where "INT_N = 8"

definition TRB_NORMAL :: u32 where "TRB_NORMAL = 1"
definition TRB_LINK :: u32 where "TRB_LINK = 6"

text \<open>\<open>CmdState\<close>, \<open>Ep0State\<close> and \<open>EvtState\<close>: an index and the cycle bit of its owner.\<close>

record ring_pos =
  slot_at :: nat
  cycle_at :: u32

definition ring_start :: ring_pos where
  "ring_start = \<lparr>slot_at = 0, cycle_at = 1\<rparr>"

definition trb_type :: "trb \<Rightarrow> u32" where
  "trb_type t = drop_bit 10 (dw3 t) AND 0x3F"

text \<open>The idiom \<open>(dw[3] & !1) | c\<close>: hand the block over with cycle bit \<open>c\<close>.\<close>

definition set_cycle :: "u32 \<Rightarrow> trb \<Rightarrow> trb" where
  "set_cycle c t = t\<lparr>dw3 := (dw3 t AND NOT 1) OR c\<rparr>"

definition cmd_push :: "trb list \<Rightarrow> ring_pos \<Rightarrow> trb \<Rightarrow> (trb list \<times> ring_pos) option" where
  "cmd_push r st d =
     (let c = cycle_at st
      in do { r \<leftarrow> set_at r (slot_at st) (set_cycle c d);
              let st = st\<lparr>slot_at := slot_at st + 1\<rparr>;
              if slot_at st = CMD_N - 1 then
                do { link \<leftarrow> get_at r (CMD_N - 1);
                     r \<leftarrow> set_at r (CMD_N - 1) (set_cycle c link);
                     Some (r, \<lparr>slot_at = 0, cycle_at = c XOR 1\<rparr>) }
              else Some (r, st) })"

definition ep0_push :: "trb list \<Rightarrow> ring_pos \<Rightarrow> trb \<Rightarrow> (trb list \<times> ring_pos) option" where
  "ep0_push r st d =
     (let c = cycle_at st
      in do { r \<leftarrow> set_at r (slot_at st) (set_cycle c d);
              let st = st\<lparr>slot_at := slot_at st + 1\<rparr>;
              if slot_at st = EP0_N - 1 then
                do { link \<leftarrow> get_at r (EP0_N - 1);
                     r \<leftarrow> set_at r (EP0_N - 1) (set_cycle c link);
                     Some (r, \<lparr>slot_at = 0, cycle_at = c XOR 1\<rparr>) }
              else Some (r, st) })"

text \<open>\<open>arm_kbd_ep_raw\<close> posts a normal TRB for the 8-byte report buffer, with an event on completion.\<close>

definition report_trb :: "u64 \<Rightarrow> u32 \<Rightarrow> trb" where
  "report_trb buf_phys c =
     TRB (ucast buf_phys) (ucast (drop_bit 32 buf_phys)) 8 (push_bit 10 TRB_NORMAL OR push_bit 5 1 OR c)"

definition arm_kbd_ep_raw :: "trb list \<Rightarrow> ring_pos \<Rightarrow> u64 \<Rightarrow> (trb list \<times> ring_pos) option" where
  "arm_kbd_ep_raw r st buf_phys =
     (let c = cycle_at st; link_idx = INT_N - 1
      in do { r \<leftarrow> set_at r (slot_at st) (report_trb buf_phys c);
              let new_enq = slot_at st + 1;
              if new_enq = link_idx then
                do { link \<leftarrow> get_at r link_idx;
                     r \<leftarrow> set_at r link_idx (set_cycle c link);
                     Some (r, \<lparr>slot_at = 0, cycle_at = c XOR 1\<rparr>) }
              else Some (r, \<lparr>slot_at = new_enq, cycle_at = c\<rparr>) })"

text \<open>The Link TRB that \<open>init\<close> puts into the last slot of a zeroed ring: toggle cycle, cycle 1.\<close>

definition link_trb :: "u64 \<Rightarrow> trb" where
  "link_trb ring_phys =
     TRB (ucast ring_phys) (ucast (drop_bit 32 ring_phys)) 0 (push_bit 10 TRB_LINK OR push_bit 1 1 OR 1)"

definition linked_ring :: "nat \<Rightarrow> u64 \<Rightarrow> trb list" where
  "linked_ring n ring_phys = (replicate n trb_zero)[n - 1 := link_trb ring_phys]"

section \<open>The consumer of the protocol\<close>

text \<open>
  A TRB belongs to the consumer when its cycle bit is the consumer's.  A Link TRB sends the
  consumer back to slot 0, flipping its cycle state when the toggle bit is set.
\<close>

definition owned :: "trb \<Rightarrow> u32 \<Rightarrow> bool" where
  "owned t c \<longleftrightarrow> dw3 t AND 1 = c"

definition ring_fetch :: "trb list \<Rightarrow> ring_pos \<Rightarrow> (trb \<times> ring_pos) option" where
  "ring_fetch r p =
     (if \<not> owned (r ! slot_at p) (cycle_at p) then None
      else if trb_type (r ! slot_at p) \<noteq> TRB_LINK then
        Some (r ! slot_at p, p\<lparr>slot_at := slot_at p + 1\<rparr>)
      else
        (let c = (if bit (dw3 (r ! slot_at p)) 1 then cycle_at p XOR 1 else cycle_at p)
         in if owned (r ! 0) c then Some (r ! 0, \<lparr>slot_at = 1, cycle_at = c\<rparr>) else None))"

text \<open>
  Histories of the producer and the consumer; \<open>fits\<close> holds when at most \<open>k\<close> blocks are ever
  outstanding, starting with \<open>q\<close> of them.
\<close>

datatype 'x ring_op = Post 'x | Fetch

fun ring_run :: "(trb list \<Rightarrow> ring_pos \<Rightarrow> 'x \<Rightarrow> (trb list \<times> ring_pos) option) \<Rightarrow> 'x ring_op list
    \<Rightarrow> trb list \<Rightarrow> ring_pos \<Rightarrow> ring_pos \<Rightarrow> trb option list option" where
  "ring_run push [] r st p = Some []"
| "ring_run push (Post x # ops) r st p = do { (r, st) \<leftarrow> push r st x; ring_run push ops r st p }"
| "ring_run push (Fetch # ops) r st p =
     (case ring_fetch r p of
        None \<Rightarrow> do { out \<leftarrow> ring_run push ops r st p; Some (None # out) }
      | Some (t, p) \<Rightarrow> do { out \<leftarrow> ring_run push ops r st p; Some (Some (set_cycle 0 t) # out) })"

fun fifo_run :: "('x \<Rightarrow> trb) \<Rightarrow> 'x ring_op list \<Rightarrow> 'x list \<Rightarrow> trb option list" where
  "fifo_run f [] q = []"
| "fifo_run f (Post x # ops) q = fifo_run f ops (q @ [x])"
| "fifo_run f (Fetch # ops) [] = None # fifo_run f ops []"
| "fifo_run f (Fetch # ops) (x # q) = Some (set_cycle 0 (f x)) # fifo_run f ops q"

fun fits :: "nat \<Rightarrow> 'x ring_op list \<Rightarrow> nat \<Rightarrow> bool" where
  "fits k [] q = True"
| "fits k (Post x # ops) q = (q < k \<and> fits k ops (q + 1))"
| "fits k (Fetch # ops) q = fits k ops (q - 1)"

section \<open>The contract of a producer ring\<close>

locale trb_ring =
  fixes push :: "trb list \<Rightarrow> ring_pos \<Rightarrow> 'x \<Rightarrow> (trb list \<times> ring_pos) option"
    and block :: "'x \<Rightarrow> trb"
    and slots :: nat
  assumes slots: "2 < slots"
    and push_law: "length r = slots \<Longrightarrow> slot_at st + 1 < slots \<Longrightarrow>
      \<exists>r' st'. push r st x = Some (r', st') \<and> length r' = slots
        \<and> (\<forall>i < slots - 1. r' ! i = (if i = slot_at st then set_cycle (cycle_at st) (block x) else r ! i))
        \<and> (if slot_at st + 2 = slots
           then st' = \<lparr>slot_at = 0, cycle_at = cycle_at st XOR 1\<rparr>
             \<and> r' ! (slots - 1) = set_cycle (cycle_at st) (r ! (slots - 1))
           else st' = \<lparr>slot_at = slot_at st + 1, cycle_at = cycle_at st\<rparr>
             \<and> r' ! (slots - 1) = r ! (slots - 1))"

text \<open>The cycle bit in the k-th round over the ring.\<close>

definition phase :: "nat \<Rightarrow> u32" where
  "phase k = (if even k then 1 else 0)"

text \<open>
  \<open>ring_holds m r st p q c\<close>: the ring of \<open>m\<close> data slots and a Link TRB holds the outstanding
  blocks \<open>q\<close>, after \<open>c\<close> blocks have been consumed; the consumer may still stand at the Link TRB.
\<close>

definition ring_holds :: "nat \<Rightarrow> trb list \<Rightarrow> ring_pos \<Rightarrow> ring_pos \<Rightarrow> trb list \<Rightarrow> nat \<Rightarrow> bool" where
  "ring_holds m r st p q c \<longleftrightarrow>
     length r = m + 1 \<and> 1 < m \<and> length q < m \<and> (\<forall>t \<in> set q. trb_type t \<noteq> TRB_LINK)
     \<and> st = \<lparr>slot_at = (c + length q) mod m, cycle_at = phase ((c + length q) div m)\<rparr>
     \<and> (p = \<lparr>slot_at = c mod m, cycle_at = phase (c div m)\<rparr>
        \<or> 0 < c \<and> c mod m = 0 \<and> p = \<lparr>slot_at = m, cycle_at = phase (c div m - 1)\<rparr>)
     \<and> (\<forall>j. c \<le> j \<and> j < c + m \<longrightarrow>
          (if j < c + length q then r ! (j mod m) = set_cycle (phase (j div m)) (q ! (j - c))
           else dw3 (r ! (j mod m)) AND 1 = phase (j div m) XOR 1))
     \<and> trb_type (r ! m) = TRB_LINK \<and> bit (dw3 (r ! m)) 1
     \<and> (m \<le> c + length q \<longrightarrow> dw3 (r ! m) AND 1 = phase ((c + length q) div m - 1))"

lemma phase_Suc: "phase (Suc k) = phase k XOR 1"
  and phase_flip [simp]: "phase k XOR 1 \<noteq> phase k"
  and phase_and: "phase k AND 1 = phase k"
  by (simp_all add: phase_def)

lemma bit_set_cycle:
  assumes "c AND 1 = c" "n < 32"
  shows "bit (dw3 (set_cycle c t)) n \<longleftrightarrow> (if n = 0 then bit c 0 else bit (dw3 t) n)"
proof -
  have "bit c n = (bit c n \<and> n = 0)"
    by (subst assms(1) [symmetric]) (simp only: bit_and_iff bit_1_iff)
  moreover have "bit (dw3 (set_cycle c t)) n \<longleftrightarrow> bit (dw3 t) n \<and> n \<noteq> 0 \<or> bit c n"
    using assms(2) by (simp add: set_cycle_def bit_or_iff bit_and_iff bit_not_iff bit_1_iff del: not_one_eq)
  ultimately show ?thesis by auto
qed

lemma set_cycle_bit [simp]: "c AND 1 = c \<Longrightarrow> dw3 (set_cycle c t) AND 1 = c"
proof (rule bit_word_eqI)
  fix n assume c: "c AND 1 = c" and n: "n < LENGTH(32)"
  have "bit c n = (bit c n \<and> n = 0)" by (subst c [symmetric]) (simp only: bit_and_iff bit_1_iff)
  then show "bit (dw3 (set_cycle c t) AND 1) n = bit c n"
    using n bit_set_cycle [OF c, of n t] by (auto simp: bit_and_iff bit_1_iff)
qed

lemma set_cycle_toggle [simp]: "c AND 1 = c \<Longrightarrow> bit (dw3 (set_cycle c t)) (Suc 0) = bit (dw3 t) (Suc 0)"
  by (simp add: bit_set_cycle)

lemma trb_type_set_cycle [simp]:
  assumes "c AND 1 = c"
  shows "trb_type (set_cycle c t) = trb_type t"
proof -
  have "drop_bit 10 (dw3 (set_cycle c t)) = drop_bit 10 (dw3 t)"
  proof (rule bit_word_eqI)
    fix n :: nat
    show "bit (drop_bit 10 (dw3 (set_cycle c t))) n = bit (drop_bit 10 (dw3 t)) n"
      using bit_set_cycle [OF assms, of "10 + n" t] by (cases "10 + n < 32") (auto simp: bit_drop_bit_eq dest: bit_imp_le_length)
  qed
  then show ?thesis by (simp add: trb_type_def)
qed

lemma set_cycle_set_cycle [simp]:
  assumes "c AND 1 = c"
  shows "set_cycle 0 (set_cycle c t) = set_cycle 0 t"
proof -
  have "dw3 (set_cycle 0 (set_cycle c t)) = dw3 (set_cycle 0 t)"
    by (rule bit_word_eqI) (simp add: bit_set_cycle assms)
  then show ?thesis by (simp add: set_cycle_def)
qed

lemma mod_window:
  assumes "c \<le> (i::nat)" "i < c + m" "c \<le> j" "j < c + m" "i mod m = j mod m"
  shows "i = j"
proof (rule ccontr)
  assume "i \<noteq> j"
  then consider "i < j" | "j < i" by linarith
  then show False
  proof cases
    case 1
    with assms(5) have "m dvd j - i" by (metis mod_eq_dvd_iff_nat less_imp_le)
    with 1 assms(1,4) show False by (auto dest: dvd_imp_le)
  next
    case 2
    with assms(5) have "m dvd i - j" by (metis mod_eq_dvd_iff_nat less_imp_le)
    with 2 assms(2,3) show False by (auto dest: dvd_imp_le)
  qed
qed

lemma linked_ring_holds:
  assumes "1 < m"
  shows "ring_holds m (linked_ring (m + 1) a) ring_start ring_start [] 0"
proof -
  have "trb_type (link_trb a) = TRB_LINK" "bit (dw3 (link_trb a)) 1"
    by (simp_all add: trb_type_def link_trb_def TRB_LINK_def)
  then show ?thesis using assms
    by (auto simp: ring_holds_def linked_ring_def ring_start_def phase_def trb_zero_def nth_list_update
      simp del: replicate_Suc)
qed

lemma fetch_nothing: "ring_holds m r st p [] c \<Longrightarrow> ring_fetch r p = None"
proof -
  assume h: "ring_holds m r st p [] c"
  then have slot: "dw3 (r ! (c mod m)) AND 1 = phase (c div m) XOR 1" and link: "bit (dw3 (r ! m)) 1"
    and at: "p = \<lparr>slot_at = c mod m, cycle_at = phase (c div m)\<rparr>
        \<or> 0 < c \<and> c mod m = 0 \<and> p = \<lparr>slot_at = m, cycle_at = phase (c div m - 1)\<rparr>"
    and type: "trb_type (r ! m) = TRB_LINK"
    by (auto simp: ring_holds_def)
  from at show ?thesis
  proof
    assume "p = \<lparr>slot_at = c mod m, cycle_at = phase (c div m)\<rparr>"
    then show ?thesis using slot by (simp add: ring_fetch_def owned_def)
  next
    assume p: "0 < c \<and> c mod m = 0 \<and> p = \<lparr>slot_at = m, cycle_at = phase (c div m - 1)\<rparr>"
    then have "phase (c div m - 1) XOR 1 = phase (c div m)"
      using phase_Suc [of "c div m - 1"] by (cases "c div m") (auto simp: div_eq_0_iff)
    then show ?thesis using p slot link type by (auto simp: ring_fetch_def owned_def Let_def)
  qed
qed

lemma fetch_first:
  assumes h: "ring_holds m r st p (x # q) c"
  shows "\<exists>t p'. ring_fetch r p = Some (t, p') \<and> set_cycle 0 t = set_cycle 0 x
    \<and> ring_holds m r st p' q (c + 1)"
proof -
  from h have m: "1 < m" and small: "length q + 1 < m"
    and first: "r ! (c mod m) = set_cycle (phase (c div m)) x" and data: "trb_type x \<noteq> TRB_LINK"
    and link: "bit (dw3 (r ! m)) 1" "trb_type (r ! m) = TRB_LINK"
      "m \<le> c + length q + 1 \<longrightarrow> dw3 (r ! m) AND 1 = phase ((c + length q + 1) div m - 1)"
    and at: "p = \<lparr>slot_at = c mod m, cycle_at = phase (c div m)\<rparr>
        \<or> 0 < c \<and> c mod m = 0 \<and> p = \<lparr>slot_at = m, cycle_at = phase (c div m - 1)\<rparr>"
    by (auto simp: ring_holds_def)
  define p' where "p' = \<lparr>slot_at = c mod m + 1, cycle_at = phase (c div m)\<rparr>"
  have "ring_fetch r p = Some (r ! (c mod m), p')"
    using at
  proof
    assume "p = \<lparr>slot_at = c mod m, cycle_at = phase (c div m)\<rparr>"
    then show ?thesis using first data by (simp add: ring_fetch_def owned_def phase_and p'_def)
  next
    assume p: "0 < c \<and> c mod m = 0 \<and> p = \<lparr>slot_at = m, cycle_at = phase (c div m - 1)\<rparr>"
    then have "m dvd c" by (simp add: dvd_eq_mod_eq_0)
    then obtain k where c: "c = k * m" "0 < k" using p by (auto elim!: dvdE simp: mult.commute)
    have "(c + length q + 1) div m = (length q + 1 + k * m) div m" by (simp add: c(1) ac_simps)
    then have k: "(c + length q + 1) div m = k" using m small by (simp del: add_Suc)
    have "m \<le> c + length q + 1" using c by (cases k) auto
    then have "dw3 (r ! m) AND 1 = phase (k - 1)" using link(3) k by simp
    moreover have "phase (k - 1) XOR 1 = phase k" using c(2) phase_Suc [of "k - 1"] by simp
    ultimately show ?thesis using p c link(1,2) first small
      by (simp add: ring_fetch_def owned_def phase_and p'_def Let_def)
  qed
  moreover have "p' = \<lparr>slot_at = (c + 1) mod m, cycle_at = phase ((c + 1) div m)\<rparr>
      \<or> 0 < c + 1 \<and> (c + 1) mod m = 0 \<and> p' = \<lparr>slot_at = m, cycle_at = phase ((c + 1) div m - 1)\<rparr>"
    using m by (auto simp: p'_def mod_Suc div_Suc)
  moreover have "if j < c + 1 + length q then r ! (j mod m) = set_cycle (phase (j div m)) (q ! (j - (c + 1)))
      else dw3 (r ! (j mod m)) AND 1 = phase (j div m) XOR 1" if "c + 1 \<le> j" "j < c + 1 + m" for j
  proof (cases "j = c + m")
    case True
    moreover have "(c + m) div m = Suc (c div m)" using m div_add_self2 [of m c] by simp
    ultimately show ?thesis using first small by (simp add: phase_and phase_Suc xor.assoc)
  next
    case False
    with that h show ?thesis by (auto simp: ring_holds_def nth_Cons')
  qed
  ultimately show ?thesis using h first by (auto simp: ring_holds_def phase_and)
qed

text \<open>The link TRB after the post in slot \<open>n\<close>: retagged when the post filled the last slot.\<close>

lemma link_after_post:
  assumes m: "1 < m" and old: "trb_type (r ! m) = TRB_LINK" "bit (dw3 (r ! m)) 1"
      "m \<le> n \<longrightarrow> dw3 (r ! m) AND 1 = phase (n div m - 1)"
    and wrap: "if n mod m + 1 = m then S \<and> r' ! m = set_cycle (phase (n div m)) (r ! m)
               else S' \<and> r' ! m = r ! m"
  shows "trb_type (r' ! m) = TRB_LINK \<and> bit (dw3 (r' ! m)) 1
    \<and> (m \<le> n + 1 \<longrightarrow> dw3 (r' ! m) AND 1 = phase ((n + 1) div m - 1))"
proof (cases "n mod m + 1 = m")
  case True
  with wrap old(1,2) show ?thesis by (simp add: div_Suc mod_Suc phase_and)
next
  case False
  moreover have "m \<le> n" if "m \<le> n + 1"
    using that False m by (cases "n + 1 = m") auto
  ultimately show ?thesis using wrap old by (simp add: div_Suc mod_Suc)
qed

context trb_ring
begin

lemma post_holds:
  assumes holds: "ring_holds (slots - 1) r st p q c" and room: "length q + 1 < slots - 1"
    and data: "trb_type (block x) \<noteq> TRB_LINK"
  shows "\<exists>r' st'. push r st x = Some (r', st') \<and> ring_holds (slots - 1) r' st' p (q @ [block x]) c"
proof -
  define m where "m = slots - 1"
  define n where "n = c + length q"
  have m: "1 < m" "slots = m + 1" using slots by (auto simp: m_def)
  note h = holds [folded m_def, unfolded ring_holds_def, folded n_def]
  from h have st: "slot_at st = n mod m" "cycle_at st = phase (n div m)" and len: "length r = m + 1" by auto
  have slot: "n mod m < m" using m by simp
  have "slot_at st + 1 < slots" using st slot m by simp
  from push_law [OF _ this, of r x, unfolded st m(2) add_diff_cancel_right'] len have
    "\<exists>r' st'. push r st x = Some (r', st') \<and> length r' = m + 1
      \<and> (\<forall>i<m. r' ! i = (if i = n mod m then set_cycle (phase (n div m)) (block x) else r ! i))
      \<and> (if n mod m + 1 = m
         then st' = \<lparr>slot_at = 0, cycle_at = phase (n div m) XOR 1\<rparr>
           \<and> r' ! m = set_cycle (phase (n div m)) (r ! m)
         else st' = \<lparr>slot_at = n mod m + 1, cycle_at = phase (n div m)\<rparr> \<and> r' ! m = r ! m)"
    by simp
  then obtain r' st' where
    push: "push r st x = Some (r', st')" "length r' = m + 1"
    and data': "\<forall>i<m. r' ! i = (if i = n mod m then set_cycle (phase (n div m)) (block x) else r ! i)"
    and wrap: "if n mod m + 1 = m
               then st' = \<lparr>slot_at = 0, cycle_at = phase (n div m) XOR 1\<rparr>
                 \<and> r' ! m = set_cycle (phase (n div m)) (r ! m)
               else st' = \<lparr>slot_at = n mod m + 1, cycle_at = phase (n div m)\<rparr> \<and> r' ! m = r ! m"
    by blast
  have st': "st' = \<lparr>slot_at = (n + 1) mod m, cycle_at = phase ((n + 1) div m)\<rparr>"
    using wrap by (auto simp: mod_Suc div_Suc phase_Suc split: if_splits)
  from h have "trb_type (r ! m) = TRB_LINK" "bit (dw3 (r ! m)) 1"
    "m \<le> n \<longrightarrow> dw3 (r ! m) AND 1 = phase (n div m - 1)" by auto
  from link_after_post [OF m(1) this wrap]
  have link: "trb_type (r' ! m) = TRB_LINK \<and> bit (dw3 (r' ! m)) 1
      \<and> (m \<le> n + 1 \<longrightarrow> dw3 (r' ! m) AND 1 = phase ((n + 1) div m - 1))" .
  have slots': "if j < n + 1 then r' ! (j mod m) = set_cycle (phase (j div m)) ((q @ [block x]) ! (j - c))
      else dw3 (r' ! (j mod m)) AND 1 = phase (j div m) XOR 1" if j: "c \<le> j" "j < c + m" for j
  proof (cases "j = n")
    case True
    then show ?thesis using data' slot by (simp add: n_def)
  next
    case False
    have n: "c \<le> n" "n < c + m" using room by (auto simp: n_def m_def)
    have "j mod m \<noteq> n mod m" using mod_window [OF j n] False by blast
    then have "r' ! (j mod m) = r ! (j mod m)" using data' m by simp
    then show ?thesis using h j False by (auto simp: nth_append n_def)
  qed
  have "ring_holds m r' st' p (q @ [block x]) c"
    unfolding ring_holds_def using h push(2) room data st' link slots' m
    by (auto simp: m_def [symmetric] n_def)
  with push(1) show ?thesis unfolding m_def by blast
qed

lemma run_fifo:
  assumes "ring_holds (slots - 1) r st p (map block q) c" "fits (slots - 2) ops (length q)"
    and "\<forall>x. Post x \<in> set ops \<longrightarrow> trb_type (block x) \<noteq> TRB_LINK"
  shows "ring_run push ops r st p = Some (fifo_run block ops q)"
  using assms
proof (induction ops arbitrary: r st p q c)
  case (Cons op ops)
  show ?case
  proof (cases op)
    case (Post x)
    have "length (map block q) + 1 < slots - 1" using Cons.prems(2) Post by auto
    with Post Cons.prems post_holds [of r st p "map block q" c x] obtain r' st' where
      "push r st x = Some (r', st')" "ring_holds (slots - 1) r' st' p (map block (q @ [x])) c"
      by auto
    with Cons.IH [of r' st' p "q @ [x]" c] Cons.prems Post show ?thesis by simp
  next
    case Fetch
    show ?thesis
    proof (cases q)
      case Nil
      with Cons.prems(1) have "ring_fetch r p = None" by (simp add: fetch_nothing)
      with Cons.IH [OF Cons.prems(1)] Cons.prems Fetch Nil show ?thesis by simp
    next
      case (Cons x xs)
      with Cons.prems(1) fetch_first [of "slots - 1" r st p "block x" "map block xs" c] obtain t p' where
        "ring_fetch r p = Some (t, p')" "set_cycle 0 t = set_cycle 0 (block x)"
        "ring_holds (slots - 1) r st p' (map block xs) (c + 1)" by auto
      with Cons.IH [of r st p' xs "c + 1"] Cons.prems Fetch Cons show ?thesis by simp
    qed
  qed
qed simp

lemma linked_ring_fifo:
  assumes "fits (slots - 2) ops 0" "\<forall>x. Post x \<in> set ops \<longrightarrow> trb_type (block x) \<noteq> TRB_LINK"
  shows "ring_run push ops (linked_ring slots a) ring_start ring_start = Some (fifo_run block ops [])"
  using run_fifo [of "linked_ring slots a" ring_start ring_start "[]" 0] assms slots
    linked_ring_holds [of "slots - 1" a] by simp

end

section \<open>The rings of the driver\<close>

lemma report_trb_cycle: "report_trb a c = set_cycle c (report_trb a 0)"
  by (simp add: report_trb_def set_cycle_def TRB_NORMAL_def or.assoc [symmetric])

interpretation cmd_ring: trb_ring cmd_push id CMD_N
  by unfold_locales (auto simp: cmd_push_def CMD_N_def Let_def nth_list_update)

interpretation ep0_ring: trb_ring ep0_push id EP0_N
  by unfold_locales (auto simp: ep0_push_def EP0_N_def Let_def nth_list_update)

interpretation report_ring: trb_ring arm_kbd_ep_raw "\<lambda>a. report_trb a 0" INT_N
proof unfold_locales
  show "2 < INT_N" by (simp add: INT_N_def)
next
  fix r :: "trb list" and st :: ring_pos and a :: u64
  assume "length r = INT_N" "slot_at st + 1 < INT_N"
  then show "\<exists>r' st'. arm_kbd_ep_raw r st a = Some (r', st') \<and> length r' = INT_N
        \<and> (\<forall>i < INT_N - 1. r' ! i = (if i = slot_at st then set_cycle (cycle_at st) (report_trb a 0) else r ! i))
        \<and> (if slot_at st + 2 = INT_N
           then st' = \<lparr>slot_at = 0, cycle_at = cycle_at st XOR 1\<rparr>
             \<and> r' ! (INT_N - 1) = set_cycle (cycle_at st) (r ! (INT_N - 1))
           else st' = \<lparr>slot_at = slot_at st + 1, cycle_at = cycle_at st\<rparr>
             \<and> r' ! (INT_N - 1) = r ! (INT_N - 1))"
    by (auto simp: arm_kbd_ep_raw_def INT_N_def Let_def nth_list_update
      report_trb_cycle [of _ "cycle_at st"])
qed

lemma report_trb_type: "trb_type (report_trb a 0) \<noteq> TRB_LINK"
  by (simp add: trb_type_def report_trb_def TRB_NORMAL_def TRB_LINK_def)

text \<open>
  C17: The controller, following the cycle bits and the Link TRBs, receives the blocks the
  driver posts on the command, EP0 and interrupt rings exactly once and in order, across any
  number of wraps and however posts and fetches interleave, and no post panics, while at most
  all but two slots of a ring are outstanding.
\<close>

theorem trb_rings_fifo:
  assumes "\<forall>t. Post t \<in> set cops \<union> set eops \<longrightarrow> trb_type t \<noteq> TRB_LINK"
    and "fits (CMD_N - 2) cops 0" "fits (EP0_N - 2) eops 0" "fits (INT_N - 2) iops 0"
  shows "ring_run cmd_push cops (linked_ring CMD_N a) ring_start ring_start = Some (fifo_run id cops [])
    \<and> ring_run ep0_push eops (linked_ring EP0_N b) ring_start ring_start = Some (fifo_run id eops [])
    \<and> ring_run arm_kbd_ep_raw iops (linked_ring INT_N c) ring_start ring_start
        = Some (fifo_run (\<lambda>p. report_trb p 0) iops [])"
  using assms by (auto intro!: cmd_ring.linked_ring_fifo ep0_ring.linked_ring_fifo
    report_ring.linked_ring_fifo simp: report_trb_type)

text \<open>Nine reports go once round the interrupt ring and past its Link TRB.\<close>

theorem trb_rings_fifo_witness:
  "ring_run cmd_push [Fetch, Post (TRB 0 0 0 0x2400), Fetch] (linked_ring CMD_N 0x1000) ring_start ring_start
     = Some [None, Some (TRB 0 0 0 0x2400)]
   \<and> ring_run arm_kbd_ep_raw (concat (replicate 9 [Post 0x3000, Fetch])) (linked_ring INT_N 0x2000)
       ring_start ring_start = Some (replicate 9 (Some (TRB 0x3000 0 8 0x420)))"
proof -
  have nine: "replicate 9 x = [x, x, x, x, x, x, x, x, x]" for x :: "'b"
    by (simp add: numeral_eq_Suc)
  have ops: "\<forall>t. Post t \<in> set [Fetch, Post (TRB 0 0 0 0x2400), Fetch] \<union> set [] \<longrightarrow> trb_type t \<noteq> TRB_LINK"
    "fits (CMD_N - 2) [Fetch, Post (TRB 0 0 0 0x2400), Fetch] 0" "fits (EP0_N - 2) [] 0"
    "fits (INT_N - 2) (concat (replicate 9 [Post (0x3000 :: u64), Fetch])) 0"
    by (simp_all add: CMD_N_def INT_N_def trb_type_def TRB_LINK_def nine)
  have runs: "fifo_run id [Fetch, Post (TRB 0 0 0 0x2400), Fetch] [] = [None, Some (TRB 0 0 0 0x2400)]"
    "fifo_run (\<lambda>p. report_trb p 0) (concat (replicate 9 [Post 0x3000, Fetch])) []
       = replicate 9 (Some (TRB 0x3000 0 8 0x420))"
    by (simp_all add: set_cycle_def report_trb_def TRB_NORMAL_def nine)
  show ?thesis using trb_rings_fifo [OF ops, of "0x1000" 0 "0x2000"] unfolding runs by blast
qed

end
