(* ===== verification/XhciDevice.thy ===== *)
theory XhciDevice
  imports XhciRing
begin

text \<open>
  The state of the USB driver of hal/src/xhci.rs and its view of the hardware: memory-mapped
  registers, the time-stamp counter, the event ring and the descriptor buffer the controller
  fills.  What the hardware answers is a parameter \<open>hw\<close>, a function of time that nothing
  constrains; time moves at every interaction.  What the driver does is recorded in a trace.
  \<open>println!\<close> and \<open>serial_println!\<close> are left out.  Virtual addresses of registers are natural
  numbers; the physical addresses handed to the controller are 64-bit words.
\<close>

section \<open>The hardware\<close>

text \<open>
  \<open>hw_reg t a\<close> is the register at address \<open>a\<close> read at time \<open>t\<close>, \<open>hw_clock t\<close> the number of
  cycles since power-on, \<open>hw_mhz\<close> the calibrated \<open>tsc_mhz()\<close>, \<open>hw_event t i\<close> the TRB in slot
  \<open>i\<close> of the event ring, \<open>hw_desc t i\<close> byte \<open>i\<close> of the descriptor buffer, and \<open>hw_box n\<close> the
  address that the \<open>n\<close>-th \<open>Box::new\<close> returns.
\<close>

record hw =
  hw_reg :: "nat \<Rightarrow> nat \<Rightarrow> u32"
  hw_reg8 :: "nat \<Rightarrow> nat \<Rightarrow> u8"
  hw_clock :: "nat \<Rightarrow> nat"
  hw_mhz :: u64
  hw_event :: "nat \<Rightarrow> nat \<Rightarrow> trb"
  hw_desc :: "nat \<Rightarrow> nat \<Rightarrow> u8"
  hw_box :: "nat \<Rightarrow> u64"

text \<open>
  What the driver does: a register write, a block posted on the command ring or on an EP0
  ring, an event taken off the event ring.
\<close>

datatype xact = Reg_write nat u32 | Command trb | Control trb | Taken trb

text \<open>
  The static variables of the polling side (\<open>KBD_*\<close>).  \<open>uk_evt\<close> is \<open>KBD_EVT_DEQ\<close> and
  \<open>KBD_EVT_CYC\<close>, \<open>uk_tr_pos\<close> is \<open>KBD_TR_ENQ\<close> and \<open>KBD_TR_CYC\<close>, and \<open>uk_tr\<close> the ring at \<open>KBD_TR_BASE\<close>.
\<close>

record usb_kbd =
  uk_ready :: bool
  uk_reports :: u64
  uk_slot :: nat
  uk_ep_db :: u32
  uk_db_base :: nat
  uk_rt_base :: nat
  uk_evt_phys :: u64
  uk_evt :: ring_pos
  uk_tr :: "trb list"
  uk_tr_pos :: ring_pos
  uk_buf_phys :: u64

text \<open>
  The state of \<open>init\<close>: the time, the trace, the number of boxes allocated, the command ring, the
  positions on the command and event rings, the device context array, the scratchpad array and the
  event ring segment table, and the input context and EP0 ring of the port being enumerated.
\<close>

record xstate =
  xtime :: nat
  xtrace :: "xact list"
  xboxes :: nat
  xcmd :: "trb list"
  xcs :: ring_pos
  xes :: ring_pos
  xdcbaa :: "u64 list"
  xscratch :: "u64 list"
  xerst :: "u64 \<times> u16"
  xctx :: "u32 list list"
  xep0 :: "trb list"
  xep0s :: ring_pos
  xkbd :: usb_kbd

section \<open>Registers\<close>

definition mmio_rd32 :: "hw \<Rightarrow> nat \<Rightarrow> xstate \<Rightarrow> u32 \<times> xstate" where
  "mmio_rd32 h a s = (hw_reg h (xtime s) a, s\<lparr>xtime := xtime s + 1\<rparr>)"

definition mmio_rd8 :: "hw \<Rightarrow> nat \<Rightarrow> xstate \<Rightarrow> u8 \<times> xstate" where
  "mmio_rd8 h a s = (hw_reg8 h (xtime s) a, s\<lparr>xtime := xtime s + 1\<rparr>)"

definition act :: "xact \<Rightarrow> xstate \<Rightarrow> xstate" where
  "act x s = s\<lparr>xtime := xtime s + 1, xtrace := xtrace s @ [x]\<rparr>"

definition mmio_wr32 :: "nat \<Rightarrow> u32 \<Rightarrow> xstate \<Rightarrow> xstate" where
  "mmio_wr32 a v s = act (Reg_write a v) s"

definition mmio_wr64 :: "nat \<Rightarrow> u64 \<Rightarrow> xstate \<Rightarrow> xstate" where
  "mmio_wr64 a v s = mmio_wr32 (a + 4) (ucast (drop_bit 32 v)) (mmio_wr32 a (ucast v) s)"

definition read_event :: "hw \<Rightarrow> nat \<Rightarrow> xstate \<Rightarrow> (trb \<times> xstate) option" where
  "read_event h i s =
     (if i < EVT_N then Some (hw_event h (xtime s) i, s\<lparr>xtime := xtime s + 1\<rparr>) else None)"

definition read_desc :: "hw \<Rightarrow> nat \<Rightarrow> xstate \<Rightarrow> (u8 \<times> xstate) option" where
  "read_desc h i s =
     (if i < 512 then Some (hw_desc h (xtime s) i, s\<lparr>xtime := xtime s + 1\<rparr>) else None)"

definition alloc_box :: "hw \<Rightarrow> xstate \<Rightarrow> u64 \<times> xstate" where
  "alloc_box h s = (hw_box h (xboxes s), s\<lparr>xboxes := xboxes s + 1\<rparr>)"

definition phys_of :: "u64 \<Rightarrow> u64 \<Rightarrow> u64 option" where
  "phys_of virt po = csub virt po"

section \<open>Deadlines\<close>

definition read_tsc :: "hw \<Rightarrow> xstate \<Rightarrow> u64 \<times> xstate" where
  "read_tsc h s = (of_nat (hw_clock h (xtime s)), s\<lparr>xtime := xtime s + 1\<rparr>)"

definition deadline_cycles :: "hw \<Rightarrow> u64 \<Rightarrow> xstate \<Rightarrow> (u64 \<times> xstate) option" where
  "deadline_cycles h us s =
     (let (t, s) = read_tsc h s in do { d \<leftarrow> cmul us (hw_mhz h); Some (t + d, s) })"

definition past :: "hw \<Rightarrow> u64 \<Rightarrow> xstate \<Rightarrow> bool \<times> xstate" where
  "past h deadline s = (let (t, s) = read_tsc h s in (t - deadline < 2 ^ 63, s))"

text \<open>
  The two shapes of busy loop: poll a register until it satisfies \<open>P\<close> or the deadline is past,
  answering the value that did, and spin until a deadline.
\<close>

partial_function (option) poll_reg :: "hw \<Rightarrow> nat \<Rightarrow> (u32 \<Rightarrow> bool) \<Rightarrow> u64 \<Rightarrow> xstate \<Rightarrow> (u32 option \<times> xstate) option" where
  "poll_reg h a P dl s =
     (let (v, s) = mmio_rd32 h a s
      in if P v then Some (Some v, s)
         else let (late, s) = past h dl s in if late then Some (None, s) else poll_reg h a P dl s)"

partial_function (option) spin_until :: "hw \<Rightarrow> u64 \<Rightarrow> xstate \<Rightarrow> xstate option" where
  "spin_until h dl s = (let (late, s) = past h dl s in if late then Some s else spin_until h dl s)"

definition wait_reg :: "hw \<Rightarrow> nat \<Rightarrow> (u32 \<Rightarrow> bool) \<Rightarrow> u64 \<Rightarrow> xstate \<Rightarrow> (u32 option \<times> xstate) option" where
  "wait_reg h a P us s = do { (dl, s) \<leftarrow> deadline_cycles h us s; poll_reg h a P dl s }"

definition delay :: "hw \<Rightarrow> u64 \<Rightarrow> xstate \<Rightarrow> xstate option" where
  "delay h us s = do { (dl, s) \<leftarrow> deadline_cycles h us s; spin_until h dl s }"

end
