(* ===== verification/HidDescriptor.thy ===== *)
theory HidDescriptor
  imports Prelude
begin

text \<open>
  Finding the keyboard in a USB configuration descriptor: \<open>find_hid_kbd_ep\<close> of
  hal/src/xhci.rs, against a declarative reading of the descriptor list.  The bytes come from
  the device, so every statement is about arbitrary bytes.
\<close>

section \<open>The model\<close>

text \<open>
  The loop over the descriptors; its state is the offset, whether the last interface was a
  boot keyboard, and that interface's number.  The answer is (bConfigurationValue, interface,
  endpoint address, packet size, interval).
\<close>

type_synonym kbd_ep = "u8 \<times> u8 \<times> u8 \<times> u16 \<times> u8"

function kbd_ep_loop :: "u8 list \<Rightarrow> u8 \<Rightarrow> nat \<Rightarrow> bool \<Rightarrow> u8 \<Rightarrow> kbd_ep option option" where
  "kbd_ep_loop cfg cfg_val off in_hid_kbd iface =
     (if off + 2 \<le> length cfg then
        do { b \<leftarrow> get_at cfg off;
             let blen = unat b;
             btype \<leftarrow> get_at cfg (off + 1);
             if blen < 2 \<or> off + blen > length cfg then Some None
             else if btype = 0x04 \<and> blen \<ge> 9 then
               do { cls \<leftarrow> get_at cfg (off + 5);
                    sub \<leftarrow> get_at cfg (off + 6);
                    proto \<leftarrow> get_at cfg (off + 7);
                    number \<leftarrow> get_at cfg (off + 2);
                    let in_hid_kbd = (cls = 0x03 \<and> sub = 0x01 \<and> proto = 0x01);
                    kbd_ep_loop cfg cfg_val (off + blen) in_hid_kbd (if in_hid_kbd then number else iface) }
             else if btype = 0x05 \<and> blen \<ge> 7 \<and> in_hid_kbd then
               do { addr \<leftarrow> get_at cfg (off + 2);
                    attr \<leftarrow> get_at cfg (off + 3);
                    lo \<leftarrow> get_at cfg (off + 4);
                    hi \<leftarrow> get_at cfg (off + 5);
                    let mpkt = (ucast lo :: u16) OR push_bit 8 (ucast hi);
                    ival \<leftarrow> get_at cfg (off + 6);
                    if addr AND 0x80 \<noteq> 0 \<and> attr AND 0x03 = 0x03
                    then Some (Some (cfg_val, iface, addr, mpkt AND 0x7FF, ival))
                    else kbd_ep_loop cfg cfg_val (off + blen) in_hid_kbd iface }
             else kbd_ep_loop cfg cfg_val (off + blen) in_hid_kbd iface }
      else Some None)"
  by pat_completeness auto
termination
  by (relation "measure (\<lambda>(cfg, _, off, _). length cfg - off)") auto

definition find_hid_kbd_ep :: "u8 list \<Rightarrow> kbd_ep option option" where
  "find_hid_kbd_ep cfg =
     (if length cfg < 9 then Some None
      else do { cfg_val \<leftarrow> get_at cfg 5; kbd_ep_loop cfg cfg_val 0 False 0 })"

declare kbd_ep_loop.simps [simp del]

section \<open>The descriptors of a configuration\<close>

text \<open>The descriptors are the chunks their length bytes cut, up to the first malformed one.\<close>

function descriptors :: "u8 list \<Rightarrow> u8 list list" where
  "descriptors bs =
     (if 2 \<le> length bs \<and> 2 \<le> unat (hd bs) \<and> unat (hd bs) \<le> length bs
      then take (unat (hd bs)) bs # descriptors (drop (unat (hd bs)) bs) else [])"
  by pat_completeness auto
termination
  by (relation "measure length") auto

declare descriptors.simps [simp del]

definition is_interface :: "u8 list \<Rightarrow> bool" where
  "is_interface d \<longleftrightarrow> d ! 1 = 0x04 \<and> 9 \<le> length d"

definition boot_keyboard :: "u8 list \<Rightarrow> bool" where
  "boot_keyboard d \<longleftrightarrow> is_interface d \<and> d ! 5 = 3 \<and> d ! 6 = 1 \<and> d ! 7 = 1"

definition interrupt_in :: "u8 list \<Rightarrow> bool" where
  "interrupt_in d \<longleftrightarrow> d ! 1 = 0x05 \<and> 7 \<le> length d \<and> bit (d ! 2) 7 \<and> d ! 3 AND 3 = 3"

text \<open>
  \<open>kbd_endpoint ds i j\<close>: the j-th descriptor is an interrupt IN endpoint of the i-th, a boot
  keyboard interface, with no interface between them.
\<close>

definition kbd_endpoint :: "u8 list list \<Rightarrow> nat \<Rightarrow> nat \<Rightarrow> bool" where
  "kbd_endpoint ds i j \<longleftrightarrow> i < j \<and> j < length ds \<and> boot_keyboard (ds ! i) \<and> interrupt_in (ds ! j)
     \<and> (\<forall>k. i < k \<and> k < j \<longrightarrow> \<not> is_interface (ds ! k))"

definition endpoint_answer :: "u8 \<Rightarrow> u8 \<Rightarrow> u8 list \<Rightarrow> kbd_ep" where
  "endpoint_answer cfg_val iface d =
     (cfg_val, iface, d ! 2, (ucast (d ! 4) OR push_bit 8 (ucast (d ! 5))) AND 0x7FF, d ! 6)"

section \<open>The loop searches the descriptors\<close>

fun search :: "u8 \<Rightarrow> u8 list list \<Rightarrow> bool \<Rightarrow> u8 \<Rightarrow> kbd_ep option" where
  "search v [] in_kbd iface = None"
| "search v (d # ds) in_kbd iface =
     (if is_interface d then search v ds (boot_keyboard d) (if boot_keyboard d then d ! 2 else iface)
      else if interrupt_in d \<and> in_kbd then Some (endpoint_answer v iface d)
      else search v ds in_kbd iface)"

lemma direction_bit: "addr AND 0x80 \<noteq> 0 \<longleftrightarrow> bit (addr :: u8) 7"
proof -
  have "addr AND 0x80 = (if bit addr 7 then 0x80 else 0)"
  proof (rule bit_word_eqI)
    fix n assume "n < LENGTH(8)"
    moreover have "bit (0x80 :: u8) n \<longleftrightarrow> n = 7" if "n < 8" for n
      using that by (auto simp: bit_numeral_rec less_Suc_eq numeral_eq_Suc)
    ultimately show "bit (addr AND 0x80) n = bit (if bit addr 7 then 0x80 else 0 :: u8) n"
      by (auto simp: bit_and_iff)
  qed
  then show ?thesis by simp
qed

lemma loop_searches:
  "kbd_ep_loop cfg v off in_kbd iface = Some (search v (descriptors (drop off cfg)) in_kbd iface)"
proof (induction cfg v off in_kbd iface rule: kbd_ep_loop.induct)
  case (1 cfg v off in_kbd iface)
  let ?n = "unat (cfg ! off)"
  let ?d = "take ?n (drop off cfg)"
  show ?case
  proof (cases "off + 2 \<le> length cfg \<and> 2 \<le> ?n \<and> off + ?n \<le> length cfg")
    case False
    then have "descriptors (drop off cfg) = []"
      by (subst descriptors.simps) (auto simp: hd_drop_conv_nth)
    with False show ?thesis by (subst kbd_ep_loop.simps) auto
  next
    case True
    then have step: "descriptors (drop off cfg) = ?d # descriptors (drop (off + ?n) cfg)"
      by (subst descriptors.simps) (auto simp: hd_drop_conv_nth ac_simps)
    have nth: "?d ! k = cfg ! (off + k)" if "k < ?n" for k using that True by simp
    have len: "length ?d = ?n" using True by (auto simp: min_absorb2)
    have iface: "is_interface ?d \<longleftrightarrow> cfg ! (off + 1) = 4 \<and> 9 \<le> ?n"
      using True nth [of 1] len unfolding is_interface_def by auto
    show ?thesis
    proof (cases "is_interface ?d")
      case int: True
      then have ends: "boot_keyboard ?d \<longleftrightarrow> cfg ! (off + 5) = 3 \<and> cfg ! (off + 6) = 1 \<and> cfg ! (off + 7) = 1"
        "?d ! 2 = cfg ! (off + 2)"
        using iface nth by (simp_all add: boot_keyboard_def)
      show ?thesis using True int iface 1(1) [of "cfg ! off" "unat (cfg ! off)"] step
        by (subst kbd_ep_loop.simps) (simp add: ends Let_def)
    next
      case False
      show ?thesis
      proof (cases "cfg ! (off + 1) = 5 \<and> 7 \<le> ?n \<and> in_kbd")
        case ep: True
        then have "interrupt_in ?d \<longleftrightarrow> bit (cfg ! (off + 2)) 7 \<and> cfg ! (off + 3) AND 3 = 3"
          "endpoint_answer v iface ?d = (v, iface, cfg ! (off + 2),
            (ucast (cfg ! (off + 4)) OR push_bit 8 (ucast (cfg ! (off + 5)))) AND 0x7FF, cfg ! (off + 6))"
          using True nth [of 1] nth len by (simp_all add: interrupt_in_def endpoint_answer_def)
        with True False ep iface 1(2,3) step show ?thesis
          by (subst kbd_ep_loop.simps) (simp add: direction_bit)
      next
        case other: False
        then have "\<not> (interrupt_in ?d \<and> in_kbd)" using nth [of 1] len True by (auto simp: interrupt_in_def)
        moreover have "kbd_ep_loop cfg v (off + ?n) in_kbd iface
            = Some (search v (descriptors (drop (off + ?n) cfg)) in_kbd iface)"
          using 1(3) [of "cfg ! off" ?n "cfg ! (off + 1)"] True False other iface by simp
        moreover have "\<not> (cfg ! (off + 1) = 4 \<and> 9 \<le> ?n)" using False iface by simp
        ultimately show ?thesis using True False other step
          by (subst kbd_ep_loop.simps) (auto simp: Let_def)
      qed
    qed
  qed
qed

section \<open>The search finds the first endpoint\<close>

text \<open>What the loop knows after the descriptors \<open>pre\<close>.\<close>

definition search_inv :: "u8 list list \<Rightarrow> bool \<Rightarrow> u8 \<Rightarrow> bool" where
  "search_inv pre in_kbd iface \<longleftrightarrow>
     (in_kbd \<longrightarrow> (\<exists>i < length pre. boot_keyboard (pre ! i) \<and> iface = pre ! i ! 2
        \<and> (\<forall>k. i < k \<and> k < length pre \<longrightarrow> \<not> is_interface (pre ! k))))
     \<and> (\<not> in_kbd \<longrightarrow> (\<forall>i < length pre. boot_keyboard (pre ! i) \<longrightarrow>
        (\<exists>k. i < k \<and> k < length pre \<and> is_interface (pre ! k))))
     \<and> (\<forall>i j. \<not> kbd_endpoint pre i j)"

lemma kbd_endpoint_snoc:
  "kbd_endpoint (pre @ [d]) i j \<longleftrightarrow> kbd_endpoint pre i j
    \<or> j = length pre \<and> i < j \<and> interrupt_in d \<and> boot_keyboard (pre ! i)
      \<and> (\<forall>k. i < k \<and> k < j \<longrightarrow> \<not> is_interface (pre ! k))"
  by (auto simp: kbd_endpoint_def nth_append less_Suc_eq)

lemma kbd_endpoint_append:
  "j < length pre \<Longrightarrow> kbd_endpoint (pre @ ds) i j \<longleftrightarrow> kbd_endpoint pre i j"
  by (auto simp: kbd_endpoint_def nth_append)

lemma boot_keyboard_interface: "boot_keyboard d \<Longrightarrow> is_interface d"
  by (simp add: boot_keyboard_def)

lemma interrupt_in_not_interface: "interrupt_in d \<Longrightarrow> \<not> is_interface d"
  by (simp add: interrupt_in_def is_interface_def)

lemma search_inv_interface:
  assumes "search_inv pre b i" "is_interface d"
  shows "search_inv (pre @ [d]) (boot_keyboard d) (if boot_keyboard d then d ! 2 else i)"
  using assms interrupt_in_not_interface [of d]
  by (auto simp: search_inv_def kbd_endpoint_snoc nth_append less_Suc_eq)

lemma search_inv_other:
  assumes "search_inv pre b i" "\<not> is_interface d" "\<not> (interrupt_in d \<and> b)"
  shows "search_inv (pre @ [d]) b i"
proof (cases b)
  case True
  with assms show ?thesis
    by (auto simp: search_inv_def kbd_endpoint_snoc nth_append less_Suc_eq)
next
  case False
  with assms have "\<not> boot_keyboard d" "\<forall>i < length pre. boot_keyboard (pre ! i) \<longrightarrow>
        (\<exists>k. i < k \<and> k < length pre \<and> is_interface (pre ! k))"
    by (auto simp: search_inv_def dest: boot_keyboard_interface)
  then show ?thesis using assms False
    by (auto simp: search_inv_def kbd_endpoint_snoc nth_append less_Suc_eq)
qed

lemma search_first:
  "search_inv pre b iface \<Longrightarrow>
    (case search v ds b iface of
       None \<Rightarrow> \<forall>i j. \<not> kbd_endpoint (pre @ ds) i j
     | Some r \<Rightarrow> \<exists>i j. kbd_endpoint (pre @ ds) i j \<and> (\<forall>i' j'. kbd_endpoint (pre @ ds) i' j' \<longrightarrow> j \<le> j')
         \<and> r = endpoint_answer v ((pre @ ds) ! i ! 2) ((pre @ ds) ! j))"
proof (induction ds arbitrary: pre b iface)
  case Nil
  then show ?case by (simp add: search_inv_def)
next
  case (Cons d ds)
  show ?case
  proof (cases "\<not> is_interface d \<and> interrupt_in d \<and> b")
    case True
    with Cons.prems obtain i where i: "i < length pre" "boot_keyboard (pre ! i)" "iface = pre ! i ! 2"
      "\<forall>k. i < k \<and> k < length pre \<longrightarrow> \<not> is_interface (pre ! k)" by (auto simp: search_inv_def)
    have "kbd_endpoint (pre @ d # ds) i (length pre)"
      using i True by (simp add: kbd_endpoint_def nth_append)
    moreover have "length pre \<le> j'" if "kbd_endpoint (pre @ d # ds) i' j'" for i' j'
      using that Cons.prems kbd_endpoint_append [of j' pre "d # ds" i']
      by (cases "length pre \<le> j'") (auto simp: search_inv_def)
    moreover have "endpoint_answer v iface d = endpoint_answer v ((pre @ d # ds) ! i ! 2) ((pre @ d # ds) ! length pre)"
      using i by (simp add: nth_append)
    ultimately have "\<exists>i j. kbd_endpoint (pre @ d # ds) i j \<and> (\<forall>i' j'. kbd_endpoint (pre @ d # ds) i' j' \<longrightarrow> j \<le> j')
        \<and> endpoint_answer v iface d = endpoint_answer v ((pre @ d # ds) ! i ! 2) ((pre @ d # ds) ! j)"
      by blast
    then show ?thesis using True by simp
  next
    case False
    have inv: "search_inv (pre @ [d]) (if is_interface d then boot_keyboard d else b)
        (if is_interface d \<and> boot_keyboard d then d ! 2 else iface)"
      using False search_inv_interface [OF Cons.prems, of d] search_inv_other [OF Cons.prems, of d]
      by (auto split: if_splits)
    have app: "(pre @ [d]) @ ds = pre @ d # ds" by simp
    show ?thesis using Cons.IH [OF inv, unfolded app] False by (auto split: if_splits)
  qed
qed

text \<open>
  C36: On any bytes a device may send, the search for a boot keyboard reads no byte out of
  range and stops; it answers with the first interrupt IN endpoint that belongs to a boot
  keyboard interface, together with that interface's number, and with nothing exactly when
  there is none.
\<close>

theorem hid_search_correct:
  "case find_hid_kbd_ep cfg of
     None \<Rightarrow> False
   | Some None \<Rightarrow> length cfg < 9 \<or> (\<forall>i j. \<not> kbd_endpoint (descriptors cfg) i j)
   | Some (Some r) \<Rightarrow> 9 \<le> length cfg \<and>
       (\<exists>i j. kbd_endpoint (descriptors cfg) i j
          \<and> (\<forall>i' j'. kbd_endpoint (descriptors cfg) i' j' \<longrightarrow> j \<le> j')
          \<and> r = endpoint_answer (cfg ! 5) (descriptors cfg ! i ! 2) (descriptors cfg ! j))"
proof -
  have "search_inv [] False 0" by (simp add: search_inv_def kbd_endpoint_def)
  from search_first [OF this, of "descriptors cfg" "cfg ! 5"] show ?thesis
    by (auto simp: find_hid_kbd_ep_def loop_searches split: option.splits)
qed

text \<open>The configuration of a boot keyboard: configuration, interface, HID and endpoint descriptors.\<close>

definition demo_config :: "u8 list" where
  "demo_config =
     [9, 2, 34, 0, 1, 1, 8, 0xA0, 50, 9, 4, 0, 0, 1, 3, 1, 1, 0,
      9, 0x21, 0x11, 1, 0, 1, 0x22, 0x3F, 0, 7, 5, 0x81, 3, 8, 0, 7]"

lemma demo_search: "find_hid_kbd_ep demo_config = Some (Some (1, 0, 0x81, 8, 7))"
  by (simp add: find_hid_kbd_ep_def demo_config_def kbd_ep_loop.simps Let_def)

theorem hid_search_correct_witness:
  "find_hid_kbd_ep demo_config = Some (Some (1, 0, 0x81, 8, 7)) \<and>
   (\<exists>i j. kbd_endpoint (descriptors demo_config) i j
      \<and> (1, 0, 0x81, 8, 7) = endpoint_answer 1 (descriptors demo_config ! i ! 2) (descriptors demo_config ! j))"
proof -
  have "demo_config ! 5 = 1" by (simp add: demo_config_def)
  with hid_search_correct [of demo_config] show ?thesis by (auto simp: demo_search)
qed

end
