(* ===== verification/XhciCommands.thy ===== *)
theory XhciCommands
  imports XhciDevice HidDescriptor
begin

text \<open>
  The command, event and control-transfer layer of hal/src/xhci.rs: \<open>cmd_push\<close> and
  \<open>ep0_push\<close> on the driver's state, \<open>evt_wait\<close>, \<open>wait_cmd\<close>, \<open>disable_slot\<close>, \<open>ctrl_in\<close>,
  \<open>ctrl_out\<close>, and the input contexts.
\<close>

section \<open>Constants\<close>

definition TRB_SETUP :: u32 where "TRB_SETUP = 2"
definition TRB_DATA :: u32 where "TRB_DATA = 3"
definition TRB_STATUS :: u32 where "TRB_STATUS = 4"
definition TRB_ENABLE_SLOT :: u32 where "TRB_ENABLE_SLOT = 9"
definition TRB_DISABLE_SLOT :: u32 where "TRB_DISABLE_SLOT = 10"
definition TRB_ADDR_DEVICE :: u32 where "TRB_ADDR_DEVICE = 11"
definition TRB_CFG_EP :: u32 where "TRB_CFG_EP = 12"
definition TRB_EVAL_CTX :: u32 where "TRB_EVAL_CTX = 13"
definition TRB_EVT_TRANSFER :: u32 where "TRB_EVT_TRANSFER = 32"
definition TRB_EVT_CMD :: u32 where "TRB_EVT_CMD = 33"
definition CC_SUCCESS :: u8 where "CC_SUCCESS = 1"
definition CC_SHORT_PKT :: u8 where "CC_SHORT_PKT = 13"
definition IR_ERDP :: nat where "IR_ERDP = 0x18"

text \<open>The register bases and the address of the event ring, locals of \<open>init_unsafe\<close>.\<close>

record hc =
  hc_op :: nat
  hc_db :: nat
  hc_rt :: nat
  hc_evt_phys :: u64

text \<open>The completion code and the slot of an event.\<close>

definition event_cc :: "trb \<Rightarrow> u8" where
  "event_cc t = ucast (drop_bit 24 (dw2 t) AND 0xFF)"

definition event_slot :: "trb \<Rightarrow> u8" where
  "event_slot t = ucast (drop_bit 24 (dw3 t) AND 0xFF)"

definition slot_field :: "u8 \<Rightarrow> u32" where
  "slot_field slot = push_bit 24 (ucast slot)"

definition command :: "u32 \<Rightarrow> u32" where
  "command kind = push_bit 10 kind"

section \<open>Posting\<close>

definition post_cmd :: "trb \<Rightarrow> xstate \<Rightarrow> xstate option" where
  "post_cmd d s =
     do { (r, st) \<leftarrow> cmd_push (xcmd s) (xcs s) d; Some (act (Command d) (s\<lparr>xcmd := r, xcs := st\<rparr>)) }"

definition post_ep0 :: "trb \<Rightarrow> xstate \<Rightarrow> xstate option" where
  "post_ep0 d s =
     do { (r, st) \<leftarrow> ep0_push (xep0 s) (xep0s s) d; Some (act (Control d) (s\<lparr>xep0 := r, xep0s := st\<rparr>)) }"

section \<open>Events\<close>

text \<open>Taking the event in the current slot: the slot advances and ERDP is updated.\<close>

definition next_event :: "ring_pos \<Rightarrow> ring_pos" where
  "next_event p =
     (let p = p\<lparr>slot_at := slot_at p + 1\<rparr>
      in if slot_at p \<ge> EVT_N then \<lparr>slot_at = 0, cycle_at = cycle_at p XOR 1\<rparr> else p)"

definition write_erdp :: "hc \<Rightarrow> xstate \<Rightarrow> xstate option" where
  "write_erdp c s =
     do { a \<leftarrow> cadd (hc_evt_phys c) (of_nat (slot_at (xes s)) * 16);
          Some (mmio_wr64 (hc_rt c + 0x20 + IR_ERDP) (a OR push_bit 3 1) s) }"

partial_function (option) evt_poll :: "hw \<Rightarrow> hc \<Rightarrow> u64 \<Rightarrow> xstate \<Rightarrow> (trb option \<times> xstate) option" where
  "evt_poll h c dl s =
     do { (dw, s) \<leftarrow> read_event h (slot_at (xes s)) s;
          if dw3 dw AND 1 = cycle_at (xes s) then
            do { s \<leftarrow> write_erdp c (act (Taken dw) (s\<lparr>xes := next_event (xes s)\<rparr>)); Some (Some dw, s) }
          else
            (let (late, s) = past h dl s in if late then Some (None, s) else evt_poll h c dl s) }"

definition evt_wait :: "hw \<Rightarrow> hc \<Rightarrow> u64 \<Rightarrow> xstate \<Rightarrow> (trb option \<times> xstate) option" where
  "evt_wait h c us s = do { (dl, s) \<leftarrow> deadline_cycles h us s; evt_poll h c dl s }"

text \<open>
  \<open>wait_cmd\<close> and \<open>ep0_wait_xfer\<close> take events until one is accepted or their deadline is past.
\<close>

partial_function (option) event_loop ::
    "hw \<Rightarrow> hc \<Rightarrow> (trb \<Rightarrow> 'r option) \<Rightarrow> u64 \<Rightarrow> xstate \<Rightarrow> ('r option \<times> xstate) option" where
  "event_loop h c accept dl s =
     do { (e, s) \<leftarrow> evt_wait h c 500 s;
          (case Option.bind e accept of
             Some r \<Rightarrow> Some (Some r, s)
           | None \<Rightarrow>
               let (late, s) = past h dl s in if late then Some (None, s) else event_loop h c accept dl s) }"

definition cmd_result :: "trb \<Rightarrow> (u8 \<times> u8) option" where
  "cmd_result dw = (if trb_type dw = TRB_EVT_CMD then Some (event_cc dw, event_slot dw) else None)"

definition wait_cmd :: "hw \<Rightarrow> hc \<Rightarrow> u64 \<Rightarrow> xstate \<Rightarrow> ((u8 \<times> u8) \<times> xstate) option" where
  "wait_cmd h c us s =
     do { let s = mmio_wr32 (hc_db c) 0 s;
          (dl, s) \<leftarrow> deadline_cycles h us s;
          (r, s) \<leftarrow> event_loop h c cmd_result dl s;
          Some (case r of Some x \<Rightarrow> x | None \<Rightarrow> (0xFF, 0), s) }"

definition disable_slot :: "hw \<Rightarrow> hc \<Rightarrow> u8 \<Rightarrow> xstate \<Rightarrow> xstate option" where
  "disable_slot h c slot s =
     do { s \<leftarrow> post_cmd (TRB 0 0 0 (command TRB_DISABLE_SLOT OR slot_field slot)) s;
          (_, s) \<leftarrow> wait_cmd h c 1000000 s;
          Some s }"

section \<open>Control transfers\<close>

text \<open>
  The buffer of \<open>ctrl_in\<close> comes as its physical address: \<open>init\<close> has computed the same
  difference before.
\<close>

definition xfer_result :: "nat \<Rightarrow> trb \<Rightarrow> (u8 \<times> u32 \<times> u64) option" where
  "xfer_result slot dw =
     (if trb_type dw = TRB_EVT_TRANSFER \<and> unat (drop_bit 24 (dw3 dw) AND 0xFF) = slot
      then Some (event_cc dw, dw2 dw AND 0xFFFFFF, push_bit 32 (ucast (dw1 dw)) OR ucast (dw0 dw)) else None)"

definition ep0_wait_xfer :: "hw \<Rightarrow> hc \<Rightarrow> nat \<Rightarrow> u64 \<Rightarrow> xstate \<Rightarrow> ((u8 \<times> u32 \<times> u64) \<times> xstate) option" where
  "ep0_wait_xfer h c slot us s =
     do { let s = mmio_wr32 (hc_db c + slot * 4) 1 s;
          (dl, s) \<leftarrow> deadline_cycles h us s;
          (r, s) \<leftarrow> event_loop h c (xfer_result slot) dl s;
          Some (case r of Some x \<Rightarrow> x | None \<Rightarrow> (0xFF, 0, 0), s) }"

definition le32 :: "u8 \<Rightarrow> u8 \<Rightarrow> u8 \<Rightarrow> u8 \<Rightarrow> u32" where
  "le32 a b c d = ucast a OR push_bit 8 (ucast b) OR push_bit 16 (ucast c) OR push_bit 24 (ucast d)"

text \<open>A setup packet is eight bytes; \<open>setup_trb\<close> carries it as immediate data.\<close>

type_synonym setup_pkt = "u8 \<times> u8 \<times> u8 \<times> u8 \<times> u8 \<times> u8 \<times> u8 \<times> u8"

fun setup_trb :: "setup_pkt \<Rightarrow> u32 \<Rightarrow> trb" where
  "setup_trb (s0, s1, s2, s3, s4, s5, s6, s7) flags =
     TRB (le32 s0 s1 s2 s3) (le32 s4 s5 s6 s7) 8 flags"

definition ctrl_ok :: "u8 \<Rightarrow> bool" where
  "ctrl_ok cc \<longleftrightarrow> cc = CC_SUCCESS \<or> cc = CC_SHORT_PKT"

definition ctrl_in :: "hw \<Rightarrow> hc \<Rightarrow> nat \<Rightarrow> setup_pkt \<Rightarrow> u64 \<Rightarrow> u16 \<Rightarrow> xstate \<Rightarrow> (bool \<times> xstate) option" where
  "ctrl_in h c slot pkt buf_phys n s =
     do { s \<leftarrow> post_ep0 (setup_trb pkt (push_bit 10 TRB_SETUP OR push_bit 6 1 OR push_bit 16 3)) s;
          s \<leftarrow> post_ep0 (TRB (ucast buf_phys) (ucast (drop_bit 32 buf_phys)) (ucast n)
                 (push_bit 10 TRB_DATA OR push_bit 16 1)) s;
          s \<leftarrow> post_ep0 (TRB 0 0 0 (push_bit 10 TRB_STATUS OR push_bit 5 1)) s;
          ((cc, _, _), s) \<leftarrow> ep0_wait_xfer h c slot 500000 s;
          Some (ctrl_ok cc, s) }"

definition ctrl_out :: "hw \<Rightarrow> hc \<Rightarrow> nat \<Rightarrow> setup_pkt \<Rightarrow> xstate \<Rightarrow> (bool \<times> xstate) option" where
  "ctrl_out h c slot pkt s =
     do { s \<leftarrow> post_ep0 (setup_trb pkt (push_bit 10 TRB_SETUP OR push_bit 6 1)) s;
          s \<leftarrow> post_ep0 (TRB 0 0 0 (push_bit 10 TRB_STATUS OR push_bit 16 1 OR push_bit 5 1)) s;
          ((cc, _, _), s) \<leftarrow> ep0_wait_xfer h c slot 500000 s;
          Some (ctrl_ok cc, s) }"

section \<open>Input contexts\<close>

text \<open>An input context is 33 contexts of 8 words; \<open>ctx_set\<close> is \<open>c[i][j] = v\<close>.\<close>

definition ctx_set :: "nat \<Rightarrow> nat \<Rightarrow> u32 \<Rightarrow> u32 list list \<Rightarrow> u32 list list option" where
  "ctx_set i j v c = do { row \<leftarrow> get_at c i; row \<leftarrow> set_at row j v; set_at c i row }"

definition ctx_get :: "nat \<Rightarrow> nat \<Rightarrow> u32 list list \<Rightarrow> u32 option" where
  "ctx_get i j c = do { row \<leftarrow> get_at c i; get_at row j }"

definition zero_ctx :: "u32 list list" where
  "zero_ctx = replicate 33 (replicate 8 0)"

definition ep0_packet :: "u8 \<Rightarrow> u32" where
  "ep0_packet speed = (if speed = 4 \<or> speed = 5 then 512 else if speed = 3 then 64 else 8)"

definition setup_addr_input_ctx :: "u64 \<Rightarrow> u8 \<Rightarrow> nat \<Rightarrow> u32 list list \<Rightarrow> u32 list list option" where
  "setup_addr_input_ctx ring_phys speed port1 c =
     do { c \<leftarrow> ctx_set 0 0 0 c;
          c \<leftarrow> ctx_set 0 1 3 c;
          c \<leftarrow> ctx_set 1 0 (push_bit 27 1 OR push_bit 20 (ucast speed)) c;
          c \<leftarrow> ctx_set 1 1 (push_bit 16 (of_nat port1)) c;
          c \<leftarrow> ctx_set 2 1 (push_bit 1 3 OR push_bit 3 4 OR push_bit 16 (ep0_packet speed)) c;
          c \<leftarrow> ctx_set 2 2 ((ucast ring_phys AND NOT 0xF) OR 1) c;
          c \<leftarrow> ctx_set 2 3 (ucast (drop_bit 32 ring_phys)) c;
          ctx_set 2 4 8 c }"

text \<open>\<open>1 << n\<close> panics in a debug build when \<open>n\<close> is not below the width.\<close>

definition shl_one :: "u32 \<Rightarrow> u32 option" where
  "shl_one n = (if n < 32 then Some (push_bit (unat n) 1) else None)"

definition setup_cfg_input_ctx :: "nat \<Rightarrow> u64 \<Rightarrow> u16 \<Rightarrow> u8 \<Rightarrow> u32 list list \<Rightarrow> u32 list list option" where
  "setup_cfg_input_ctx ep_ctx_idx ring_phys max_pkt interval c =
     do { c \<leftarrow> ctx_set 0 0 0 c;
          flag \<leftarrow> shl_one (of_nat ep_ctx_idx);
          c \<leftarrow> ctx_set 0 1 (1 OR flag) c;
          w \<leftarrow> ctx_get 1 0 c;
          c \<leftarrow> ctx_set 1 0 ((w AND NOT (push_bit 27 0x1F)) OR push_bit 27 (of_nat ep_ctx_idx)) c;
          let ep_off = ep_ctx_idx + 1;
          c \<leftarrow> ctx_set ep_off 0 (push_bit 16 (ucast interval)) c;
          c \<leftarrow> ctx_set ep_off 1 (push_bit 1 3 OR push_bit 3 7 OR push_bit 16 (ucast max_pkt)) c;
          c \<leftarrow> ctx_set ep_off 2 ((ucast ring_phys AND NOT 0xF) OR 1) c;
          c \<leftarrow> ctx_set ep_off 3 (ucast (drop_bit 32 ring_phys)) c;
          ctx_set ep_off 4 (ucast max_pkt) c }"

end
