(* ===== verification/XhciInit.thy ===== *)
theory XhciInit
  imports XhciCommands
begin

text \<open>
  The start-up of hal/src/xhci.rs: the hand-over from the firmware, the walk over the extended
  capabilities, the reset, and \<open>init_unsafe\<close> split at its phases: the controller set-up, then
  per port the reset, the slot, the addressing, the descriptors and the configuration of the
  keyboard.
\<close>

section \<open>Constants\<close>

definition CAP_HCSPARAMS1 :: nat where "CAP_HCSPARAMS1 = 0x04"
definition CAP_HCSPARAMS2 :: nat where "CAP_HCSPARAMS2 = 0x08"
definition CAP_HCCPARAMS1 :: nat where "CAP_HCCPARAMS1 = 0x10"
definition CAP_DBOFF :: nat where "CAP_DBOFF = 0x14"
definition CAP_RTSOFF :: nat where "CAP_RTSOFF = 0x18"
definition OP_USBCMD :: nat where "OP_USBCMD = 0x00"
definition OP_USBSTS :: nat where "OP_USBSTS = 0x04"
definition OP_CRCR :: nat where "OP_CRCR = 0x18"
definition OP_DCBAAP :: nat where "OP_DCBAAP = 0x30"
definition OP_CONFIG :: nat where "OP_CONFIG = 0x38"
definition OP_PORTSC_BASE :: nat where "OP_PORTSC_BASE = 0x400"
definition IR_IMAN :: nat where "IR_IMAN = 0x00"
definition IR_ERSTSZ :: nat where "IR_ERSTSZ = 0x08"
definition IR_ERSTBA :: nat where "IR_ERSTBA = 0x10"
definition PORTSC_CCS :: u32 where "PORTSC_CCS = 1"
definition PORTSC_PED :: u32 where "PORTSC_PED = 0x2"
definition PORTSC_PR :: u32 where "PORTSC_PR = 0x10"
definition PORTSC_PP :: u32 where "PORTSC_PP = 0x200"
definition PORTSC_PRC :: u32 where "PORTSC_PRC = 0x200000"
definition PORTSC_CHANGE_BITS :: u32 where "PORTSC_CHANGE_BITS = 0xFE0000"

section \<open>Before the reset\<close>

partial_function (option) bios_walk :: "hw \<Rightarrow> nat \<Rightarrow> xstate \<Rightarrow> xstate option" where
  "bios_walk h ptr s =
     (let (hdr, s) = mmio_rd32 h ptr s
      in if hdr AND 0xFF = 1 then
           (if hdr AND 0x10000 \<noteq> 0 then
              do { (_, s) \<leftarrow> wait_reg h ptr (\<lambda>v. v AND 0x10000 = 0) 1000000
                               (mmio_wr32 ptr (hdr OR 0x1000000) s);
                   Some s }
            else Some s)
         else
           (let next = drop_bit 8 hdr AND 0xFF
            in if next = 0 then Some s else bios_walk h (ptr + unat next * 4) s))"

definition first_cap :: "hw \<Rightarrow> nat \<Rightarrow> xstate \<Rightarrow> nat \<times> xstate" where
  "first_cap h cap s =
     (let (hccparams1, s) = mmio_rd32 h (cap + CAP_HCCPARAMS1) s
      in (unat (drop_bit 16 hccparams1 AND 0xFFFF) * 4, s))"

definition bios_handoff :: "hw \<Rightarrow> nat \<Rightarrow> xstate \<Rightarrow> xstate option" where
  "bios_handoff h cap s =
     (let (off, s) = first_cap h cap s in if off = 0 then Some s else bios_walk h (cap + off) s)"

text \<open>
  The dump of the Supported Protocol capabilities only prints; what it can do to the driver is
  to underflow in \<open>port_off + port_cnt - 1\<close>.
\<close>

definition dump_protocol :: "hw \<Rightarrow> nat \<Rightarrow> xstate \<Rightarrow> xstate option" where
  "dump_protocol h ptr s =
     (let (w, s) = mmio_rd32 h (ptr + 8) s; psic = drop_bit 28 w AND 0xF
      in do { sum \<leftarrow> cadd (w AND 0xFF) (drop_bit 8 w AND 0xFF);
              _ \<leftarrow> csub sum 1;
              for_each [0..<unat psic] (\<lambda>i s. Some (snd (mmio_rd32 h (ptr + (16 + i * 4)) s))) s })"

partial_function (option) protocol_walk :: "hw \<Rightarrow> nat \<Rightarrow> xstate \<Rightarrow> xstate option" where
  "protocol_walk h ptr s =
     (let (hdr, s) = mmio_rd32 h ptr s
      in do { s \<leftarrow> (if hdr AND 0xFF = 2 then dump_protocol h ptr s else Some s);
              let next = drop_bit 8 hdr AND 0xFF;
              if next = 0 then Some s else protocol_walk h (ptr + unat next * 4) s })"

definition dump_supported_protocols :: "hw \<Rightarrow> nat \<Rightarrow> xstate \<Rightarrow> xstate option" where
  "dump_supported_protocols h cap s =
     (let (off, s) = first_cap h cap s in if off = 0 then Some s else protocol_walk h (cap + off) s)"

section \<open>Resets\<close>

definition xhci_reset :: "hw \<Rightarrow> nat \<Rightarrow> xstate \<Rightarrow> (bool \<times> xstate) option" where
  "xhci_reset h op s =
     do { let (cmd, s) = mmio_rd32 h (op + OP_USBCMD) s;
          (stopped, s) \<leftarrow>
            (if cmd AND 1 \<noteq> 0 then
               wait_reg h (op + OP_USBSTS) (\<lambda>v. v AND 1 \<noteq> 0) 100000
                 (mmio_wr32 (op + OP_USBCMD) (cmd AND NOT 1) s)
             else Some (Some cmd, s));
          if stopped = None then Some (False, s)
          else do {
            s \<leftarrow> delay h 1000 (mmio_wr32 (op + OP_USBCMD) 2 s);
            (done, s) \<leftarrow> wait_reg h (op + OP_USBCMD) (\<lambda>v. v AND 2 = 0) 100000 s;
            if done = None then Some (False, s)
            else do {
              (ready, s) \<leftarrow> wait_reg h (op + OP_USBSTS) (\<lambda>v. v AND 0x800 = 0) 100000 s;
              Some (ready \<noteq> None, s) } } }"

definition portsc :: "nat \<Rightarrow> nat \<Rightarrow> nat" where
  "portsc op port1 = op + OP_PORTSC_BASE + 0x10 * (port1 - 1)"

definition power_port :: "hw \<Rightarrow> nat \<Rightarrow> xstate \<Rightarrow> xstate" where
  "power_port h base s =
     (let (sc, s) = mmio_rd32 h base s in if sc AND PORTSC_PP = 0 then mmio_wr32 base PORTSC_PP s else s)"

text \<open>The loop over the attempts; its counter is the number of attempts left.\<close>

fun reset_attempts :: "hw \<Rightarrow> nat \<Rightarrow> nat \<Rightarrow> xstate \<Rightarrow> (bool \<times> xstate) option" where
  "reset_attempts h base 0 s = Some (False, s)"
| "reset_attempts h base (Suc n) s =
     (let (sc, s) = mmio_rd32 h base (power_port h base s); sc = sc AND NOT PORTSC_CHANGE_BITS
      in do { (seen, s) \<leftarrow> wait_reg h base (\<lambda>sc. sc AND PORTSC_PRC \<noteq> 0) 500000
                (mmio_wr32 base ((sc OR PORTSC_PR) AND NOT PORTSC_PED) s);
              (case seen of
                 None \<Rightarrow> reset_attempts h base n s
               | Some sc \<Rightarrow>
                   do { (up, s) \<leftarrow> wait_reg h base (\<lambda>sc. drop_bit 5 sc AND 0xF = 0) 100000
                          (mmio_wr32 base ((sc AND NOT PORTSC_CHANGE_BITS) OR PORTSC_PRC) s);
                        (case up of
                           None \<Rightarrow> reset_attempts h base n s
                         | Some sc \<Rightarrow> Some (sc AND PORTSC_PED \<noteq> 0, s)) }) })"

definition port_reset :: "hw \<Rightarrow> nat \<Rightarrow> nat \<Rightarrow> xstate \<Rightarrow> (bool \<times> xstate) option" where
  "port_reset h op port1 s = reset_attempts h (portsc op port1) 3 s"

section \<open>Setting up the controller\<close>

definition scratch_page :: "hw \<Rightarrow> u64 \<Rightarrow> nat \<Rightarrow> xstate \<Rightarrow> xstate option" where
  "scratch_page h po i s =
     (let (pg, s) = alloc_box h s
      in do { p \<leftarrow> phys_of pg po;
              sp \<leftarrow> set_at (xscratch s) i p;
              Some (s\<lparr>xscratch := sp\<rparr>) })"

definition scratchpad_count :: "u32 \<Rightarrow> nat" where
  "scratchpad_count hcsparams2 =
     unat (push_bit 5 (drop_bit 27 hcsparams2 AND 0x1F) OR (drop_bit 8 hcsparams2 AND 0x1F))"

definition setup_scratchpad :: "hw \<Rightarrow> u64 \<Rightarrow> nat \<Rightarrow> xstate \<Rightarrow> xstate option" where
  "setup_scratchpad h po sp_cnt s =
     (if sp_cnt > 0 then
        (let (sp_arr, s) = alloc_box h s
         in do { sp_phys \<leftarrow> phys_of sp_arr po;
                 s \<leftarrow> for_each [0..<min sp_cnt 32] (scratch_page h po) (s\<lparr>xscratch := replicate 32 0\<rparr>);
                 d \<leftarrow> set_at (xdcbaa s) 0 sp_phys;
                 Some (s\<lparr>xdcbaa := d\<rparr>) })
      else Some s)"

text \<open>From the allocation of the DMA structures to the start of the controller.\<close>

definition start_controller :: "hw \<Rightarrow> u64 \<Rightarrow> hc \<Rightarrow> nat \<Rightarrow> u32 \<Rightarrow> xstate \<Rightarrow> ((hc \<times> bool) \<times> xstate) option" where
  "start_controller h po c max_slots hcsparams2 s =
     (let (dcbaa, s) = alloc_box h s; (cmd_ring, s) = alloc_box h s;
          (evt_ring, s) = alloc_box h s; (erst, s) = alloc_box h s; op = hc_op c
      in do { dcbaa_phys \<leftarrow> phys_of dcbaa po;
              cmd_phys \<leftarrow> phys_of cmd_ring po;
              evt_phys \<leftarrow> phys_of evt_ring po;
              erst_phys \<leftarrow> phys_of erst po;
              s \<leftarrow> setup_scratchpad h po (scratchpad_count hcsparams2) (s\<lparr>xdcbaa := replicate 256 0\<rparr>);
              let s = s\<lparr>xcmd := linked_ring CMD_N cmd_phys, xerst := (evt_phys, of_nat EVT_N)\<rparr>;
              let s = mmio_wr32 (op + OP_CONFIG) (of_nat max_slots) s;
              let s = mmio_wr64 (op + OP_DCBAAP) dcbaa_phys s;
              let s = mmio_wr64 (op + OP_CRCR) (cmd_phys OR 1) s;
              let ir0 = hc_rt c + 0x20;
              let s = mmio_wr32 (ir0 + IR_ERSTSZ) 1 s;
              let s = mmio_wr64 (ir0 + IR_ERDP) evt_phys s;
              let s = mmio_wr64 (ir0 + IR_ERSTBA) erst_phys s;
              let s = mmio_wr32 (ir0 + IR_IMAN) 2 s;
              let s = mmio_wr32 (op + OP_USBCMD) 5 s;
              (running, s) \<leftarrow> wait_reg h (op + OP_USBSTS) (\<lambda>v. v AND 1 = 0) 100000 s;
              Some ((c\<lparr>hc_evt_phys := evt_phys\<rparr>, running \<noteq> None),
                s\<lparr>xcs := ring_start, xes := ring_start\<rparr>) })"

end
