(* ===== verification/XhciEnumerate.thy ===== *)
theory XhciEnumerate
  imports XhciInit
begin

text \<open>
  The port enumeration of \<open>init_unsafe\<close> (hal/src/xhci.rs): each phase of a port, the loop over
  the ports, and the whole initialisation.
\<close>

section \<open>The phases of a port\<close>

text \<open>A command that points at the input context, and its completion code.\<close>

definition context_command :: "hw \<Rightarrow> hc \<Rightarrow> u32 \<Rightarrow> u64 \<Rightarrow> u8 \<Rightarrow> xstate \<Rightarrow> (u8 \<times> xstate) option" where
  "context_command h c kind ctx_phys slot s =
     do { s \<leftarrow> post_cmd (TRB (ucast ctx_phys) (ucast (drop_bit 32 ctx_phys)) 0 (kind OR slot_field slot)) s;
          ((cc, _), s) \<leftarrow> wait_cmd h c 2000000 s;
          Some (cc, s) }"

text \<open>A failure after Enable Slot gives the slot back; the loop goes on with the next port.\<close>

definition give_up :: "hw \<Rightarrow> hc \<Rightarrow> u8 \<Rightarrow> xstate \<Rightarrow> (bool \<times> xstate) option" where
  "give_up h c slot s = do { s \<leftarrow> disable_slot h c slot s; Some (False, s) }"

text \<open>The addresses of a port's structures: input context, EP0 ring and descriptor buffer.\<close>

record port_mem =
  pm_ctx :: u64
  pm_ep0 :: u64
  pm_desc :: u64

definition alloc_port :: "hw \<Rightarrow> u64 \<Rightarrow> u8 \<Rightarrow> xstate \<Rightarrow> (port_mem \<times> xstate) option" where
  "alloc_port h po slot s =
     (let (out_ctx, s) = alloc_box h s; (in_ctx, s) = alloc_box h s;
          (ep0_ring, s) = alloc_box h s; (desc_buf, s) = alloc_box h s
      in do { out_phys \<leftarrow> phys_of out_ctx po;
              in_phys \<leftarrow> phys_of in_ctx po;
              ep0_phys \<leftarrow> phys_of ep0_ring po;
              desc_phys \<leftarrow> phys_of desc_buf po;
              d \<leftarrow> set_at (xdcbaa s) (unat slot) out_phys;
              Some (\<lparr>pm_ctx = in_phys, pm_ep0 = ep0_phys, pm_desc = desc_phys\<rparr>,
                s\<lparr>xdcbaa := d, xctx := zero_ctx, xep0 := linked_ring EP0_N ep0_phys\<rparr>) })"

text \<open>The Evaluate Context update of the input context with the real packet size of EP0.\<close>

definition eval_ctx :: "u8 \<Rightarrow> u32 list list \<Rightarrow> u32 list list option" where
  "eval_ctx mps c =
     do { c \<leftarrow> ctx_set 2 1 (push_bit 1 3 OR push_bit 3 4 OR push_bit 16 (ucast mps)) c;
          c \<leftarrow> ctx_set 0 0 0 c;
          ctx_set 0 1 2 c }"

text \<open>
  From the input context to Address Device: with BSR=1, then the first bytes of the device
  descriptor, Evaluate Context, and Address Device again with BSR=0.
\<close>

definition final_address :: "hw \<Rightarrow> hc \<Rightarrow> port_mem \<Rightarrow> u8 \<Rightarrow> xstate \<Rightarrow> (bool \<times> xstate) option" where
  "final_address h c pm slot s =
     do { ctx \<leftarrow> ctx_set 0 1 3 (xctx s);
          (cc, s) \<leftarrow> context_command h c (command TRB_ADDR_DEVICE) (pm_ctx pm) slot (s\<lparr>xctx := ctx\<rparr>);
          if cc \<noteq> CC_SUCCESS then give_up h c slot s else Some (True, s) }"

definition evaluate_ep0 :: "hw \<Rightarrow> hc \<Rightarrow> port_mem \<Rightarrow> u8 \<Rightarrow> xstate \<Rightarrow> (bool \<times> xstate) option" where
  "evaluate_ep0 h c pm slot s =
     do { (mps, s) \<leftarrow> read_desc h 7 s;
          ctx \<leftarrow> eval_ctx mps (xctx s);
          (cc, s) \<leftarrow> context_command h c (command TRB_EVAL_CTX) (pm_ctx pm) slot (s\<lparr>xctx := ctx\<rparr>);
          if cc \<noteq> CC_SUCCESS then give_up h c slot s else final_address h c pm slot s }"

definition read_packet_size :: "hw \<Rightarrow> hc \<Rightarrow> port_mem \<Rightarrow> nat \<Rightarrow> u8 \<Rightarrow> xstate \<Rightarrow> (bool \<times> xstate) option" where
  "read_packet_size h c pm port1 slot s =
     do { let s = snd (mmio_rd32 h (portsc (hc_op c) port1) s);
          (ok, s) \<leftarrow> ctrl_in h c (unat slot) (0x80, 0x06, 0, 0x01, 0, 0, 8, 0) (pm_desc pm) 8 s;
          if \<not> ok then give_up h c slot (snd (mmio_rd32 h (portsc (hc_op c) port1) s))
          else evaluate_ep0 h c pm slot s }"

definition address_device :: "hw \<Rightarrow> hc \<Rightarrow> port_mem \<Rightarrow> u8 \<Rightarrow> nat \<Rightarrow> u8 \<Rightarrow> xstate \<Rightarrow> (bool \<times> xstate) option" where
  "address_device h c pm speed port1 slot s =
     do { ctx \<leftarrow> setup_addr_input_ctx (pm_ep0 pm) speed port1 (xctx s);
          let s = s\<lparr>xctx := ctx, xep0s := ring_start\<rparr>;
          (cc, s) \<leftarrow> context_command h c (command TRB_ADDR_DEVICE OR push_bit 9 1) (pm_ctx pm) slot s;
          if cc \<noteq> CC_SUCCESS then give_up h c slot s else read_packet_size h c pm port1 slot s }"

text \<open>The bytes of the configuration descriptor, read one after the other.\<close>

definition read_config :: "hw \<Rightarrow> nat \<Rightarrow> xstate \<Rightarrow> (u8 list \<times> xstate) option" where
  "read_config h n s =
     (if n \<le> 512 then Some (map (\<lambda>i. hw_desc h (xtime s + i) i) [0..<n], s\<lparr>xtime := xtime s + n\<rparr>) else None)"

text \<open>The descriptors: the keyboard's endpoint, or the slot is given back.\<close>

definition not_keyboard :: "hw \<Rightarrow> hc \<Rightarrow> u8 \<Rightarrow> xstate \<Rightarrow> (kbd_ep option \<times> xstate) option" where
  "not_keyboard h c slot s = do { (_, s) \<leftarrow> give_up h c slot s; Some (None, s) }"

definition find_keyboard :: "hw \<Rightarrow> hc \<Rightarrow> port_mem \<Rightarrow> u8 \<Rightarrow> xstate \<Rightarrow> (kbd_ep option \<times> xstate) option" where
  "find_keyboard h c pm slot s =
     do { (lo, s) \<leftarrow> read_desc h 2 s;
          (hi, s) \<leftarrow> read_desc h 3 s;
          let total_len = (ucast lo :: u16) OR push_bit 8 (ucast hi);
          let fetch_len = min total_len 512;
          (_, s) \<leftarrow> ctrl_in h c (unat slot)
             (0x80, 0x06, 0, 0x02, 0, 0, ucast (fetch_len AND 0xFF), ucast (drop_bit 8 fetch_len))
             (pm_desc pm) fetch_len s;
          (cfg, s) \<leftarrow> read_config h (unat fetch_len) s;
          ep \<leftarrow> find_hid_kbd_ep cfg;
          (case ep of None \<Rightarrow> not_keyboard h c slot s | Some e \<Rightarrow> Some (Some e, s)) }"

definition identify_device :: "hw \<Rightarrow> hc \<Rightarrow> port_mem \<Rightarrow> u8 \<Rightarrow> xstate \<Rightarrow> (kbd_ep option \<times> xstate) option" where
  "identify_device h c pm slot s =
     do { (ok, s) \<leftarrow> ctrl_in h c (unat slot) (0x80, 0x06, 0, 0x01, 0, 0, 18, 0) (pm_desc pm) 18 s;
          if \<not> ok then not_keyboard h c slot s
          else do {
            (ok, s) \<leftarrow> ctrl_in h c (unat slot) (0x80, 0x06, 0, 0x02, 0, 0, 9, 0) (pm_desc pm) 9 s;
            if \<not> ok then not_keyboard h c slot s else find_keyboard h c pm slot s } }"

definition ctx_index :: "u8 \<Rightarrow> nat option" where
  "ctx_index ep_addr =
     do { n \<leftarrow> cmul (ep_addr AND 0x0F) 2;
          i \<leftarrow> cadd n (drop_bit 7 ep_addr AND 1);
          Some (unat i) }"

text \<open>The last phase configures the endpoint, posts the first transfer and hands over to the timer.\<close>

definition hand_over :: "hc \<Rightarrow> u8 \<Rightarrow> nat \<Rightarrow> u64 \<Rightarrow> trb list \<Rightarrow> xstate \<Rightarrow> (bool \<times> xstate) option" where
  "hand_over c slot idx buf_phys ring s =
     do { (ring, pos) \<leftarrow> arm_kbd_ep_raw ring ring_start buf_phys;
          let s = mmio_wr32 (hc_db c + unat slot * 4) (of_nat idx) s;
          Some (True, s\<lparr>xkbd := (xkbd s)\<lparr>uk_slot := unat slot, uk_ep_db := of_nat idx,
             uk_db_base := hc_db c, uk_rt_base := hc_rt c, uk_evt_phys := hc_evt_phys c,
             uk_evt := xes s, uk_tr := ring, uk_tr_pos := pos, uk_buf_phys := buf_phys,
             uk_ready := True\<rparr>\<rparr>) }"

definition configure_endpoint :: "hw \<Rightarrow> u64 \<Rightarrow> hc \<Rightarrow> port_mem \<Rightarrow> u8 \<Rightarrow> nat \<Rightarrow> u16 \<Rightarrow> u8 \<Rightarrow> xstate \<Rightarrow> (bool \<times> xstate) option" where
  "configure_endpoint h po c pm slot idx max_pkt ival s =
     do { let (int_ring, s) = alloc_box h s;
          let (hid_buf, s) = alloc_box h s;
          int_phys \<leftarrow> phys_of int_ring po;
          buf_phys \<leftarrow> phys_of hid_buf po;
          ctx \<leftarrow> setup_cfg_input_ctx idx int_phys max_pkt ival (xctx s);
          (cc, s) \<leftarrow> context_command h c (command TRB_CFG_EP) (pm_ctx pm) slot (s\<lparr>xctx := ctx\<rparr>);
          if cc \<noteq> CC_SUCCESS then give_up h c slot s
          else hand_over c slot idx buf_phys (linked_ring INT_N int_phys) s }"

definition configure_keyboard :: "hw \<Rightarrow> u64 \<Rightarrow> hc \<Rightarrow> port_mem \<Rightarrow> u8 \<Rightarrow> kbd_ep \<Rightarrow> xstate \<Rightarrow> (bool \<times> xstate) option" where
  "configure_keyboard h po c pm slot ep s =
     (case ep of (cfg_val, iface, ep_addr, max_pkt, ival) \<Rightarrow>
        do { idx \<leftarrow> ctx_index ep_addr;
             (_, s) \<leftarrow> ctrl_out h c (unat slot) (0, 0x09, cfg_val, 0, 0, 0, 0, 0) s;
             (_, s) \<leftarrow> ctrl_out h c (unat slot) (0x21, 0x0B, 0, 0, iface, 0, 0, 0) s;
             (_, s) \<leftarrow> ctrl_out h c (unat slot) (0x21, 0x0A, 0, 0, iface, 0, 0, 0) s;
             configure_endpoint h po c pm slot idx max_pkt ival s })"

section \<open>The loop over the ports\<close>

definition use_slot :: "hw \<Rightarrow> u64 \<Rightarrow> hc \<Rightarrow> u8 \<Rightarrow> nat \<Rightarrow> u8 \<Rightarrow> xstate \<Rightarrow> (bool \<times> xstate) option" where
  "use_slot h po c speed port1 slot s =
     do { (pm, s) \<leftarrow> alloc_port h po slot s;
          (ok, s) \<leftarrow> address_device h c pm speed port1 slot s;
          if \<not> ok then Some (False, s)
          else do {
            (ep, s) \<leftarrow> identify_device h c pm slot s;
            (case ep of None \<Rightarrow> Some (False, s) | Some e \<Rightarrow> configure_keyboard h po c pm slot e s) } }"

definition enum_port :: "hw \<Rightarrow> u64 \<Rightarrow> hc \<Rightarrow> nat \<Rightarrow> xstate \<Rightarrow> (bool \<times> xstate) option" where
  "enum_port h po c port1 s =
     (let (sc, s) = mmio_rd32 h (portsc (hc_op c) port1) s
      in if sc AND PORTSC_CCS = 0 then Some (False, s)
         else do {
           (_, s) \<leftarrow> port_reset h (hc_op c) port1 s;
           let s = snd (mmio_rd32 h (portsc (hc_op c) port1) s);
           s \<leftarrow> delay h 10000 s;
           s \<leftarrow> post_cmd (TRB 0 0 0 (command TRB_ENABLE_SLOT)) s;
           ((cc, slot), s) \<leftarrow> wait_cmd h c 1000000 s;
           if cc \<noteq> CC_SUCCESS \<or> slot = 0 then Some (False, s)
           else use_slot h po c (ucast (drop_bit 10 sc AND 0xF)) port1 slot s })"

fun enum_ports :: "hw \<Rightarrow> u64 \<Rightarrow> hc \<Rightarrow> nat list \<Rightarrow> xstate \<Rightarrow> xstate option" where
  "enum_ports h po c [] s = Some s"
| "enum_ports h po c (port1 # ports) s =
     do { (found, s) \<leftarrow> enum_port h po c port1 s;
          if found then Some s else enum_ports h po c ports s }"

section \<open>Initialisation\<close>

definition init_unsafe :: "hw \<Rightarrow> u64 \<Rightarrow> nat \<Rightarrow> xstate \<Rightarrow> xstate option" where
  "init_unsafe h po cap s =
     do { s \<leftarrow> bios_handoff h cap s;
          s \<leftarrow> dump_supported_protocols h cap s;
          let (caplength, s) = mmio_rd8 h cap s;
          let op = cap + unat caplength;
          let (hcsparams1, s) = mmio_rd32 h (cap + CAP_HCSPARAMS1) s;
          let (hcsparams2, s) = mmio_rd32 h (cap + CAP_HCSPARAMS2) s;
          let (hccparams1, s) = mmio_rd32 h (cap + CAP_HCCPARAMS1) s;
          let (dboff, s) = mmio_rd32 h (cap + CAP_DBOFF) s;
          let (rtsoff, s) = mmio_rd32 h (cap + CAP_RTSOFF) s;
          let c = \<lparr>hc_op = op, hc_db = cap + unat dboff, hc_rt = cap + unat rtsoff, hc_evt_phys = 0\<rparr>;
          let max_slots = unat (hcsparams1 AND 0xFF);
          let max_ports = unat (drop_bit 24 hcsparams1 AND 0xFF);
          if drop_bit 2 hccparams1 AND 1 \<noteq> 0 then Some s
          else do {
            (ok, s) \<leftarrow> xhci_reset h op s;
            if \<not> ok then Some s
            else do {
              ((c, running), s) \<leftarrow> start_controller h po c max_slots hcsparams2 s;
              if \<not> running then Some s
              else do {
                let s = fold (\<lambda>port1. power_port h (portsc op port1)) [1..<max_ports + 1] s;
                s \<leftarrow> delay h 20000 s;
                enum_ports h po c [1..<max_ports + 1] s } } } }"

text \<open>The state before \<open>init\<close>: nothing allocated, the static variables at their initial values.\<close>

definition usb_kbd_init :: usb_kbd where
  "usb_kbd_init = \<lparr>uk_ready = False, uk_reports = 0, uk_slot = 0, uk_ep_db = 0, uk_db_base = 0,
     uk_rt_base = 0, uk_evt_phys = 0, uk_evt = ring_start, uk_tr = [], uk_tr_pos = ring_start,
     uk_buf_phys = 0\<rparr>"

definition xstate_init :: xstate where
  "xstate_init = \<lparr>xtime = 0, xtrace = [], xboxes = 0, xcmd = [], xcs = ring_start, xes = ring_start,
     xdcbaa = [], xscratch = [], xerst = (0, 0), xctx = [], xep0 = [], xep0s = ring_start,
     xkbd = usb_kbd_init\<rparr>"

text \<open>\<open>init\<close>, with the answer of the bus scan \<open>find_xhci_bar0\<close>.\<close>

definition xhci_init :: "hw \<Rightarrow> u64 \<Rightarrow> nat option \<Rightarrow> xstate option" where
  "xhci_init h po bar =
     (case bar of None \<Rightarrow> Some xstate_init | Some cap \<Rightarrow> init_unsafe h po cap xstate_init)"

end
