(* ===== verification/XhciWaits.thy ===== *)
theory XhciWaits
  imports XhciEnumerate
begin

text \<open>
  The busy loops of the driver end: under a time-stamp counter that advances, every deadline
  passes and is seen to pass.  The counter is read modulo \<open>2 ^ 64\<close>, so the argument bounds how
  far it can run past a deadline between two looks at it.
\<close>

section \<open>What the driver relies on\<close>

text \<open>
  The counter advances at every interaction, by less than \<open>2 ^ 40\<close> cycles, and its calibrated
  rate is below \<open>2 ^ 20\<close> MHz.
\<close>

definition clock_ok :: "hw \<Rightarrow> bool" where
  "clock_ok h \<longleftrightarrow> unat (hw_mhz h) \<le> 2 ^ 20
     \<and> (\<forall>t. hw_clock h t < hw_clock h (t + 1) \<and> hw_clock h (t + 1) \<le> hw_clock h t + 2 ^ 40)"

definition clock_at :: "hw \<Rightarrow> xstate \<Rightarrow> nat" where
  "clock_at h s = hw_clock h (xtime s)"

lemma clock_mono:
  assumes "clock_ok h" "t \<le> u"
  shows "hw_clock h t \<le> hw_clock h u \<and> hw_clock h u \<le> hw_clock h t + (u - t) * 2 ^ 40"
  using assms(2)
proof (induction rule: dec_induct)
  case (step u)
  have "hw_clock h u < hw_clock h (u + 1)" "hw_clock h (u + 1) \<le> hw_clock h u + 2 ^ 40"
    using assms(1) by (auto simp: clock_ok_def)
  with step show ?case by (simp add: Suc_diff_le)
qed simp

lemma clock_less: "clock_ok h \<Longrightarrow> t < u \<Longrightarrow> hw_clock h t < hw_clock h u"
proof -
  assume ok: "clock_ok h" and "t < u"
  then have "hw_clock h (t + 1) \<le> hw_clock h u" using clock_mono [of h "t + 1" u] by simp
  moreover have "hw_clock h t < hw_clock h (t + 1)" using ok unfolding clock_ok_def by blast
  ultimately show ?thesis by linarith
qed

lemma clock_step:
  assumes "clock_ok h"
  shows "clock_at h s < clock_at h (s\<lparr>xtime := Suc (xtime s)\<rparr>)"
    and "clock_at h (s\<lparr>xtime := Suc (xtime s)\<rparr>) \<le> clock_at h s + 2 ^ 40"
  using assms unfolding clock_ok_def clock_at_def by auto

lemma mhz_bound: "clock_ok h \<Longrightarrow> unat (hw_mhz h) \<le> 2 ^ 20"
  unfolding clock_ok_def by blast

lemma deadline_returns:
  assumes "clock_ok h" "us \<le> 2000000"
  shows "deadline_cycles h us s =
    Some (of_nat (clock_at h s + unat us * unat (hw_mhz h)), s\<lparr>xtime := xtime s + 1\<rparr>)"
proof -
  have "unat us * unat (hw_mhz h) \<le> 2000000 * 2 ^ 20"
    using assms(2) mhz_bound [OF assms(1)] by (intro mult_le_mono) (simp_all add: word_le_nat_alt)
  also have "\<dots> < 2 ^ LENGTH(64)" by simp
  finally have "cmul us (hw_mhz h) = Some (us * hw_mhz h)" by (simp only: cmul_def if_True)
  then show ?thesis by (simp add: deadline_cycles_def read_tsc_def clock_at_def)
qed

lemma past_after:
  assumes "T \<le> clock_at h s" "clock_at h s \<le> T + 2 ^ 62"
  shows "past h (of_nat T) s = (True, s\<lparr>xtime := xtime s + 1\<rparr>)"
proof -
  have "of_nat (clock_at h s) - of_nat T = (of_nat (clock_at h s - T) :: u64)"
    using assms(1) by (simp add: of_nat_diff)
  moreover have "unat (of_nat (clock_at h s - T) :: u64) < 2 ^ 63"
    using assms(2) by (simp add: unat_of_nat_small)
  ultimately show ?thesis by (simp add: past_def read_tsc_def clock_at_def word_less_nat_alt)
qed

lemma past_time: "past h dl s = (b, s') \<Longrightarrow> s' = s\<lparr>xtime := xtime s + 1\<rparr>"
  by (auto simp: past_def read_tsc_def)

text \<open>Looking at the clock within reach of a deadline \<open>T\<close>: it has passed, or \<open>T\<close> is still ahead.\<close>

lemma past_cases:
  assumes "clock_at h s \<le> T + 2 ^ 62"
  obtains "past h (of_nat T) s = (True, s\<lparr>xtime := xtime s + 1\<rparr>)"
  | "past h (of_nat T) s = (False, s\<lparr>xtime := xtime s + 1\<rparr>)" "clock_at h s < T"
proof (cases "past h (of_nat T) s")
  case (Pair b s')
  then have "s' = s\<lparr>xtime := xtime s + 1\<rparr>" by (rule past_time)
  with Pair that past_after [OF _ assms] show ?thesis by (cases b) force+
qed

section \<open>Polling ends\<close>

text \<open>\<open>later s s'\<close>: nothing but the time has changed.\<close>

definition later :: "xstate \<Rightarrow> xstate \<Rightarrow> bool" where
  "later s s' \<longleftrightarrow> xtime s < xtime s' \<and> s' = s\<lparr>xtime := xtime s'\<rparr>"

lemma later_intro [intro, simp]: "xtime s < u \<Longrightarrow> later s (s\<lparr>xtime := u\<rparr>)"
  by (auto simp: later_def)

lemma later_trans: "later (s\<lparr>xtime := u\<rparr>) s' \<Longrightarrow> xtime s \<le> u \<Longrightarrow> later s s'"
  by (cases s') (auto simp: later_def)

lemma spin_until_returns:
  assumes ok: "clock_ok h"
  shows "clock_at h s \<le> T + 2 ^ 50 \<Longrightarrow> returns (spin_until h (of_nat T) s) (later s)"
proof (induction "T - clock_at h s" arbitrary: s rule: less_induct)
  case less
  have "clock_at h s \<le> T + 2 ^ 62" using less.prems by simp
  then show ?case
  proof (cases rule: past_cases)
    case 1
    then show ?thesis by (subst spin_until.simps) simp
  next
    case 2
    let ?s = "s\<lparr>xtime := xtime s + 1\<rparr>"
    have "T - clock_at h ?s < T - clock_at h s" "clock_at h ?s \<le> T + 2 ^ 50"
      using 2 clock_step [OF ok, of s] by simp_all
    from less.hyps [OF this] have "returns (spin_until h (of_nat T) ?s) (later s)"
      by (rule returns_mono) (auto intro: later_trans)
    with 2 show ?thesis by (subst spin_until.simps) simp
  qed
qed

lemma poll_reg_returns:
  assumes ok: "clock_ok h"
  shows "clock_at h s \<le> T + 2 ^ 50 \<Longrightarrow>
    returns (poll_reg h a P (of_nat T) s) (\<lambda>(r, s'). later s s' \<and> pred_option P r)"
proof (induction "T - clock_at h s" arbitrary: s rule: less_induct)
  case less
  let ?s1 = "s\<lparr>xtime := xtime s + 1\<rparr>" and ?s2 = "s\<lparr>xtime := xtime s + 2\<rparr>"
  have step: "clock_at h s < clock_at h ?s1" "clock_at h ?s1 \<le> clock_at h s + 2 ^ 40"
      "clock_at h ?s1 < clock_at h ?s2" "clock_at h ?s2 \<le> clock_at h ?s1 + 2 ^ 40"
    using clock_step [OF ok, of s] clock_step [OF ok, of ?s1] by simp_all
  show ?case
  proof (cases "P (hw_reg h (xtime s) a)")
    case True
    then show ?thesis by (subst poll_reg.simps) (simp add: mmio_rd32_def)
  next
    case False
    have "clock_at h ?s1 \<le> T + 2 ^ 62" using less.prems step by simp
    then show ?thesis
    proof (cases rule: past_cases)
      case 1
      with False show ?thesis by (subst poll_reg.simps) (simp add: mmio_rd32_def)
    next
      case 2
      have "T - clock_at h ?s2 < T - clock_at h s" "clock_at h ?s2 \<le> T + 2 ^ 50"
        using 2 step by simp_all
      from less.hyps [OF this]
      have "returns (poll_reg h a P (of_nat T) ?s2) (\<lambda>(r, s'). later s s' \<and> pred_option P r)"
        by (rule returns_mono) (auto intro: later_trans)
      with 2 False show ?thesis by (subst poll_reg.simps) (simp add: mmio_rd32_def)
    qed
  qed
qed

text \<open>The deadlines the driver sets are in reach when it starts to wait.\<close>

lemma set_deadline:
  assumes "clock_ok h" "us \<le> 2000000"
  obtains T where "deadline_cycles h us s = Some (of_nat T, s\<lparr>xtime := xtime s + 1\<rparr>)"
    "clock_at h (s\<lparr>xtime := xtime s + 1\<rparr>) \<le> T + 2 ^ 40" "T = clock_at h s + unat us * unat (hw_mhz h)"
proof -
  have "clock_at h (s\<lparr>xtime := xtime s + 1\<rparr>) \<le> clock_at h s + 2 ^ 40"
    using clock_step [OF assms(1), of s] by simp
  then show ?thesis using that [OF deadline_returns [OF assms]] by simp
qed

lemma delay_returns:
  assumes "clock_ok h" "us \<le> 2000000"
  shows "returns (delay h us s) (later s)"
proof -
  from set_deadline [OF assms] obtain T where T:
    "deadline_cycles h us s = Some (of_nat T, s\<lparr>xtime := xtime s + 1\<rparr>)"
    "clock_at h (s\<lparr>xtime := xtime s + 1\<rparr>) \<le> T + 2 ^ 40" .
  have "clock_at h (s\<lparr>xtime := xtime s + 1\<rparr>) \<le> T + 2 ^ 50" using T(2) by simp
  from spin_until_returns [OF assms(1) this]
  have "returns (spin_until h (of_nat T) (s\<lparr>xtime := xtime s + 1\<rparr>)) (later s)"
    by (rule returns_mono) (auto intro: later_trans)
  with T(1) show ?thesis by (simp add: delay_def)
qed

lemma wait_reg_returns:
  assumes "clock_ok h" "us \<le> 2000000"
  shows "returns (wait_reg h a P us s) (\<lambda>(r, s'). later s s' \<and> pred_option P r)"
proof -
  from set_deadline [OF assms] obtain T where T:
    "deadline_cycles h us s = Some (of_nat T, s\<lparr>xtime := xtime s + 1\<rparr>)"
    "clock_at h (s\<lparr>xtime := xtime s + 1\<rparr>) \<le> T + 2 ^ 40" .
  have "clock_at h (s\<lparr>xtime := xtime s + 1\<rparr>) \<le> T + 2 ^ 50" using T(2) by simp
  from poll_reg_returns [OF assms(1) this, of a P]
  have "returns (poll_reg h a P (of_nat T) (s\<lparr>xtime := xtime s + 1\<rparr>))
      (\<lambda>(r, s'). later s s' \<and> pred_option P r)"
    by (rule returns_mono) (auto intro: later_trans)
  with T(1) show ?thesis by (simp add: wait_reg_def)
qed

end
