(* ===== verification/XhciEvents.thy ===== *)
theory XhciEvents
  imports XhciWaits
begin

text \<open>
  What each operation of the driver does to the rings, and to the device slots the controller
  has given out.  The slots are read off the trace: \<open>slot_view\<close> follows the Enable Slot
  commands, their completion events and the Disable Slot commands.
\<close>

section \<open>Device slots\<close>

text \<open>
  The view is whether an Enable Slot command is awaiting its completion, and the slots given
  out and not yet given back.
\<close>

type_synonym slot_view = "bool \<times> u8 list"

fun slot_step :: "xact \<Rightarrow> slot_view \<Rightarrow> slot_view" where
  "slot_step (Reg_write a v) w = w"
| "slot_step (Control t) w = w"
| "slot_step (Command t) (waiting, given) =
     (trb_type t = TRB_ENABLE_SLOT,
      if trb_type t = TRB_DISABLE_SLOT then removeAll (event_slot t) given else given)"
| "slot_step (Taken e) (waiting, given) =
     (if waiting \<and> trb_type e = TRB_EVT_CMD
      then (False, if event_cc e = CC_SUCCESS \<and> event_slot e \<noteq> 0 then event_slot e # given else given)
      else (waiting, given))"

definition slot_view :: "xstate \<Rightarrow> slot_view" where
  "slot_view s = fold slot_step (xtrace s) (False, [])"

definition held_slots :: "xstate \<Rightarrow> u8 list" where
  "held_slots s = snd (slot_view s)"

section \<open>Invariants\<close>

definition ctl_ok :: "xstate \<Rightarrow> bool" where
  "ctl_ok s \<longleftrightarrow> length (xcmd s) = CMD_N \<and> slot_at (xcs s) + 1 < CMD_N \<and> slot_at (xes s) < EVT_N
     \<and> length (xdcbaa s) = 256"

definition ctx_ok :: "u32 list list \<Rightarrow> bool" where
  "ctx_ok c \<longleftrightarrow> length c = 33 \<and> (\<forall>row \<in> set c. length row = 8)"

definition port_ok :: "xstate \<Rightarrow> bool" where
  "port_ok s \<longleftrightarrow> length (xep0 s) = EP0_N \<and> slot_at (xep0s s) + 1 < EP0_N \<and> ctx_ok (xctx s)"

definition hc_ok :: "hc \<Rightarrow> bool" where
  "hc_ok c \<longleftrightarrow> unat (hc_evt_phys c) + 1024 \<le> 2 ^ 64"

text \<open>
  \<open>effect g s s'\<close>: the rings stay well-formed, the polling side is untouched, and the slots
  change by \<open>g\<close>.
\<close>

definition effect :: "(slot_view \<Rightarrow> slot_view) \<Rightarrow> xstate \<Rightarrow> xstate \<Rightarrow> bool" where
  "effect g s s' \<longleftrightarrow> ctl_ok s' \<and> (port_ok s \<longrightarrow> port_ok s') \<and> xkbd s' = xkbd s
     \<and> slot_view s' = g (slot_view s) \<and> xtime s \<le> xtime s'"

abbreviation keeps :: "xstate \<Rightarrow> xstate \<Rightarrow> bool" where
  "keeps \<equiv> effect (\<lambda>w. w)"

lemma effect_trans: "effect f s s' \<Longrightarrow> effect g s' s'' \<Longrightarrow> effect (\<lambda>w. g (f w)) s s''"
  by (auto simp: effect_def)

lemma effect_cong: "effect f s s' \<Longrightarrow> f (slot_view s) = g (slot_view s) \<Longrightarrow> effect g s s'"
  by (simp add: effect_def)

lemma effect_idle: "effect f s s' \<Longrightarrow> f (slot_view s) = slot_view s \<Longrightarrow> keeps s s'"
  by (simp add: effect_def)

lemma effectD:
  "effect g s s' \<Longrightarrow> ctl_ok s'" "effect g s s' \<Longrightarrow> port_ok s \<Longrightarrow> port_ok s'"
  "effect g s s' \<Longrightarrow> xkbd s' = xkbd s" "effect g s s' \<Longrightarrow> slot_view s' = g (slot_view s)"
  by (simp_all add: effect_def)

lemma later_keeps: "later s s' \<Longrightarrow> ctl_ok s \<Longrightarrow> keeps s s'"
  by (cases s') (auto simp: later_def effect_def ctl_ok_def port_ok_def slot_view_def)

lemma keeps_refl: "ctl_ok s \<Longrightarrow> keeps s s"
  by (simp add: effect_def)

lemma time_keeps: "ctl_ok s \<Longrightarrow> xtime s \<le> u \<Longrightarrow> keeps s (s\<lparr>xtime := u\<rparr>)"
  by (simp add: effect_def ctl_ok_def port_ok_def slot_view_def)

lemma act_effect: "ctl_ok s \<Longrightarrow> effect (slot_step x) s (act x s)"
  by (simp add: effect_def ctl_ok_def port_ok_def slot_view_def act_def)

lemma mmio_wr32_keeps: "ctl_ok s \<Longrightarrow> keeps s (mmio_wr32 a v s)"
  using act_effect [of s "Reg_write a v"] by (auto simp: mmio_wr32_def elim: effect_cong)

lemma mmio_wr64_keeps: "ctl_ok s \<Longrightarrow> keeps s (mmio_wr64 a v s)"
  unfolding mmio_wr64_def using mmio_wr32_keeps effect_trans effectD(1) by blast

section \<open>Posting\<close>

lemma post_cmd_effect:
  assumes "ctl_ok s"
  shows "returns (post_cmd d s) (effect (slot_step (Command d)) s)"
proof -
  have at: "length (xcmd s) = CMD_N" "slot_at (xcs s) + 1 < CMD_N" using assms by (auto simp: ctl_ok_def)
  from cmd_ring.push_law [OF this, of d] obtain r st where
    push: "cmd_push (xcmd s) (xcs s) d = Some (r, st)" "length r = CMD_N" "slot_at st + 1 < CMD_N"
    using at(2) by (auto split: if_splits)
  have "ctl_ok (s\<lparr>xcmd := r, xcs := st\<rparr>)" using assms push by (simp add: ctl_ok_def)
  from act_effect [OF this, of "Command d"] show ?thesis
    using push(1) by (auto simp: post_cmd_def effect_def port_ok_def slot_view_def)
qed

lemma post_ep0_keeps:
  assumes "ctl_ok s" "port_ok s"
  shows "returns (post_ep0 d s) (keeps s)"
proof -
  have at: "length (xep0 s) = EP0_N" "slot_at (xep0s s) + 1 < EP0_N" using assms by (auto simp: port_ok_def)
  from ep0_ring.push_law [OF this, of d] obtain r st where
    push: "ep0_push (xep0 s) (xep0s s) d = Some (r, st)" "length r = EP0_N" "slot_at st + 1 < EP0_N"
    using at(2) by (auto split: if_splits)
  have "ctl_ok (s\<lparr>xep0 := r, xep0s := st\<rparr>)" using assms by (simp add: ctl_ok_def)
  from act_effect [OF this, of "Control d"] show ?thesis
    using push assms(2) by (auto simp: post_ep0_def effect_def port_ok_def slot_view_def)
qed

section \<open>Taking events\<close>

text \<open>The slots after a wait that may have taken one event.\<close>

fun after_event :: "trb option \<Rightarrow> slot_view \<Rightarrow> slot_view" where
  "after_event None w = w"
| "after_event (Some e) w = slot_step (Taken e) w"

lemma next_event_bound: "slot_at p < EVT_N \<Longrightarrow> slot_at (next_event p) < EVT_N"
  by (auto simp: next_event_def EVT_N_def Let_def)

lemma write_erdp_keeps:
  assumes "hc_ok c" "ctl_ok s"
  shows "returns (write_erdp c s) (\<lambda>s'. keeps s s' \<and> xtime s' = xtime s + 2)"
proof -
  let ?n = "of_nat (slot_at (xes s)) * 16 :: u64"
  have "slot_at (xes s) < 64" using assms(2) by (simp add: ctl_ok_def EVT_N_def)
  then have "unat ?n < 1024" by (simp add: unat_word_ariths unat_of_nat_small)
  then have "cadd (hc_evt_phys c) ?n = Some (hc_evt_phys c + ?n)"
    using assms(1) by (simp add: cadd_def hc_ok_def)
  then show ?thesis using mmio_wr64_keeps [OF assms(2)]
    by (simp add: write_erdp_def) (simp add: mmio_wr64_def mmio_wr32_def act_def)
qed

lemma evt_poll_returns:
  assumes ok: "clock_ok h" "hc_ok c"
  shows "ctl_ok s \<Longrightarrow> clock_at h s \<le> T + 2 ^ 50 \<Longrightarrow>
    returns (evt_poll h c (of_nat T) s) (\<lambda>(e, s'). effect (after_event e) s s' \<and> xtime s < xtime s'
      \<and> clock_at h s' \<le> max (T + 2 ^ 40) (clock_at h s) + 2 ^ 43)"
proof (induction "T - clock_at h s" arbitrary: s rule: less_induct)
  case less
  let ?s1 = "s\<lparr>xtime := xtime s + 1\<rparr>" and ?s2 = "s\<lparr>xtime := xtime s + 2\<rparr>"
  let ?dw = "hw_event h (xtime s) (slot_at (xes s))"
  have step: "clock_at h s < clock_at h ?s1" "clock_at h ?s1 \<le> clock_at h s + 2 ^ 40"
      "clock_at h ?s1 < clock_at h ?s2" "clock_at h ?s2 \<le> clock_at h ?s1 + 2 ^ 40"
    using clock_step [OF ok(1), of s] clock_step [OF ok(1), of ?s1] by simp_all
  have event: "read_event h (slot_at (xes s)) s = Some (?dw, ?s1)"
    using less.prems(1) by (simp add: read_event_def ctl_ok_def)
  show ?case
  proof (cases "dw3 ?dw AND 1 = cycle_at (xes s)")
    case True
    define s3 where "s3 = act (Taken ?dw) (?s1\<lparr>xes := next_event (xes s)\<rparr>)"
    have s3: "effect (slot_step (Taken ?dw)) s s3" "xtime s3 = xtime s + 2"
      using less.prems(1) next_event_bound [of "xes s"]
      by (auto simp: s3_def act_def effect_def ctl_ok_def port_ok_def slot_view_def)
    from write_erdp_keeps [OF ok(2) effectD(1) [OF s3(1)]] obtain s4 where
      s4: "write_erdp c s3 = Some s4" "keeps s3 s4" "xtime s4 = xtime s + 4"
      using s3(2) by (auto simp: returns_def)
    have "clock_at h s4 \<le> clock_at h s + 4 * 2 ^ 40"
      using clock_mono [OF ok(1), of "xtime s" "xtime s + 4"] s4(3) by (simp add: clock_at_def)
    moreover have "effect (slot_step (Taken ?dw)) s s4" using effect_trans [OF s3(1) s4(2)] by simp
    moreover have "after_event (Some ?dw) = slot_step (Taken ?dw)" by (rule ext) simp
    ultimately show ?thesis
      using True event s4 by (subst evt_poll.simps) (simp add: s3_def)
  next
    case False
    have "clock_at h ?s1 \<le> T + 2 ^ 62" using less.prems step by simp
    then show ?thesis
    proof (cases rule: past_cases)
      case 1
      have "after_event None = (\<lambda>w. w)" by (rule ext) simp
      with 1 False event step less.prems time_keeps [of s "xtime s + 2"] show ?thesis
        by (subst evt_poll.simps) simp
    next
      case 2
      have fwd: "ctl_ok ?s2" "keeps s ?s2"
        using less.prems(1) time_keeps [of s "xtime s + 2"] by (auto simp: ctl_ok_def)
      have "T - clock_at h ?s2 < T - clock_at h s" "clock_at h ?s2 \<le> T + 2 ^ 50"
        using 2 step by simp_all
      from less.hyps [OF this(1) fwd(1) this(2)]
      have "returns (evt_poll h c (of_nat T) ?s2) (\<lambda>(e, s'). effect (after_event e) s s' \<and> xtime s < xtime s'
          \<and> clock_at h s' \<le> max (T + 2 ^ 40) (clock_at h s) + 2 ^ 43)"
        by (rule returns_mono) (use 2 step effect_trans [OF fwd(2)] in auto)
      with 2 False event show ?thesis by (subst evt_poll.simps) simp
    qed
  qed
qed

lemma evt_wait_returns:
  assumes "clock_ok h" "hc_ok c" "ctl_ok s"
  shows "returns (evt_wait h c 500 s) (\<lambda>(e, s'). effect (after_event e) s s' \<and> xtime s < xtime s'
      \<and> clock_at h s' \<le> clock_at h s + 2 ^ 44)"
proof -
  let ?s = "s\<lparr>xtime := xtime s + 1\<rparr>"
  from set_deadline [OF assms(1), of 500 s] obtain T where T:
    "deadline_cycles h 500 s = Some (of_nat T, ?s)"
    "clock_at h ?s \<le> T + 2 ^ 40" "T = clock_at h s + 500 * unat (hw_mhz h)" by auto
  have bounds: "clock_at h ?s \<le> T + 2 ^ 50" "T \<le> clock_at h s + 2 ^ 29"
    using T(2,3) mhz_bound [OF assms(1)] by simp_all
  have fwd: "ctl_ok ?s" "keeps s ?s" using assms(3) time_keeps [of s "xtime s + 1"] by (auto simp: ctl_ok_def)
  from evt_poll_returns [OF assms(1,2) fwd(1) bounds(1)]
  have "returns (evt_poll h c (of_nat T) ?s) (\<lambda>(e, s'). effect (after_event e) s s' \<and> xtime s < xtime s'
      \<and> clock_at h s' \<le> clock_at h s + 2 ^ 44)"
    by (rule returns_mono) (use bounds clock_step [OF assms(1), of s] effect_trans [OF fwd(2)] in auto)
  with T(1) show ?thesis by (simp add: evt_wait_def)
qed

text \<open>
  Waiting for an event that \<open>accept\<close> takes, when the events it does not take leave the slots
  alone: the slots change by the event taken, or not at all.
\<close>

lemma event_loop_returns:
  assumes ok: "clock_ok h" "hc_ok c"
    and idle: "\<And>e. accept e = None \<Longrightarrow> slot_step (Taken e) v = v"
  shows "ctl_ok s \<Longrightarrow> slot_view s = v \<Longrightarrow> clock_at h s \<le> T + 2 ^ 50 \<Longrightarrow>
    returns (event_loop h c accept (of_nat T) s) (\<lambda>(r, s').
      case r of None \<Rightarrow> keeps s s' | Some x \<Rightarrow> \<exists>e. accept e = Some x \<and> effect (slot_step (Taken e)) s s')"
proof (induction "T - clock_at h s" arbitrary: s rule: less_induct)
  case less
  from evt_wait_returns [OF ok less.prems(1)] obtain e s1 where
    wait: "evt_wait h c 500 s = Some (e, s1)" and eff: "effect (after_event e) s s1"
    and time: "xtime s < xtime s1" "clock_at h s1 \<le> clock_at h s + 2 ^ 44"
    by (auto simp: returns_def)
  show ?case
  proof (cases "Option.bind e accept")
    case (Some x)
    then obtain dw where "e = Some dw" "accept dw = Some x" by (auto simp: bind_eq_Some_conv)
    moreover have "after_event (Some dw) = slot_step (Taken dw)" by (rule ext) simp
    ultimately show ?thesis using Some wait eff by (subst event_loop.simps) auto
  next
    case None
    then have same: "after_event e v = v" using idle by (cases e) auto
    then have s1: "keeps s s1" "ctl_ok s1" "slot_view s1 = v"
      using eff less.prems(2) effectD effect_cong [OF eff, of "\<lambda>w. w"] by auto
    let ?s2 = "s1\<lparr>xtime := xtime s1 + 1\<rparr>"
    have s2: "keeps s ?s2" "ctl_ok ?s2" "slot_view ?s2 = v"
      using effect_trans [OF s1(1) time_keeps [OF s1(2), of "xtime s1 + 1"]] effectD s1(3)
      by (auto simp: slot_view_def)
    have "clock_at h s1 \<le> T + 2 ^ 62" using time(2) less.prems(3) by simp
    then show ?thesis
    proof (cases rule: past_cases)
      case 1
      with None wait s2 show ?thesis by (subst event_loop.simps) simp
    next
      case 2
      have "clock_at h s < clock_at h s1" using clock_less [OF ok(1) time(1)] by (simp add: clock_at_def)
      then have "T - clock_at h ?s2 < T - clock_at h s" "clock_at h ?s2 \<le> T + 2 ^ 50"
        using 2 clock_step [OF ok(1), of s1] by simp_all
      from less.hyps [OF this(1) s2(2,3) this(2)]
      have "returns (event_loop h c accept (of_nat T) ?s2) (\<lambda>(r, s'). case r of None \<Rightarrow> keeps s s'
          | Some x \<Rightarrow> \<exists>e. accept e = Some x \<and> effect (slot_step (Taken e)) s s')"
        by (rule returns_mono) (use effect_trans [OF s2(1)] in \<open>fastforce split: option.splits\<close>)
      with 2 None wait show ?thesis by (subst event_loop.simps) simp
    qed
  qed
qed

section \<open>Commands and transfers\<close>

text \<open>\<open>calm s\<close>: the rings are well-formed and no Enable Slot command is awaiting its completion.\<close>

definition calm :: "xstate \<Rightarrow> bool" where
  "calm s \<longleftrightarrow> ctl_ok s \<and> \<not> fst (slot_view s)"

lemma calm_keeps: "calm s \<Longrightarrow> keeps s s' \<Longrightarrow> calm s'"
  by (simp add: calm_def effect_def)

lemma calm_taken: "\<not> fst v \<Longrightarrow> slot_step (Taken e) v = v"
  by (cases v) simp

lemma taken_keeps: "effect (slot_step (Taken e)) s s' \<Longrightarrow> \<not> fst (slot_view s) \<Longrightarrow> keeps s s'"
  by (auto intro: effect_idle [where f = "slot_step (Taken e)"] calm_taken)

lemma wait_events:
  assumes ok: "clock_ok h" "hc_ok c" "us \<le> 2000000" "ctl_ok s"
    and idle: "\<And>e. accept e = None \<Longrightarrow> slot_step (Taken e) (slot_view s) = slot_view s"
  shows "returns (do { (dl, s) \<leftarrow> deadline_cycles h us (mmio_wr32 a b s);
      (r, s) \<leftarrow> event_loop h c accept dl s; Some (f r, s) })
    (\<lambda>(y, s'). \<exists>r. y = f r \<and> (case r of None \<Rightarrow> keeps s s'
        | Some x \<Rightarrow> \<exists>e. accept e = Some x \<and> effect (slot_step (Taken e)) s s'))"
proof -
  let ?s1 = "mmio_wr32 a b s"
  let ?s2 = "?s1\<lparr>xtime := xtime ?s1 + 1\<rparr>"
  from set_deadline [OF ok(1,3), of ?s1] obtain T where T:
    "deadline_cycles h us ?s1 = Some (of_nat T, ?s2)" "clock_at h ?s2 \<le> T + 2 ^ 40" .
  have s1: "keeps s ?s1" using ok(4) by (rule mmio_wr32_keeps)
  have s2: "keeps s ?s2"
    using effect_trans [OF s1 time_keeps [OF effectD(1) [OF s1], of "xtime ?s1 + 1"]] by simp
  have v: "slot_view ?s2 = slot_view s" using s2 by (simp add: effect_def)
  have "clock_at h ?s2 \<le> T + 2 ^ 50" using T(2) by simp
  from event_loop_returns [where accept = accept, OF ok(1,2) idle effectD(1) [OF s2] v this] obtain r s3 where
    loop: "event_loop h c accept (of_nat T) ?s2 = Some (r, s3)"
    and post: "case r of None \<Rightarrow> keeps ?s2 s3 | Some x \<Rightarrow> \<exists>e. accept e = Some x \<and> effect (slot_step (Taken e)) ?s2 s3"
    by (auto simp: returns_def)
  have "case r of None \<Rightarrow> keeps s s3 | Some x \<Rightarrow> \<exists>e. accept e = Some x \<and> effect (slot_step (Taken e)) s s3"
    using post effect_trans [OF s2] by (auto split: option.splits)
  with T(1) loop show ?thesis by auto
qed

lemma wait_cmd_keeps:
  assumes "clock_ok h" "hc_ok c" "us \<le> 2000000" "calm s"
  shows "returns (wait_cmd h c us s) (\<lambda>(r, s'). keeps s s')"
proof -
  have idle: "slot_step (Taken e) (slot_view s) = slot_view s" for e
    using assms(4) by (simp add: calm_def calm_taken)
  have "ctl_ok s" and quiet: "\<not> fst (slot_view s)" using assms(4) by (simp_all add: calm_def)
  from wait_events [where accept = cmd_result and a = "hc_db c" and b = 0
      and f = "case_option (0xFF, 0) (\<lambda>x. x)", OF assms(1-3) \<open>ctl_ok s\<close> idle]
  show ?thesis unfolding wait_cmd_def Let_def
    by (rule returns_mono) (auto split: option.splits intro: taken_keeps [OF _ quiet])
qed

lemma ep0_wait_keeps:
  assumes "clock_ok h" "hc_ok c" "calm s"
  shows "returns (ep0_wait_xfer h c slot 500000 s) (\<lambda>(r, s'). keeps s s')"
proof -
  have idle: "slot_step (Taken e) (slot_view s) = slot_view s" for e
    using assms(3) by (simp add: calm_def calm_taken)
  have "ctl_ok s" and quiet: "\<not> fst (slot_view s)" using assms(3) by (simp_all add: calm_def)
  from wait_events [where accept = "xfer_result slot" and a = "hc_db c + slot * 4" and b = 1
      and f = "case_option (0xFF, 0, 0) (\<lambda>x. x)" and us = 500000, OF assms(1,2) _ \<open>ctl_ok s\<close> idle]
  have "returns (do { (dl, s) \<leftarrow> deadline_cycles h 500000 (mmio_wr32 (hc_db c + slot * 4) 1 s);
      (r, s) \<leftarrow> event_loop h c (xfer_result slot) dl s;
      Some (case r of None \<Rightarrow> (0xFF, 0, 0) | Some x \<Rightarrow> x, s) })
    (\<lambda>(y, s'). \<exists>r. y = (case r of None \<Rightarrow> (0xFF, 0, 0) | Some x \<Rightarrow> x) \<and> (case r of None \<Rightarrow> keeps s s'
        | Some x \<Rightarrow> \<exists>e. xfer_result slot e = Some x \<and> effect (slot_step (Taken e)) s s'))" by simp
  then show ?thesis unfolding ep0_wait_xfer_def Let_def
    by (rule returns_mono) (auto split: option.splits intro: taken_keeps [OF _ quiet])
qed

text \<open>Enable Slot: the slot the driver is told is the one the controller has given out.\<close>

lemma wait_enable:
  assumes "clock_ok h" "hc_ok c" "us \<le> 2000000" "ctl_ok s" "slot_view s = (True, given)"
  shows "returns (wait_cmd h c us s) (\<lambda>((cc, slot), s'). ctl_ok s' \<and> xkbd s' = xkbd s
      \<and> held_slots s' = (if cc = CC_SUCCESS \<and> slot \<noteq> 0 then slot # given else given)
      \<and> (cc = CC_SUCCESS \<and> slot \<noteq> 0 \<longrightarrow> calm s'))"
proof -
  have idle: "slot_step (Taken e) (slot_view s) = slot_view s" if "cmd_result e = None" for e
    using that assms(5) by (simp add: cmd_result_def split: if_splits)
  from wait_events [where accept = cmd_result and a = "hc_db c" and b = 0
      and f = "case_option (0xFF, 0) (\<lambda>x. x)", OF assms(1-4) idle]
  show ?thesis unfolding wait_cmd_def Let_def
    by (rule returns_mono)
      (auto simp: effect_def held_slots_def calm_def cmd_result_def CC_SUCCESS_def assms(5)
        split: option.splits if_splits)
qed

end
