(* ===== verification/XhciSafety.thy ===== *)
theory XhciSafety
  imports XhciEvents
begin

text \<open>
  The whole initialisation of the USB driver: it returns on any answers of the hardware, it
  never panics, and it gives back every device slot it is given but the keyboard's.
\<close>

section \<open>What the driver relies on\<close>

text \<open>
  The boxes lie in the physical-memory map, and the extended capabilities, followed from the
  pointer in HCCPARAMS1, are finitely many; a Supported Protocol capability names a port.
\<close>

definition boxes_ok :: "hw \<Rightarrow> u64 \<Rightarrow> bool" where
  "boxes_ok h po \<longleftrightarrow> (\<forall>n. po \<le> hw_box h n \<and> unat (hw_box h n) + 1024 \<le> 2 ^ 64)"

inductive cap_at :: "hw \<Rightarrow> nat \<Rightarrow> nat \<Rightarrow> bool" for h :: hw and cap :: nat where
  first: "off = unat (drop_bit 16 (hw_reg h t (cap + CAP_HCCPARAMS1)) AND 0xFFFF) * 4 \<Longrightarrow> off \<noteq> 0 \<Longrightarrow>
    cap_at h cap (cap + off)"
| link: "cap_at h cap a \<Longrightarrow> n = drop_bit 8 (hw_reg h t a) AND 0xFF \<Longrightarrow> n \<noteq> 0 \<Longrightarrow>
    cap_at h cap (a + unat n * 4)"

definition caps_ok :: "hw \<Rightarrow> nat \<Rightarrow> bool" where
  "caps_ok h cap \<longleftrightarrow> (\<exists>lim. \<forall>a. cap_at h cap a \<longrightarrow> a \<le> lim)
     \<and> (\<forall>a t t'. cap_at h cap a \<and> hw_reg h t a AND 0xFF = 2 \<longrightarrow>
          0 < unat (hw_reg h t' (a + 8) AND 0xFF) + unat (drop_bit 8 (hw_reg h t' (a + 8)) AND 0xFF))"

section \<open>Before the rings exist\<close>

definition quiet :: "xstate \<Rightarrow> xstate \<Rightarrow> bool" where
  "quiet s s' \<longleftrightarrow> slot_view s' = slot_view s \<and> xkbd s' = xkbd s"

lemma quiet_refl [simp]: "quiet s s"
  and quiet_trans: "quiet s s' \<Longrightarrow> quiet s' s'' \<Longrightarrow> quiet s s''"
  by (simp_all add: quiet_def)

lemma quiet_time [simp]: "quiet s (s\<lparr>xtime := u\<rparr>)"
  by (simp add: quiet_def slot_view_def)

lemma quiet_later: "later s s' \<Longrightarrow> quiet s s'"
  by (cases s') (auto simp: later_def)

lemma quiet_wr32 [simp]: "quiet s (mmio_wr32 a v s)"
  by (simp add: quiet_def slot_view_def mmio_wr32_def act_def)

lemma quiet_wr64 [simp]: "quiet s (mmio_wr64 a v s)"
  unfolding mmio_wr64_def by (rule quiet_trans [OF quiet_wr32 quiet_wr32])

lemma wait_reg_quiet:
  "clock_ok h \<Longrightarrow> us \<le> 2000000 \<Longrightarrow> quiet s0 s \<Longrightarrow>
    returns (wait_reg h a P us s) (\<lambda>(r, s'). quiet s0 s' \<and> pred_option P r)"
  by (rule returns_mono [OF wait_reg_returns]) (auto intro: quiet_trans quiet_later)

lemma delay_quiet:
  "clock_ok h \<Longrightarrow> us \<le> 2000000 \<Longrightarrow> quiet s0 s \<Longrightarrow> returns (delay h us s) (quiet s0)"
  by (rule returns_mono [OF delay_returns]) (auto intro: quiet_trans quiet_later)

lemma mmio_rd32_eq: "mmio_rd32 h a s = (hw_reg h (xtime s) a, s\<lparr>xtime := xtime s + 1\<rparr>)"
  by (simp add: mmio_rd32_def)

lemma bios_walk_quiet:
  assumes ok: "clock_ok h" and lim: "\<And>a. cap_at h cap a \<Longrightarrow> a \<le> lim"
  shows "cap_at h cap ptr \<Longrightarrow> returns (bios_walk h ptr s) (quiet s)"
proof (induction "lim - ptr" arbitrary: ptr s rule: less_induct)
  case less
  let ?hdr = "hw_reg h (xtime s) ptr" and ?s = "s\<lparr>xtime := xtime s + 1\<rparr>"
  let ?next = "drop_bit 8 ?hdr AND 0xFF"
  show ?case
  proof (cases "?hdr AND 0xFF = 1")
    case True
    have "quiet s (mmio_wr32 ptr (?hdr OR 0x1000000) ?s)"
      by (rule quiet_trans [OF quiet_time quiet_wr32])
    from wait_reg_quiet [OF ok _ this, of 1000000 ptr "\<lambda>v. v AND 0x10000 = 0"] True show ?thesis
      by (subst bios_walk.simps) (auto simp: mmio_rd32_eq returns_def)
  next
    case False
    show ?thesis
    proof (cases "?next = 0")
      case True
      with False show ?thesis by (subst bios_walk.simps) (simp add: mmio_rd32_eq)
    next
      case nonzero: False
      have cap: "cap_at h cap (ptr + unat ?next * 4)" using cap_at.link [OF less.prems refl nonzero] .
      have "0 < unat ?next" using nonzero by (simp add: unat_gt_0)
      with lim [OF cap] have "lim - (ptr + unat ?next * 4) < lim - ptr" by linarith
      from less.hyps [OF this cap, of ?s]
      have "returns (bios_walk h (ptr + unat ?next * 4) ?s) (quiet s)"
        by (rule returns_mono) (auto intro: quiet_trans [OF quiet_time])
      with False nonzero show ?thesis by (subst bios_walk.simps) (simp add: mmio_rd32_eq)
    qed
  qed
qed

lemma bios_handoff_quiet:
  assumes "clock_ok h" "caps_ok h cap"
  shows "returns (bios_handoff h cap s) (quiet s)"
proof -
  obtain lim where lim: "\<And>a. cap_at h cap a \<Longrightarrow> a \<le> lim" using assms(2) by (auto simp: caps_ok_def)
  let ?off = "unat (drop_bit 16 (hw_reg h (xtime s) (cap + CAP_HCCPARAMS1)) AND 0xFFFF) * 4"
  let ?s = "s\<lparr>xtime := xtime s + 1\<rparr>"
  have "returns (bios_walk h (cap + ?off) ?s) (quiet s)" if "?off \<noteq> 0"
    by (rule returns_mono [OF bios_walk_quiet [OF assms(1) lim cap_at.first [OF refl that]]])
      (auto intro: quiet_trans [OF quiet_time])
  then show ?thesis by (auto simp: bios_handoff_def first_cap_def mmio_rd32_eq)
qed

lemma for_each_returns:
  assumes "\<And>x s. I s \<Longrightarrow> x \<in> set xs \<Longrightarrow> returns (body x s) I" "I s"
  shows "returns (for_each xs body s) I"
  using assms
proof (induction xs arbitrary: s)
  case (Cons x xs)
  from Cons.prems(1) [of s x] Cons.prems(2) obtain s1 where "body x s = Some s1" "I s1"
    by (auto simp: returns_def)
  with Cons show ?case by simp
qed simp

lemma dump_protocol_quiet:
  assumes "0 < unat (hw_reg h (xtime s) (ptr + 8) AND 0xFF) + unat (drop_bit 8 (hw_reg h (xtime s) (ptr + 8)) AND 0xFF)"
  shows "returns (dump_protocol h ptr s) (quiet s)"
proof -
  let ?w = "hw_reg h (xtime s) (ptr + 8)"
  have small: "unat (x AND 0xFF) < 256" for x :: u32
  proof -
    have "x AND 0xFF \<le> 0xFF" by (rule word_and_le1)
    then show ?thesis by (simp add: word_le_nat_alt)
  qed
  have sum: "unat (?w AND 0xFF) + unat (drop_bit 8 ?w AND 0xFF) < 2 ^ LENGTH(32)"
    using small [of ?w] small [of "drop_bit 8 ?w"] by simp
  have "csub ((?w AND 0xFF) + (drop_bit 8 ?w AND 0xFF)) 1 \<noteq> None"
    using assms unat_plus_no_overflow [OF sum] by (auto simp: csub_def word_le_nat_alt Suc_le_eq)
  moreover have "returns (for_each [0..<n] (\<lambda>i s. Some (snd (mmio_rd32 h (ptr + (16 + i * 4)) s)))
      (s\<lparr>xtime := xtime s + 1\<rparr>)) (quiet s)" for n
    by (rule for_each_returns) (auto simp: mmio_rd32_eq intro: quiet_trans)
  ultimately show ?thesis using sum
    by (auto simp: dump_protocol_def mmio_rd32_eq cadd_def Let_def)
qed

lemma caps_ok_protocol:
  "caps_ok h cap \<Longrightarrow> cap_at h cap a \<Longrightarrow> hw_reg h t a AND 0xFF = 2 \<Longrightarrow>
    0 < unat (hw_reg h t' (a + 8) AND 0xFF) + unat (drop_bit 8 (hw_reg h t' (a + 8)) AND 0xFF)"
  unfolding caps_ok_def by metis

lemma protocol_walk_quiet:
  assumes ok: "caps_ok h cap" and lim: "\<And>a. cap_at h cap a \<Longrightarrow> a \<le> lim"
  shows "cap_at h cap ptr \<Longrightarrow> returns (protocol_walk h ptr s) (quiet s)"
proof (induction "lim - ptr" arbitrary: ptr s rule: less_induct)
  case less
  let ?hdr = "hw_reg h (xtime s) ptr" and ?s = "s\<lparr>xtime := xtime s + 1\<rparr>"
  let ?next = "drop_bit 8 ?hdr AND 0xFF"
  have "returns (if ?hdr AND 0xFF = 2 then dump_protocol h ptr ?s else Some ?s) (quiet s)"
  proof (cases "?hdr AND 0xFF = 2")
    case True
    then have "0 < unat (hw_reg h (xtime ?s) (ptr + 8) AND 0xFF)
        + unat (drop_bit 8 (hw_reg h (xtime ?s) (ptr + 8)) AND 0xFF)"
      by (rule caps_ok_protocol [OF ok less.prems])
    from returns_mono [OF dump_protocol_quiet [OF this], of "quiet s"] True show ?thesis
      by (auto intro: quiet_trans [OF quiet_time])
  qed simp
  then obtain s1 where s1: "(if ?hdr AND 0xFF = 2 then dump_protocol h ptr ?s else Some ?s) = Some s1" "quiet s s1"
    by (auto simp: returns_def)
  show ?case
  proof (cases "?next = 0")
    case True
    with s1 show ?thesis by (subst protocol_walk.simps) (auto simp: mmio_rd32_eq split: if_splits)
  next
    case nonzero: False
    have cap: "cap_at h cap (ptr + unat ?next * 4)" using cap_at.link [OF less.prems refl nonzero] .
    have "0 < unat ?next" using nonzero by (simp add: unat_gt_0)
    with lim [OF cap] have "lim - (ptr + unat ?next * 4) < lim - ptr" by linarith
    from less.hyps [OF this cap, of s1]
    have "returns (protocol_walk h (ptr + unat ?next * 4) s1) (quiet s)"
      by (rule returns_mono) (auto intro: quiet_trans [OF s1(2)])
    with s1(1) nonzero show ?thesis
      by (subst protocol_walk.simps) (auto simp: mmio_rd32_eq split: if_splits)
  qed
qed

lemma dump_quiet:
  assumes "caps_ok h cap"
  shows "returns (dump_supported_protocols h cap s) (quiet s)"
proof -
  obtain lim where lim: "\<And>a. cap_at h cap a \<Longrightarrow> a \<le> lim" using assms by (auto simp: caps_ok_def)
  let ?off = "unat (drop_bit 16 (hw_reg h (xtime s) (cap + CAP_HCCPARAMS1)) AND 0xFFFF) * 4"
  let ?s = "s\<lparr>xtime := xtime s + 1\<rparr>"
  have "returns (protocol_walk h (cap + ?off) ?s) (quiet s)" if "?off \<noteq> 0"
    by (rule returns_mono [OF protocol_walk_quiet [OF assms lim cap_at.first [OF refl that]]])
      (auto intro: quiet_trans [OF quiet_time])
  then show ?thesis by (auto simp: dump_supported_protocols_def first_cap_def mmio_rd32_eq)
qed

lemma xhci_reset_quiet:
  assumes ok: "clock_ok h"
  shows "returns (xhci_reset h op s) (\<lambda>(r, s'). quiet s s')"
proof -
  note waits = wait_reg_quiet [OF ok] delay_quiet [OF ok]
  let ?s = "s\<lparr>xtime := xtime s + 1\<rparr>" and ?cmd = "hw_reg h (xtime s) (op + OP_USBCMD)"
  have "returns (if ?cmd AND 1 \<noteq> 0 then
      wait_reg h (op + OP_USBSTS) (\<lambda>v. v AND 1 \<noteq> 0) 100000 (mmio_wr32 (op + OP_USBCMD) (?cmd AND NOT 1) ?s)
     else Some (Some ?cmd, ?s)) (\<lambda>(r, s'). quiet s s')"
    by (auto intro!: returns_mono [OF waits(1) [OF _ quiet_trans [OF quiet_time quiet_wr32]]])
  then obtain r1 s1 where s1: "(if ?cmd AND 1 \<noteq> 0 then
      wait_reg h (op + OP_USBSTS) (\<lambda>v. v AND 1 \<noteq> 0) 100000 (mmio_wr32 (op + OP_USBCMD) (?cmd AND NOT 1) ?s)
     else Some (Some ?cmd, ?s)) = Some (r1, s1)" "quiet s s1"
    by (auto simp: returns_def)
  from waits(2) [OF _ quiet_trans [OF s1(2) quiet_wr32], of 1000 "op + OP_USBCMD" 2] obtain s2 where
    s2: "delay h 1000 (mmio_wr32 (op + OP_USBCMD) 2 s1) = Some s2" "quiet s s2"
    by (auto simp: returns_def)
  from waits(1) [OF _ s2(2), of 100000 "op + OP_USBCMD" "\<lambda>v. v AND 2 = 0"] obtain r3 s3 where
    s3: "wait_reg h (op + OP_USBCMD) (\<lambda>v. v AND 2 = 0) 100000 s2 = Some (r3, s3)" "quiet s s3"
    by (auto simp: returns_def)
  from waits(1) [OF _ s3(2), of 100000 "op + OP_USBSTS" "\<lambda>v. v AND 0x800 = 0"] obtain r4 s4 where
    s4: "wait_reg h (op + OP_USBSTS) (\<lambda>v. v AND 0x800 = 0) 100000 s3 = Some (r4, s4)" "quiet s s4"
    by (auto simp: returns_def)
  show ?thesis unfolding xhci_reset_def mmio_rd32_eq Let_def prod.case
    using s1(2) s2 s3 s4 by (simp only: s1(1)) simp
qed

section \<open>Setting up\<close>

lemma phys_of_box:
  assumes "boxes_ok h po"
  shows "\<exists>p. phys_of (hw_box h n) po = Some p \<and> unat p + 1024 \<le> 2 ^ 64"
proof -
  have box: "po \<le> hw_box h n" "unat (hw_box h n) + 1024 \<le> 2 ^ 64" using assms by (auto simp: boxes_ok_def)
  then have "unat (hw_box h n - po) \<le> unat (hw_box h n)" by (simp add: unat_sub)
  with box show ?thesis by (auto simp: phys_of_def csub_def)
qed

lemma scratch_page_returns:
  assumes "boxes_ok h po" "i < 32" "length (xscratch s) = 32" "quiet s0 s"
  shows "returns (scratch_page h po i s) (\<lambda>s'. quiet s0 s' \<and> length (xscratch s') = 32
    \<and> length (xdcbaa s') = length (xdcbaa s))"
proof -
  from phys_of_box [OF assms(1), of "xboxes s"] obtain p where "phys_of (hw_box h (xboxes s)) po = Some p" by blast
  then show ?thesis using assms
    by (auto simp: scratch_page_def alloc_box_def quiet_def slot_view_def)
qed

lemma setup_scratchpad_returns:
  assumes ok: "boxes_ok h po" and s: "length (xdcbaa s) = 256"
  shows "returns (setup_scratchpad h po n s) (\<lambda>s'. quiet s s' \<and> length (xdcbaa s') = 256)"
proof (cases "n > 0")
  case True
  from phys_of_box [OF ok, of "xboxes s"] obtain p where p: "phys_of (hw_box h (xboxes s)) po = Some p" by blast
  have "returns (for_each [0..<min n 32] (scratch_page h po)
      (s\<lparr>xboxes := xboxes s + 1, xscratch := replicate 32 0\<rparr>))
      (\<lambda>s'. quiet s s' \<and> length (xscratch s') = 32 \<and> length (xdcbaa s') = 256)"
    using s by (intro for_each_returns returns_mono [OF scratch_page_returns [OF ok]])
      (auto simp: quiet_def slot_view_def)
  with True p show ?thesis
    by (auto simp: setup_scratchpad_def alloc_box_def returns_def quiet_def slot_view_def)
qed (use s in \<open>simp add: setup_scratchpad_def\<close>)

lemma start_controller_returns:
  assumes ok: "clock_ok h" "boxes_ok h po"
  shows "returns (start_controller h po c m p2 s) (\<lambda>((c', b), s'). quiet s s' \<and> ctl_ok s' \<and> hc_ok c'
    \<and> c' = c\<lparr>hc_evt_phys := hc_evt_phys c'\<rparr>)"
proof -
  obtain p0 p1 p2' p3 where p: "phys_of (hw_box h (xboxes s)) po = Some p0"
    "phys_of (hw_box h (Suc (xboxes s))) po = Some p1"
    "phys_of (hw_box h (Suc (Suc (xboxes s)))) po = Some p2'" "unat p2' + 1024 \<le> 2 ^ 64"
    "phys_of (hw_box h (Suc (Suc (Suc (xboxes s))))) po = Some p3"
    using phys_of_box [OF ok(2)] by metis
  let ?s0 = "s\<lparr>xboxes := Suc (Suc (Suc (Suc (xboxes s)))), xdcbaa := replicate 256 0\<rparr>"
  from setup_scratchpad_returns [OF ok(2), of ?s0 "scratchpad_count p2"] obtain s1 where
    s1: "setup_scratchpad h po (scratchpad_count p2) ?s0 = Some s1" "quiet ?s0 s1" "length (xdcbaa s1) = 256"
    by (auto simp: returns_def)
  define s2 where "s2 = mmio_wr32 (hc_op c + OP_USBCMD) 5 (mmio_wr32 (hc_rt c + 0x20 + IR_IMAN) 2
    (mmio_wr64 (hc_rt c + 0x20 + IR_ERSTBA) p3 (mmio_wr64 (hc_rt c + 0x20 + IR_ERDP) p2'
    (mmio_wr32 (hc_rt c + 0x20 + IR_ERSTSZ) 1 (mmio_wr64 (hc_op c + OP_CRCR) (p1 OR 1)
    (mmio_wr64 (hc_op c + OP_DCBAAP) p0 (mmio_wr32 (hc_op c + OP_CONFIG) (of_nat m)
      (s1\<lparr>xcmd := linked_ring CMD_N p1, xerst := (p2', of_nat EVT_N)\<rparr>))))))))"
  have "slot_view (s1\<lparr>xcmd := x, xerst := y\<rparr>) = slot_view s1" for x y by (simp add: slot_view_def)
  then have s2: "quiet s s2" "length (xdcbaa s2) = 256" "xcmd s2 = linked_ring CMD_N p1"
    using s1(2,3) by (auto simp: s2_def quiet_def slot_view_def mmio_wr64_def mmio_wr32_def act_def)
  from wait_reg_returns [OF ok(1), of 100000 "hc_op c + OP_USBSTS" "\<lambda>v. v AND 1 = 0" s2] obtain r s3 where
    s3: "wait_reg h (hc_op c + OP_USBSTS) (\<lambda>v. v AND 1 = 0) 100000 s2 = Some (r, s3)" "later s2 s3"
    by (auto simp: returns_def)
  have "quiet s s3" using quiet_trans [OF s2(1) quiet_later [OF s3(2)]] .
  moreover have "ctl_ok (s3\<lparr>xcs := ring_start, xes := ring_start\<rparr>)"
    using s3(2) s2(2,3) by (cases s3) (auto simp: later_def ctl_ok_def ring_start_def CMD_N_def EVT_N_def linked_ring_def)
  ultimately show ?thesis using p s1(1) s3(1)
    by (simp add: start_controller_def alloc_box_def Let_def s2_def [symmetric] hc_ok_def quiet_def slot_view_def)
qed

end
