(* ===== verification/XhciPorts.thy ===== *)
theory XhciPorts
  imports XhciSafety
begin

text \<open>
  The enumeration of the ports: each phase keeps the slot of its port or gives it back, so a
  port that is not the keyboard's leaves no slot taken.
\<close>

section \<open>Registers of a port\<close>

lemma wait_reg_keeps:
  assumes "clock_ok h" "us \<le> 2000000" "keeps s0 s"
  shows "returns (wait_reg h a P us s) (\<lambda>(r, s'). keeps s0 s')"
  by (rule returns_mono [OF wait_reg_returns [OF assms(1,2)]])
    (use effect_trans [OF assms(3) later_keeps] effectD(1) [OF assms(3)] in auto)

lemma delay_keeps:
  assumes "clock_ok h" "us \<le> 2000000" "ctl_ok s"
  shows "returns (delay h us s) (keeps s)"
  by (rule returns_mono [OF delay_returns [OF assms(1,2)]]) (use later_keeps assms(3) in auto)

lemma write_then_keeps: "keeps s0 s \<Longrightarrow> keeps s0 (mmio_wr32 a v s)"
  using effect_trans [OF _ mmio_wr32_keeps] effectD(1) by blast

lemma read_then_keeps: "keeps s0 s \<Longrightarrow> keeps s0 (s\<lparr>xtime := Suc (xtime s)\<rparr>)"
  using effect_trans [OF _ time_keeps] effectD(1) by (metis Suc_n_not_le_n nat_le_linear)

lemma power_port_keeps: "keeps s0 s \<Longrightarrow> keeps s0 (power_port h base s)"
  using read_then_keeps [of s0 s] write_then_keeps [of s0 "s\<lparr>xtime := Suc (xtime s)\<rparr>"]
  by (simp add: power_port_def mmio_rd32_eq)

lemma reset_attempts_keeps:
  assumes ok: "clock_ok h"
  shows "keeps s0 s \<Longrightarrow> returns (reset_attempts h base n s) (\<lambda>(r, s'). keeps s0 s')"
proof (induction n arbitrary: s)
  case (Suc n)
  let ?p = "power_port h base s"
  let ?s1 = "?p\<lparr>xtime := Suc (xtime ?p)\<rparr>" and ?sc = "hw_reg h (xtime ?p) base AND NOT PORTSC_CHANGE_BITS"
  from Suc.prems have s1: "keeps s0 (mmio_wr32 base ((?sc OR PORTSC_PR) AND NOT PORTSC_PED) ?s1)"
    by (intro write_then_keeps read_then_keeps power_port_keeps)
  from wait_reg_keeps [OF ok _ this, of 500000 base "\<lambda>sc. sc AND PORTSC_PRC \<noteq> 0"] obtain r s2 where
    s2: "wait_reg h base (\<lambda>sc. sc AND PORTSC_PRC \<noteq> 0) 500000
        (mmio_wr32 base ((?sc OR PORTSC_PR) AND NOT PORTSC_PED) ?s1) = Some (r, s2)" "keeps s0 s2"
    by (auto simp: returns_def)
  show ?case
  proof (cases r)
    case None
    with Suc.IH [OF s2(2)] s2(1) show ?thesis by (simp add: mmio_rd32_eq Let_def)
  next
    case (Some sc)
    let ?s3 = "mmio_wr32 base ((sc AND NOT PORTSC_CHANGE_BITS) OR PORTSC_PRC) s2"
    have "keeps s0 ?s3" using s2(2) by (rule write_then_keeps)
    from wait_reg_keeps [OF ok _ this, of 100000 base "\<lambda>sc. drop_bit 5 sc AND 0xF = 0"] obtain r4 s4 where
      s4: "wait_reg h base (\<lambda>sc. drop_bit 5 sc AND 0xF = 0) 100000 ?s3 = Some (r4, s4)" "keeps s0 s4"
      by (auto simp: returns_def)
    show ?thesis
      using Suc.IH [OF s4(2)] Some s2(1) s4 by (cases r4) (simp_all add: mmio_rd32_eq Let_def)
  qed
qed simp

lemma port_reset_keeps:
  "clock_ok h \<Longrightarrow> ctl_ok s \<Longrightarrow> returns (port_reset h op port1 s) (\<lambda>(r, s'). keeps s s')"
  unfolding port_reset_def by (intro reset_attempts_keeps keeps_refl)

section \<open>Command blocks\<close>

lemma mask_6: "0x3F = (mask 6 :: u32)" and mask_8: "0xFF = (mask 8 :: u32)"
  by (simp_all add: mask_eq_exp_minus_1)

lemma command_type:
  assumes "take_bit 6 k = k" "take_bit 10 x = x"
  shows "trb_type (TRB a b c (command k OR x OR slot_field slot)) = k"
proof -
  have off: "\<not> bit k n" if "6 \<le> n" for n using that assms(1) by (metis bit_take_bit_iff not_le)
  have on: "n < 6" if "bit k n" for n using that assms(1) by (metis bit_take_bit_iff)
  have offx: "\<not> bit x n" if "10 \<le> n" for n using that assms(2) by (metis bit_take_bit_iff not_le)
  have "(drop_bit 10 (command k OR x OR slot_field slot)) AND mask 6 = k"
    by (intro bit_word_eqI) (auto simp: bit_simps command_def slot_field_def off offx intro: on)
  then show ?thesis by (simp add: trb_type_def mask_6)
qed

lemma command_slot:
  assumes "take_bit 6 k = k"
  shows "event_slot (TRB a b c (command k OR slot_field slot)) = slot"
proof -
  have off: "\<not> bit k n" if "6 \<le> n" for n using that assms by (metis bit_take_bit_iff not_le)
  have "ucast (drop_bit 24 (command k OR slot_field slot) AND mask 8) = slot"
    by (intro bit_word_eqI) (auto simp: bit_simps command_def slot_field_def off)
  then show ?thesis by (simp add: event_slot_def mask_8)
qed

text \<open>The command blocks of the enumeration are neither Enable Slot nor Disable Slot.\<close>

definition plain :: "u32 \<Rightarrow> bool" where
  "plain kind \<longleftrightarrow> (\<exists>k x. kind = command k OR x \<and> take_bit 6 k = k \<and> take_bit 10 x = x
     \<and> k \<noteq> TRB_ENABLE_SLOT \<and> k \<noteq> TRB_DISABLE_SLOT)"

lemma plain_kinds:
  "plain (command TRB_ADDR_DEVICE OR push_bit 9 1)" "plain (command TRB_ADDR_DEVICE)"
  "plain (command TRB_EVAL_CTX)" "plain (command TRB_CFG_EP)"
proof -
  have "plain (command k OR x)" if "k \<in> {TRB_ADDR_DEVICE, TRB_EVAL_CTX, TRB_CFG_EP}" "x \<in> {0, push_bit 9 1}" for k x
    unfolding plain_def using that
    by (intro exI [of _ k] exI [of _ x] conjI refl)
      (auto simp: TRB_ADDR_DEVICE_def TRB_EVAL_CTX_def TRB_CFG_EP_def TRB_ENABLE_SLOT_def TRB_DISABLE_SLOT_def)
  from this [of TRB_ADDR_DEVICE "push_bit 9 1"] this [of TRB_ADDR_DEVICE 0] this [of TRB_EVAL_CTX 0]
    this [of TRB_CFG_EP 0]
  show "plain (command TRB_ADDR_DEVICE OR push_bit 9 1)" "plain (command TRB_ADDR_DEVICE)"
    "plain (command TRB_EVAL_CTX)" "plain (command TRB_CFG_EP)" by simp_all
qed

lemma post_plain:
  assumes "calm s" "plain kind"
  shows "returns (post_cmd (TRB a b 0 (kind OR slot_field slot)) s) (keeps s)"
proof -
  let ?d = "TRB a b 0 (kind OR slot_field slot)"
  obtain w where v: "slot_view s = (False, w)" using assms(1) by (cases "slot_view s") (auto simp: calm_def)
  have "trb_type ?d \<noteq> TRB_ENABLE_SLOT" "trb_type ?d \<noteq> TRB_DISABLE_SLOT"
    using assms(2) by (auto simp: plain_def or.assoc command_type)
  then have same: "slot_step (Command ?d) (slot_view s) = slot_view s" by (simp add: v)
  show ?thesis
    by (rule returns_mono [OF post_cmd_effect])
      (use assms(1) same in \<open>auto simp: calm_def intro: effect_idle [where f = "slot_step (Command ?d)"]\<close>)
qed

section \<open>Giving a slot back\<close>

definition given_back :: "u8 \<Rightarrow> slot_view \<Rightarrow> slot_view" where
  "given_back slot v = (False, removeAll slot (snd v))"

lemma disable_slot_effect:
  assumes ok: "clock_ok h" "hc_ok c" and s: "calm s"
  shows "returns (disable_slot h c slot s) (effect (given_back slot) s)"
proof -
  let ?d = "TRB 0 0 0 (command TRB_DISABLE_SLOT OR slot_field slot)"
  have kind: "take_bit 6 TRB_DISABLE_SLOT = TRB_DISABLE_SLOT" by (simp add: TRB_DISABLE_SLOT_def)
  have ne: "TRB_DISABLE_SLOT \<noteq> TRB_ENABLE_SLOT" by (simp add: TRB_DISABLE_SLOT_def TRB_ENABLE_SLOT_def)
  have d: "trb_type ?d = TRB_DISABLE_SLOT" "event_slot ?d = slot"
    using command_type [OF kind, of 0] command_slot [OF kind] by simp_all
  have same: "slot_step (Command ?d) v = given_back slot v" for v
    by (cases v) (simp add: d given_back_def ne)
  from post_cmd_effect [of s ?d] s obtain s1 where
    s1: "post_cmd ?d s = Some s1" "effect (slot_step (Command ?d)) s s1" by (auto simp: returns_def calm_def)
  have eff: "effect (given_back slot) s s1" using s1(2) by (simp add: effect_def same)
  then have "calm s1" by (simp add: calm_def effect_def given_back_def)
  from wait_cmd_keeps [OF ok _ this, of 1000000] obtain r s2 where
    s2: "wait_cmd h c 1000000 s1 = Some (r, s2)" "keeps s1 s2" by (auto simp: returns_def)
  show ?thesis using s1(1) s2 effect_trans [OF eff s2(2)] by (simp add: disable_slot_def)
qed

text \<open>
  A phase of the enumeration either goes on with the slot or has given it back.  Phases are
  composed of operations that keep the slots.
\<close>

definition phase_end :: "u8 \<Rightarrow> xstate \<Rightarrow> bool \<Rightarrow> xstate \<Rightarrow> bool" where
  "phase_end slot s goes_on s' \<longleftrightarrow>
     (if goes_on then keeps s s' \<and> port_ok s' \<and> calm s' else effect (given_back slot) s s')"

definition ready :: "xstate \<Rightarrow> bool" where
  "ready s \<longleftrightarrow> calm s \<and> port_ok s"

lemma ready_keeps: "ready s \<Longrightarrow> keeps s s' \<Longrightarrow> ready s'"
  using calm_keeps effectD(2) by (auto simp: ready_def)

lemma phase_end_keeps: "keeps s s1 \<Longrightarrow> phase_end slot s1 b s' \<Longrightarrow> phase_end slot s b s'"
  by (auto simp: phase_end_def dest: effect_trans)

lemma phase_seq:
  assumes "returns m (\<lambda>(a, s1). keeps s s1)" "ready s"
    and "\<And>a s1. keeps s s1 \<Longrightarrow> ready s1 \<Longrightarrow> returns (f a s1) (\<lambda>(r, s'). phase_end slot s1 (g r) s')"
  shows "returns (m \<bind> (\<lambda>(a, s1). f a s1)) (\<lambda>(r, s'). phase_end slot s (g r) s')"
proof -
  from assms(1) obtain a s1 where m: "m = Some (a, s1)" "keeps s s1" by (auto simp: returns_def)
  have "returns (f a s1) (\<lambda>(r, s'). phase_end slot s (g r) s')"
    by (rule returns_mono [OF assms(3) [OF m(2) ready_keeps [OF assms(2) m(2)]]])
      (auto intro: phase_end_keeps [OF m(2)])
  with m(1) show ?thesis by simp
qed

lemma phase_let:
  assumes "keeps s s1" "returns m (\<lambda>(r, s'). phase_end slot s1 (g r) s')"
  shows "returns m (\<lambda>(r, s'). phase_end slot s (g r) s')"
  using assms(2) by (rule returns_mono) (auto intro: phase_end_keeps [OF assms(1)])

lemma give_up_phase:
  "clock_ok h \<Longrightarrow> hc_ok c \<Longrightarrow> ready s \<Longrightarrow>
    returns (give_up h c slot s) (\<lambda>(b, s'). \<not> b \<and> phase_end slot s False s')"
  using disable_slot_effect [of h c s slot] by (auto simp: give_up_def ready_def phase_end_def returns_def)

section \<open>The phases\<close>

lemma context_command_keeps:
  assumes ok: "clock_ok h" "hc_ok c" and s: "calm s" and kind: "plain kind"
  shows "returns (context_command h c kind p slot s) (\<lambda>(cc, s'). keeps s s')"
proof -
  from post_plain [OF s kind, of "ucast p" "ucast (drop_bit 32 p)" slot] obtain s1 where
    s1: "post_cmd (TRB (ucast p) (ucast (drop_bit 32 p)) 0 (kind OR slot_field slot)) s = Some s1" "keeps s s1"
    by (auto simp: returns_def)
  from wait_cmd_keeps [OF ok _ calm_keeps [OF s s1(2)], of 2000000] obtain cc t s2 where
    s2: "wait_cmd h c 2000000 s1 = Some ((cc, t), s2)" "keeps s1 s2" by (auto simp: returns_def)
  show ?thesis using s1(1) s2(1) effect_trans [OF s1(2) s2(2)] by (simp add: context_command_def)
qed

lemma post_ep0_then:
  assumes "keeps s0 s" "ready s"
  shows "\<exists>s'. post_ep0 d s = Some s' \<and> keeps s0 s' \<and> ready s'"
proof -
  from post_ep0_keeps [of s d] assms(2) obtain s' where "post_ep0 d s = Some s'" "keeps s s'"
    by (auto simp: returns_def ready_def calm_def)
  with effect_trans [OF assms(1)] ready_keeps [OF assms(2)] show ?thesis by auto
qed

lemma xfer_then:
  assumes ok: "clock_ok h" "hc_ok c" and s: "keeps s0 s" "ready s"
  shows "\<exists>x y z s'. ep0_wait_xfer h c slot 500000 s = Some ((x, y, z), s') \<and> keeps s0 s'"
proof -
  from ep0_wait_keeps [OF ok, of s slot] s(2) obtain x y z s' where
    "ep0_wait_xfer h c slot 500000 s = Some ((x, y, z), s')" "keeps s s'"
    by (auto simp: returns_def ready_def)
  with effect_trans [OF s(1)] show ?thesis by auto
qed

lemma ctrl_in_keeps:
  assumes ok: "clock_ok h" "hc_ok c" and s: "ready s"
  shows "returns (ctrl_in h c slot pkt p n s) (\<lambda>(r, s'). keeps s s')"
proof -
  have "keeps s s" using s by (simp add: ready_def calm_def keeps_refl)
  from post_ep0_then [OF this s] obtain s1 where s1:
    "post_ep0 (setup_trb pkt (push_bit 10 TRB_SETUP OR push_bit 6 1 OR push_bit 16 3)) s = Some s1"
    "keeps s s1" "ready s1" by blast
  from post_ep0_then [OF s1(2,3)] obtain s2 where s2:
    "post_ep0 (TRB (ucast p) (ucast (drop_bit 32 p)) (ucast n) (push_bit 10 TRB_DATA OR push_bit 16 1)) s1 = Some s2"
    "keeps s s2" "ready s2" by blast
  from post_ep0_then [OF s2(2,3)] obtain s3 where s3:
    "post_ep0 (TRB 0 0 0 (push_bit 10 TRB_STATUS OR push_bit 5 1)) s2 = Some s3" "keeps s s3" "ready s3" by blast
  from xfer_then [OF ok s3(2,3), of slot] s1(1) s2(1) s3(1) show ?thesis by (auto simp: ctrl_in_def)
qed

lemma ctrl_out_keeps:
  assumes ok: "clock_ok h" "hc_ok c" and s: "ready s"
  shows "returns (ctrl_out h c slot pkt s) (\<lambda>(r, s'). keeps s s')"
proof -
  have "keeps s s" using s by (simp add: ready_def calm_def keeps_refl)
  from post_ep0_then [OF this s] obtain s1 where s1:
    "post_ep0 (setup_trb pkt (push_bit 10 TRB_SETUP OR push_bit 6 1)) s = Some s1" "keeps s s1" "ready s1" by blast
  from post_ep0_then [OF s1(2,3)] obtain s2 where s2:
    "post_ep0 (TRB 0 0 0 (push_bit 10 TRB_STATUS OR push_bit 16 1 OR push_bit 5 1)) s1 = Some s2"
    "keeps s s2" "ready s2" by blast
  from xfer_then [OF ok s2(2,3), of slot] s1(1) s2(1) show ?thesis by (auto simp: ctrl_out_def)
qed

lemma ctx_set_ok: "ctx_ok c \<Longrightarrow> i < 33 \<Longrightarrow> j < 8 \<Longrightarrow> \<exists>c'. ctx_set i j v c = Some c' \<and> ctx_ok c'"
  by (auto simp: ctx_ok_def ctx_set_def nth_list_update dest: subsetD [OF set_update_subset_insert])

lemma ctx_set_last: "ctx_ok c \<Longrightarrow> i < 33 \<Longrightarrow> j < 8 \<Longrightarrow> returns (ctx_set i j v c) ctx_ok"
  using ctx_set_ok [of c i j v] by (auto simp: returns_def)

lemma ctx_set_then:
  "ctx_ok c \<Longrightarrow> i < 33 \<Longrightarrow> j < 8 \<Longrightarrow> (\<And>c. ctx_ok c \<Longrightarrow> returns (f c) ctx_ok) \<Longrightarrow>
    returns (ctx_set i j v c \<bind> f) ctx_ok"
  using ctx_set_ok [of c i j v] by auto

lemma setup_addr_ok: "ctx_ok c \<Longrightarrow> returns (setup_addr_input_ctx p speed port c) ctx_ok"
  unfolding setup_addr_input_ctx_def by (intro ctx_set_then ctx_set_last) simp_all

lemma eval_ctx_ok: "ctx_ok c \<Longrightarrow> returns (eval_ctx mps c) ctx_ok"
  unfolding eval_ctx_def by (intro ctx_set_then ctx_set_last) simp_all

lemma setup_cfg_ok:
  assumes "ctx_ok c" "idx \<le> 31"
  shows "returns (setup_cfg_input_ctx idx p mps ival c) ctx_ok"
proof -
  have "(of_nat idx :: u32) < 32"
    using assms(2) by (simp add: word_less_nat_alt unat_of_nat_small)
  then have flag: "shl_one (of_nat idx) = Some (push_bit (unat (of_nat idx :: u32)) 1)"
    by (simp add: shl_one_def)
  have get: "\<exists>w. ctx_get 1 0 c = Some w" if "ctx_ok c" for c
    using that by (auto simp: ctx_get_def ctx_ok_def)
  show ?thesis unfolding setup_cfg_input_ctx_def flag Option.bind.bind_lunit Let_def
  proof (intro ctx_set_then)
    fix c :: "u32 list list"
    assume c: "ctx_ok c"
    then obtain w where "ctx_get 1 0 c = Some w" using get by blast
    then show "returns (ctx_get 1 0 c \<bind> (\<lambda>w. ctx_set 1 0 ((w AND NOT (push_bit 27 0x1F)) OR push_bit 27 (of_nat idx)) c
      \<bind> (\<lambda>c. ctx_set (idx + 1) 0 (push_bit 16 (ucast ival)) c
      \<bind> (\<lambda>c. ctx_set (idx + 1) 1 (push_bit 1 3 OR push_bit 3 7 OR push_bit 16 (ucast mps)) c
      \<bind> (\<lambda>c. ctx_set (idx + 1) 2 ((ucast p AND NOT 0xF) OR 1) c
      \<bind> (\<lambda>c. ctx_set (idx + 1) 3 (ucast (drop_bit 32 p)) c
      \<bind> (\<lambda>c. ctx_set (idx + 1) 4 (ucast mps) c))))))) ctx_ok"
      using c assms(2) by (simp only: Option.bind.bind_lunit) (intro ctx_set_then ctx_set_last, simp_all)
  qed (use assms in simp_all)
qed

lemma ctx_index_ok: "\<exists>i \<le> 31. ctx_index ep = Some i"
proof -
  have lo: "unat (ep AND 0x0F) \<le> 15" using word_and_le1 [of ep "0x0F"] by (simp add: word_le_nat_alt)
  have hi: "unat (drop_bit 7 ep AND 1) \<le> 1" using word_and_le1 [of "drop_bit 7 ep" 1] by (simp add: word_le_nat_alt)
  have twice: "unat ((ep AND 0x0F) * 2) = unat (ep AND 0x0F) * 2"
    using lo by (subst unat_times_no_overflow) simp_all
  have "unat ((ep AND 0x0F) * 2 + (drop_bit 7 ep AND 1)) = unat (ep AND 0x0F) * 2 + unat (drop_bit 7 ep AND 1)"
    using lo hi twice by (subst unat_plus_no_overflow) simp_all
  with lo hi twice show ?thesis by (simp add: ctx_index_def cmul_def cadd_def)
qed

text \<open>Setting the input context, or another field the invariants do not constrain.\<close>

lemma set_ctx_keeps: "ready s \<Longrightarrow> ctx_ok c \<Longrightarrow> keeps s (s\<lparr>xctx := c\<rparr>)"
  by (simp add: ready_def calm_def effect_def ctl_ok_def port_ok_def slot_view_def)

lemma read_desc_keeps: "ctl_ok s \<Longrightarrow> i < 512 \<Longrightarrow> returns (read_desc h i s) (\<lambda>(b, s'). keeps s s')"
  using time_keeps [of s "xtime s + 1"] by (simp add: read_desc_def)

lemma ready_ctl: "ready s \<Longrightarrow> ctl_ok s" and ready_calm: "ready s \<Longrightarrow> calm s"
  and ready_ctx: "ready s \<Longrightarrow> ctx_ok (xctx s)"
  by (simp_all add: ready_def calm_def port_ok_def)

lemma ready_time: "ready s \<Longrightarrow> keeps s (s\<lparr>xtime := xtime s + 1\<rparr>)"
  using time_keeps [OF ready_ctl, of s "xtime s + 1"] by simp

lemma ready_tick: "ready s \<Longrightarrow> ready (s\<lparr>xtime := xtime s + 1\<rparr>)"
  by (rule ready_keeps [OF _ ready_time])

lemma phase_ctx:
  assumes "returns m ctx_ok" "ready s"
    and "\<And>c. ready (s\<lparr>xctx := c\<rparr>) \<Longrightarrow> keeps s (s\<lparr>xctx := c\<rparr>) \<Longrightarrow> returns (f c) (\<lambda>(r, s'). phase_end slot s (g r) s')"
  shows "returns (m \<bind> f) (\<lambda>(r, s'). phase_end slot s (g r) s')"
proof -
  from assms(1) obtain c where "m = Some c" "ctx_ok c" by (auto simp: returns_def)
  with assms(3) [OF ready_keeps [OF assms(2)]] set_ctx_keeps [OF assms(2)] show ?thesis by simp
qed

lemma phase_goes_on: "ready s \<Longrightarrow> phase_end slot s True s"
  by (simp add: phase_end_def ready_def calm_def keeps_refl)

lemma phase_gives_up:
  assumes "clock_ok h" "hc_ok c" "ready s" "\<not> g False"
  shows "returns (give_up h c slot s) (\<lambda>(r, s'). phase_end slot s (g r) s')"
  using give_up_phase [OF assms(1-3), of slot] assms(4) by (auto elim!: returns_mono)

text \<open>The operations that open a phase.\<close>

lemma phase_command:
  assumes "clock_ok h" "hc_ok c" "ready s" "plain kind"
    and "\<And>cc s1. ready s1 \<Longrightarrow> returns (f cc s1) (\<lambda>(r, s'). phase_end slot s1 (g r) s')"
  shows "returns (context_command h c kind p sl s \<bind> (\<lambda>(cc, s). f cc s)) (\<lambda>(r, s'). phase_end slot s (g r) s')"
  by (rule phase_seq [OF context_command_keeps [OF assms(1,2) ready_calm [OF assms(3)] assms(4)] assms(3) assms(5)])

lemma phase_ctrl_in:
  assumes "clock_ok h" "hc_ok c" "ready s"
    and "\<And>b s1. ready s1 \<Longrightarrow> returns (f b s1) (\<lambda>(r, s'). phase_end slot s1 (g r) s')"
  shows "returns (ctrl_in h c sl pkt p n s \<bind> (\<lambda>(b, s). f b s)) (\<lambda>(r, s'). phase_end slot s (g r) s')"
  by (rule phase_seq [OF ctrl_in_keeps [OF assms(1-3)] assms(3,4)])

lemma phase_ctrl_out:
  assumes "clock_ok h" "hc_ok c" "ready s"
    and "\<And>b s1. ready s1 \<Longrightarrow> returns (f b s1) (\<lambda>(r, s'). phase_end slot s1 (g r) s')"
  shows "returns (ctrl_out h c sl pkt s \<bind> (\<lambda>(b, s). f b s)) (\<lambda>(r, s'). phase_end slot s (g r) s')"
  by (rule phase_seq [OF ctrl_out_keeps [OF assms(1-3)] assms(3,4)])

lemma phase_read_desc:
  assumes "ready s" "i < 512"
    and "\<And>b s1. ready s1 \<Longrightarrow> returns (f b s1) (\<lambda>(r, s'). phase_end slot s1 (g r) s')"
  shows "returns (read_desc h i s \<bind> (\<lambda>(b, s). f b s)) (\<lambda>(r, s'). phase_end slot s (g r) s')"
  by (rule phase_seq [OF read_desc_keeps [OF ready_ctl [OF assms(1)] assms(2)] assms(1,3)])

lemma phase_set_ctx:
  assumes "returns m ctx_ok" "ready s"
    and "\<And>c. ready (s\<lparr>xctx := c\<rparr>) \<Longrightarrow> returns (f c) (\<lambda>(r, s'). phase_end slot (s\<lparr>xctx := c\<rparr>) (g r) s')"
  shows "returns (m \<bind> f) (\<lambda>(r, s'). phase_end slot s (g r) s')"
  by (rule phase_ctx [OF assms(1,2)], rule phase_let, assumption) (rule assms(3))

lemma final_address_phase:
  assumes "clock_ok h" "hc_ok c" "ready s"
  shows "returns (final_address h c pm slot s) (\<lambda>(b, s'). phase_end slot s b s')"
  unfolding final_address_def
  by (intro phase_set_ctx ctx_set_last phase_command returns_if)
    (use assms in \<open>auto intro: phase_gives_up phase_goes_on ready_ctx plain_kinds\<close>)

lemma evaluate_ep0_phase:
  assumes "clock_ok h" "hc_ok c" "ready s"
  shows "returns (evaluate_ep0 h c pm slot s) (\<lambda>(b, s'). phase_end slot s b s')"
  unfolding evaluate_ep0_def
  by (intro phase_read_desc phase_set_ctx eval_ctx_ok phase_command returns_if)
    (use assms in \<open>auto intro: phase_gives_up final_address_phase ready_ctx plain_kinds\<close>)

lemma gives_up_later:
  assumes "clock_ok h" "hc_ok c" "ready s"
  shows "returns (give_up h c slot (s\<lparr>xtime := Suc (xtime s)\<rparr>)) (\<lambda>(b, s'). phase_end slot s b s')"
  using phase_let [OF ready_time [OF assms(3)] phase_gives_up [OF assms(1,2) ready_tick [OF assms(3)]],
      of "\<lambda>b. b" slot]
  by simp

lemma read_packet_size_phase:
  assumes "clock_ok h" "hc_ok c" "ready s"
  shows "returns (read_packet_size h c pm port1 slot s) (\<lambda>(b, s'). phase_end slot s b s')"
  unfolding read_packet_size_def Let_def mmio_rd32_eq snd_conv
  by (rule phase_let [OF ready_time [OF assms(3)]], intro phase_ctrl_in returns_if)
    (use assms in \<open>auto intro: ready_tick [simplified] evaluate_ep0_phase gives_up_later\<close>)

lemma address_device_phase:
  assumes ok: "clock_ok h" "hc_ok c"
    and s: "calm s" "length (xep0 s) = EP0_N" "ctx_ok (xctx s)"
  shows "returns (address_device h c pm speed port1 slot s) (\<lambda>(b, s'). phase_end slot s b s')"
proof -
  from setup_addr_ok [OF s(3), of "pm_ep0 pm" speed port1] obtain ctx where
    ctx: "setup_addr_input_ctx (pm_ep0 pm) speed port1 (xctx s) = Some ctx" "ctx_ok ctx"
    by (auto simp: returns_def)
  let ?s = "s\<lparr>xctx := ctx, xep0s := ring_start\<rparr>"
  have keep: "keeps s ?s" and ready: "ready ?s"
    using s ctx(2) by (auto simp: effect_def ready_def calm_def ctl_ok_def port_ok_def slot_view_def
        ring_start_def EP0_N_def)
  show ?thesis unfolding address_device_def ctx(1) Let_def Option.bind.bind_lunit
    by (rule phase_let [OF keep], intro phase_command returns_if)
      (use ok ready in \<open>auto intro: phase_gives_up read_packet_size_phase plain_kinds [simplified]\<close>)
qed

lemma not_keyboard_phase:
  "clock_ok h \<Longrightarrow> hc_ok c \<Longrightarrow> ready s \<Longrightarrow>
    returns (not_keyboard h c slot s) (\<lambda>(e, s'). phase_end slot s (e \<noteq> None) s')"
  using give_up_phase [of h c s slot] by (auto simp: not_keyboard_def returns_def)

lemma find_hid_returns: "\<exists>r. find_hid_kbd_ep cfg = Some r"
  by (auto simp: find_hid_kbd_ep_def loop_searches)

lemma read_config_keeps:
  "ready s \<Longrightarrow> n \<le> 512 \<Longrightarrow> returns (read_config h n s) (\<lambda>(cfg, s'). keeps s s')"
  using time_keeps [OF ready_ctl, of s "xtime s + n"] by (simp add: read_config_def)

lemma find_keyboard_phase:
  assumes ok: "clock_ok h" "hc_ok c" and s: "ready s"
  shows "returns (find_keyboard h c pm slot s) (\<lambda>(e, s'). phase_end slot s (e \<noteq> None) s')"
proof -
  have short: "unat (min x 512) \<le> 512" for x :: u16
    by (simp add: min_def word_le_nat_alt)
  have rest: "returns (read_config h (unat (min x 512)) s1 \<bind> (\<lambda>(cfg, s). find_hid_kbd_ep cfg \<bind> (\<lambda>ep.
      case ep of None \<Rightarrow> not_keyboard h c slot s | Some e \<Rightarrow> Some (Some e, s))))
      (\<lambda>(e, s'). phase_end slot s1 (e \<noteq> None) s')" if s1: "ready s1" for x :: u16 and s1
  proof (rule phase_seq [OF read_config_keeps [OF s1 short] s1])
    fix cfg s2 assume s2: "ready s2"
    from find_hid_returns obtain r where "find_hid_kbd_ep cfg = Some r" by blast
    then show "returns (find_hid_kbd_ep cfg \<bind> (\<lambda>ep. case ep of None \<Rightarrow> not_keyboard h c slot s2
        | Some e \<Rightarrow> Some (Some e, s2))) (\<lambda>(e, s'). phase_end slot s2 (e \<noteq> None) s')"
      using not_keyboard_phase [OF ok s2] phase_goes_on [OF s2] 
      by (cases r) (simp_all del: not_None_eq split_paired_Ex)
  qed
  show ?thesis unfolding find_keyboard_def Let_def
    by (intro phase_read_desc phase_ctrl_in ok s rest) simp_all
qed

lemma identify_device_phase:
  assumes "clock_ok h" "hc_ok c" "ready s"
  shows "returns (identify_device h c pm slot s) (\<lambda>(e, s'). phase_end slot s (e \<noteq> None) s')"
  unfolding identify_device_def
  by (intro phase_ctrl_in returns_if assms not_keyboard_phase find_keyboard_phase)

text \<open>What the timer interrupt relies on once the keyboard is handed over.\<close>

definition usb_ok :: "usb_kbd \<Rightarrow> bool" where
  "usb_ok k \<longleftrightarrow> uk_ready k \<longrightarrow> slot_at (uk_evt k) < EVT_N \<and> unat (uk_evt_phys k) + 1024 \<le> 2 ^ 64
     \<and> length (uk_tr k) = INT_N \<and> slot_at (uk_tr_pos k) + 1 < INT_N"

lemma usb_ok_idle: "\<not> uk_ready k \<Longrightarrow> usb_ok k"
  by (simp add: usb_ok_def)

text \<open>The last phase ends with the keyboard handed over, or the slot given back.\<close>

definition handed_over :: "u8 \<Rightarrow> xstate \<Rightarrow> bool \<Rightarrow> xstate \<Rightarrow> bool" where
  "handed_over slot s found s' \<longleftrightarrow>
     (if found then ctl_ok s' \<and> slot_view s' = slot_view s \<and> uk_ready (xkbd s') \<and> uk_slot (xkbd s') = unat slot
         \<and> usb_ok (xkbd s')
      else effect (given_back slot) s s')"

lemma handed_over_keeps: "keeps s s1 \<Longrightarrow> handed_over slot s1 b s' \<Longrightarrow> handed_over slot s b s'"
  by (auto simp: handed_over_def effectD dest: effect_trans)

lemma phase_end_handed: "phase_end slot s False s' \<Longrightarrow> handed_over slot s False s'"
  by (simp add: phase_end_def handed_over_def)

lemma hand_over_returns:
  assumes "ready s" "hc_ok c"
  shows "returns (hand_over c slot idx buf (linked_ring INT_N p) s) (\<lambda>(b, s'). b \<and> handed_over slot s b s')"
proof -
  have "length (linked_ring INT_N p) = INT_N" "slot_at ring_start + 1 < INT_N"
    by (simp_all add: linked_ring_def ring_start_def INT_N_def)
  from report_ring.push_law [OF this, of buf] this(2) obtain r pos where
    "arm_kbd_ep_raw (linked_ring INT_N p) ring_start buf = Some (r, pos)"
    "length r = INT_N" "slot_at pos + 1 < INT_N" by (auto split: if_splits simp: INT_N_def)
  moreover have "ctl_ok s" using assms(1) by (rule ready_ctl)
  then have "slot_at (xes s) < EVT_N" by (simp add: ctl_ok_def)
  moreover have "keeps s (mmio_wr32 (hc_db c + unat slot * 4) (of_nat idx) s)"
    using mmio_wr32_keeps [OF ready_ctl [OF assms(1)]] .
  ultimately show ?thesis using assms(2)
    by (simp add: hand_over_def handed_over_def effect_def ctl_ok_def slot_view_def Let_def usb_ok_def hc_ok_def
      mmio_wr32_def act_def)
qed

lemma configure_endpoint_returns:
  assumes ok: "clock_ok h" "hc_ok c" "boxes_ok h po" and s: "ready s" and idx: "idx \<le> 31"
  shows "returns (configure_endpoint h po c pm slot idx mps ival s) (\<lambda>(b, s'). handed_over slot s b s')"
proof -
  obtain p1 p2 where p: "phys_of (hw_box h (xboxes s)) po = Some p1"
    "phys_of (hw_box h (Suc (xboxes s))) po = Some p2"
    using phys_of_box [OF ok(3)] by metis
  let ?s1 = "s\<lparr>xboxes := Suc (Suc (xboxes s))\<rparr>"
  from setup_cfg_ok [OF ready_ctx [OF s] idx, of p1 mps ival] obtain ctx where
    ctx: "setup_cfg_input_ctx idx p1 mps ival (xctx s) = Some ctx" "ctx_ok ctx" by (auto simp: returns_def)
  let ?s2 = "?s1\<lparr>xctx := ctx\<rparr>"
  have s2: "keeps s ?s2"
    using s ctx(2) by (simp add: ready_def calm_def effect_def ctl_ok_def port_ok_def slot_view_def)
  from context_command_keeps [OF ok(1,2) ready_calm [OF ready_keeps [OF s s2]] plain_kinds(4), of "pm_ctx pm" slot]
  obtain cc s3 where s3: "context_command h c (command TRB_CFG_EP) (pm_ctx pm) slot ?s2 = Some (cc, s3)" "keeps ?s2 s3"
    by (auto simp: returns_def)
  have keep: "keeps s s3" using effect_trans [OF s2 s3(2)] by simp
  have "returns (give_up h c slot s3) (\<lambda>(b, s'). handed_over slot s b s')"
    by (rule returns_mono [OF give_up_phase [OF ok(1,2) ready_keeps [OF s keep]]])
      (auto intro: handed_over_keeps [OF keep phase_end_handed])
  moreover have "returns (hand_over c slot idx p2 (linked_ring INT_N p1) s3) (\<lambda>(b, s'). handed_over slot s b s')"
    using hand_over_returns [OF ready_keeps [OF s keep] ok(2), of slot idx p2 p1] handed_over_keeps [OF keep]
    by (auto elim!: returns_mono)
  ultimately show ?thesis using p ctx(1) s3(1)
    by (simp add: configure_endpoint_def alloc_box_def Let_def)
qed

lemma configure_keyboard_returns:
  assumes ok: "clock_ok h" "hc_ok c" "boxes_ok h po" and s: "ready s"
  shows "returns (configure_keyboard h po c pm slot ep s) (\<lambda>(b, s'). handed_over slot s b s')"
proof -
  obtain cfg_val iface ep_addr mps ival where ep: "ep = (cfg_val, iface, ep_addr, mps, ival)" by (cases ep)
  from ctx_index_ok obtain idx where idx: "ctx_index ep_addr = Some idx" "idx \<le> 31" by blast
  have out: "\<exists>b s2. ctrl_out h c (unat slot) pkt s1 = Some (b, s2) \<and> keeps s s2 \<and> ready s2"
    if "keeps s s1" "ready s1" for pkt s1
    using ctrl_out_keeps [OF ok(1,2) that(2), of "unat slot" pkt] effect_trans [OF that(1)] ready_keeps [OF that(2)]
    by (auto simp: returns_def)
  have "keeps s s" using ready_ctl [OF s] by (rule keeps_refl)
  from out [OF this s, of "(0, 9, cfg_val, 0, 0, 0, 0, 0)"] obtain b1 s1 where
    s1: "ctrl_out h c (unat slot) (0, 9, cfg_val, 0, 0, 0, 0, 0) s = Some (b1, s1)" "keeps s s1" "ready s1" by blast
  from out [OF s1(2,3), of "(0x21, 0x0B, 0, 0, iface, 0, 0, 0)"] obtain b2 s2 where
    s2: "ctrl_out h c (unat slot) (0x21, 0x0B, 0, 0, iface, 0, 0, 0) s1 = Some (b2, s2)" "keeps s s2" "ready s2" by blast
  from out [OF s2(2,3), of "(0x21, 0x0A, 0, 0, iface, 0, 0, 0)"] obtain b3 s3 where
    s3: "ctrl_out h c (unat slot) (0x21, 0x0A, 0, 0, iface, 0, 0, 0) s2 = Some (b3, s3)" "keeps s s3" "ready s3" by blast
  have "returns (configure_endpoint h po c pm slot idx mps ival s3) (\<lambda>(b, s'). handed_over slot s b s')"
    by (rule returns_mono [OF configure_endpoint_returns [OF ok s3(3) idx(2)]])
      (auto intro: handed_over_keeps [OF s3(2)])
  then show ?thesis using s1(1) s2(1) s3(1) idx(1) by (simp add: configure_keyboard_def ep)
qed

lemma alloc_port_returns:
  assumes ok: "boxes_ok h po" and s: "calm s"
  shows "returns (alloc_port h po slot s) (\<lambda>(pm, s'). keeps s s' \<and> length (xep0 s') = EP0_N \<and> ctx_ok (xctx s'))"
proof -
  obtain p1 p2 p3 p4 where p: "phys_of (hw_box h (xboxes s)) po = Some p1"
    "phys_of (hw_box h (Suc (xboxes s))) po = Some p2"
    "phys_of (hw_box h (Suc (Suc (xboxes s)))) po = Some p3"
    "phys_of (hw_box h (Suc (Suc (Suc (xboxes s))))) po = Some p4"
    using phys_of_box [OF ok] by metis
  have "unat slot < length (xdcbaa s)"
    using s unat_lt_2p [of slot] by (simp add: calm_def ctl_ok_def)
  then show ?thesis using p s
    by (simp add: alloc_port_def alloc_box_def Let_def calm_def effect_def ctl_ok_def port_ok_def slot_view_def
        linked_ring_def zero_ctx_def ctx_ok_def)
qed

lemma use_slot_returns:
  assumes ok: "clock_ok h" "hc_ok c" "boxes_ok h po" and s: "calm s"
  shows "returns (use_slot h po c speed port1 slot s) (\<lambda>(b, s'). handed_over slot s b s')"
proof -
  from alloc_port_returns [OF ok(3) s, of slot] obtain pm s1 where
    s1: "alloc_port h po slot s = Some (pm, s1)" "keeps s s1" "length (xep0 s1) = EP0_N" "ctx_ok (xctx s1)"
    by (auto simp: returns_def)
  from address_device_phase [OF ok(1,2) calm_keeps [OF s s1(2)] s1(3,4), of pm speed port1 slot] obtain b s2 where
    s2: "address_device h c pm speed port1 slot s1 = Some (b, s2)" "phase_end slot s1 b s2" by (auto simp: returns_def)
  show ?thesis
  proof (cases b)
    case False
    with s1(1) s2 phase_end_keeps [OF s1(2)] show ?thesis by (auto simp: use_slot_def intro: phase_end_handed)
  next
    case True
    with s2(2) have r2: "ready s2" "keeps s s2"
      using effect_trans [OF s1(2)] by (auto simp: phase_end_def ready_def)
    from identify_device_phase [OF ok(1,2) r2(1), of pm slot] obtain e s3 where
      s3: "identify_device h c pm slot s2 = Some (e, s3)" "phase_end slot s2 (e \<noteq> None) s3"
      by (auto simp: returns_def simp del: not_None_eq)
    show ?thesis
    proof (cases e)
      case None
      with True s1(1) s2(1) s3 phase_end_keeps [OF r2(2)] show ?thesis
        by (auto simp: use_slot_def intro: phase_end_handed)
    next
      case (Some ep)
      with s3(2) have r3: "ready s3" "keeps s s3"
        using effect_trans [OF r2(2)] by (auto simp: phase_end_def ready_def)
      have "returns (configure_keyboard h po c pm slot ep s3) (\<lambda>(b, s'). handed_over slot s b s')"
        by (rule returns_mono [OF configure_keyboard_returns [OF ok r3(1)]])
          (auto intro: handed_over_keeps [OF r3(2)])
      with True s1(1) s2(1) s3(1) Some show ?thesis by (simp add: use_slot_def)
    qed
  qed
qed

section \<open>The ports\<close>

text \<open>Between ports no slot is held; the keyboard's port ends the loop holding its own.\<close>

definition port_done :: "bool \<Rightarrow> xstate \<Rightarrow> bool" where
  "port_done found s \<longleftrightarrow> ctl_ok s \<and> usb_ok (xkbd s)
     \<and> (if found then uk_ready (xkbd s) \<and> held_slots s = [of_nat (uk_slot (xkbd s))] \<and> uk_slot (xkbd s) \<noteq> 0
        else held_slots s = [] \<and> \<not> uk_ready (xkbd s))"

lemma handed_over_done:
  assumes "handed_over slot s b s'" "slot_view s = (False, [slot])" "slot \<noteq> 0" "\<not> uk_ready (xkbd s)"
  shows "port_done b s'"
  using assms by (auto simp: handed_over_def port_done_def held_slots_def effect_def given_back_def unat_eq_0 usb_ok_idle)

lemma enum_port_returns:
  assumes ok: "clock_ok h" "hc_ok c" "boxes_ok h po" and s: "port_done False s"
  shows "returns (enum_port h po c port1 s) (\<lambda>(b, s'). port_done b s')"
proof (cases "hw_reg h (xtime s) (portsc (hc_op c) port1) AND PORTSC_CCS = 0")
  case True
  with s show ?thesis by (simp add: enum_port_def mmio_rd32_eq port_done_def ctl_ok_def held_slots_def slot_view_def)
next
  case False
  let ?s1 = "s\<lparr>xtime := xtime s + 1\<rparr>"
  have ctl: "ctl_ok s" using s by (simp add: port_done_def)
  then have k1: "keeps s ?s1" by (simp add: time_keeps)
  from port_reset_keeps [OF ok(1) effectD(1) [OF k1], of "hc_op c" port1] obtain b s2 where
    s2: "port_reset h (hc_op c) port1 ?s1 = Some (b, s2)" "keeps ?s1 s2" by (auto simp: returns_def)
  let ?s3 = "s2\<lparr>xtime := xtime s2 + 1\<rparr>"
  have k3: "keeps s ?s3"
    using effect_trans [OF effect_trans [OF k1 s2(2)] time_keeps [OF effectD(1) [OF s2(2)], of "xtime s2 + 1"]] by simp
  from delay_keeps [OF ok(1) _ effectD(1) [OF k3], of 10000] obtain s4 where
    s4: "delay h 10000 ?s3 = Some s4" "keeps ?s3 s4" by (auto simp: returns_def)
  have k4: "keeps s s4" using effect_trans [OF k3 s4(2)] by simp
  let ?d = "TRB 0 0 0 (command TRB_ENABLE_SLOT)"
  from post_cmd_effect [OF effectD(1) [OF k4], of ?d] obtain s5 where
    s5: "post_cmd ?d s4 = Some s5" "effect (slot_step (Command ?d)) s4 s5" by (auto simp: returns_def)
  have d: "trb_type ?d = TRB_ENABLE_SLOT" "TRB_ENABLE_SLOT \<noteq> TRB_DISABLE_SLOT"
    by (simp_all add: trb_type_def command_def TRB_ENABLE_SLOT_def TRB_DISABLE_SLOT_def)
  obtain w where "slot_view s = (w, [])" using s by (cases "slot_view s") (simp add: port_done_def held_slots_def)
  then have v5: "slot_view s5 = (True, [])" using s5(2) k4 d by (simp add: effect_def)
  have x5: "xkbd s5 = xkbd s" using s5(2) k4 by (simp add: effect_def)
  from wait_enable [OF ok(1,2) _ effectD(1) [OF s5(2)] v5, of 1000000] obtain cc slot s6 where
    s6: "wait_cmd h c 1000000 s5 = Some ((cc, slot), s6)" "ctl_ok s6" "xkbd s6 = xkbd s5"
      "held_slots s6 = (if cc = CC_SUCCESS \<and> slot \<noteq> 0 then [slot] else [])"
      "cc = CC_SUCCESS \<and> slot \<noteq> 0 \<longrightarrow> calm s6"
    by (auto simp: returns_def)
  show ?thesis
  proof (cases "cc = CC_SUCCESS \<and> slot \<noteq> 0")
    case None: False
    then have "port_done False s6" using s s6 x5 by (auto simp: port_done_def)
    with None False s2(1) s4(1) s5(1) s6(1) show ?thesis
      by (auto simp: enum_port_def mmio_rd32_eq Let_def)
  next
    case given: True
    with s6(4,5) have "calm s6" "slot_view s6 = (False, [slot])"
      by (auto simp: calm_def held_slots_def prod_eq_iff)
    moreover have "\<not> uk_ready (xkbd s6)" using s s6(3) x5 by (simp add: port_done_def)
    ultimately have "returns (use_slot h po c sp port1 slot s6) (\<lambda>(b, s'). port_done b s')" for sp
      using given by (intro returns_mono [OF use_slot_returns [OF ok]]) (auto intro: handed_over_done)
    with given False s2(1) s4(1) s5(1) s6(1) show ?thesis
      by (simp add: enum_port_def mmio_rd32_eq Let_def)
  qed
qed

lemma enum_ports_returns:
  assumes ok: "clock_ok h" "hc_ok c" "boxes_ok h po"
  shows "port_done False s \<Longrightarrow> returns (enum_ports h po c ports s) (\<lambda>s'. \<exists>b. port_done b s')"
proof (induction ports arbitrary: s)
  case (Cons port1 ports)
  from enum_port_returns [OF ok Cons.prems, of port1] obtain b s1 where
    s1: "enum_port h po c port1 s = Some (b, s1)" "port_done b s1" by (auto simp: returns_def)
  with Cons.IH show ?case by (cases b) auto
qed auto

section \<open>Initialisation\<close>

definition env_ok :: "hw \<Rightarrow> u64 \<Rightarrow> nat \<Rightarrow> bool" where
  "env_ok h po cap \<longleftrightarrow> clock_ok h \<and> boxes_ok h po \<and> caps_ok h cap"

text \<open>
  The end of the initialisation: no slot is held, or only that of the keyboard, which is ready
  for the timer interrupt.
\<close>

definition slots_settled :: "xstate \<Rightarrow> bool" where
  "slots_settled s \<longleftrightarrow> usb_ok (xkbd s) \<and>
     (if uk_ready (xkbd s) then held_slots s = [of_nat (uk_slot (xkbd s))] \<and> uk_slot (xkbd s) \<noteq> 0
      else held_slots s = [])"

lemma quiet_settled:
  "quiet s s' \<Longrightarrow> held_slots s = [] \<Longrightarrow> \<not> uk_ready (xkbd s) \<Longrightarrow> slots_settled s' \<and> held_slots s' = [] \<and> \<not> uk_ready (xkbd s')"
  by (simp add: quiet_def slots_settled_def held_slots_def usb_ok_idle)

lemma port_done_settled: "port_done b s \<Longrightarrow> slots_settled s"
  by (cases b) (simp_all add: port_done_def slots_settled_def)

lemma power_ports_keeps: "keeps s0 s \<Longrightarrow> keeps s0 (fold (\<lambda>p. power_port h (portsc op p)) ps s)"
  by (induction ps arbitrary: s) (simp_all add: power_port_keeps)

lemma enumerate_settled:
  assumes ok: "clock_ok h" "hc_ok c" "boxes_ok h po"
    and s: "ctl_ok s" "held_slots s = []" "\<not> uk_ready (xkbd s)"
  shows "returns (do { s \<leftarrow> delay h 20000 (fold (\<lambda>p. power_port h (portsc op p)) ps s);
                      enum_ports h po c ps s }) slots_settled"
proof -
  let ?s1 = "fold (\<lambda>p. power_port h (portsc op p)) ps s"
  have k1: "keeps s ?s1" by (rule power_ports_keeps [OF keeps_refl [OF s(1)]])
  from delay_keeps [OF ok(1) _ effectD(1) [OF k1], of 20000] obtain s2 where
    s2: "delay h 20000 ?s1 = Some s2" "keeps ?s1 s2" by (auto simp: returns_def)
  have "keeps s s2" using effect_trans [OF k1 s2(2)] by simp
  then have "port_done False s2" using s by (simp add: port_done_def effect_def held_slots_def usb_ok_idle)
  from enum_ports_returns [OF ok this, of ps] s2(1) show ?thesis
    by (auto elim!: returns_mono intro: port_done_settled)
qed

lemma init_unsafe_settled:
  assumes ok: "env_ok h po cap" and s: "held_slots s = []" "\<not> uk_ready (xkbd s)"
  shows "returns (init_unsafe h po cap s) slots_settled"
proof -
  have env: "clock_ok h" "boxes_ok h po" "caps_ok h cap" using ok by (auto simp: env_ok_def)
  from bios_handoff_quiet [OF env(1,3), of s] obtain s1 where
    s1: "bios_handoff h cap s = Some s1" "quiet s s1" by (auto simp: returns_def)
  from dump_quiet [OF env(3), of s1] obtain s2 where
    s2: "dump_supported_protocols h cap s1 = Some s2" "quiet s1 s2" by (auto simp: returns_def)
  define s3 where "s3 = s2\<lparr>xtime := Suc (Suc (Suc (Suc (Suc (Suc (xtime s2))))))\<rparr>"
  have q3: "quiet s s3" unfolding s3_def by (rule quiet_trans [OF quiet_trans [OF s1(2) s2(2)] quiet_time])
  define op where "op = cap + unat (hw_reg8 h (xtime s2) cap)"
  from xhci_reset_quiet [OF env(1), of op s3] obtain b s4 where
    s4: "xhci_reset h op s3 = Some (b, s4)" "quiet s3 s4" by (auto simp: returns_def)
  have q4: "quiet s s4" by (rule quiet_trans [OF q3 s4(2)])
  have rest: "returns (start_controller h po c m p2 s4 \<bind> (\<lambda>((c, running), s). if \<not> running then Some s
      else let s = fold (\<lambda>p. power_port h (portsc op' p)) ps s
           in delay h 20000 s \<bind> enum_ports h po c ps)) slots_settled"
    for c m p2 ps op'
  proof -
    from start_controller_returns [OF env(1,2), of c m p2 s4] obtain c' b' s5 where
      s5: "start_controller h po c m p2 s4 = Some ((c', b'), s5)" "quiet s4 s5" "ctl_ok s5" "hc_ok c'"
      by (auto simp: returns_def)
    from quiet_settled [OF quiet_trans [OF q4 s5(2)] s]
      enumerate_settled [OF env(1) s5(4) env(2) s5(3), of op' ps] s5(1)
    show ?thesis by (cases b') (simp_all add: Let_def)
  qed
  show ?thesis
    using rest quiet_settled [OF q3 s] quiet_settled [OF q4 s] s1(1) s2(1) s4(1)
    by (simp add: init_unsafe_def mmio_rd8_def mmio_rd32_eq Let_def s3_def [symmetric] op_def [symmetric])
qed

lemma xhci_init_returns:
  assumes "pred_option (env_ok h po) bar"
  shows "returns (xhci_init h po bar) slots_settled"
proof -
  have start: "held_slots xstate_init = []" "\<not> uk_ready (xkbd xstate_init)"
    by (simp_all add: xstate_init_def usb_kbd_init_def held_slots_def slot_view_def)
  show ?thesis
  proof (cases bar)
    case None
    with start show ?thesis by (simp add: xhci_init_def slots_settled_def usb_ok_idle)
  next
    case (Some cap)
    with init_unsafe_settled [of h po cap, OF _ start] assms show ?thesis by (simp add: xhci_init_def)
  qed
qed

section \<open>A controller with a keyboard\<close>

text \<open>
  A controller that answers at once: one supported-protocol capability, a device on root port 1
  with the descriptors of \<open>demo_config\<close>, every command and transfer successful.
\<close>

definition demo_regs :: "(nat \<times> u32) list" where
  "demo_regs = [(0x1004, 0x01000108), (0x1010, 0x00100000), (0x1014, 0x2000), (0x1018, 0x3000),
     (0x1040, 0x02000002), (0x1048, 0x0101), (0x1420, 0x200E03)]"

definition demo_events :: "trb list" where
  "demo_events =
     (let cmd = TRB 0 0 0x01000000 0x01008401; xfer = TRB 0 0 0x01000000 0x01008001
      in [cmd, cmd, xfer, cmd, cmd, xfer, xfer, xfer, xfer, xfer, xfer, cmd])"

definition demo_hw :: hw where
  "demo_hw = \<lparr>hw_reg = (\<lambda>t a. case map_of demo_regs a of Some v \<Rightarrow> v | None \<Rightarrow> 0),
     hw_reg8 = (\<lambda>t a. 0x20), hw_clock = (\<lambda>t. t * 0x1000000), hw_mhz = 1,
     hw_event = (\<lambda>t i. if i < length demo_events then demo_events ! i else trb_zero),
     hw_desc = (\<lambda>t i. if i < length demo_config then demo_config ! i else 0),
     hw_box = (\<lambda>n. 0x100000 + of_nat (n mod 1024) * 0x1000)\<rparr>"

lemma demo_cap: "cap_at demo_hw 0x1000 a \<Longrightarrow> a = 0x1040"
  by (induction rule: cap_at.induct)
    (simp_all add: demo_hw_def demo_regs_def CAP_HCCPARAMS1_def drop_bit_word_beyond)

lemma demo_boxes: "boxes_ok demo_hw 0"
  unfolding boxes_ok_def
proof (intro allI conjI)
  fix n
  have "unat (of_nat (n mod 1024) * 0x1000 :: u64) = (n mod 1024) * 0x1000"
    using mod_less_divisor [of 1024 n] by (simp add: unat_word_ariths unat_of_nat take_bit_eq_mod)
  then show "unat (hw_box demo_hw n) + 1024 \<le> 2 ^ 64"
    using mod_less_divisor [of 1024 n] unat_plus_simple
    by (simp add: demo_hw_def unat_word_ariths)
qed simp

lemma demo_env_ok: "env_ok demo_hw 0 0x1000"
proof -
  have "clock_ok demo_hw" by (simp add: clock_ok_def demo_hw_def)
  moreover have "caps_ok demo_hw 0x1000"
    unfolding caps_ok_def
  proof (intro conjI allI impI exI)
    show "cap_at demo_hw 0x1000 a \<Longrightarrow> a \<le> 0x1040" for a by (drule demo_cap) simp
    fix a t t'
    assume "cap_at demo_hw 0x1000 a \<and> hw_reg demo_hw t a AND 0xFF = 2"
    then have a: "a = 0x1040" using demo_cap by blast
    show "0 < unat (hw_reg demo_hw t' (a + 8) AND 0xFF) + unat (drop_bit 8 (hw_reg demo_hw t' (a + 8)) AND 0xFF)"
      unfolding a by (simp add: demo_hw_def demo_regs_def)
  qed
  ultimately show ?thesis using demo_boxes by (simp add: env_ok_def)
qed


end
