(* ===== verification/XhciPolling.thy ===== *)
theory XhciPolling
  imports XhciEnumerate
begin

text \<open>
  The polling side of hal/src/xhci.rs: \<open>take_hid_report\<close>, called from the timer interrupt, with
  the statics \<open>KBD_*\<close> that \<open>init\<close> hands over.  The other end of the two rings is the
  controller of the protocol: it fills the event ring, and completes the reports of the
  keyboard with the blocks armed on the interrupt ring.
\<close>

section \<open>The model\<close>

definition kbd_ready :: "usb_kbd \<Rightarrow> bool" where
  "kbd_ready k = uk_ready k"

definition reports_received :: "usb_kbd \<Rightarrow> u64" where
  "reports_received k = uk_reports k"

text \<open>The stores of \<open>wr64_lo\<close>.\<close>

definition writes64 :: "nat \<Rightarrow> u64 \<Rightarrow> xact list" where
  "writes64 a v = [Reg_write a (ucast v), Reg_write (a + 4) (ucast (drop_bit 32 v))]"

text \<open>
  \<open>ev i\<close> is the block in slot \<open>i\<close> of the event ring, \<open>hid\<close> the 8-byte report buffer.  The answer is
  the report, the register writes and the new statics.  A slot outside the ring, a memory error
  in the source, is \<open>None\<close>, like a panic.
\<close>

definition take_hid_report :: "(nat \<Rightarrow> trb) \<Rightarrow> (nat \<Rightarrow> u8) \<Rightarrow> usb_kbd \<Rightarrow> (u8 list option \<times> xact list \<times> usb_kbd) option" where
  "take_hid_report ev hid k =
     (let deq = slot_at (uk_evt k); cycle = cycle_at (uk_evt k); slot = uk_slot k
      in if \<not> uk_ready k then Some (None, [], k)
         else if \<not> deq < EVT_N then None
         else if dw3 (ev deq) AND 1 \<noteq> cycle then Some (None, [], k)
         else do {
           let dw = ev deq;
           let evt_slot = unat (event_slot dw);
           let new_deq = (if deq + 1 \<ge> EVT_N then 0 else deq + 1);
           let new_cyc = (if deq + 1 \<ge> EVT_N then cycle XOR 1 else cycle);
           let k = k\<lparr>uk_evt := \<lparr>slot_at = new_deq, cycle_at = new_cyc\<rparr>\<rparr>;
           a \<leftarrow> cadd (uk_evt_phys k) (of_nat new_deq * 16);
           let ws = writes64 (uk_rt_base k + 0x20 + IR_ERDP) (a OR push_bit 3 1);
           if trb_type dw \<noteq> TRB_EVT_TRANSFER \<or> evt_slot \<noteq> slot then Some (None, ws, k)
           else if event_cc dw \<noteq> CC_SUCCESS \<and> event_cc dw \<noteq> CC_SHORT_PKT then Some (None, ws, k)
           else do {
             let report = map hid [0..<8];
             let k = k\<lparr>uk_reports := uk_reports k + 1\<rparr>;
             (ring, pos) \<leftarrow> arm_kbd_ep_raw (uk_tr k) (uk_tr_pos k) (uk_buf_phys k);
             let k = k\<lparr>uk_tr := ring, uk_tr_pos := pos\<rparr>;
             Some (Some report, ws @ [Reg_write (uk_db_base k + slot * 4) (uk_ep_db k)], k) } })"

section \<open>The controller of the protocol\<close>

text \<open>
  The event ring and the controller's positions on it and on the interrupt ring, the report
  buffer, and whether the endpoint's doorbell has been rung since it last went idle.
\<close>

record controller =
  ct_events :: "trb list"
  ct_enq :: ring_pos
  ct_tr :: ring_pos
  ct_hid :: "u8 list"
  ct_rung :: bool

text \<open>
  The keyboard completes a transfer, with its event and the bytes it leaves in the buffer; some
  other event is posted; a timer interrupt polls.
\<close>

datatype usb_event = Completion trb "u8 list" | Other trb | Timer

definition ours :: "usb_kbd \<Rightarrow> trb \<Rightarrow> bool" where
  "ours k t \<longleftrightarrow> trb_type t = TRB_EVT_TRANSFER \<and> unat (event_slot t) = uk_slot k"

definition delivered :: "trb \<Rightarrow> bool" where
  "delivered t \<longleftrightarrow> event_cc t = CC_SUCCESS \<or> event_cc t = CC_SHORT_PKT"

fun step_ok :: "usb_kbd \<Rightarrow> usb_event \<Rightarrow> bool" where
  "step_ok k (Completion t r) \<longleftrightarrow> ours k t \<and> length r = 8"
| "step_ok k (Other t) \<longleftrightarrow> \<not> ours k t"
| "step_ok k Timer \<longleftrightarrow> True"

text \<open>
  The event ring has one slot of slack: it is full when posting would reach the driver's
  position, which the driver publishes in ERDP.
\<close>

definition events_full :: "usb_kbd \<Rightarrow> controller \<Rightarrow> bool" where
  "events_full k ct \<longleftrightarrow> slot_at (next_event (ct_enq ct)) = slot_at (uk_evt k)"

definition post_event :: "trb \<Rightarrow> controller \<Rightarrow> controller" where
  "post_event t ct =
     ct\<lparr>ct_events := (ct_events ct)[slot_at (ct_enq ct) := set_cycle (cycle_at (ct_enq ct)) t],
        ct_enq := next_event (ct_enq ct)\<rparr>"

fun usb_step :: "usb_event \<Rightarrow> usb_kbd \<times> controller \<Rightarrow> (u8 list list \<times> usb_kbd \<times> controller) option" where
  "usb_step (Completion t r) (k, ct) =
     (if events_full k ct \<or> \<not> ct_rung ct then Some ([], k, ct)
      else case ring_fetch (uk_tr k) (ct_tr ct) of
        None \<Rightarrow> Some ([], k, ct)
      | Some (_, pos) \<Rightarrow> Some ([], k, post_event t (ct\<lparr>ct_tr := pos, ct_hid := r, ct_rung := False\<rparr>)))"
| "usb_step (Other t) (k, ct) = Some ([], k, if events_full k ct then ct else post_event t ct)"
| "usb_step Timer (k, ct) =
     do { (r, ws, k) \<leftarrow> take_hid_report (nth (ct_events ct)) (nth (ct_hid ct)) k;
          let rung = Reg_write (uk_db_base k + uk_slot k * 4) (uk_ep_db k) \<in> set ws;
          Some (case r of None \<Rightarrow> [] | Some b \<Rightarrow> [b], k, ct\<lparr>ct_rung := ct_rung ct \<or> rung\<rparr>) }"

fun usb_run :: "usb_event list \<Rightarrow> usb_kbd \<times> controller \<Rightarrow> (u8 list list \<times> usb_kbd \<times> controller) option" where
  "usb_run [] s = Some ([], s)"
| "usb_run (x # xs) s = do { (out, s) \<leftarrow> usb_step x s; (outs, s) \<leftarrow> usb_run xs s; Some (out @ outs, s) }"

section \<open>The specification: a queue of notices\<close>

text \<open>
  Each event is a notice, with the report when it delivers one; the keyboard can complete a
  transfer while it is armed.  At most 63 notices are outstanding.
\<close>

record link =
  lk_notes :: "u8 list option list"
  lk_armed :: bool

definition notice :: "trb \<Rightarrow> u8 list \<Rightarrow> u8 list option" where
  "notice t r = (if delivered t then Some r else None)"

fun link_step :: "usb_event \<Rightarrow> link \<Rightarrow> u8 list list \<times> link" where
  "link_step (Completion t r) l =
     ([], if lk_armed l \<and> length (lk_notes l) < EVT_N - 1
          then \<lparr>lk_notes = lk_notes l @ [notice t r], lk_armed = False\<rparr> else l)"
| "link_step (Other t) l =
     ([], if length (lk_notes l) < EVT_N - 1 then l\<lparr>lk_notes := lk_notes l @ [None]\<rparr> else l)"
| "link_step Timer l =
     (case lk_notes l of
        [] \<Rightarrow> ([], l)
      | None # ns \<Rightarrow> ([], l\<lparr>lk_notes := ns\<rparr>)
      | Some r # ns \<Rightarrow> ([r], \<lparr>lk_notes = ns, lk_armed = True\<rparr>))"

fun link_run :: "usb_event list \<Rightarrow> link \<Rightarrow> u8 list list \<times> link" where
  "link_run [] l = ([], l)"
| "link_run (x # xs) l = (let (out, l) = link_step x l; (outs, l) = link_run xs l in (out @ outs, l))"

section \<open>The event ring\<close>

definition at_count :: "nat \<Rightarrow> ring_pos" where
  "at_count n = \<lparr>slot_at = n mod EVT_N, cycle_at = phase (n div EVT_N)\<rparr>"

text \<open>The ring holds the outstanding events \<open>q\<close>, after \<open>c\<close> have been taken.\<close>

definition events_hold :: "trb list \<Rightarrow> ring_pos \<Rightarrow> ring_pos \<Rightarrow> trb list \<Rightarrow> nat \<Rightarrow> bool" where
  "events_hold r st p q c \<longleftrightarrow>
     length r = EVT_N \<and> length q < EVT_N \<and> st = at_count (c + length q) \<and> p = at_count c
     \<and> (\<forall>j. c \<le> j \<and> j < c + EVT_N \<longrightarrow>
          (if j < c + length q then r ! (j mod EVT_N) = set_cycle (phase (j div EVT_N)) (q ! (j - c))
           else dw3 (r ! (j mod EVT_N)) AND 1 = phase (j div EVT_N) XOR 1))"

lemma EVT_N_pos [simp]: "0 < EVT_N" "EVT_N \<noteq> 0" by (simp_all add: EVT_N_def)

lemma at_count_slot [simp]: "slot_at (at_count n) < EVT_N"
  by (simp add: at_count_def EVT_N_def)

lemma at_count_cycle [simp]: "cycle_at (at_count n) AND 1 = cycle_at (at_count n)"
  by (simp add: at_count_def phase_and)

lemma next_at_count: "next_event (at_count n) = at_count (n + 1)"
proof -
  have "n mod EVT_N < EVT_N" by (simp add: EVT_N_def)
  then have "EVT_N \<le> Suc (n mod EVT_N) \<longleftrightarrow> Suc (n mod EVT_N) = EVT_N" by linarith
  then show ?thesis
    by (simp add: next_event_def at_count_def Let_def mod_Suc div_Suc phase_Suc)
qed

lemma take_next: "(if slot_at p + 1 \<ge> EVT_N then 0 else slot_at p + 1) = slot_at (next_event p)"
  "(if slot_at p + 1 \<ge> EVT_N then cycle_at p XOR 1 else cycle_at p) = cycle_at (next_event p)"
  by (simp_all add: next_event_def Let_def)

lemma events_empty: "events_hold r st p [] c \<Longrightarrow> dw3 (r ! slot_at p) AND 1 \<noteq> cycle_at p"
  by (auto simp: events_hold_def at_count_def dest: spec [of _ c])

lemma events_first:
  assumes h: "events_hold r st p (t # q) c"
  shows "r ! slot_at p = set_cycle (cycle_at p) t" "events_hold r st (next_event p) q (c + 1)"
proof -
  from h show "r ! slot_at p = set_cycle (cycle_at p) t"
    by (auto simp: events_hold_def at_count_def dest!: spec [of _ c])
  have "if j < c + 1 + length q then r ! (j mod EVT_N) = set_cycle (phase (j div EVT_N)) (q ! (j - (c + 1)))
      else dw3 (r ! (j mod EVT_N)) AND 1 = phase (j div EVT_N) XOR 1"
    if j: "c + 1 \<le> j" "j < c + 1 + EVT_N" for j
  proof (cases "j = c + EVT_N")
    case True
    then have "j mod EVT_N = c mod EVT_N" "j div EVT_N = Suc (c div EVT_N)"
      using div_add_self2 [OF EVT_N_pos(2), of c] by simp_all
    moreover have "r ! (c mod EVT_N) = set_cycle (phase (c div EVT_N)) t"
      using h by (auto simp: events_hold_def dest!: spec [of _ c])
    ultimately show ?thesis using h True
      by (simp add: events_hold_def phase_Suc phase_and xor.assoc)
  next
    case False
    with j h show ?thesis by (auto simp: events_hold_def nth_Cons')
  qed
  with h show "events_hold r st (next_event p) q (c + 1)"
    by (simp add: events_hold_def next_at_count)
qed

lemma events_post:
  assumes h: "events_hold r st p q c" and room: "length q < EVT_N - 1"
  shows "events_hold (r[slot_at st := set_cycle (cycle_at st) t]) (next_event st) p (q @ [t]) c"
proof -
  define n where "n = c + length q"
  from h have st: "st = at_count n" and len: "length r = EVT_N" by (simp_all add: events_hold_def n_def)
  have "if j < n + 1
      then r[slot_at st := set_cycle (cycle_at st) t] ! (j mod EVT_N)
        = set_cycle (phase (j div EVT_N)) ((q @ [t]) ! (j - c))
      else dw3 (r[slot_at st := set_cycle (cycle_at st) t] ! (j mod EVT_N)) AND 1 = phase (j div EVT_N) XOR 1"
    if j: "c \<le> j" "j < c + EVT_N" for j
  proof (cases "j = n")
    case True
    then show ?thesis using len by (simp add: st at_count_def n_def)
  next
    case False
    have "c \<le> n" "n < c + EVT_N" using room by (simp_all add: n_def)
    with mod_window [OF j] False have "j mod EVT_N \<noteq> n mod EVT_N" by blast
    then show ?thesis using h j False
      by (auto simp: events_hold_def st at_count_def nth_append n_def)
  qed
  then have "\<forall>j. c \<le> j \<and> j < c + EVT_N \<longrightarrow>
      (if j < c + length (q @ [t])
      then r[slot_at st := set_cycle (cycle_at st) t] ! (j mod EVT_N)
        = set_cycle (phase (j div EVT_N)) ((q @ [t]) ! (j - c))
      else dw3 (r[slot_at st := set_cycle (cycle_at st) t] ! (j mod EVT_N)) AND 1 = phase (j div EVT_N) XOR 1)"
    by (simp add: n_def)
  moreover have "length (q @ [t]) < EVT_N" using room by simp
  ultimately show ?thesis using h
    by (simp only: events_hold_def next_at_count length_list_update) (simp add: add.assoc)
qed

lemma events_full_iff:
  assumes "events_hold r st p q c"
  shows "slot_at (next_event st) = slot_at p \<longleftrightarrow> length q = EVT_N - 1"
proof -
  from assms have *: "st = at_count (c + length q)" "p = at_count c" "length q < EVT_N"
    by (simp_all add: events_hold_def)
  have "(c + length q + 1) mod EVT_N = c mod EVT_N \<longleftrightarrow> length q + 1 = EVT_N"
  proof
    assume "(c + length q + 1) mod EVT_N = c mod EVT_N"
    then have "EVT_N dvd length q + 1"
      by (metis add.assoc add_diff_cancel_left' le_add1 mod_eq_dvd_iff_nat)
    with *(3) show "length q + 1 = EVT_N" by (auto dest!: dvd_imp_le)
  qed (metis add.assoc mod_add_self2)
  moreover have "length q + 1 = EVT_N \<longleftrightarrow> length q = EVT_N - 1" using *(3) by linarith
  ultimately show ?thesis using * by (simp add: next_at_count) (simp add: at_count_def)
qed

lemma event_fields [simp]:
  assumes "c AND 1 = c"
  shows "event_cc (set_cycle c t) = event_cc t" "event_slot (set_cycle c t) = event_slot t"
proof -
  show "event_cc (set_cycle c t) = event_cc t" by (simp add: event_cc_def set_cycle_def)
  have "drop_bit 24 (dw3 (set_cycle c t)) = drop_bit 24 (dw3 t)"
  proof (rule bit_word_eqI)
    fix n :: nat
    show "bit (drop_bit 24 (dw3 (set_cycle c t))) n = bit (drop_bit 24 (dw3 t)) n"
      using bit_set_cycle [OF assms, of "24 + n" t]
      by (cases "24 + n < 32") (auto simp: bit_drop_bit_eq dest: bit_imp_le_length)
  qed
  then show "event_slot (set_cycle c t) = event_slot t" by (simp add: event_slot_def)
qed

section \<open>The driver and the controller implement the queue\<close>

text \<open>
  The addresses are sound: the position in the event ring does not overflow, and the keyboard's
  doorbell is not one of the two words of ERDP.
\<close>

definition kbd_addrs_ok :: "usb_kbd \<Rightarrow> bool" where
  "kbd_addrs_ok k \<longleftrightarrow> unat (uk_evt_phys k) + EVT_N * 16 < 2 ^ 64
     \<and> uk_db_base k + uk_slot k * 4 \<notin> {uk_rt_base k + 0x38, uk_rt_base k + 0x3C}"

definition same_wiring :: "usb_kbd \<Rightarrow> usb_kbd \<Rightarrow> bool" where
  "same_wiring k k' \<longleftrightarrow> uk_slot k' = uk_slot k \<and> uk_ep_db k' = uk_ep_db k \<and> uk_db_base k' = uk_db_base k
     \<and> uk_rt_base k' = uk_rt_base k \<and> uk_evt_phys k' = uk_evt_phys k \<and> uk_buf_phys k' = uk_buf_phys k"

definition pending_note :: "usb_kbd \<Rightarrow> controller \<Rightarrow> trb \<Rightarrow> u8 list option" where
  "pending_note k ct t = (if ours k t \<and> delivered t then Some (ct_hid ct) else None)"

definition usb_inv :: "usb_kbd \<Rightarrow> controller \<Rightarrow> link \<Rightarrow> bool" where
  "usb_inv k ct l \<longleftrightarrow> uk_ready k \<and> kbd_addrs_ok k \<and> length (ct_hid ct) = 8
     \<and> (ct_rung ct \<longleftrightarrow> lk_armed l)
     \<and> (\<exists>ts c. events_hold (ct_events ct) (ct_enq ct) (uk_evt k) ts c
          \<and> lk_notes l = map (pending_note k ct) ts
          \<and> length (filter (ours k) ts) \<le> (if lk_armed l then 0 else 1))
     \<and> (\<exists>d. ring_holds (INT_N - 1) (uk_tr k) (uk_tr_pos k) (ct_tr ct)
          (if lk_armed l then [report_trb (uk_buf_phys k) 0] else []) d)"

lemma delivered_set_cycle [simp]: "c AND 1 = c \<Longrightarrow> delivered (set_cycle c t) = delivered t"
  and ours_set_cycle [simp]: "c AND 1 = c \<Longrightarrow> ours k (set_cycle c t) = ours k t"
  by (simp_all add: delivered_def ours_def)

lemma erdp_address:
  assumes "kbd_addrs_ok k" "n < EVT_N"
  shows "\<exists>a. cadd (uk_evt_phys k) (of_nat n * 16) = Some a"
proof -
  have "n < 64" using assms(2) by (simp add: EVT_N_def)
  then have "unat (of_nat n * 16 :: u64) = n * 16"
    by (simp add: unat_word_ariths unat_of_nat take_bit_eq_mod)
  then have "unat (uk_evt_phys k) + unat (of_nat n * 16 :: u64) < 2 ^ 64"
    using assms by (simp add: kbd_addrs_ok_def EVT_N_def)
  then show ?thesis by (simp add: cadd_def)
qed

text \<open>What a poll does, by the head of the queue.\<close>

lemma take_nothing:
  assumes "events_hold (ct_events ct) st (uk_evt k) [] c"
  shows "take_hid_report (nth (ct_events ct)) hid k = Some (None, [], k)"
  using events_empty [OF assms] assms
  by (auto simp: take_hid_report_def Let_def events_hold_def)

definition skipped :: "usb_kbd \<Rightarrow> usb_kbd" where
  "skipped k = k\<lparr>uk_evt := next_event (uk_evt k)\<rparr>"

lemma skipped_fields [simp]:
  "uk_ready (skipped k) = uk_ready k" "uk_evt (skipped k) = next_event (uk_evt k)"
  "uk_tr (skipped k) = uk_tr k" "uk_tr_pos (skipped k) = uk_tr_pos k"
  "uk_buf_phys (skipped k) = uk_buf_phys k" "ours (skipped k) = ours k"
  "pending_note (skipped k) ct = pending_note k ct"
  by (simp_all add: skipped_def ours_def pending_note_def fun_eq_iff)

lemma take_event:
  assumes h: "events_hold r st (uk_evt k) (t # ts) c" and k: "uk_ready k" "kbd_addrs_ok k"
  shows "\<exists>v w. take_hid_report (nth r) hid k =
    (let ws = [Reg_write (uk_rt_base k + 0x38) v, Reg_write (uk_rt_base k + 0x3C) w]
     in if ours k t \<and> delivered t
        then do { (ring, pos) \<leftarrow> arm_kbd_ep_raw (uk_tr k) (uk_tr_pos k) (uk_buf_phys k);
                  Some (Some (map hid [0..<8]), ws @ [Reg_write (uk_db_base k + uk_slot k * 4) (uk_ep_db k)],
                        (skipped k)\<lparr>uk_reports := uk_reports k + 1, uk_tr := ring, uk_tr_pos := pos\<rparr>) }
        else Some (None, ws, skipped k))"
proof -
  have at: "slot_at (uk_evt k) < EVT_N" "cycle_at (uk_evt k) AND 1 = cycle_at (uk_evt k)"
    "slot_at (next_event (uk_evt k)) < EVT_N"
    using h by (auto simp: events_hold_def next_at_count)
  from erdp_address [OF k(2) at(3)] obtain a where
    a: "cadd (uk_evt_phys k) (of_nat (slot_at (next_event (uk_evt k))) * 16) = Some a" by blast
  have pos: "\<lparr>slot_at = slot_at p, cycle_at = cycle_at p\<rparr> = p" for p :: ring_pos by simp
  show ?thesis
    unfolding take_hid_report_def Let_def take_next pos
    by (rule exI [of _ "ucast (a OR push_bit 3 1)"], rule exI [of _ "ucast (drop_bit 32 (a OR push_bit 3 1))"])
      (use k(1) at a in \<open>simp add: events_first(1) [OF h] writes64_def IR_ERDP_def skipped_def
        ours_def delivered_def add.commute\<close>)
qed

lemma take_posts:
  assumes "kbd_addrs_ok k" "ring_holds (INT_N - 1) (uk_tr k) (uk_tr_pos k) p [] d"
  shows "\<exists>ring pos. arm_kbd_ep_raw (uk_tr k) (uk_tr_pos k) (uk_buf_phys k) = Some (ring, pos)
    \<and> ring_holds (INT_N - 1) ring pos p [report_trb (uk_buf_phys k) 0] d"
  using report_ring.post_holds [OF assms(2), of "uk_buf_phys k"] by (simp add: INT_N_def report_trb_type)

lemma addrs_after:
  assumes "kbd_addrs_ok k"
  shows "kbd_addrs_ok (k\<lparr>uk_evt := p, uk_reports := n, uk_tr := r, uk_tr_pos := q\<rparr>)"
    and "kbd_addrs_ok (skipped k)"
  using assms by (simp_all add: kbd_addrs_ok_def skipped_def)

text \<open>The timer finds the keyboard's own completion at the head: the report goes out, the next is asked for.\<close>

lemma usb_timer_delivers:
  assumes inv: "usb_inv k ct l"
    and ev: "events_hold (ct_events ct) (ct_enq ct) (uk_evt k) (t # rest) c"
    and nts: "lk_notes l = map (pending_note k ct) (t # rest)"
    and few: "length (filter (ours k) (t # rest)) \<le> (if lk_armed l then 0 else 1)"
    and own: "ours k t \<and> delivered t"
  shows "\<exists>out k' ct' l'. usb_step Timer (k, ct) = Some (out, k', ct') \<and> link_step Timer l = (out, l')
    \<and> usb_inv k' ct' l' \<and> same_wiring k k'"
proof -
  from inv obtain d where
    k: "uk_ready k" "kbd_addrs_ok k" "length (ct_hid ct) = 8"
    and ring: "ring_holds (INT_N - 1) (uk_tr k) (uk_tr_pos k) (ct_tr ct)
          (if lk_armed l then [report_trb (uk_buf_phys k) 0] else []) d" by (auto simp: usb_inv_def)
  have hid: "map (nth (ct_hid ct)) [0..<8] = ct_hid ct" using k(3) map_nth [of "ct_hid ct"] by simp
  from few own have l: "\<not> lk_armed l" "filter (ours k) rest = []" by (auto split: if_splits)
  from ring l have "ring_holds (INT_N - 1) (uk_tr k) (uk_tr_pos k) (ct_tr ct) [] d" by simp
  from take_posts [OF k(2) this] obtain r q where
    post: "arm_kbd_ep_raw (uk_tr k) (uk_tr_pos k) (uk_buf_phys k) = Some (r, q)"
    "ring_holds (INT_N - 1) r q (ct_tr ct) [report_trb (uk_buf_phys k) 0] d" by blast
  let ?k = "k\<lparr>uk_evt := next_event (uk_evt k), uk_reports := uk_reports k + 1, uk_tr := r, uk_tr_pos := q\<rparr>"
  let ?ct = "ct\<lparr>ct_rung := True\<rparr>" and ?l = "\<lparr>lk_notes = map (pending_note k ct) rest, lk_armed = True\<rparr>"
  from take_event [OF ev k(1,2), of "nth (ct_hid ct)"] own post(1) hid
  have "usb_step Timer (k, ct) = Some ([ct_hid ct], ?k, ?ct)" by (auto simp: skipped_def Let_def)
  moreover have "link_step Timer l = ([ct_hid ct], ?l)" using nts own by (simp add: pending_note_def)
  moreover have "usb_inv ?k ?ct ?l"
    using k events_first(2) [OF ev] post(2) l(2) addrs_after(1) [OF k(2)]
    by (auto simp: usb_inv_def pending_note_def ours_def filter_empty_conv)
  ultimately show ?thesis by (auto simp: same_wiring_def)
qed

text \<open>Any other event at the head is consumed and changes nothing else.\<close>

lemma usb_timer_skips:
  assumes inv: "usb_inv k ct l"
    and ev: "events_hold (ct_events ct) (ct_enq ct) (uk_evt k) (t # rest) c"
    and nts: "lk_notes l = map (pending_note k ct) (t # rest)"
    and few: "length (filter (ours k) (t # rest)) \<le> (if lk_armed l then 0 else 1)"
    and other: "\<not> (ours k t \<and> delivered t)"
  shows "\<exists>out k' ct' l'. usb_step Timer (k, ct) = Some (out, k', ct') \<and> link_step Timer l = (out, l')
    \<and> usb_inv k' ct' l' \<and> same_wiring k k'"
proof -
  from inv obtain d where
    k: "uk_ready k" "kbd_addrs_ok k" "length (ct_hid ct) = 8" "ct_rung ct \<longleftrightarrow> lk_armed l"
    and ring: "ring_holds (INT_N - 1) (uk_tr k) (uk_tr_pos k) (ct_tr ct)
          (if lk_armed l then [report_trb (uk_buf_phys k) 0] else []) d" by (auto simp: usb_inv_def)
  let ?l = "l\<lparr>lk_notes := map (pending_note k ct) rest\<rparr>"
  from take_event [OF ev k(1,2), of "nth (ct_hid ct)"] other k(2)
  have "usb_step Timer (k, ct) = Some ([], skipped k, ct)" by (auto simp: skipped_def Let_def kbd_addrs_ok_def)
  moreover have "link_step Timer l = ([], ?l)" using nts other by (simp add: pending_note_def)
  moreover have "length (filter (ours k) rest) \<le> (if lk_armed l then 0 else 1)"
    using few by (auto split: if_splits)
  then have "usb_inv (skipped k) ct ?l"
    using k events_first(2) [OF ev] ring addrs_after(2) [OF k(2)] by (auto simp: usb_inv_def)
  ultimately show ?thesis by (auto simp: same_wiring_def skipped_def)
qed

lemma usb_timer_step:
  assumes inv: "usb_inv k ct l"
  shows "\<exists>out k' ct' l'. usb_step Timer (k, ct) = Some (out, k', ct') \<and> link_step Timer l = (out, l')
    \<and> usb_inv k' ct' l' \<and> same_wiring k k'"
proof -
  from inv obtain ts c where ev: "events_hold (ct_events ct) (ct_enq ct) (uk_evt k) ts c"
    and nts: "lk_notes l = map (pending_note k ct) ts"
    and few: "length (filter (ours k) ts) \<le> (if lk_armed l then 0 else 1)"
    by (auto simp: usb_inv_def)
  show ?thesis
  proof (cases ts)
    case Nil
    with take_nothing [of ct _ k c] ev nts inv show ?thesis by (auto simp: same_wiring_def)
  next
    case (Cons t rest)
    show ?thesis
      using usb_timer_delivers [OF inv ev [unfolded Cons] nts [unfolded Cons] few [unfolded Cons]]
        usb_timer_skips [OF inv ev [unfolded Cons] nts [unfolded Cons] few [unfolded Cons]] by blast
  qed
qed

lemma usb_post_step:
  assumes inv: "usb_inv k ct l" and ok: "step_ok k x" "x \<noteq> Timer"
  shows "\<exists>ct' l'. usb_step x (k, ct) = Some ([], k, ct') \<and> link_step x l = ([], l') \<and> usb_inv k ct' l'"
proof -
  from inv obtain ts c d where
    k: "uk_ready k" "kbd_addrs_ok k" "length (ct_hid ct) = 8" "ct_rung ct \<longleftrightarrow> lk_armed l"
    and ev: "events_hold (ct_events ct) (ct_enq ct) (uk_evt k) ts c"
    and nts: "lk_notes l = map (pending_note k ct) ts"
    and few: "length (filter (ours k) ts) \<le> (if lk_armed l then 0 else 1)"
    and ring: "ring_holds (INT_N - 1) (uk_tr k) (uk_tr_pos k) (ct_tr ct)
          (if lk_armed l then [report_trb (uk_buf_phys k) 0] else []) d"
    by (auto simp: usb_inv_def)
  have "length ts < EVT_N" using ev by (simp add: events_hold_def)
  then have full: "events_full k ct \<longleftrightarrow> \<not> length (lk_notes l) < EVT_N - 1"
    unfolding events_full_def events_full_iff [OF ev] nts by auto
  have posted: "events_hold (ct_events (post_event t ct')) (ct_enq (post_event t ct')) (uk_evt k) (ts @ [t]) c"
    if "\<not> events_full k ct" "ct_events ct' = ct_events ct" "ct_enq ct' = ct_enq ct" for t ct'
    using events_post [OF ev, of t] that(1) nts unfolding full by (simp add: post_event_def that(2,3))
  show ?thesis
  proof (cases x)
    case (Other t)
    have "usb_inv k (post_event t ct) (l\<lparr>lk_notes := lk_notes l @ [None]\<rparr>)" if "\<not> events_full k ct"
      using posted [OF that refl refl, of t] k few ring ok Other nts
      by (auto simp: usb_inv_def post_event_def pending_note_def)
    with inv full Other show ?thesis by auto
  next
    case (Completion t r)
    show ?thesis
    proof (cases "lk_armed l \<and> \<not> events_full k ct")
      case True
      with ring have "ring_holds (INT_N - 1) (uk_tr k) (uk_tr_pos k) (ct_tr ct) [report_trb (uk_buf_phys k) 0] d"
        by simp
      from fetch_first [OF this] obtain b p where
        fetch: "ring_fetch (uk_tr k) (ct_tr ct) = Some (b, p)"
          "ring_holds (INT_N - 1) (uk_tr k) (uk_tr_pos k) p [] (d + 1)" by blast
      define ct1 where "ct1 = ct\<lparr>ct_tr := p, ct_hid := r, ct_rung := False\<rparr>"
      have none: "filter (ours k) ts = []" using few True by simp
      then have "map (pending_note k (post_event t ct1)) ts = map (pending_note k ct) ts"
        by (auto simp: pending_note_def filter_empty_conv)
      then have "usb_inv k (post_event t ct1) \<lparr>lk_notes = lk_notes l @ [notice t r], lk_armed = False\<rparr>"
        using posted [of ct1 t] True none fetch(2) k(1,2) ok Completion nts
        by (auto simp: usb_inv_def post_event_def ct1_def pending_note_def notice_def)
      with fetch(1) True Completion k(4) full show ?thesis by (simp add: ct1_def)
    next
      case False
      with inv Completion k(4) full show ?thesis by auto
    qed
  qed (use ok in simp)
qed

lemma usb_run_refines:
  assumes "usb_inv k ct l" "\<forall>x \<in> set xs. step_ok k x"
  shows "\<exists>k' ct' l'. usb_run xs (k, ct) = Some (fst (link_run xs l), k', ct')
    \<and> snd (link_run xs l) = l' \<and> usb_inv k' ct' l'"
  using assms
proof (induction xs arbitrary: k ct l)
  case (Cons x xs)
  have "\<exists>out k1 ct1 l1. usb_step x (k, ct) = Some (out, k1, ct1) \<and> link_step x l = (out, l1)
      \<and> usb_inv k1 ct1 l1 \<and> same_wiring k k1"
  proof (cases "x = Timer")
    case True
    with usb_timer_step [OF Cons.prems(1)] show ?thesis by simp
  next
    case False
    with Cons.prems(2) have "step_ok k x" by simp
    from usb_post_step [OF Cons.prems(1) this False] show ?thesis by (auto simp: same_wiring_def)
  qed
  then obtain out k1 ct1 l1 where step: "usb_step x (k, ct) = Some (out, k1, ct1)" "link_step x l = (out, l1)"
    "usb_inv k1 ct1 l1" "same_wiring k k1" by blast
  have "step_ok k1 y" if "y \<in> set xs" for y
    using Cons.prems(2) that step(4) by (cases y) (auto simp: ours_def same_wiring_def)
  with Cons.IH [OF step(3)] obtain k' ct' l' where
    "usb_run xs (k1, ct1) = Some (fst (link_run xs l1), k', ct')" "snd (link_run xs l1) = l'" "usb_inv k' ct' l'"
    by blast
  with step show ?case by (auto simp: Let_def split: prod.splits)
qed auto

section \<open>What the keyboard's reports become\<close>

text \<open>
  The state in which \<open>init\<close> leaves driver and controller: one report is armed on the interrupt
  ring and its doorbell has been rung, and every event posted so far has been taken.
\<close>

definition handed_over :: "usb_kbd \<Rightarrow> controller \<Rightarrow> u64 \<Rightarrow> bool" where
  "handed_over k ct a \<longleftrightarrow> uk_ready k \<and> kbd_addrs_ok k
     \<and> arm_kbd_ep_raw (linked_ring INT_N a) ring_start (uk_buf_phys k) = Some (uk_tr k, uk_tr_pos k)
     \<and> ct_tr ct = ring_start \<and> ct_rung ct \<and> length (ct_hid ct) = 8
     \<and> ct_enq ct = uk_evt k \<and> length (ct_events ct) = EVT_N
     \<and> slot_at (uk_evt k) < EVT_N \<and> (cycle_at (uk_evt k) = 0 \<or> cycle_at (uk_evt k) = 1)
     \<and> (\<forall>i < EVT_N. dw3 (ct_events ct ! i) AND 1
          = (if i < slot_at (uk_evt k) then cycle_at (uk_evt k) else cycle_at (uk_evt k) XOR 1))"

definition idle_link :: link where "idle_link = \<lparr>lk_notes = [], lk_armed = True\<rparr>"

lemma events_drained:
  assumes "length r = EVT_N" "slot_at p < EVT_N" "cycle_at p = 0 \<or> cycle_at p = 1"
    and slots: "\<forall>i < EVT_N. dw3 (r ! i) AND 1 = (if i < slot_at p then cycle_at p else cycle_at p XOR 1)"
  shows "\<exists>c. events_hold r p p [] c"
proof -
  define k :: nat where "k = (if cycle_at p = 1 then 0 else 1)"
  define c where "c = slot_at p + k * EVT_N"
  have ph: "phase k = cycle_at p" using assms(3) by (auto simp: k_def phase_def)
  have p: "p = at_count c" using assms(2) ph by (simp add: at_count_def c_def)
  have "dw3 (r ! (j mod EVT_N)) AND 1 = phase (j div EVT_N) XOR 1" if "c \<le> j" "j < c + EVT_N" for j
  proof (cases "j < (k + 1) * EVT_N")
    case True
    then have "j div EVT_N = k" using that by (intro div_nat_eqI) (auto simp: c_def mult.commute)
    moreover from this have "slot_at p \<le> j mod EVT_N"
      using that by (simp add: c_def modulo_nat_def mult.commute)
    ultimately show ?thesis using slots ph by simp
  next
    case False
    then have "j div EVT_N = Suc k"
      using that assms(2) by (intro div_nat_eqI) (auto simp: c_def mult.commute)
    moreover from this have "j mod EVT_N < slot_at p"
      using that False by (simp add: c_def modulo_nat_def mult.commute)
    ultimately show ?thesis using slots ph by (simp add: phase_Suc xor.assoc)
  qed
  with assms(1) p have "events_hold r p p [] c" by (simp add: events_hold_def)
  then show ?thesis ..
qed

lemma handed_over_inv: "handed_over k ct a \<Longrightarrow> usb_inv k ct idle_link"
proof -
  assume h: "handed_over k ct a"
  then have "\<exists>c. events_hold (ct_events ct) (uk_evt k) (uk_evt k) [] c"
    by (intro events_drained) (simp_all add: handed_over_def)
  moreover have "ring_holds (INT_N - 1) (linked_ring INT_N a) ring_start ring_start [] 0"
    using linked_ring_holds [of "INT_N - 1" a] by (simp add: INT_N_def)
  from report_ring.post_holds [OF this, of "uk_buf_phys k"] h
  have "ring_holds (INT_N - 1) (uk_tr k) (uk_tr_pos k) ring_start [report_trb (uk_buf_phys k) 0] 0"
    by (auto simp: handed_over_def report_trb_type INT_N_def)
  ultimately show ?thesis using h by (auto simp: usb_inv_def handed_over_def idle_link_def)
qed

lemma usb_run_link:
  assumes "handed_over k ct a" "\<forall>x \<in> set xs. step_ok k x"
  shows "\<exists>k' ct'. usb_run xs (k, ct) = Some (fst (link_run xs idle_link), k', ct')"
  using usb_run_refines [OF handed_over_inv [OF assms(1)] assms(2)] by blast

lemma link_run_append:
  "link_run (xs @ ys) l = (let (o1, l) = link_run xs l; (o2, l) = link_run ys l in (o1 @ o2, l))"
  by (induction xs arbitrary: l) (auto simp: Let_def split: prod.splits)

lemma link_run_others: "length (lk_notes l) + length es < EVT_N \<Longrightarrow>
    link_run (map Other es) l = ([], l\<lparr>lk_notes := lk_notes l @ replicate (length es) None\<rparr>)"
  by (induction es arbitrary: l) (auto simp: Let_def)

lemma link_run_skips:
  "link_run (replicate n Timer) \<lparr>lk_notes = replicate n None, lk_armed = b\<rparr> = ([], \<lparr>lk_notes = [], lk_armed = b\<rparr>)"
  by (induction n) auto

definition batch :: "trb \<times> u8 list \<times> trb list \<Rightarrow> usb_event list" where
  "batch = (\<lambda>(t, r, es). Completion t r # map Other es @ replicate (length es + 1) Timer)"

lemma link_run_batch:
  "delivered t \<Longrightarrow> length es < EVT_N - 1 \<Longrightarrow> link_run (batch (t, r, es)) idle_link = ([r], idle_link)"
  using link_run_others [of "\<lparr>lk_notes = [Some r], lk_armed = False\<rparr>" es] link_run_skips [of "length es" True]
  by (simp add: batch_def link_run_append idle_link_def notice_def Let_def EVT_N_def)

lemma link_run_batches:
  "\<forall>(t, r, es) \<in> set bs. delivered t \<and> length es < EVT_N - 1 \<Longrightarrow>
    link_run (concat (map batch bs)) idle_link = (map (fst \<circ> snd) bs, idle_link)"
  by (induction bs) (auto simp: link_run_append link_run_batch Let_def)

lemma link_unarmed_silent:
  "\<not> lk_armed l \<Longrightarrow> set (lk_notes l) \<subseteq> {None} \<Longrightarrow> fst (link_run xs l) = []"
proof (induction xs arbitrary: l)
  case (Cons x xs)
  have "\<exists>l1. link_step x l = ([], l1) \<and> \<not> lk_armed l1 \<and> set (lk_notes l1) \<subseteq> {None}"
    using Cons.prems by (cases x) (auto split: list.splits option.splits)
  with Cons.IH show ?case by (auto simp: Let_def split: prod.splits) (metis fst_conv)
qed simp

section \<open>Properties\<close>

text \<open>
  C8: The polling side of the driver and the controller, on their two rings, behave as a queue
  of event notices with one report in flight at a time: whatever the order of completions, other
  events and timer interrupts, no poll panics and the reports handed on are those of the queue,
  with the bytes the keyboard sent.
\<close>

theorem usb_polling_refines:
  assumes "handed_over k ct a" "\<forall>x \<in> set xs. step_ok k x"
  shows "\<exists>k' ct'. usb_run xs (k, ct) = Some (fst (link_run xs \<lparr>lk_notes = [], lk_armed = True\<rparr>), k', ct')"
  using usb_run_link [OF assms] by (simp add: idle_link_def)

text \<open>
  C9: Every report is delivered, once and in order, over any number of wraps of both rings, as
  long as the polls keep up with the events that arrive between two reports.
\<close>

theorem usb_reports_delivered:
  assumes "handed_over k ct a"
    and "\<forall>(t, r, es) \<in> set bs. ours k t \<and> delivered t \<and> length r = 8 \<and> length es < EVT_N - 1
           \<and> (\<forall>e \<in> set es. \<not> ours k e)"
  shows "\<exists>k' ct'. usb_run (concat (map (\<lambda>(t, r, es). Completion t r # map Other es @ replicate (length es + 1) Timer) bs))
    (k, ct) = Some (map (\<lambda>(t, r, es). r) bs, k', ct')"
proof -
  have "\<forall>x \<in> set (concat (map batch bs)). step_ok k x"
    using assms(2) by (auto simp: batch_def)
  moreover have "link_run (concat (map batch bs)) idle_link = (map (fst \<circ> snd) bs, idle_link)"
    using assms(2) by (intro link_run_batches) auto
  ultimately show ?thesis
    using usb_run_link [OF assms(1), of "concat (map batch bs)"]
    by (simp add: batch_def comp_def split_def)
qed


section \<open>A keyboard on slot 1\<close>

definition demo_ring :: "trb list \<times> ring_pos" where
  "demo_ring = the (arm_kbd_ep_raw (linked_ring INT_N 0x5000) ring_start 0x6000)"

definition demo_kbd :: usb_kbd where
  "demo_kbd = \<lparr>uk_ready = True, uk_reports = 0, uk_slot = 1, uk_ep_db = 3, uk_db_base = 0x2000,
     uk_rt_base = 0x3000, uk_evt_phys = 0x4000, uk_evt = \<lparr>slot_at = 0, cycle_at = 1\<rparr>,
     uk_tr = fst demo_ring, uk_tr_pos = snd demo_ring, uk_buf_phys = 0x6000\<rparr>"

definition demo_controller :: controller where
  "demo_controller = \<lparr>ct_events = replicate EVT_N trb_zero, ct_enq = \<lparr>slot_at = 0, cycle_at = 1\<rparr>,
     ct_tr = ring_start, ct_hid = replicate 8 0, ct_rung = True\<rparr>"

text \<open>A transfer event of slot 1 with completion code \<open>cc\<close>, and a port status change event.\<close>

definition demo_transfer :: "u32 \<Rightarrow> trb" where
  "demo_transfer cc = TRB 0 0 (push_bit 24 cc) 0x01008000"

definition demo_port_change :: trb where
  "demo_port_change = TRB 0 0 0x01000000 0x8800"

lemma demo_handed_over: "handed_over demo_kbd demo_controller 0x5000"
proof -
  have "\<exists>x. arm_kbd_ep_raw (linked_ring INT_N 0x5000) ring_start 0x6000 = Some x"
    by (simp add: arm_kbd_ep_raw_def linked_ring_def ring_start_def INT_N_def Let_def del: replicate_Suc)
  then have "arm_kbd_ep_raw (linked_ring INT_N 0x5000) ring_start 0x6000 = Some demo_ring"
    by (auto simp: demo_ring_def)
  then show ?thesis
    by (simp add: handed_over_def demo_kbd_def demo_controller_def kbd_addrs_ok_def EVT_N_def
      trb_zero_def del: replicate_Suc)
qed

lemma demo_events_fields:
  "ours demo_kbd (demo_transfer cc)" "\<not> ours demo_kbd demo_port_change"
  "delivered (demo_transfer 1)" "\<not> delivered (demo_transfer 4)"
  by (simp_all add: ours_def delivered_def demo_kbd_def demo_transfer_def demo_port_change_def
    trb_type_def event_slot_def event_cc_def TRB_EVT_TRANSFER_def CC_SUCCESS_def CC_SHORT_PKT_def)

theorem usb_polling_refines_witness:
  "\<exists>k' ct'. usb_run [Timer, Other demo_port_change, Completion (demo_transfer 1) [0, 0, 4, 0, 0, 0, 0, 0], Timer, Timer]
     (demo_kbd, demo_controller) = Some ([[0, 0, 4, 0, 0, 0, 0, 0]], k', ct')"
  using usb_polling_refines [OF demo_handed_over,
      of "[Timer, Other demo_port_change, Completion (demo_transfer 1) [0, 0, 4, 0, 0, 0, 0, 0], Timer, Timer]"]
  by (simp add: demo_events_fields notice_def EVT_N_def)

theorem usb_reports_delivered_witness:
  "\<exists>k' ct'. usb_run (concat (map (\<lambda>(t, r, es). Completion t r # map Other es @ replicate (length es + 1) Timer)
       (replicate 100 (demo_transfer 1, [0, 0, 4, 0, 0, 0, 0, 0], [demo_port_change]))))
     (demo_kbd, demo_controller) = Some (replicate 100 [0, 0, 4, 0, 0, 0, 0, 0], k', ct')"
  using usb_reports_delivered [OF demo_handed_over,
      of "replicate 100 (demo_transfer 1, [0, 0, 4, 0, 0, 0, 0, 0], [demo_port_change])"]
  by (simp add: demo_events_fields EVT_N_def del: replicate_Suc)


end
