(* ===== verification/PortIo.thy ===== *)
theory PortIo
  imports Prelude
begin

text \<open>
  Port and memory-mapped I/O of hal/src (pic.rs, serial.rs, pci.rs) outside the USB driver.
  What the driver does is a log, newest last; what the hardware answers is a \<open>bus\<close>, a parameter
  of the model: a function of everything done so far, so that a device with an inner state is
  one instance.  Reads are logged too, for a read can have an effect on the device.
\<close>

section \<open>The bus\<close>

datatype io_act =
    Out8 u16 u8 | Out16 u16 u16 | Out32 u16 u32 | In8 u16 | In32 u16
  | Load32 nat | Store32 nat u32 | Rdtsc

type_synonym io_log = "io_act list"

record bus =
  bus_in8 :: "io_log \<Rightarrow> u16 \<Rightarrow> u8"
  bus_in32 :: "io_log \<Rightarrow> u16 \<Rightarrow> u32"
  bus_mem32 :: "io_log \<Rightarrow> nat \<Rightarrow> u32"
  bus_tsc :: "io_log \<Rightarrow> u64"

definition outb :: "u16 \<Rightarrow> u8 \<Rightarrow> io_log \<Rightarrow> io_log" where
  "outb port val l = l @ [Out8 port val]"

definition outw :: "u16 \<Rightarrow> u16 \<Rightarrow> io_log \<Rightarrow> io_log" where
  "outw port val l = l @ [Out16 port val]"

definition outl :: "u16 \<Rightarrow> u32 \<Rightarrow> io_log \<Rightarrow> io_log" where
  "outl port val l = l @ [Out32 port val]"

definition inb :: "bus \<Rightarrow> u16 \<Rightarrow> io_log \<Rightarrow> u8 \<times> io_log" where
  "inb b port l = (bus_in8 b l port, l @ [In8 port])"

definition inl :: "bus \<Rightarrow> u16 \<Rightarrow> io_log \<Rightarrow> u32 \<times> io_log" where
  "inl b port l = (bus_in32 b l port, l @ [In32 port])"

definition load32 :: "bus \<Rightarrow> nat \<Rightarrow> io_log \<Rightarrow> u32 \<times> io_log" where
  "load32 b a l = (bus_mem32 b l a, l @ [Load32 a])"

definition store32 :: "nat \<Rightarrow> u32 \<Rightarrow> io_log \<Rightarrow> io_log" where
  "store32 a v l = l @ [Store32 a v]"

definition rdtsc :: "bus \<Rightarrow> io_log \<Rightarrow> u64 \<times> io_log" where
  "rdtsc b l = (bus_tsc b l, l @ [Rdtsc])"

definition io_wait :: "io_log \<Rightarrow> io_log" where
  "io_wait l = outb 0x80 0x00 l"

text \<open>The bytes written to a port.\<close>

fun bytes_to :: "u16 \<Rightarrow> io_log \<Rightarrow> u8 list" where
  "bytes_to p [] = []"
| "bytes_to p (Out8 q v # l) = (if q = p then v # bytes_to p l else bytes_to p l)"
| "bytes_to p (_ # l) = bytes_to p l"

lemma bytes_to_append [simp]: "bytes_to p (l @ l') = bytes_to p l @ bytes_to p l'"
  by (induction p l rule: bytes_to.induct) auto

lemmas io_defs = outb_def outw_def outl_def inb_def inl_def load32_def store32_def rdtsc_def io_wait_def

section \<open>The interrupt controllers (pic.rs)\<close>

definition PIC1_CMD :: u16 where "PIC1_CMD = 0x20"
definition PIC1_DATA :: u16 where "PIC1_DATA = 0x21"
definition PIC2_CMD :: u16 where "PIC2_CMD = 0xA0"
definition PIC2_DATA :: u16 where "PIC2_DATA = 0xA1"
definition ICW1_INIT :: u8 where "ICW1_INIT = 0x11"
definition ICW4_8086 :: u8 where "ICW4_8086 = 0x01"
definition EOI :: u8 where "EOI = 0x20"

definition mask_all :: "io_log \<Rightarrow> io_log" where
  "mask_all l = io_wait (outb PIC2_DATA 0xFF (io_wait (outb PIC1_DATA 0xFF l)))"

definition remap :: "bus \<Rightarrow> io_log \<Rightarrow> io_log" where
  "remap b l =
     (let (mask1, l) = inb b PIC1_DATA l;
          (mask2, l) = inb b PIC2_DATA l;
          l = io_wait (outb PIC1_CMD ICW1_INIT l);
          l = io_wait (outb PIC2_CMD ICW1_INIT l);
          l = io_wait (outb PIC1_DATA 0x20 l);
          l = io_wait (outb PIC2_DATA 0x28 l);
          l = io_wait (outb PIC1_DATA 0x04 l);
          l = io_wait (outb PIC2_DATA 0x02 l);
          l = io_wait (outb PIC1_DATA ICW4_8086 l);
          l = io_wait (outb PIC2_DATA ICW4_8086 l)
      in outb PIC2_DATA mask2 (outb PIC1_DATA mask1 l))"

definition enable_keyboard_only :: "io_log \<Rightarrow> io_log" where
  "enable_keyboard_only l = outb PIC2_DATA 0xFF (outb PIC1_DATA 0xFD l)"

definition pic_end_of_interrupt :: "u8 \<Rightarrow> io_log \<Rightarrow> io_log" where
  "pic_end_of_interrupt irq l = outb PIC1_CMD EOI (if irq \<ge> 8 then outb PIC2_CMD EOI l else l)"

text \<open>
  An 8259 as its ports see it: the four initialisation words ICW1 to ICW4, of which ICW2 is the
  vector base, and, outside the initialisation, the mask.
\<close>

record pic8259 =
  pic_next :: nat
  pic_base :: u8
  pic_mask :: u8

fun pic_act :: "u16 \<Rightarrow> u16 \<Rightarrow> pic8259 \<Rightarrow> io_act \<Rightarrow> pic8259" where
  "pic_act cmd data p (Out8 port v) =
     (if port = cmd then (if bit v 4 then p\<lparr>pic_next := 2\<rparr> else p)
      else if port = data then
        (if pic_next p = 2 then p\<lparr>pic_base := v AND 0xF8, pic_next := 3\<rparr>
         else if pic_next p = 3 then p\<lparr>pic_next := 4\<rparr>
         else if pic_next p = 4 then p\<lparr>pic_next := 0\<rparr>
         else p\<lparr>pic_mask := v\<rparr>)
      else p)"
| "pic_act cmd data p _ = p"

definition pic_after :: "u16 \<Rightarrow> u16 \<Rightarrow> pic8259 \<Rightarrow> io_log \<Rightarrow> pic8259" where
  "pic_after cmd data p l = foldl (pic_act cmd data) p l"

lemmas pic_consts = PIC1_CMD_def PIC1_DATA_def PIC2_CMD_def PIC2_DATA_def ICW1_INIT_def ICW4_8086_def EOI_def

lemma mask_all_masks:
  "pic_next p1 = 0 \<Longrightarrow> pic_next p2 = 0 \<Longrightarrow>
   pic_after PIC1_CMD PIC1_DATA p1 (mask_all []) = p1\<lparr>pic_mask := 0xFF\<rparr>
   \<and> pic_after PIC2_CMD PIC2_DATA p2 (mask_all []) = p2\<lparr>pic_mask := 0xFF\<rparr>"
  by (simp add: mask_all_def io_defs pic_after_def pic_consts)

lemma remap_moves_vectors:
  assumes "bus_in8 b [] PIC1_DATA = pic_mask p1" "bus_in8 b [In8 PIC1_DATA] PIC2_DATA = pic_mask p2"
    and "pic_next p1 = 0" "pic_next p2 = 0"
  shows "pic_after PIC1_CMD PIC1_DATA p1 (remap b []) = p1\<lparr>pic_base := 0x20\<rparr>
   \<and> pic_after PIC2_CMD PIC2_DATA p2 (remap b []) = p2\<lparr>pic_base := 0x28\<rparr>"
  using assms by (cases p1; cases p2)
    (simp add: remap_def io_defs pic_after_def pic_consts bit_iff_and_drop_bit_eq_1)

section \<open>The serial port (serial.rs)\<close>

definition SERIAL1 :: u16 where "SERIAL1 = 0x3F8"

definition serial_init :: "u16 \<Rightarrow> io_log \<Rightarrow> io_log option" where
  "serial_init base l =
     do { p1 \<leftarrow> cadd base 1; p3 \<leftarrow> cadd base 3; p0 \<leftarrow> cadd base 0; p2 \<leftarrow> cadd base 2; p4 \<leftarrow> cadd base 4;
          Some (outb p4 0x0B (outb p2 0xC7 (outb p3 0x03 (outb p1 0x00 (outb p0 0x03
            (outb p3 0x80 (outb p1 0x00 l))))))) }"

text \<open>The busy loop \<open>while inb(port) & mask == 0 {}\<close>, and its negation.\<close>

partial_function (option) wait_port :: "bus \<Rightarrow> u16 \<Rightarrow> (u8 \<Rightarrow> bool) \<Rightarrow> io_log \<Rightarrow> io_log option" where
  "wait_port b port P l = (let (v, l) = inb b port l in if P v then Some l else wait_port b port P l)"

definition write_byte :: "bus \<Rightarrow> u16 \<Rightarrow> u8 \<Rightarrow> io_log \<Rightarrow> io_log option" where
  "write_byte b base byte l =
     do { status \<leftarrow> cadd base 5;
          l \<leftarrow> wait_port b status (\<lambda>v. v AND 0x20 \<noteq> 0) l;
          Some (outb base byte l) }"

definition serial_write_str :: "bus \<Rightarrow> u16 \<Rightarrow> u8 list \<Rightarrow> io_log \<Rightarrow> io_log option" where
  "serial_write_str b base s l = for_each s (write_byte b base) l"

text \<open>Polling a port is fair to \<open>P\<close> when, from every log on, enough reads of it see \<open>P\<close>.\<close>

definition port_answers :: "bus \<Rightarrow> u16 \<Rightarrow> (u8 \<Rightarrow> bool) \<Rightarrow> io_log \<Rightarrow> bool" where
  "port_answers b port P l \<longleftrightarrow> (\<exists>n. P (bus_in8 b (l @ replicate n (In8 port)) port))"

lemma wait_port_returns:
  assumes "port_answers b port P l"
  shows "\<exists>n. wait_port b port P l = Some (l @ replicate n (In8 port))"
proof -
  from assms obtain n where "P (bus_in8 b (l @ replicate n (In8 port)) port)"
    by (auto simp: port_answers_def)
  then show ?thesis
  proof (induction n arbitrary: l)
    case 0
    then show ?case by (intro exI [of _ 1]) (simp add: wait_port.simps [of b] inb_def)
  next
    case (Suc n)
    from Suc.IH [of "l @ [In8 port]"] Suc.prems obtain k where
      k: "wait_port b port P (l @ [In8 port]) = Some (l @ [In8 port] @ replicate k (In8 port))" by auto
    show ?case
    proof (cases "P (bus_in8 b l port)")
      case True
      then show ?thesis by (intro exI [of _ 1]) (simp add: wait_port.simps [of b] inb_def)
    next
      case False
      with k show ?thesis by (intro exI [of _ "Suc k"]) (simp add: wait_port.simps [of b port P l] inb_def)
    qed
  qed
qed

lemma bytes_to_reads [simp]: "bytes_to p (replicate n (In8 q)) = []"
  by (induction n) auto

lemma serial_write_returns:
  assumes "\<And>l. port_answers b (base + 5) (\<lambda>v. v AND 0x20 \<noteq> 0) l" "unat base + 5 < 2 ^ 16"
  shows "\<exists>l'. serial_write_str b base s l = Some l' \<and> bytes_to base l' = bytes_to base l @ s"
  unfolding serial_write_str_def
proof (induction s arbitrary: l)
  case (Cons c s)
  from wait_port_returns [OF assms(1)] obtain n where
    "wait_port b (base + 5) (\<lambda>v. v AND 0x20 \<noteq> 0) l = Some (l @ replicate n (In8 (base + 5)))" by blast
  with Cons.IH [of "l @ replicate n (In8 (base + 5)) @ [Out8 base c]"] assms(2)
  show ?case by (auto simp: write_byte_def cadd_def outb_def)
qed simp

end
