(* ===== verification/Clock.thy ===== *)
theory Clock
  imports PortIo
begin

text \<open>
  The clocks of the kernel: hal/src/time.rs, the time-stamp counter calibrated against the
  programmable interval timer, and the calibration of the local APIC timer in hal/src/timer.rs.
  \<open>None\<close> is a panic or a wait that does not end.
\<close>

section \<open>The model\<close>

definition PIT_COUNT :: u16 where "PIT_COUNT = 11931"

definition cycles_to_ns :: "u64 \<Rightarrow> u64 \<Rightarrow> u64 option" where
  "cycles_to_ns tsc_khz cycles =
     (if tsc_khz = 0 then None
      else Some (ucast ((ucast cycles * 1000000 :: 128 word) div ucast tsc_khz)))"

definition tsc_mhz :: "u64 \<Rightarrow> u64" where
  "tsc_mhz tsc_khz = tsc_khz div 1000"

text \<open>Channel 2 of the timer programmed for ten milliseconds with its gate low.\<close>

definition pit_program :: "u8 \<Rightarrow> io_log \<Rightarrow> io_log" where
  "pit_program p61 l =
     outb 0x42 (ucast (drop_bit 8 PIT_COUNT)) (outb 0x42 (ucast (PIT_COUNT AND 0xFF))
       (outb 0x43 0xB0 (outb 0x61 (p61 AND 0xFE) l)))"

text \<open>Its gate opened, and the two waits for its output to go low and then high.\<close>

definition pit_run :: "bus \<Rightarrow> u8 \<Rightarrow> io_log \<Rightarrow> io_log option" where
  "pit_run b p61 l =
     do { l \<leftarrow> wait_port b 0x61 (\<lambda>v. v AND 0x20 = 0) (outb 0x61 ((p61 AND 0xFD) OR 0x01) l);
          wait_port b 0x61 (\<lambda>v. v AND 0x20 \<noteq> 0) l }"

definition calibrate :: "bus \<Rightarrow> io_log \<Rightarrow> (u64 \<times> io_log) option" where
  "calibrate b l =
     (let (p61, l) = inb b 0x61 l;
          (tsc_start, l) = rdtsc b (pit_program p61 l)
      in do { l \<leftarrow> pit_run b p61 l;
              let (tsc_end, l) = rdtsc b l;
              let l = outb 0x61 p61 l;
              d \<leftarrow> csub tsc_end tsc_start;
              Some (max (d div 10) 1, l) })"

subsection \<open>The local APIC timer\<close>

definition LAPIC_LVT_TIMER :: u32 where "LAPIC_LVT_TIMER = 0x320"
definition LAPIC_TIMER_INITIAL :: u32 where "LAPIC_TIMER_INITIAL = 0x380"
definition LAPIC_TIMER_CURRENT :: u32 where "LAPIC_TIMER_CURRENT = 0x390"
definition LAPIC_TIMER_DIVIDE :: u32 where "LAPIC_TIMER_DIVIDE = 0x3E0"
definition DIVIDE_BY_16 :: u32 where "DIVIDE_BY_16 = 0x3"
definition LVT_MASKED :: u32 where "LVT_MASKED = 0x00010000"
definition LVT_PERIODIC :: u32 where "LVT_PERIODIC = 0x00020000"
definition TIMER_VECTOR :: u8 where "TIMER_VECTOR = 0x20"

text \<open>\<open>lapic_write\<close> and \<open>lapic_read\<close> of apic.rs, on the base that \<open>apic::init\<close> has stored.\<close>

definition lapic_addr_of :: "u64 \<Rightarrow> u32 \<Rightarrow> nat option" where
  "lapic_addr_of base offset = map_option unat (cadd base (ucast offset))"

definition lapic_write :: "u64 \<Rightarrow> u32 \<Rightarrow> u32 \<Rightarrow> io_log \<Rightarrow> io_log option" where
  "lapic_write base offset val l = do { a \<leftarrow> lapic_addr_of base offset; Some (store32 a val l) }"

definition lapic_read :: "bus \<Rightarrow> u64 \<Rightarrow> u32 \<Rightarrow> io_log \<Rightarrow> (u32 \<times> io_log) option" where
  "lapic_read b base offset l = do { a \<leftarrow> lapic_addr_of base offset; Some (load32 b a l) }"

definition calibrate_with_pit :: "bus \<Rightarrow> u64 \<Rightarrow> io_log \<Rightarrow> (u32 \<times> io_log) option" where
  "calibrate_with_pit b lapic l =
     (let (p61, l) = inb b 0x61 l
      in do { l \<leftarrow> lapic_write lapic LAPIC_TIMER_DIVIDE DIVIDE_BY_16 (pit_program p61 l);
              l \<leftarrow> lapic_write lapic LAPIC_LVT_TIMER (LVT_MASKED OR ucast TIMER_VECTOR) l;
              l \<leftarrow> lapic_write lapic LAPIC_TIMER_INITIAL 0xFFFFFFFF l;
              l \<leftarrow> pit_run b p61 l;
              (remaining, l) \<leftarrow> lapic_read b lapic LAPIC_TIMER_CURRENT (outb 0x61 p61 l);
              Some (max ((0xFFFFFFFF - remaining) div 10) 1, l) })"

definition timer_init :: "bus \<Rightarrow> u64 \<Rightarrow> io_log \<Rightarrow> (u64 \<times> io_log) option" where
  "timer_init b lapic l =
     do { (ticks_per_ms, l) \<leftarrow> calibrate_with_pit b lapic l;
          l \<leftarrow> lapic_write lapic LAPIC_LVT_TIMER (LVT_PERIODIC OR ucast TIMER_VECTOR) l;
          l \<leftarrow> lapic_write lapic LAPIC_TIMER_INITIAL ticks_per_ms l;
          Some (ucast ticks_per_ms, l) }"

text \<open>\<open>sleep\<close> reads the tick counter, here \<open>ticks i\<close> at the \<open>i\<close>-th read, until the target.\<close>

partial_function (option) sleep_loop :: "(nat \<Rightarrow> u64) \<Rightarrow> u64 \<Rightarrow> nat \<Rightarrow> nat option" where
  "sleep_loop ticks target i = (if ticks i < target then sleep_loop ticks target (Suc i) else Some (Suc i))"

definition sleep_ms :: "(nat \<Rightarrow> u64) \<Rightarrow> u64 \<Rightarrow> nat \<Rightarrow> nat option" where
  "sleep_ms ticks ms i = sleep_loop ticks (sat_add (ticks i) ms) (Suc i)"

section \<open>Conversions\<close>

lemma cycles_to_ns_value:
  assumes "khz \<noteq> 0"
  shows "\<exists>ns. cycles_to_ns khz cycles = Some ns \<and> unat ns = (unat cycles * 1000000 div unat khz) mod 2 ^ 64"
proof -
  have "unat cycles < 2 ^ 64" by (rule unat_usize)
  then have product: "unat (ucast cycles * 1000000 :: 128 word) = unat cycles * 1000000"
    by (simp add: unat_word_ariths unsigned_ucast_eq take_bit_eq_mod)
  have "unat (ucast ((ucast cycles * 1000000 :: 128 word) div ucast khz) :: u64)
      = (unat cycles * 1000000 div unat khz) mod 2 ^ 64"
    using unat_usize [of khz] by (simp add: unat_div product take_bit_eq_mod unsigned_ucast_eq)
  with assms show ?thesis by (simp add: cycles_to_ns_def)
qed

lemma cycles_to_ns_interval:
  assumes k: "k = d div 10" "10 \<le> unat d"
  shows "\<exists>ns. cycles_to_ns k d = Some ns \<and> 10 ^ 7 \<le> unat ns \<and> (unat ns - 10 ^ 7) * unat k \<le> 9 * 10 ^ 6"
proof -
  have uk: "unat k = unat d div 10" by (simp add: k(1) unat_div)
  with k(2) have pos: "0 < unat k" by (simp add: div_greater_zero_iff)
  then have "k \<noteq> 0" by auto
  from cycles_to_ns_value [OF this, of d] obtain ns where
    ns: "cycles_to_ns k d = Some ns" "unat ns = (unat d * 1000000 div unat k) mod 2 ^ 64" by blast
  define r where "r = unat d mod 10"
  have d: "unat d = 10 * unat k + r" by (simp add: uk r_def)
  have r: "r \<le> 9" by (simp add: r_def)
  have "unat d * 1000000 = r * 1000000 + unat k * 10 ^ 7" by (simp add: d algebra_simps)
  then have q: "unat d * 1000000 div unat k = 10 ^ 7 + r * 1000000 div unat k"
    using pos by (simp add: add.commute)
  moreover have small: "r * 1000000 div unat k \<le> 9 * 10 ^ 6"
    using r by (intro order_trans [OF div_le_dividend]) simp
  ultimately have "unat ns = 10 ^ 7 + r * 1000000 div unat k" using ns(2) by simp
  moreover have "r * 1000000 div unat k * unat k \<le> 9 * 10 ^ 6"
    using r by (intro order_trans [OF div_times_less_eq_dividend]) simp
  ultimately show ?thesis using ns(1) by auto
qed

section \<open>Calibration\<close>

text \<open>
  The output of channel 2 always goes low and then high again, and the counter does not go
  backwards.
\<close>

definition pit_ok :: "bus \<Rightarrow> bool" where
  "pit_ok b \<longleftrightarrow> (\<forall>l. port_answers b 0x61 (\<lambda>v. v AND 0x20 = 0) l \<and> port_answers b 0x61 (\<lambda>v. v AND 0x20 \<noteq> 0) l)
     \<and> (\<forall>l l'. bus_tsc b l \<le> bus_tsc b (l @ l'))"

lemma pit_run_returns: "pit_ok b \<Longrightarrow> \<exists>l'. pit_run b p61 l = Some (l @ l')"
proof -
  assume ok: "pit_ok b"
  let ?l = "l @ [Out8 0x61 ((p61 AND 0xFD) OR 0x01)]"
  from ok wait_port_returns [of b "0x61" "\<lambda>v. v AND 0x20 = 0" ?l] obtain n where
    n: "wait_port b 0x61 (\<lambda>v. v AND 0x20 = 0) ?l = Some (?l @ replicate n (In8 0x61))"
    by (auto simp: pit_ok_def)
  from ok wait_port_returns [of b "0x61" "\<lambda>v. v AND 0x20 \<noteq> 0" "?l @ replicate n (In8 0x61)"] obtain k where
    "wait_port b 0x61 (\<lambda>v. v AND 0x20 \<noteq> 0) (?l @ replicate n (In8 0x61))
      = Some ((?l @ replicate n (In8 0x61)) @ replicate k (In8 0x61))"
    by (auto simp: pit_ok_def)
  with n show ?thesis by (simp add: pit_run_def outb_def)
qed

lemma calibrate_value:
  assumes "pit_ok b"
  shows "\<exists>k l0 l1 p61. calibrate b l = Some (k, l @ l0 @ [Rdtsc] @ l1 @ [Rdtsc, Out8 0x61 p61])
    \<and> 1 \<le> k \<and> p61 = bus_in8 b l 0x61
    \<and> (let d = bus_tsc b (l @ l0 @ [Rdtsc] @ l1) - bus_tsc b (l @ l0)
       in 10 \<le> unat d \<longrightarrow> (\<exists>ns. cycles_to_ns k d = Some ns \<and> 10 ^ 7 \<le> unat ns
            \<and> (unat ns - 10 ^ 7) * unat k \<le> 9 * 10 ^ 6))"
proof -
  define p61 where "p61 = bus_in8 b l 0x61"
  define l0 where "l0 = [In8 0x61, Out8 0x61 (p61 AND 0xFE), Out8 0x43 0xB0,
      Out8 0x42 (ucast (PIT_COUNT AND 0xFF)), Out8 0x42 (ucast (drop_bit 8 PIT_COUNT))]"
  have program: "pit_program p61 (l @ [In8 0x61]) = l @ l0" by (simp add: pit_program_def outb_def l0_def)
  from pit_run_returns [OF assms, of p61 "(l @ l0) @ [Rdtsc]"] obtain l1 where
    run: "pit_run b p61 (l @ l0 @ [Rdtsc]) = Some (l @ l0 @ [Rdtsc] @ l1)" by auto
  define d where "d = bus_tsc b (l @ l0 @ [Rdtsc] @ l1) - bus_tsc b (l @ l0)"
  have "bus_tsc b (l @ l0) \<le> bus_tsc b ((l @ l0) @ [Rdtsc] @ l1)" using assms unfolding pit_ok_def by blast
  then have "calibrate b l = Some (max (d div 10) 1, l @ l0 @ [Rdtsc] @ l1 @ [Rdtsc, Out8 0x61 p61])"
    using run by (simp add: calibrate_def inb_def rdtsc_def p61_def [symmetric] program csub_def outb_def d_def)
  moreover have "max (d div 10) 1 = d div 10" if "10 \<le> unat d"
  proof -
    have "0 < unat (d div 10)" using that by (simp add: unat_div div_greater_zero_iff)
    then have "1 \<le> d div 10" by (simp add: word_le_nat_alt)
    then show ?thesis by (simp add: max_def)
  qed
  ultimately show ?thesis
    using cycles_to_ns_interval [of "max (d div 10) 1" d] p61_def
    by (intro exI [of _ "max (d div 10) 1"] exI [of _ l0] exI [of _ l1] exI [of _ p61]) (simp add: Let_def d_def)
qed

lemma calibrate_returns: "pit_ok b \<Longrightarrow> returns (calibrate b l) (\<lambda>(k, l'). k \<noteq> 0)"
  using calibrate_value [of b l] by auto


text \<open>A timer whose output follows the reads of port 0x61, and a counter of 4000 cycles an action.\<close>

definition demo_pit :: bus where
  "demo_pit = \<lparr>bus_in8 = (\<lambda>l _. if even (length l) then 0x20 else 0), bus_in32 = (\<lambda>_ _. 0),
     bus_mem32 = (\<lambda>_ _. 0xFFFF0000), bus_tsc = (\<lambda>l. of_nat (min (length l) 1000000) * 4000)\<rparr>"

lemma demo_pit_ok: "pit_ok demo_pit"
  unfolding pit_ok_def
proof (intro conjI allI)
  show "port_answers demo_pit 0x61 (\<lambda>v. v AND 0x20 = 0) l" for l
    unfolding port_answers_def
    by (rule exI [of _ "if even (length l) then 1 else 0"]) (simp add: demo_pit_def)
  show "port_answers demo_pit 0x61 (\<lambda>v. v AND 0x20 \<noteq> 0) l" for l
    unfolding port_answers_def
    by (rule exI [of _ "if even (length l) then 0 else 1"]) (simp add: demo_pit_def)
  have tsc: "unat (of_nat (min n 1000000) * 4000 :: u64) = min n 1000000 * 4000" for n
    by (simp add: unat_word_ariths unat_of_nat take_bit_eq_mod min_def)
  show "bus_tsc demo_pit l \<le> bus_tsc demo_pit (l @ l')" for l l'
    by (simp add: demo_pit_def word_le_nat_alt tsc)
qed


section \<open>The periodic timer\<close>

text \<open>The word last stored at an address.\<close>

definition last_store :: "nat \<Rightarrow> io_log \<Rightarrow> u32 option" where
  "last_store a l = foldl (\<lambda>r x. case x of Store32 b v \<Rightarrow> if b = a then Some v else r | _ \<Rightarrow> r) None l"

lemma last_store_append [simp]: "last_store a (l @ [Store32 b v]) = (if b = a then Some v else last_store a l)"
  by (simp add: last_store_def)

lemma lapic_write_returns:
  "unat base + 0x1000 \<le> 2 ^ 64 \<Longrightarrow> unat offset < 0x1000 \<Longrightarrow>
    lapic_write base offset v l = Some (l @ [Store32 (unat base + unat offset) v])"
  by (simp add: lapic_write_def lapic_addr_of_def cadd_def store32_def unsigned_ucast_eq take_bit_eq_mod unat_word_ariths)

lemma timer_init_arms:
  assumes "pit_ok b" "unat base + 0x1000 \<le> 2 ^ 64"
  shows "\<exists>t l'. timer_init b base l = Some (ucast t, l') \<and> 1 \<le> t \<and> unat t \<le> 429496729
    \<and> last_store (unat base + 0x320) l' = Some 0x20020 \<and> last_store (unat base + 0x380) l' = Some t"
proof -
  note regs = lapic_write_returns [OF assms(2)]
  define p61 where "p61 = bus_in8 b l 0x61"
  let ?l = "pit_program p61 (l @ [In8 0x61]) @ [Store32 (unat base + 0x3E0) 3,
      Store32 (unat base + 0x320) 0x10020, Store32 (unat base + 0x380) 0xFFFFFFFF]"
  from pit_run_returns [OF assms(1), of p61 ?l] obtain l1 where
    run: "pit_run b p61 ?l = Some (?l @ l1)" by blast
  define l2 where "l2 = ?l @ l1 @ [Out8 0x61 p61]"
  define t where "t = max ((0xFFFFFFFF - bus_mem32 b l2 (unat base + 0x390)) div 10) 1"
  have "lapic_addr_of base 0x390 = Some (unat base + 0x390)"
    using assms(2) by (simp add: lapic_addr_of_def cadd_def unat_word_ariths)
  then have "calibrate_with_pit b base l = Some (t, l2 @ [Load32 (unat base + 0x390)])"
    using run by (simp add: calibrate_with_pit_def regs inb_def p61_def [symmetric] LAPIC_TIMER_DIVIDE_def
      LAPIC_LVT_TIMER_def LAPIC_TIMER_INITIAL_def LAPIC_TIMER_CURRENT_def DIVIDE_BY_16_def LVT_MASKED_def
      TIMER_VECTOR_def lapic_read_def load32_def outb_def l2_def t_def)
  then have "timer_init b base l = Some (ucast t, (l2 @ [Load32 (unat base + 0x390), Store32 (unat base + 0x320) 0x20020])
      @ [Store32 (unat base + 0x380) t])"
    by (simp add: timer_init_def regs LAPIC_LVT_TIMER_def LAPIC_TIMER_INITIAL_def LVT_PERIODIC_def TIMER_VECTOR_def)
  moreover have "1 \<le> t" by (simp add: t_def)
  moreover have "unat ((0xFFFFFFFF - x :: u32) div 10) \<le> 429496729" for x
    using unat_lt_2p [of "0xFFFFFFFF - x :: u32"] by (simp add: unat_div)
  then have "unat t \<le> 429496729" by (simp add: t_def max_def)
  ultimately show ?thesis by (intro exI [of _ t]) (simp add: last_store_def)
qed

text \<open>\<open>sleep\<close> returns when the counter has reached the target, and only then.\<close>

lemma sleep_loop_returns:
  "\<not> ticks (i + n) < target \<Longrightarrow> \<exists>k \<ge> i. sleep_loop ticks target i = Some (Suc k) \<and> target \<le> ticks k"
proof (induction n arbitrary: i)
  case 0
  then show ?case by (intro exI [of _ i]) (simp add: sleep_loop.simps [of ticks target i])
next
  case (Suc n)
  show ?case
  proof (cases "ticks i < target")
    case True
    with Suc.IH [of "Suc i"] Suc.prems obtain k where
      "Suc i \<le> k" "sleep_loop ticks target (Suc i) = Some (Suc k)" "target \<le> ticks k" by auto
    with True show ?thesis by (intro exI [of _ k]) (simp add: sleep_loop.simps [of ticks target i])
  next
    case False
    then show ?thesis by (intro exI [of _ i]) (simp add: sleep_loop.simps [of ticks target i])
  qed
qed

end
