(* ===== verification/Acpi.thy ===== *)
theory Acpi
  imports Memory
begin

text \<open>
  The ACPI table walk of hal/src/acpi.rs: from the RSDP through the RSDT or XSDT to the MADT, and
  over its interrupt controller structures.  The tables are bytes of memory; \<open>None\<close> is an
  overflow panic, an inner \<open>None\<close> the source's \<open>None\<close>.  The serial messages are left out.
\<close>

section \<open>The model\<close>

record irq_override =
  isa_irq :: u8
  ov_gsi :: u32
  active_low :: bool
  level_triggered :: bool

record apic_info =
  lapic_addr :: u64
  ioapic_addr :: u64
  ioapic_gsi_base :: u32
  overrides :: "irq_override option list"

text \<open>The sizes of the packed structures \<open>SdtHeader\<close> and \<open>Madt\<close>; fields are read at their offsets.\<close>

definition SDT_HEADER_SIZE :: usize where "SDT_HEADER_SIZE = 36"
definition MADT_SIZE :: usize where "MADT_SIZE = 44"

definition sdt_length :: "mem \<Rightarrow> usize \<Rightarrow> usize" where
  "sdt_length m hdr = ucast (rd32 m (hdr + 4))"

definition phys_to_virt :: "u64 \<Rightarrow> usize \<Rightarrow> usize option" where
  "phys_to_virt phys phys_off = cadd phys phys_off"

definition APIC_SIG :: "u8 list" where "APIC_SIG = [0x41, 0x50, 0x49, 0x43]"
definition RSDP_SIG :: "u8 list" where "RSDP_SIG = [0x52, 0x53, 0x44, 0x20, 0x50, 0x54, 0x52, 0x20]"

definition table_entry :: "mem \<Rightarrow> usize \<Rightarrow> usize \<Rightarrow> usize \<Rightarrow> nat \<Rightarrow> (usize option \<times> unit) option" where
  "table_entry m entries_base entry_size phys_off i =
     do { off \<leftarrow> cmul (of_nat i) entry_size;
          entry_ptr \<leftarrow> cadd entries_base off;
          let child_phys = (if entry_size = 4 then ucast (rd32 m entry_ptr) else rd64 m entry_ptr);
          child_virt \<leftarrow> phys_to_virt child_phys phys_off;
          Some (if rd_bytes m child_virt 4 = APIC_SIG then Some child_virt else None, ()) }"

definition find_madt :: "mem \<Rightarrow> u64 \<Rightarrow> usize \<Rightarrow> usize \<Rightarrow> usize option option" where
  "find_madt m root_phys entry_size phys_off =
     do { root_virt \<leftarrow> phys_to_virt root_phys phys_off;
          let table_len = sdt_length m root_virt;
          if table_len < SDT_HEADER_SIZE then Some None
          else do {
            entries_base \<leftarrow> cadd root_virt SDT_HEADER_SIZE;
            let n_entries = (table_len - SDT_HEADER_SIZE) div entry_size;
            (r, _) \<leftarrow> for_return [0..<unat n_entries] (\<lambda>i _. table_entry m entries_base entry_size phys_off i) ();
            Some r } }"

text \<open>The variables of the walk over the MADT.\<close>

record madt_state =
  ms_ioapic :: "u64 option"
  ms_gsi_base :: u32
  ms_overrides :: "irq_override option list"

definition madt_start :: madt_state where
  "madt_start = \<lparr>ms_ioapic = None, ms_gsi_base = 0, ms_overrides = replicate 16 None\<rparr>"

definition add_override :: "u8 \<Rightarrow> u8 \<Rightarrow> u32 \<Rightarrow> u16 \<Rightarrow> madt_state \<Rightarrow> madt_state option" where
  "add_override bus source gsi flags st =
     (if bus = 0 \<and> unat source < 16 then
        (let polarity = flags AND 3; trigger = drop_bit 2 flags AND 3
         in do { ovs \<leftarrow> set_at (ms_overrides st) (unat source)
                   (Some \<lparr>isa_irq = source, ov_gsi = gsi, active_low = (polarity = 3), level_triggered = (trigger = 3)\<rparr>);
                 Some (st\<lparr>ms_overrides := ovs\<rparr>) })
      else Some st)"

definition madt_entry :: "mem \<Rightarrow> usize \<Rightarrow> madt_state \<Rightarrow> madt_state option" where
  "madt_entry m ic st =
     (let entry_type = m ic; entry_len = unat (m (ic + 1))
      in if entry_type = 1 \<and> entry_len \<ge> 12 \<and> ms_ioapic st = None then
           do { a4 \<leftarrow> cadd ic 4; a8 \<leftarrow> cadd ic 8;
                Some (st\<lparr>ms_ioapic := Some (ucast (rd32 m a4)), ms_gsi_base := rd32 m a8\<rparr>) }
         else if entry_type = 2 \<and> entry_len \<ge> 10 then
           do { a2 \<leftarrow> cadd ic 2; a3 \<leftarrow> cadd ic 3; a4 \<leftarrow> cadd ic 4; a8 \<leftarrow> cadd ic 8;
                add_override (m a2) (m a3) (rd32 m a4) (rd16 m a8) st }
         else Some st)"

function madt_walk :: "mem \<Rightarrow> usize \<Rightarrow> usize \<Rightarrow> madt_state \<Rightarrow> madt_state option" where
  "madt_walk m madt_end ic st =
     do { a2 \<leftarrow> cadd ic 2;
          if a2 \<le> madt_end then
            do { a1 \<leftarrow> cadd ic 1;
                 let entry_len = m a1;
                 if entry_len < 2 then Some st
                 else do {
                   st \<leftarrow> madt_entry m ic st;
                   next \<leftarrow> cadd ic (ucast entry_len);
                   madt_walk m madt_end next st } }
          else Some st }"
  by pat_completeness auto
termination
proof (relation "measure (\<lambda>(m, madt_end, ic, st). unat madt_end - unat ic)")
  fix m :: mem and madt_end ic a2 a1 ic' :: usize and len :: u8 and st st' :: madt_state
  assume a: "cadd ic 2 = Some a2" "a2 \<le> madt_end" "\<not> len < 2" "cadd ic (ucast len) = Some ic'"
  have "2 \<le> unat len" using a(3) by (simp add: word_less_nat_alt)
  then have "unat ic + 2 \<le> unat ic'"
    using unat_cadd [OF a(4)] by (simp add: unat_ucast_up)
  moreover have "unat ic + 2 \<le> unat madt_end" using unat_cadd [OF a(1)] a(2) by (simp add: word_le_nat_alt)
  ultimately show "((m, madt_end, ic', st'), m, madt_end, ic, st) \<in> measure (\<lambda>(m, madt_end, ic, st). unat madt_end - unat ic)"
    by simp
qed simp

declare madt_walk.simps [simp del]

definition madt_parse :: "mem \<Rightarrow> usize \<Rightarrow> apic_info option option" where
  "madt_parse m madt =
     do { madt_end \<leftarrow> cadd madt (sdt_length m madt);
          ic \<leftarrow> cadd madt MADT_SIZE;
          st \<leftarrow> madt_walk m madt_end ic madt_start;
          Some (map_option (\<lambda>a. \<lparr>lapic_addr = ucast (rd32 m (madt + 36)), ioapic_addr = a,
                  ioapic_gsi_base = ms_gsi_base st, overrides = ms_overrides st\<rparr>) (ms_ioapic st)) }"

definition acpi_parse :: "mem \<Rightarrow> u64 \<Rightarrow> usize \<Rightarrow> apic_info option option" where
  "acpi_parse m rsdp_phys phys_off =
     do { rsdp \<leftarrow> phys_to_virt rsdp_phys phys_off;
          if rd_bytes m rsdp 8 \<noteq> RSDP_SIG then Some None
          else do {
            madt \<leftarrow> (if m (rsdp + 15) \<ge> 2 then find_madt m (rd64 m (rsdp + 24)) 8 phys_off
                       else find_madt m (ucast (rd32 m (rsdp + 16))) 4 phys_off);
            (case madt of None \<Rightarrow> Some None | Some p \<Rightarrow> madt_parse m p) } }"

text \<open>\<open>acpi::init\<close> sets the information once; \<open>get\<close> reads it.\<close>

definition acpi_init :: "mem \<Rightarrow> u64 \<Rightarrow> usize \<Rightarrow> apic_info option \<Rightarrow> apic_info option option" where
  "acpi_init m rsdp_phys phys_off stored =
     do { info \<leftarrow> acpi_parse m rsdp_phys phys_off;
          Some (case info of Some i \<Rightarrow> (case stored of None \<Rightarrow> Some i | Some j \<Rightarrow> Some j) | None \<Rightarrow> stored) }"

section \<open>What the tables say\<close>

text \<open>
  An entry of the MADT is a byte list that starts with its type and its length.  The first
  I/O APIC entry gives the I/O APIC; for each of the sixteen ISA interrupts, the last override
  of bus 0 counts.
\<close>

definition entry_ok :: "u8 list \<Rightarrow> bool" where
  "entry_ok e \<longleftrightarrow> 2 \<le> length e \<and> length e < 256 \<and> unat (e ! 1) = length e"

definition field32 :: "u8 list \<Rightarrow> nat \<Rightarrow> u32" where
  "field32 e i = le_word (take 4 (drop i e))"

definition field16 :: "u8 list \<Rightarrow> nat \<Rightarrow> u16" where
  "field16 e i = le_word (take 2 (drop i e))"

definition ioapic_entry :: "u8 list \<Rightarrow> bool" where
  "ioapic_entry e \<longleftrightarrow> e ! 0 = 1 \<and> 12 \<le> length e"

definition override_for :: "nat \<Rightarrow> u8 list \<Rightarrow> bool" where
  "override_for irq e \<longleftrightarrow> e ! 0 = 2 \<and> 10 \<le> length e \<and> e ! 2 = 0 \<and> unat (e ! 3) = irq"

definition override_of :: "u8 list \<Rightarrow> irq_override" where
  "override_of e = \<lparr>isa_irq = e ! 3, ov_gsi = field32 e 4,
     active_low = (field16 e 8 AND 3 = 3), level_triggered = (drop_bit 2 (field16 e 8) AND 3 = 3)\<rparr>"

definition described :: "u32 \<Rightarrow> u8 list list \<Rightarrow> apic_info option" where
  "described lapic es = map_option (\<lambda>e.
     \<lparr>lapic_addr = ucast lapic, ioapic_addr = ucast (field32 e 4), ioapic_gsi_base = field32 e 8,
      overrides = map (\<lambda>irq. map_option override_of (List.find (override_for irq) (rev es))) [0..<16]\<rparr>)
     (List.find ioapic_entry es)"

section \<open>The walk over the entries\<close>

lemma rd_bytes_append: "rd_bytes m a (n + k) = rd_bytes m a n @ rd_bytes m (a + of_nat n) k"
  by (rule nth_equalityI) (auto simp: rd_bytes_def nth_append)

lemma take_drop_rd_bytes: "j + k \<le> n \<Longrightarrow> take k (drop j (rd_bytes m a n)) = rd_bytes m (a + of_nat j) k"
  by (rule nth_equalityI) (auto simp: rd_bytes_def add.assoc)

lemma nth_rd_bytes: "i < n \<Longrightarrow> rd_bytes m a n ! i = m (a + of_nat i)"
  by (simp add: rd_bytes_def)

definition entry_effect :: "u8 list \<Rightarrow> madt_state \<Rightarrow> madt_state" where
  "entry_effect e st =
     (if ioapic_entry e \<and> ms_ioapic st = None
      then st\<lparr>ms_ioapic := Some (ucast (field32 e 4)), ms_gsi_base := field32 e 8\<rparr>
      else if override_for (unat (e ! 3)) e \<and> unat (e ! 3) < 16
      then st\<lparr>ms_overrides := (ms_overrides st)[unat (e ! 3) := Some (override_of e)]\<rparr>
      else st)"

lemma madt_entry_effect:
  assumes e: "rd_bytes m ic (length e) = e" "entry_ok e" "unat ic + length e < 2 ^ 64"
    and st: "length (ms_overrides st) = 16"
  shows "madt_entry m ic st = Some (entry_effect e st)"
proof -
  have byte: "m (ic + of_nat i) = e ! i" if "i < length e" for i
    using nth_rd_bytes [OF that, of m ic] e(1) by simp
  have f32: "rd32 m (ic + of_nat i) = field32 e i" if "i + 4 \<le> length e" for i
    using take_drop_rd_bytes [OF that, of m ic] e(1) by (simp add: rd32_def field32_def)
  have f16: "rd16 m (ic + of_nat i) = field16 e i" if "i + 2 \<le> length e" for i
    using take_drop_rd_bytes [OF that, of m ic] e(1) by (simp add: rd16_def field16_def)
  have add: "cadd ic (of_nat i) = Some (ic + of_nat i)" if "i \<le> length e" for i
    using that e(3) by (simp add: cadd_def unat_of_nat take_bit_eq_mod)
  have two: "0 < length e" "1 < length e" using e(2) by (auto simp: entry_ok_def)
  have head: "m ic = e ! 0" "unat (m (ic + 1)) = length e"
    using byte [OF two(1)] byte [OF two(2)] e(2) by (simp_all add: entry_ok_def)
  show ?thesis
    using add [of 2] add [of 3] add [of 4] add [of 8] byte [of 2] byte [of 3] f32 [of 4] f32 [of 8] f16 [of 8] st
    by (simp add: madt_entry_def head entry_effect_def ioapic_entry_def override_for_def add_override_def
      override_of_def Let_def)
qed

lemma madt_walk_entries:
  assumes "\<forall>e \<in> set es. entry_ok e" "unat ic + length (concat es) + 2 < 2 ^ 64"
    and "rd_bytes m ic (length (concat es)) = concat es" "length (ms_overrides st) = 16"
  shows "madt_walk m (ic + of_nat (length (concat es))) ic st = Some (fold entry_effect es st)"
  using assms
proof (induction es arbitrary: ic st)
  case Nil
  then have "unat ic + 2 < 2 ^ 64" by simp
  then have "cadd ic 2 = Some (ic + 2)" "\<not> ic + 2 \<le> ic"
    by (simp_all add: cadd_def word_le_nat_alt unat_word_ariths)
  then show ?case by (subst madt_walk.simps) simp
next
  case (Cons e es)
  let ?n = "length (concat es)"
  have e: "entry_ok e" "rd_bytes m ic (length e) = e" "rd_bytes m (ic + of_nat (length e)) ?n = concat es"
    using Cons.prems(1,3) rd_bytes_append [of m ic "length e" ?n] by (auto simp: append_eq_append_conv)
  have bound: "unat ic + length e + ?n + 2 < 2 ^ 64" using Cons.prems(2) by (simp add: ac_simps)
  have small: "2 \<le> length e" "length e < 256" using e(1) by (simp_all add: entry_ok_def)
  have step: "unat (ic + of_nat k) = unat ic + k" if "k \<le> length e + ?n" for k
    using bound that by (simp add: unat_word_ariths unat_of_nat take_bit_eq_mod)
  have "cadd ic 2 = Some (ic + 2)" "cadd ic 1 = Some (ic + 1)"
    using bound by (simp_all add: cadd_def)
  moreover have "ic + 2 \<le> ic + of_nat (length (concat (e # es)))"
    using step [of 2] step [of "length e + ?n"] small by (simp add: word_le_nat_alt)
  moreover have "m (ic + 1) = e ! 1" using nth_rd_bytes [of 1 "length e" m ic] e(2) small by simp
  moreover from this have len: "unat (m (ic + 1)) = length e" using e(1) by (simp add: entry_ok_def)
  then have "\<not> m (ic + 1) < 2" using small by (simp add: word_less_nat_alt)
  moreover have "(ucast (m (ic + 1)) :: usize) = of_nat (length e)"
    using len small by (simp add: word_unat_eq_iff unat_ucast_up unat_of_nat take_bit_eq_mod)
  moreover have "cadd ic (of_nat (length e)) = Some (ic + of_nat (length e))"
    using bound small by (simp add: cadd_def unat_of_nat take_bit_eq_mod)
  moreover have "madt_entry m ic st = Some (entry_effect e st)"
    using madt_entry_effect [OF e(2,1) _ Cons.prems(4)] bound by simp
  moreover have "length (ms_overrides (entry_effect e st)) = 16"
    using Cons.prems(4) by (simp add: entry_effect_def)
  moreover from Cons.IH [OF _ _ e(3) this] Cons.prems(1) bound step [of "length e"]
  have "madt_walk m (ic + of_nat (length e) + of_nat ?n) (ic + of_nat (length e)) (entry_effect e st)
      = Some (fold entry_effect es (entry_effect e st))" by simp
  ultimately show ?case by (subst madt_walk.simps) (simp add: add.assoc)
qed

lemma fold_ioapic:
  "(ms_ioapic (fold entry_effect es st), ms_gsi_base (fold entry_effect es st)) =
    (case ms_ioapic st of Some a \<Rightarrow> (Some a, ms_gsi_base st)
     | None \<Rightarrow> (case List.find ioapic_entry es of
         Some e \<Rightarrow> (Some (ucast (field32 e 4)), field32 e 8) | None \<Rightarrow> (None, ms_gsi_base st)))"
  by (induction es arbitrary: st) (auto simp: entry_effect_def split: option.splits)

lemma fold_overrides:
  assumes "irq < 16" "length (ms_overrides st) = 16"
  shows "length (ms_overrides (fold entry_effect es st)) = 16 \<and>
    ms_overrides (fold entry_effect es st) ! irq =
      (case List.find (override_for irq) (rev es) of Some e \<Rightarrow> Some (override_of e) | None \<Rightarrow> ms_overrides st ! irq)"
proof (induction es rule: rev_induct)
  case (snoc e es)
  then show ?case using assms(1)
    by (auto simp: entry_effect_def ioapic_entry_def override_for_def nth_list_update split: option.splits)
qed (simp add: assms(2))

section \<open>The whole parse\<close>

text \<open>A MADT at a virtual address: its length, the local APIC's address, and its entries.\<close>

definition madt_image :: "mem \<Rightarrow> usize \<Rightarrow> u32 \<Rightarrow> u8 list list \<Rightarrow> bool" where
  "madt_image m v lapic es \<longleftrightarrow> (\<forall>e \<in> set es. entry_ok e) \<and> 44 + length (concat es) < 2 ^ 32
     \<and> unat v + 46 + length (concat es) < 2 ^ 64
     \<and> rd32 m (v + 4) = of_nat (44 + length (concat es)) \<and> rd32 m (v + 36) = lapic
     \<and> rd_bytes m (v + 44) (length (concat es)) = concat es"

lemma madt_parse_image:
  assumes "madt_image m v lapic es"
  shows "madt_parse m v = Some (described lapic es)"
proof -
  let ?n = "length (concat es)"
  note h = assms [unfolded madt_image_def]
  have "unat (sdt_length m v) = 44 + ?n"
    using h by (simp add: sdt_length_def unat_ucast_up unat_of_nat_small del: of_nat_add)
  then have len: "sdt_length m v = 44 + of_nat ?n"
    using h by (simp add: word_unat_eq_iff unat_word_ariths unat_of_nat take_bit_eq_mod)
  have "cadd v (sdt_length m v) = Some (v + 44 + of_nat ?n)" "cadd v MADT_SIZE = Some (v + 44)"
    using h \<open>unat (sdt_length m v) = 44 + ?n\<close> by (simp_all add: cadd_def len MADT_SIZE_def add.assoc)
  moreover have "unat (v + 44) = unat v + 44" using h by (simp add: unat_word_ariths)
  then have "madt_walk m (v + 44 + of_nat ?n) (v + 44) madt_start = Some (fold entry_effect es madt_start)"
    using h by (intro madt_walk_entries) (simp_all add: madt_start_def)
  moreover have "ms_overrides (fold entry_effect es madt_start)
      = map (\<lambda>irq. map_option override_of (List.find (override_for irq) (rev es))) [0..<16]"
  proof (rule nth_equalityI)
    have len: "length (ms_overrides madt_start) = 16" by (simp add: madt_start_def)
    from fold_overrides [OF _ this, of 0 es]
    show eq: "length (ms_overrides (fold entry_effect es madt_start)) = length (map (\<lambda>irq. map_option override_of (List.find (override_for irq) (rev es))) [0..<16])"
      by simp
    fix i
    assume "i < length (ms_overrides (fold entry_effect es madt_start))"
    with eq have "i < 16" by simp
    with fold_overrides [OF this len, of es]
    show "ms_overrides (fold entry_effect es madt_start) ! i
        = map (\<lambda>irq. map_option override_of (List.find (override_for irq) (rev es))) [0..<16] ! i"
      by (simp add: madt_start_def split: option.splits del: upt_rec_numeral)
  qed
  ultimately show ?thesis
    using h fold_ioapic [of es madt_start]
    by (auto simp: madt_parse_def described_def madt_start_def split: option.splits)
qed

text \<open>
  The root table, with entries \<open>w\<close> bytes wide (4 in the RSDT, 8 in the XSDT), lists the
  physical addresses of the tables.
\<close>

definition root_image :: "mem \<Rightarrow> usize \<Rightarrow> nat \<Rightarrow> u64 list \<Rightarrow> bool" where
  "root_image m v w tabs \<longleftrightarrow> 36 + w * length tabs < 2 ^ 32 \<and> unat v + 36 + w * length tabs < 2 ^ 64
     \<and> rd32 m (v + 4) = of_nat (36 + w * length tabs)
     \<and> (\<forall>i < length tabs. (if w = 4 then ucast (rd32 m (v + 36 + of_nat (i * w))) else rd64 m (v + 36 + of_nat (i * w)))
          = tabs ! i)"

lemma find_madt_image:
  assumes root: "root_image m (root + po) w tabs" and w: "w = 4 \<or> w = 8"
    and map: "unat root + unat po < 2 ^ 64" "\<forall>t \<in> set tabs. unat t + unat po < 2 ^ 64"
  shows "find_madt m root (of_nat w) po =
    Some (map_option (\<lambda>t. t + po) (List.find (\<lambda>t. rd_bytes m (t + po) 4 = APIC_SIG) tabs))"
proof -
  define v where "v = root + po"
  define n where "n = length tabs"
  define f where "f = (\<lambda>i. let t = tabs ! i in if rd_bytes m (t + po) 4 = APIC_SIG then Some (t + po) else None)"
  note r = root [folded v_def, unfolded root_image_def, folded n_def]
  have ulen: "unat (sdt_length m v) = 36 + w * n"
    using r by (simp add: sdt_length_def unat_ucast_up unat_of_nat_small del: of_nat_add)
  have uw: "unat (of_nat w :: usize) = w" using w by auto
  have count: "unat ((sdt_length m v - SDT_HEADER_SIZE) div of_nat w) = n"
    using w ulen uw by (auto simp: unat_div unat_sub SDT_HEADER_SIZE_def word_le_nat_alt)
  have entry: "table_entry m (v + 36) (of_nat w) po i = Some (f i, ())" if "i < n" for i
  proof -
    have iw: "i * w \<le> w * n" using that by (simp add: mult.commute)
    then have small: "i * w < 2 ^ 32" "unat v + 36 + i * w < 2 ^ 64" using r by linarith+
    have i: "unat (of_nat i :: usize) = i"
      using small(1) w by (auto simp: unat_of_nat take_bit_eq_mod)
    have "cmul (of_nat i :: usize) (of_nat w) = Some (of_nat (i * w))"
      using small i uw by (simp add: cmul_def)
    moreover have "cadd (v + 36) (of_nat (i * w)) = Some (v + 36 + of_nat (i * w))"
      using small by (simp add: cadd_def unat_word_ariths unat_of_nat take_bit_eq_mod del: of_nat_mult)
    moreover have "unat (tabs ! i) + unat po < 2 ^ 64" using map(2) that by (simp add: n_def)
    moreover have "(of_nat w = (4 :: usize)) = (w = 4)" using w by auto
    ultimately show ?thesis using r that
      by (auto simp: table_entry_def phys_to_virt_def cadd_def f_def Let_def simp del: of_nat_mult)
  qed
  have "\<exists>s'. for_return [0..<n] (\<lambda>i _. table_entry m (v + 36) (of_nat w) po i) () = Some (first_some f [0..<n], s')"
    using entry by (intro for_return_first) simp
  moreover have "first_some f [0..<n] = map_option (\<lambda>t. t + po) (List.find (\<lambda>t. rd_bytes m (t + po) 4 = APIC_SIG) tabs)"
    using first_some_map [of "\<lambda>t. if rd_bytes m (t + po) 4 = APIC_SIG then Some (t + po) else None" "nth tabs" "[0..<n]"]
    by (simp add: f_def comp_def Let_def n_def map_nth first_some_find)
  moreover have "cadd v SDT_HEADER_SIZE = Some (v + 36)" "\<not> sdt_length m v < SDT_HEADER_SIZE"
    using r ulen by (simp_all add: cadd_def SDT_HEADER_SIZE_def word_less_nat_alt)
  moreover have "phys_to_virt root po = Some v" using map(1) by (simp add: phys_to_virt_def cadd_def v_def)
  ultimately show ?thesis by (auto simp: find_madt_def count Let_def)
qed

text \<open>The RSDP, and the root table it points to: the XSDT from revision 2 on, else the RSDT.\<close>

definition acpi_image :: "mem \<Rightarrow> usize \<Rightarrow> u64 \<Rightarrow> u64 list \<Rightarrow> bool" where
  "acpi_image m po rsdp_phys tabs \<longleftrightarrow> unat rsdp_phys + unat po < 2 ^ 64
     \<and> rd_bytes m (rsdp_phys + po) 8 = RSDP_SIG
     \<and> (let (w, root) = (if m (rsdp_phys + po + 15) \<ge> 2 then (8, rd64 m (rsdp_phys + po + 24))
                         else (4, ucast (rd32 m (rsdp_phys + po + 16))))
        in root_image m (root + po) w tabs \<and> unat root + unat po < 2 ^ 64)
     \<and> list_all (\<lambda>t. unat t + unat po < 2 ^ 64) tabs"

lemma acpi_parse_image:
  assumes image: "acpi_image m po rsdp_phys tabs"
    and madt: "pred_option (\<lambda>t. madt_image m (t + po) lapic es) (List.find (\<lambda>t. rd_bytes m (t + po) 4 = APIC_SIG) tabs)"
  shows "acpi_parse m rsdp_phys po = Some
    (if List.find (\<lambda>t. rd_bytes m (t + po) 4 = APIC_SIG) tabs = None then None else described lapic es)"
proof -
  define new where "new \<longleftrightarrow> m (rsdp_phys + po + 15) \<ge> 2"
  define root where "root = (if new then rd64 m (rsdp_phys + po + 24) else ucast (rd32 m (rsdp_phys + po + 16)))"
  define w :: nat where "w = (if new then 8 else 4)"
  have "root_image m (root + po) w tabs" "unat root + unat po < 2 ^ 64" "\<forall>t \<in> set tabs. unat t + unat po < 2 ^ 64"
    using image by (auto simp: acpi_image_def list_all_iff new_def root_def w_def)
  from find_madt_image [OF this(1) _ this(2,3)]
  have find: "find_madt m root (of_nat w) po
      = Some (map_option (\<lambda>t. t + po) (List.find (\<lambda>t. rd_bytes m (t + po) 4 = APIC_SIG) tabs))"
    by (simp add: w_def)
  have "phys_to_virt rsdp_phys po = Some (rsdp_phys + po)" "rd_bytes m (rsdp_phys + po) 8 = RSDP_SIG"
    using image by (simp_all add: acpi_image_def phys_to_virt_def cadd_def)
  then have "acpi_parse m rsdp_phys po = do { madt \<leftarrow> find_madt m root (of_nat w) po;
      (case madt of None \<Rightarrow> Some None | Some p \<Rightarrow> madt_parse m p) }"
    by (simp add: acpi_parse_def root_def w_def new_def)
  with find madt show ?thesis
    by (cases "List.find (\<lambda>t. rd_bytes m (t + po) 4 = APIC_SIG) tabs") (simp_all add: madt_parse_image)
qed

text \<open>
  C18: On well-formed ACPI tables, of either revision, the parse never panics and answers what
  the first MADT listed describes: the first I/O APIC, and for every ISA interrupt the last
  override of bus 0; and nothing when there is no MADT or no I/O APIC in it.
\<close>

theorem acpi_parse_correct:
  assumes image: "acpi_image m po rsdp_phys tabs"
    and madt: "pred_option (\<lambda>t. madt_image m (t + po) lapic es) (List.find (\<lambda>t. rd_bytes m (t + po) 4 = APIC_SIG) tabs)"
  shows "acpi_parse m rsdp_phys po = Some
    (if List.find (\<lambda>t. rd_bytes m (t + po) 4 = APIC_SIG) tabs = None then None else described lapic es)"
  using acpi_parse_image [OF image madt] .

text \<open>
  Tables of revision 0: an RSDT with an FADT and a MADT, whose entries are a local APIC, an I/O
  APIC at 0xFEC00000 and an override of ISA interrupt 1, level-triggered and active low.
\<close>

definition demo_entries :: "u8 list list" where
  "demo_entries = [[0, 8, 0, 0, 1, 0, 0, 0], [1, 12, 2, 0, 0, 0, 0xC0, 0xFE, 0, 0, 0, 0],
     [2, 10, 0, 1, 9, 0, 0, 0, 0x0F, 0]]"

lemma rd_wr_inside:
  assumes "unat a \<le> unat b" "unat b + k \<le> unat a + length bs" "unat a + length bs < 2 ^ 64"
  shows "rd_bytes (wr_bytes m a bs) b k = take k (drop (unat b - unat a) bs)"
proof (rule nth_equalityI)
  fix i assume "i < length (rd_bytes (wr_bytes m a bs) b k)"
  then have i: "i < k" by simp
  have "unat (b + of_nat i) = unat b + i"
    using assms i by (simp add: unat_word_ariths unat_of_nat take_bit_eq_mod)
  then have "unat (b + of_nat i - a) = unat b - unat a + i"
    using assms(1) by (simp add: unat_sub word_le_nat_alt)
  moreover have "unat b - unat a + i < length bs" using i assms by linarith
  ultimately show "rd_bytes (wr_bytes m a bs) b k ! i = take k (drop (unat b - unat a) bs) ! i"
    using i by (simp add: nth_rd_bytes wr_bytes_def)
qed (use assms in simp)

lemma rd_wr_outside:
  assumes "unat b + k \<le> unat a \<or> unat a + length bs \<le> unat b" "unat a + length bs < 2 ^ 64" "unat b + k < 2 ^ 64"
  shows "rd_bytes (wr_bytes m a bs) b k = rd_bytes m b k"
proof (rule nth_equalityI)
  fix i assume "i < length (rd_bytes (wr_bytes m a bs) b k)"
  then have i: "i < k" by simp
  have b: "unat (b + of_nat i) = unat b + i"
    using assms i by (simp add: unat_word_ariths unat_of_nat take_bit_eq_mod)
  have "\<not> unat (b + of_nat i - a) < length bs"
  proof
    assume less: "unat (b + of_nat i - a) < length bs"
    have "unat (b + of_nat i) = unat ((b + of_nat i - a) + a)" by simp
    also have "\<dots> = unat (b + of_nat i - a) + unat a"
      using less assms(2) unat_plus_no_overflow [of "b + of_nat i - a" a] by simp
    finally show False using less b i assms(1) by linarith
  qed
  then show "rd_bytes (wr_bytes m a bs) b k ! i = rd_bytes m b k ! i"
    using i by (simp add: nth_rd_bytes wr_bytes_def)
qed simp

definition demo_tables :: mem where
  "demo_tables = wr_bytes (wr_bytes (wr_bytes (wr_bytes (\<lambda>_. 0)
     0x1000 (RSDP_SIG @ replicate 8 0 @ [0, 0x20, 0, 0]))
     0x2000 ([0x52, 0x53, 0x44, 0x54, 44, 0, 0, 0] @ replicate 28 0 @ [0, 0x28, 0, 0, 0, 0x30, 0, 0]))
     0x2800 [0x46, 0x41, 0x43, 0x50])
     0x3000 (APIC_SIG @ [74, 0, 0, 0] @ replicate 28 0 @ [0, 0, 0xE0, 0xFE, 1, 0, 0, 0] @ concat demo_entries)"

lemma demo_tables_image:
  assumes agree: "\<And>x. unat x < 0x100000 \<Longrightarrow> m x = demo_tables x"
  shows "acpi_image m 0 0x1000 [0x2800, 0x3000]"
    and "List.find (\<lambda>t. rd_bytes m (t + 0) 4 = APIC_SIG) [0x2800, 0x3000] = Some 0x3000"
    and "madt_image m 0x3000 0xFEE00000 demo_entries"
proof -
  have same: "rd_bytes m b k = rd_bytes demo_tables b k" if "unat b + k \<le> 0x100000" for b k
    using that by (intro nth_equalityI) (auto simp: nth_rd_bytes unat_word_ariths unat_of_nat take_bit_eq_mod agree)
  note read = demo_tables_def rd_wr_inside rd_wr_outside demo_entries_def APIC_SIG_def RSDP_SIG_def
    rd32_def rd16_def field32_def field16_def take_Cons' drop_Cons' same
  have rev: "m 0x100F = 0"
    using nth_rd_bytes [of 0 1 demo_tables "0x100F"] agree [of "0x100F"] by (simp add: read)
  show "acpi_image m 0 0x1000 [0x2800, 0x3000]"
    by (simp add: acpi_image_def rev root_image_def) (simp add: read All_less_Suc)
  show "List.find (\<lambda>t. rd_bytes m (t + 0) 4 = APIC_SIG) [0x2800, 0x3000] = Some 0x3000"
    by (simp add: read)
  show "madt_image m 0x3000 0xFEE00000 demo_entries"
    by (simp add: madt_image_def) (simp add: read entry_ok_def)
qed

lemma demo_described:
  "\<exists>i. described 0xFEE00000 demo_entries = Some i \<and> lapic_addr i = 0xFEE00000
    \<and> ioapic_addr i = 0xFEC00000 \<and> ioapic_gsi_base i = 0 \<and> length (overrides i) = 16
    \<and> overrides i ! 1 = Some \<lparr>isa_irq = 1, ov_gsi = 9, active_low = True, level_triggered = True\<rparr>"
  by (simp add: described_def demo_entries_def ioapic_entry_def field32_def field16_def override_for_def
    override_of_def take_Cons' drop_Cons')

theorem acpi_parse_correct_witness:
  "\<exists>i. acpi_parse demo_tables 0x1000 0 = Some (Some i) \<and> lapic_addr i = 0xFEE00000
    \<and> ioapic_addr i = 0xFEC00000 \<and> ioapic_gsi_base i = 0
    \<and> overrides i ! 1 = Some \<lparr>isa_irq = 1, ov_gsi = 9, active_low = True, level_triggered = True\<rparr>"
proof -
  note image = demo_tables_image [of demo_tables]
  from acpi_parse_correct [OF image(1), of "0xFEE00000" demo_entries] image(2,3) demo_described
  show ?thesis by auto
qed

section \<open>A truncated entry\<close>

text \<open>
  A MADT of 46 bytes at 0x3000, up to 0x302E, whose only entry says that it is an I/O APIC entry
  of twelve bytes, and memory after it that starts with \<open>after\<close>.
\<close>

definition truncated_madt :: "u8 list \<Rightarrow> mem" where
  "truncated_madt after = wr_bytes (wr_bytes (\<lambda>_. 0) 0x302E after)
     0x3000 (APIC_SIG @ [46, 0, 0, 0] @ replicate 36 0 @ [1, 12])"

text \<open>
  The walk checks that the first two bytes of an entry lie in the MADT, but not the entry: an
  I/O APIC entry cut off by the end of the table is read from the memory behind it, and what the
  kernel takes for the I/O APIC's address depends on bytes outside the table.
\<close>

theorem madt_walk_reads_past_end:
  "rd_bytes (truncated_madt [0, 0, 0, 0, 0xC0, 0xFE, 0, 0, 0, 0]) 0x3000 46 = rd_bytes (truncated_madt (replicate 10 0)) 0x3000 46
   \<and> sdt_length (truncated_madt after) 0x3000 = 46
   \<and> map_option (map_option ioapic_addr) (madt_parse (truncated_madt [0, 0, 0, 0, 0xC0, 0xFE, 0, 0, 0, 0]) 0x3000)
       = Some (Some 0xFEC00000)
   \<and> map_option (map_option ioapic_addr) (madt_parse (truncated_madt (replicate 10 0)) 0x3000) = Some (Some 0)"
proof -
  note read = truncated_madt_def rd_wr_inside rd_wr_outside APIC_SIG_def rd32_def take_Cons' drop_Cons'
  have byte: "truncated_madt after 0x302C = 1" "truncated_madt after 0x302D = 12" for after
    using nth_rd_bytes [of 0 1 "truncated_madt after" "0x302C"] nth_rd_bytes [of 0 1 "truncated_madt after" "0x302D"]
    by (simp_all add: read)
  have len: "sdt_length (truncated_madt after) 0x3000 = 46" for after
    by (simp add: sdt_length_def) (simp add: read)
  have walk: "madt_walk (truncated_madt after) 0x302E 0x302C madt_start
      = Some (madt_start\<lparr>ms_ioapic := Some (ucast (rd32 (truncated_madt after) 0x3030)),
          ms_gsi_base := rd32 (truncated_madt after) 0x3034\<rparr>)" for after
    by (subst madt_walk.simps, subst madt_walk.simps)
      (simp add: byte cadd_def madt_entry_def madt_start_def Let_def)
  have parse: "map_option (map_option ioapic_addr) (madt_parse (truncated_madt after) 0x3000)
      = Some (Some (ucast (rd32 (truncated_madt after) 0x3030)))" for after
    by (simp add: madt_parse_def len cadd_def MADT_SIZE_def walk)
  have "rd32 (truncated_madt [0, 0, 0, 0, 0xC0, 0xFE, 0, 0, 0, 0]) 0x3030 = 0xFEC00000"
    "rd32 (truncated_madt (replicate 10 0)) 0x3030 = 0"
    by (simp_all add: read) (simp add: numeral_eq_Suc)
  then show ?thesis by (simp add: parse len) (simp add: read)
qed

end
