(* ===== verification/Apic.thy ===== *)
theory Apic
  imports Clock Acpi
begin

text \<open>
  hal/src/apic.rs: the local APIC is enabled and the keyboard's interrupt routed through the I/O
  APIC, from what the ACPI tables say.  An I/O APIC with its index and data register is the
  device on the other side.  The messages are left out.
\<close>

section \<open>The model\<close>

definition LAPIC_ID :: u32 where "LAPIC_ID = 0x020"
definition LAPIC_TPR :: u32 where "LAPIC_TPR = 0x080"
definition LAPIC_EOI :: u32 where "LAPIC_EOI = 0x0B0"
definition LAPIC_SVR :: u32 where "LAPIC_SVR = 0x0F0"
definition SVR_ENABLE :: u32 where "SVR_ENABLE = 0x100"
definition SVR_SPURIOUS :: u32 where "SVR_SPURIOUS = 0xFF"

definition ioapic_write :: "usize \<Rightarrow> u8 \<Rightarrow> u32 \<Rightarrow> io_log \<Rightarrow> io_log option" where
  "ioapic_write base reg val l =
     do { win \<leftarrow> cadd base 0x10;
          Some (store32 (unat win) val (store32 (unat base) (ucast reg) l)) }"

definition apic_end_of_interrupt :: "usize \<Rightarrow> io_log \<Rightarrow> io_log option" where
  "apic_end_of_interrupt lapic l = lapic_write lapic LAPIC_EOI 0 l"

text \<open>The route of the keyboard's interrupt: the override of ISA interrupt 1, or the ISA defaults.\<close>

definition kbd_route :: "irq_override option \<Rightarrow> u32 \<times> bool \<times> bool" where
  "kbd_route ov = (case ov of Some o' \<Rightarrow> (ov_gsi o', active_low o', level_triggered o') | None \<Rightarrow> (1, False, False))"

definition redirection_low :: "bool \<Rightarrow> bool \<Rightarrow> u32" where
  "redirection_low low level =
     (let lo = 0x21; lo = (if low then lo OR push_bit 13 1 else lo)
      in if level then lo OR push_bit 15 1 else lo)"

definition apic_enable :: "bus \<Rightarrow> usize \<Rightarrow> io_log \<Rightarrow> (u32 \<times> io_log) option" where
  "apic_enable b lapic l =
     do { let l = outb 0xA1 0xFF (outb 0x21 0xFF l);
          let l = outb 0x23 0x01 (outb 0x22 0x70 l);
          (id, l) \<leftarrow> lapic_read b lapic LAPIC_ID l;
          l \<leftarrow> lapic_write lapic LAPIC_SVR (SVR_ENABLE OR SVR_SPURIOUS) l;
          l \<leftarrow> lapic_write lapic LAPIC_TPR 0 l;
          Some (drop_bit 24 id, l) }"

definition route_keyboard :: "usize \<Rightarrow> u32 \<Rightarrow> u32 \<Rightarrow> irq_override option \<Rightarrow> io_log \<Rightarrow> io_log option" where
  "route_keyboard ioapic gsi_base lapic_id ov l =
     (let (kbd_gsi, low, level) = kbd_route ov; lo = redirection_low low level
      in do { entry_idx \<leftarrow> csub kbd_gsi gsi_base;
              twice \<leftarrow> cmul 2 entry_idx;
              ioredtbl_lo \<leftarrow> cadd 0x10 (ucast twice :: u8);
              ioredtbl_hi \<leftarrow> cadd ioredtbl_lo 1;
              l \<leftarrow> ioapic_write ioapic ioredtbl_hi (push_bit 24 lapic_id) l;
              ioapic_write ioapic ioredtbl_lo lo l })"

text \<open>\<open>init\<close> answers the base it stores in \<open>LAPIC_BASE\<close>; without ACPI information it panics.\<close>

definition apic_init :: "bus \<Rightarrow> usize \<Rightarrow> apic_info option \<Rightarrow> io_log \<Rightarrow> (usize \<times> io_log) option" where
  "apic_init b phys_off stored l =
     do { info \<leftarrow> stored;
          lapic_virt \<leftarrow> cadd (lapic_addr info) phys_off;
          ioapic_virt \<leftarrow> cadd (ioapic_addr info) phys_off;
          (lapic_id, l) \<leftarrow> apic_enable b lapic_virt l;
          ov \<leftarrow> get_at (overrides info) 1;
          l \<leftarrow> route_keyboard ioapic_virt (ioapic_gsi_base info) lapic_id ov l;
          Some (lapic_virt, l) }"

section \<open>The I/O APIC\<close>

record ioapic =
  io_index :: u32
  io_regs :: "u32 \<Rightarrow> u32"

fun ioapic_act :: "nat \<Rightarrow> ioapic \<Rightarrow> io_act \<Rightarrow> ioapic" where
  "ioapic_act base d (Store32 a v) =
     (if a = base then d\<lparr>io_index := v\<rparr>
      else if a = base + 0x10 then d\<lparr>io_regs := (io_regs d)(io_index d := v)\<rparr> else d)"
| "ioapic_act base d _ = d"

definition ioapic_after :: "nat \<Rightarrow> ioapic \<Rightarrow> io_log \<Rightarrow> ioapic" where
  "ioapic_after base d l = foldl (ioapic_act base) d l"

lemma ioapic_after_simps [simp]:
  "ioapic_after base d [] = d"
  "ioapic_after base d (x # l) = ioapic_after base (ioapic_act base d x) l"
  "ioapic_after base d (l @ l') = ioapic_after base (ioapic_after base d l) l'"
  by (simp_all add: ioapic_after_def)

text \<open>The registers of redirection entry \<open>i\<close>.\<close>

definition redir :: "nat \<Rightarrow> u32" where
  "redir i = of_nat (0x10 + 2 * i)"

lemma redirection_low_fields:
  "redirection_low low level AND 0xFF = 0x21" "bit (redirection_low low level) 13 = low"
  "bit (redirection_low low level) 15 = level" "\<not> bit (redirection_low low level) 16"
  by (simp_all add: redirection_low_def Let_def)

lemma ioapic_write_returns:
  "unat base + 0x10 < 2 ^ 64 \<Longrightarrow>
    ioapic_write base reg v l = Some (l @ [Store32 (unat base) (ucast reg), Store32 (unat base + 0x10) v])"
  by (simp add: ioapic_write_def cadd_def store32_def unat_word_ariths)

lemma redirection_registers:
  assumes "unat (idx :: u32) < 120"
  shows "\<exists>twice. cmul 2 idx = Some twice \<and> cadd 0x10 (ucast twice :: u8) = Some (of_nat (0x10 + 2 * unat idx))
    \<and> cadd (of_nat (0x10 + 2 * unat idx) :: u8) 1 = Some (of_nat (0x11 + 2 * unat idx))"
proof -
  have two: "unat (2 * idx) = 2 * unat idx" using assms by (simp add: unat_word_ariths)
  define x :: u8 where "x = ucast (2 * idx)"
  have byte: "unat x = 2 * unat idx"
    using assms by (simp only: x_def unsigned_ucast_eq two) (simp add: take_bit_eq_mod)
  then have "unat (0x10 + x) = 0x10 + 2 * unat idx" using assms by (simp add: unat_word_ariths)
  moreover have small: "unat (of_nat (0x10 + 2 * unat idx) :: u8) = 0x10 + 2 * unat idx"
    using assms by (intro unat_of_nat_small) simp
  ultimately have "0x10 + x = of_nat (0x10 + 2 * unat idx)" by (simp only: word_unat_eq_iff)
  moreover have "of_nat (0x10 + 2 * unat idx) + 1 = (of_nat (0x11 + 2 * unat idx) :: u8)" by simp
  ultimately show ?thesis
    using assms byte two small by (intro exI [of _ "2 * idx"]) (simp add: cmul_def cadd_def x_def [symmetric] del: of_nat_add)
qed

lemma route_keyboard_log:
  assumes route: "kbd_route ov = (gsi, low, level)" and gsi: "gsi_base \<le> gsi" "unat (gsi - gsi_base) < 120"
    and io: "unat io + 0x10 < 2 ^ 64"
  shows "route_keyboard io gsi_base dest ov l = Some (l @
    [Store32 (unat io) (redir (unat (gsi - gsi_base)) + 1), Store32 (unat io + 0x10) (push_bit 24 dest),
     Store32 (unat io) (redir (unat (gsi - gsi_base))), Store32 (unat io + 0x10) (redirection_low low level)])"
proof -
  let ?i = "unat (gsi - gsi_base)"
  from redirection_registers [OF gsi(2)] obtain twice where
    regs: "cmul 2 (gsi - gsi_base) = Some twice" "cadd 0x10 (ucast twice :: u8) = Some (of_nat (0x10 + 2 * ?i))"
      "cadd (of_nat (0x10 + 2 * ?i) :: u8) 1 = Some (of_nat (0x11 + 2 * ?i))" by blast
  have cast: "(ucast (of_nat n :: u8) :: u32) = of_nat n" if "n < 256" for n
    using that by (simp add: word_unat_eq_iff unat_ucast_up unat_of_nat take_bit_eq_mod)
  have "csub gsi gsi_base = Some (gsi - gsi_base)" using gsi(1) by (simp add: csub_def)
  moreover have "of_nat (0x11 + 2 * ?i) = redir ?i + (1 :: u32)" by (simp add: redir_def)
  ultimately show ?thesis
    using route regs io cast [of "0x10 + 2 * ?i"] cast [of "0x11 + 2 * ?i"] gsi(2)
    by (simp add: route_keyboard_def ioapic_write_returns redir_def del: of_nat_add)
qed

text \<open>The I/O APIC and the local APIC do not overlap in the address space, and both are mapped.\<close>

definition apics_mapped :: "apic_info \<Rightarrow> usize \<Rightarrow> bool" where
  "apics_mapped info po \<longleftrightarrow> unat (lapic_addr info) + unat po + 0x1000 \<le> 2 ^ 64
     \<and> unat (ioapic_addr info) + unat po + 0x10 < 2 ^ 64
     \<and> (unat (ioapic_addr info) + 0x10 < unat (lapic_addr info)
        \<or> unat (lapic_addr info) + 0x1000 \<le> unat (ioapic_addr info))"

lemma apic_enable_log:
  assumes "unat lapic + 0x1000 \<le> 2 ^ 64"
  shows "\<exists>dest. apic_enable b lapic l = Some (dest, l @ [Out8 0x21 0xFF, Out8 0xA1 0xFF, Out8 0x22 0x70,
    Out8 0x23 0x01, Load32 (unat lapic + 0x20), Store32 (unat lapic + 0xF0) 0x1FF, Store32 (unat lapic + 0x80) 0])"
proof -
  have "lapic_addr_of lapic 0x20 = Some (unat lapic + 0x20)"
    using assms by (simp add: lapic_addr_of_def cadd_def unat_word_ariths)
  then show ?thesis
    by (simp add: apic_enable_def lapic_read_def load32_def outb_def LAPIC_ID_def LAPIC_SVR_def LAPIC_TPR_def
      lapic_write_returns [OF assms] SVR_ENABLE_def SVR_SPURIOUS_def)
qed

lemma apic_init_returns:
  assumes "apics_mapped info po" "length (overrides info) = 16"
    and "kbd_route (overrides info ! 1) = (gsi, low, level)"
    and "ioapic_gsi_base info \<le> gsi" "unat (gsi - ioapic_gsi_base info) < 120"
  shows "\<exists>l'. apic_init b po (Some info) l = Some (lapic_addr info + po, l')
    \<and> unat (lapic_addr info + po) + 0x1000 \<le> 2 ^ 64"
proof -
  define io where "io = ioapic_addr info + po"
  define la where "la = lapic_addr info + po"
  note m = assms(1) [unfolded apics_mapped_def]
  have virt: "cadd (lapic_addr info) po = Some la" "cadd (ioapic_addr info) po = Some io"
    using m by (simp_all add: cadd_def io_def la_def)
  have fits: "unat la + 0x1000 \<le> 2 ^ 64" "unat io + 0x10 < 2 ^ 64"
    using m by (simp_all add: io_def la_def unat_word_ariths)
  from apic_enable_log [OF fits(1), of b l] obtain dest x where
    enable: "apic_enable b la l = Some (dest, l @ x)" by auto
  have "get_at (overrides info) (Suc 0) = Some (overrides info ! 1)" using assms(2) by simp
  with route_keyboard_log [OF assms(3) assms(4,5) fits(2), of dest "l @ x"] fits(1) show ?thesis
    by (simp add: apic_init_def virt enable la_def [symmetric])
qed


text \<open>The usual addresses, with an override of the keyboard to interrupt 9, seen at offset 0x8000000000.\<close>

definition demo_info :: apic_info where
  "demo_info = \<lparr>lapic_addr = 0xFEE00000, ioapic_addr = 0xFEC00000, ioapic_gsi_base = 0,
     overrides = [None, Some \<lparr>isa_irq = 1, ov_gsi = 9, active_low = True, level_triggered = False\<rparr>] @ replicate 14 None\<rparr>"


end
