(* ===== verification/Interrupts.thy ===== *)
theory Interrupts
  imports ShellProps Keyboard XhciPorts XhciPolling Apic
begin

text \<open>
  The running system: the interrupt handlers of kernel/src/idt.rs and keyboard.rs, the loop at
  the end of \<open>kernel_main\<close> with \<open>keyboard::drain\<close>, and every interleaving of the two.  The
  hardware answers as it likes: port reads through the bus, and at each timer interrupt an
  arbitrary event ring and report buffer.  Interrupts come between the steps of the loop and
  inside them, before, during and after each use of the screen.
\<close>

section \<open>State\<close>

text \<open>
  Where the loop stands: before the announcement in \<open>drain\<close>, at the test for an empty ring, about
  to execute \<open>hlt\<close>, or halted.  \<open>sy_lapic\<close> is \<open>LAPIC_BASE\<close>, \<open>sy_usb_writes\<close> the stores to the USB
  controller's registers.
\<close>

datatype loop_pc = At_drain | At_ring | At_hlt | Halted

record system =
  sy_kernel :: kernel
  sy_kbd :: kbd
  sy_usb :: usb_kbd
  sy_usb_writes :: "xact list"
  sy_announced :: bool
  sy_lapic :: usize
  sy_io :: io_log
  sy_pc :: loop_pc

section \<open>Handlers\<close>

definition keyboard_handler :: "bus \<Rightarrow> system \<Rightarrow> system option" where
  "keyboard_handler b s =
     (let (scancode, l) = inb b 0x60 (sy_io s)
      in do { l \<leftarrow> apic_end_of_interrupt (sy_lapic s) l;
              kb \<leftarrow> process_scancode (sy_kbd s) scancode;
              Some (s\<lparr>sy_kbd := kb, sy_io := l\<rparr>) })"

definition ps2_poll :: "bus \<Rightarrow> kbd \<Rightarrow> io_log \<Rightarrow> (kbd \<times> io_log) option" where
  "ps2_poll b kb l =
     (let (st, l) = inb b 0x64 l
      in if st AND 0x01 \<noteq> 0 then
           let (sc, l) = inb b 0x60 l in do { kb \<leftarrow> process_scancode kb sc; Some (kb, l) }
         else Some (kb, l))"

definition timer_handler :: "bus \<Rightarrow> (nat \<Rightarrow> trb) \<Rightarrow> (nat \<Rightarrow> u8) \<Rightarrow> system \<Rightarrow> system option" where
  "timer_handler b ev hid s =
     do { (report, ws, u) \<leftarrow> take_hid_report ev hid (sy_usb s);
          kb \<leftarrow> (case report of None \<Rightarrow> Some (sy_kbd s) | Some r \<Rightarrow> process_hid_report (sy_kbd s) r);
          (kb, l) \<leftarrow> (if \<not> kbd_ready u then ps2_poll b kb (sy_io s) else Some (kb, sy_io s));
          k \<leftarrow> timer_tick (sy_kernel s);
          l \<leftarrow> apic_end_of_interrupt (sy_lapic s) l;
          Some (s\<lparr>sy_kernel := k, sy_kbd := kb, sy_usb := u, sy_usb_writes := sy_usb_writes s @ ws, sy_io := l\<rparr>) }"

text \<open>
  The interrupt descriptor table, by vector: the exceptions 3, 13 and 14 panic, and a vector
  without a gate stops the machine too.
\<close>

definition KBD_VECTOR :: u8 where "KBD_VECTOR = 0x21"
definition SPURIOUS_VECTOR :: u8 where "SPURIOUS_VECTOR = 0xFF"

datatype gate = Breakpoint_handler | Gpf_handler | Page_fault_handler | Timer_handler
  | Keyboard_handler | Spurious_handler

definition idt_init :: "u8 \<Rightarrow> gate option" where
  "idt_init = [3 \<mapsto> Breakpoint_handler, 13 \<mapsto> Gpf_handler, 14 \<mapsto> Page_fault_handler,
     TIMER_VECTOR \<mapsto> Timer_handler, KBD_VECTOR \<mapsto> Keyboard_handler, SPURIOUS_VECTOR \<mapsto> Spurious_handler]"

definition interrupt :: "bus \<Rightarrow> u8 \<Rightarrow> (nat \<Rightarrow> trb) \<Rightarrow> (nat \<Rightarrow> u8) \<Rightarrow> system \<Rightarrow> system option" where
  "interrupt b vec ev hid s =
     do { g \<leftarrow> idt_init vec;
          (case g of
             Timer_handler \<Rightarrow> timer_handler b ev hid s
           | Keyboard_handler \<Rightarrow> keyboard_handler b s
           | Spurious_handler \<Rightarrow> Some s
           | _ \<Rightarrow> None) }"

section \<open>The loop of the kernel\<close>

text \<open>An interrupt ends \<open>hlt\<close>, and the loop calls \<open>drain\<close> again.\<close>

definition wake :: "system \<Rightarrow> system" where
  "wake s = (if sy_pc s = Halted then s\<lparr>sy_pc := At_drain\<rparr> else s)"

definition announce :: "system \<Rightarrow> system option" where
  "announce s =
     (if reports_received (sy_usb s) > 0 \<and> \<not> sy_announced s then
        do { k \<leftarrow> kprintln (lit ''[dbg] first XHCI HID report received'') (sy_kernel s);
             Some (s\<lparr>sy_kernel := k, sy_announced := True\<rparr>) }
      else Some s)"

definition drain_one :: "machine \<Rightarrow> system \<Rightarrow> system option" where
  "drain_one m s =
     do { (b, r) \<leftarrow> rb_pop (ring_of (sy_kbd s));
          let s = s\<lparr>sy_kbd := (sy_kbd s)\<lparr>ring_of := r\<rparr>\<rparr>;
          (case b of
             None \<Rightarrow> Some (s\<lparr>sy_pc := At_hlt\<rparr>)
           | Some ch \<Rightarrow> do { k \<leftarrow> push_char m (unat ch) (sy_kernel s); Some (s\<lparr>sy_kernel := k\<rparr>) }) }"

definition main_step :: "machine \<Rightarrow> system \<Rightarrow> system option" where
  "main_step m s =
     (case sy_pc s of
        At_drain \<Rightarrow> do { s \<leftarrow> announce s; Some (s\<lparr>sy_pc := At_ring\<rparr>) }
      | At_ring \<Rightarrow> drain_one m s
      | At_hlt \<Rightarrow> Some (s\<lparr>sy_pc := Halted\<rparr>)
      | Halted \<Rightarrow> Some s)"

text \<open>
  The steps of the system: an interrupt, with what the USB controller has in memory then; a
  step of the loop, with the interrupts and the heap activity around each of its uses of the
  screen; heap activity, of which the shell sees only the statistics.
\<close>

type_synonym irq = "u8 \<times> (nat \<Rightarrow> trb) \<times> (nat \<Rightarrow> u8)"

datatype pause_in = Irq_in irq | Heap_in allocator

type_synonym sys_gap = "irq list \<times> pause_in list"

datatype sys_event = Irq u8 "nat \<Rightarrow> trb" "nat \<Rightarrow> u8" | is_Main: Main "sys_gap list" | Heap_use allocator

text \<open>
  An interrupt inside a step \<open>f\<close> of the loop has two effects that share no state: on the clock
  and the cursor, which \<open>hal\<close> applies where the interrupt comes, and on the keyboard, the USB
  driver and the ports, which the step does not touch once it has taken its byte; the latter are
  applied after it, in the same order.
\<close>

fun shell_pauses :: "pause_in \<Rightarrow> pause list" where
  "shell_pauses (Irq_in i) = (if fst i = TIMER_VECTOR then [Pause_tick] else [])"
| "shell_pauses (Heap_in a) = [Pause_heap a]"

definition gap_of :: "sys_gap \<Rightarrow> gap" where
  "gap_of g = (length (filter (\<lambda>i. fst i = TIMER_VECTOR) (fst g)), concat (map shell_pauses (snd g)))"

definition gap_irqs :: "sys_gap \<Rightarrow> irq list" where
  "gap_irqs g = fst g @ concat (map (\<lambda>p. case p of Irq_in i \<Rightarrow> [i] | Heap_in a \<Rightarrow> []) (snd g))"

fun irq_beside :: "bus \<Rightarrow> irq \<Rightarrow> system \<Rightarrow> system option" where
  "irq_beside b (vec, ev, hid) s =
     do { s' \<leftarrow> interrupt b vec ev hid s; Some (s'\<lparr>sy_kernel := sy_kernel s\<rparr>) }"

definition with_gaps :: "gap list \<Rightarrow> system \<Rightarrow> system" where
  "with_gaps gs s = s\<lparr>sy_kernel := (sy_kernel s)\<lparr>kgaps := gs\<rparr>\<rparr>"

definition interrupted :: "bus \<Rightarrow> sys_gap list \<Rightarrow> (system \<Rightarrow> system option) \<Rightarrow> system \<Rightarrow> system option" where
  "interrupted b gs f s =
     do { s \<leftarrow> f (with_gaps (map gap_of gs) s);
          let came = take (length gs - length (kgaps (sy_kernel s))) gs;
          s \<leftarrow> for_each (concat (map gap_irqs came)) (irq_beside b) s;
          Some (with_gaps [] s) }"

fun sys_step :: "machine \<Rightarrow> bus \<Rightarrow> sys_event \<Rightarrow> system \<Rightarrow> system option" where
  "sys_step m b (Irq vec ev hid) s = do { s \<leftarrow> interrupt b vec ev hid s; Some (wake s) }"
| "sys_step m b (Main gs) s = interrupted b gs (main_step m) s"
| "sys_step m b (Heap_use a) s = Some (s\<lparr>sy_kernel := (sy_kernel s)\<lparr>kheap := a\<rparr>\<rparr>)"

definition vectors :: "u8 set" where
  "vectors = {TIMER_VECTOR, KBD_VECTOR, SPURIOUS_VECTOR}"

definition sys_gap_ok :: "sys_gap \<Rightarrow> bool" where
  "sys_gap_ok g \<longleftrightarrow> (\<forall>i \<in> set (gap_irqs g). fst i \<in> vectors) \<and> (\<forall>a. Heap_in a \<in> set (snd g) \<longrightarrow> heap_state a)"

fun sys_event_ok :: "sys_event \<Rightarrow> bool" where
  "sys_event_ok (Irq vec ev hid) \<longleftrightarrow> vec \<in> vectors"
| "sys_event_ok (Main gs) \<longleftrightarrow> (\<forall>g \<in> set gs. sys_gap_ok g)"
| "sys_event_ok (Heap_use a) \<longleftrightarrow> heap_state a"

section \<open>The invariant\<close>

definition sys_inv :: "system \<Rightarrow> bool" where
  "sys_inv s \<longleftrightarrow> kernel_inv (sy_kernel s) \<and> ascii_root (kroot (sy_kernel s)) \<and> kbd_inv (sy_kbd s)
     \<and> usb_ok (sy_usb s) \<and> unat (sy_lapic s) + 0x1000 \<le> 2 ^ 64"

lemma idt_gates:
  "idt_init TIMER_VECTOR = Some Timer_handler" "idt_init KBD_VECTOR = Some Keyboard_handler"
  "idt_init SPURIOUS_VECTOR = Some Spurious_handler"
  by (simp_all add: idt_init_def TIMER_VECTOR_def KBD_VECTOR_def SPURIOUS_VECTOR_def)

lemma eoi_returns:
  "unat base + 0x1000 \<le> 2 ^ 64 \<Longrightarrow> apic_end_of_interrupt base l = Some (l @ [Store32 (unat base + 0xB0) 0])"
  by (simp add: apic_end_of_interrupt_def lapic_write_returns LAPIC_EOI_def)

text \<open>A poll of the USB rings, whatever they hold.\<close>

lemma erdp_in_ring:
  assumes "unat (p :: u64) + 1024 \<le> 2 ^ 64" "n < EVT_N"
  shows "\<exists>a. cadd p (of_nat n * 16) = Some a"
proof -
  have n: "n < 64" using assms(2) by (simp add: EVT_N_def)
  then have "unat (of_nat n * 16 :: u64) = n * 16"
    by (simp add: unat_word_ariths unat_of_nat take_bit_eq_mod)
  with n assms(1) show ?thesis by (simp add: cadd_def)
qed

lemma take_hid_report_ok:
  assumes "usb_ok u"
  shows "returns (take_hid_report ev hid u)
    (\<lambda>(r, ws, u'). usb_ok u' \<and> (\<forall>rep. r = Some rep \<longrightarrow> rep = map hid [0..<8] \<and> uk_ready u'))"
proof (cases "uk_ready u \<and> dw3 (ev (slot_at (uk_evt u))) AND 1 = cycle_at (uk_evt u)")
  case False
  with assms show ?thesis by (auto simp: take_hid_report_def Let_def usb_ok_def)
next
  case True
  then have u: "slot_at (uk_evt u) < EVT_N" "unat (uk_evt_phys u) + 1024 \<le> 2 ^ 64"
    "length (uk_tr u) = INT_N" "slot_at (uk_tr_pos u) + 1 < INT_N"
    using assms by (auto simp: usb_ok_def)
  define p where "p = next_event (uk_evt u)"
  have p: "slot_at p < EVT_N" using u(1) next_event_bound by (simp add: p_def)
  from erdp_in_ring [OF u(2) p] obtain a where
    a: "cadd (uk_evt_phys u) (of_nat (slot_at p) * 16) = Some a" by blast
  from report_ring.push_law [OF u(3,4), of "uk_buf_phys u"] u(4) obtain r q where
    arm: "arm_kbd_ep_raw (uk_tr u) (uk_tr_pos u) (uk_buf_phys u) = Some (r, q)"
      "length r = INT_N" "slot_at q + 1 < INT_N" by (auto split: if_splits)
  have pos: "\<lparr>slot_at = slot_at x, cycle_at = cycle_at x\<rparr> = x" for x :: ring_pos by simp
  show ?thesis
    unfolding take_hid_report_def Let_def take_next pos p_def [symmetric]
    using True u p a arm by (simp add: usb_ok_def)
qed

section \<open>Interrupts keep the invariant\<close>

definition same_line :: "system \<Rightarrow> system \<Rightarrow> bool" where
  "same_line s s' \<longleftrightarrow> kshell (sy_kernel s') = kshell (sy_kernel s) \<and> kroot (sy_kernel s') = kroot (sy_kernel s)
     \<and> sy_pc s' = sy_pc s \<and> sy_lapic s' = sy_lapic s"

lemma ps2_poll_returns:
  "kbd_inv kb \<Longrightarrow> returns (ps2_poll b kb l) (\<lambda>(kb', l'). kbd_inv kb')"
proof -
  assume kb: "kbd_inv kb"
  from process_scancode_ok [OF kb, of "bus_in8 b (l @ [In8 0x64]) 0x60"] obtain kb' where
    "process_scancode kb (bus_in8 b (l @ [In8 0x64]) 0x60) = Some kb'" "kbd_inv kb'" by (auto simp: returns_def)
  with kb show ?thesis by (simp add: ps2_poll_def inb_def)
qed

lemma timer_handler_returns:
  assumes s: "sys_inv s"
  shows "returns (timer_handler b ev hid s) (\<lambda>s'. sys_inv s' \<and> same_line s s')"
proof -
  note inv = s [unfolded sys_inv_def]
  from take_hid_report_ok [of "sy_usb s" ev hid] inv obtain rep ws u where
    u: "take_hid_report ev hid (sy_usb s) = Some (rep, ws, u)" "usb_ok u"
      "\<forall>r. rep = Some r \<longrightarrow> r = map hid [0..<8]" by (auto simp: returns_def)
  have "returns (case rep of None \<Rightarrow> Some (sy_kbd s) | Some r \<Rightarrow> process_hid_report (sy_kbd s) r) kbd_inv"
    using inv u(3) process_hid_report_ok [of "sy_kbd s" "map hid [0..<8]"] by (cases rep) auto
  then obtain kb where
    kb: "(case rep of None \<Rightarrow> Some (sy_kbd s) | Some r \<Rightarrow> process_hid_report (sy_kbd s) r) = Some kb" "kbd_inv kb"
    by (auto simp: returns_def)
  have "returns (if \<not> kbd_ready u then ps2_poll b kb (sy_io s) else Some (kb, sy_io s))
      (\<lambda>(kb', l'). kbd_inv kb')"
    using ps2_poll_returns [OF kb(2)] kb(2) by simp
  then obtain kb' l' where
    kb': "(if \<not> kbd_ready u then ps2_poll b kb (sy_io s) else Some (kb, sy_io s)) = Some (kb', l')"
      "kbd_inv kb'" by (auto simp: returns_def)
  from timer_tick_inv [of "sy_kernel s"] inv obtain k where
    k: "timer_tick (sy_kernel s) = Some k" "kernel_inv k" "kroot k = kroot (sy_kernel s)" "kshell k = kshell (sy_kernel s)"
    by (auto simp: returns_def)
  show ?thesis
    unfolding timer_handler_def u(1) Option.bind_lunit prod.case kb(1) kb'(1) k(1)
    using inv u(2) kb'(2) k by (simp add: eoi_returns sys_inv_def same_line_def)
qed

lemma keyboard_handler_returns:
  assumes s: "sys_inv s"
  shows "returns (keyboard_handler b s) (\<lambda>s'. sys_inv s' \<and> same_line s s')"
proof -
  note inv = s [unfolded sys_inv_def]
  from process_scancode_ok [of "sy_kbd s" "bus_in8 b (sy_io s) 0x60"] inv obtain kb where
    "process_scancode (sy_kbd s) (bus_in8 b (sy_io s) 0x60) = Some kb" "kbd_inv kb" by (auto simp: returns_def)
  with inv show ?thesis
    by (simp add: keyboard_handler_def inb_def eoi_returns sys_inv_def same_line_def)
qed

lemma interrupt_returns:
  assumes "sys_inv s" "vec \<in> vectors"
  shows "returns (interrupt b vec ev hid s) (\<lambda>s'. sys_inv s' \<and> same_line s s')"
  using assms timer_handler_returns [of s b ev hid] keyboard_handler_returns [of s b]
  by (auto simp: interrupt_def vectors_def idt_gates same_line_def)

section \<open>The loop keeps the invariant\<close>

lemma announce_returns:
  assumes s: "sys_inv s"
  shows "returns (announce s) (\<lambda>s'. sys_inv s' \<and> view (kshell (sy_kernel s')) = view (kshell (sy_kernel s))
    \<and> sy_kbd s' = sy_kbd s \<and> sy_pc s' = sy_pc s)"
proof -
  let ?msg = "lit ''[dbg] first XHCI HID report received''"
  have k: "kernel_inv (sy_kernel s)" using s by (simp add: sys_inv_def)
  from kprintln_draws [of "sy_kernel s" ?msg] k obtain k' where
    k': "kprintln ?msg (sy_kernel s) = Some k'" "draws (sy_kernel s) k'" by (auto simp: returns_def)
  have "announce s = (if reports_received (sy_usb s) > 0 \<and> \<not> sy_announced s
      then Some (s\<lparr>sy_kernel := k', sy_announced := True\<rparr>) else Some s)"
    by (simp only: announce_def k'(1) Option.bind_lunit)
  with s draws_inv [OF k k'(2)] drawsD [OF k'(2)] show ?thesis by (simp add: sys_inv_def)
qed

text \<open>One turn of the loop in \<open>drain\<close>: the ring is empty, or its first byte goes to the shell.\<close>

lemma drain_empty:
  assumes "sys_inv s" "pending (sy_kbd s) = []"
  shows "drain_one m s = Some (s\<lparr>sy_pc := At_hlt\<rparr>)"
  using assms rb_pop_empty [of "ring_of (sy_kbd s)"]
  by (simp add: drain_one_def sys_inv_def kbd_inv_def pending_def Let_def)

lemma drain_head:
  assumes s: "sys_inv s" "controller_ready m" and q: "pending (sy_kbd s) = ch # q"
  shows "returns (drain_one m s) (\<lambda>s'. sys_inv s' \<and> pending (sy_kbd s') = q \<and> sy_pc s' = sy_pc s
    \<and> (ch \<noteq> 9 \<longrightarrow> view (kshell (sy_kernel s')) = ed_key (unat ch) (view (kshell (sy_kernel s)))))"
proof -
  note inv = s(1) [unfolded sys_inv_def kbd_inv_def]
  from rb_pop_head [of "ring_of (sy_kbd s)" ch q] inv q obtain r where
    r: "rb_pop (ring_of (sy_kbd s)) = Some (Some ch, r)" "rb_inv r" "rb_items r = q" by (auto simp: pending_def)
  have "returns (on_event m (Key (unat ch)) (sy_kernel s)) (\<lambda>k'. kernel_inv k' \<and> kroot k' = kroot (sy_kernel s)
      \<and> (Key (unat ch) \<noteq> Key 9 \<longrightarrow> view (kshell k') = ed_event (Key (unat ch)) (view (kshell (sy_kernel s)))))"
    using inv s(2) by (intro on_event_inv) (simp_all add: ShellProps.event_ok_def)
  then obtain k where
    k: "push_char m (unat ch) (sy_kernel s) = Some k" "kernel_inv k" "kroot k = kroot (sy_kernel s)"
      "unat ch \<noteq> 9 \<longrightarrow> view (kshell k) = ed_key (unat ch) (view (kshell (sy_kernel s)))"
    by (auto simp: returns_def ed_event_def)
  have "ch \<noteq> 9 \<longrightarrow> unat ch \<noteq> 9" using word_unat_eq_iff [of ch 9] by simp
  moreover have "list_all typable q" using inv q by (simp add: pending_def)
  ultimately show ?thesis using inv r k by (simp add: drain_one_def Let_def sys_inv_def kbd_inv_def pending_def)
qed

lemma main_step_inv:
  assumes s: "sys_inv s" "controller_ready m"
  shows "returns (main_step m s) sys_inv"
proof (cases "sy_pc s")
  case At_drain
  from announce_returns [OF s(1)] obtain s1 where "announce s = Some s1" "sys_inv s1" by (auto simp: returns_def)
  with At_drain show ?thesis by (simp add: main_step_def sys_inv_def)
next
  case At_ring
  show ?thesis
  proof (cases "pending (sy_kbd s)")
    case Nil
    from At_ring drain_empty [OF s(1) Nil] s(1) show ?thesis by (simp add: main_step_def sys_inv_def)
  next
    case (Cons ch q)
    from At_ring drain_head [OF s Cons] show ?thesis by (auto simp: main_step_def elim: returns_mono)
  qed
qed (use s(1) in \<open>simp_all add: main_step_def sys_inv_def\<close>)

text \<open>With the interrupts inside it.\<close>

lemma gaps_of_ok:
  assumes "\<forall>g \<in> set gs. sys_gap_ok g"
  shows "gaps_ok (map gap_of gs)"
proof -
  have "heap_state a" if "g \<in> set gs" "Pause_heap a \<in> set (shell_pauses p)" "p \<in> set (snd g)" for g a p
  proof (cases p)
    case (Irq_in i)
    with that(2) show ?thesis by (simp split: if_splits)
  next
    case (Heap_in a')
    with assms that show ?thesis by (auto simp: sys_gap_ok_def)
  qed
  then show ?thesis by (intro heap_gaps_ok) (auto simp: gap_of_def)
qed

lemma with_gaps_inv: "sys_inv s \<Longrightarrow> gaps_ok gs \<Longrightarrow> sys_inv (with_gaps gs s)"
  by (simp add: sys_inv_def kernel_inv_def paint_ok_def with_gaps_def)

lemma irq_beside_inv:
  assumes "sys_inv s" "fst i \<in> vectors"
  shows "returns (irq_beside b i s) (\<lambda>s'. sys_inv s' \<and> sy_kernel s' = sy_kernel s \<and> sy_pc s' = sy_pc s)"
proof -
  obtain vec ev hid where i: "i = (vec, ev, hid)" by (cases i)
  from interrupt_returns [OF assms(1), of vec b ev hid] assms(2) i obtain s' where
    "interrupt b vec ev hid s = Some s'" "sys_inv s'" "sy_pc s' = sy_pc s" by (auto simp: returns_def same_line_def)
  with i assms(1) show ?thesis by (simp add: sys_inv_def)
qed

text \<open>
  A property that the two halves of an interrupt keep, and \<open>f\<close>, is kept by \<open>f\<close> with interrupts
  inside it.
\<close>

lemma interrupted_keeps:
  assumes gs: "\<forall>g \<in> set gs. sys_gap_ok g"
    and f: "returns (f (with_gaps (map gap_of gs) s)) I"
    and irq: "\<And>s i. I s \<Longrightarrow> fst i \<in> vectors \<Longrightarrow> returns (irq_beside b i s) I"
    and gap: "\<And>s. I s \<Longrightarrow> I (with_gaps [] s)"
  shows "returns (interrupted b gs f s) I"
proof -
  from f obtain s1 where s1: "f (with_gaps (map gap_of gs) s) = Some s1" "I s1" by (auto simp: returns_def)
  let ?is = "concat (map gap_irqs (take (length gs - length (kgaps (sy_kernel s1))) gs))"
  have beside: "returns (for_each is (irq_beside b) s) I" if "I s" "\<forall>i \<in> set is. fst i \<in> vectors" for "is" s
    using that
  proof (induction "is" arbitrary: s)
    case (Cons i "is")
    from irq [OF Cons.prems(1), of i] Cons.prems(2) obtain s' where
      "irq_beside b i s = Some s'" "I s'" by (auto simp: returns_def)
    with Cons.IH [of s'] Cons.prems(2) show ?case by simp
  qed simp
  have "\<forall>i \<in> set ?is. fst i \<in> vectors" using gs by (auto simp: sys_gap_ok_def dest: in_set_takeD)
  from beside [OF s1(2) this] obtain s2 where
    "for_each ?is (irq_beside b) s1 = Some s2" "I s2" by (auto simp: returns_def)
  with s1(1) gap show ?thesis by (simp add: interrupted_def Let_def)
qed

lemma main_interrupted_inv:
  assumes s: "sys_inv s" "controller_ready m" and gs: "\<forall>g \<in> set gs. sys_gap_ok g"
  shows "returns (interrupted b gs (main_step m) s) sys_inv"
proof (rule interrupted_keeps [OF gs])
  show "returns (main_step m (with_gaps (map gap_of gs) s)) sys_inv"
    by (rule main_step_inv [OF with_gaps_inv [OF s(1) gaps_of_ok [OF gs]] s(2)])
next
  fix s i assume "sys_inv s" "fst (i :: irq) \<in> vectors"
  from irq_beside_inv [OF this] show "returns (irq_beside b i s) sys_inv" by (rule returns_mono) simp
qed (simp add: with_gaps_inv gaps_ok_def)

lemma sys_step_inv:
  assumes s: "sys_inv s" "controller_ready m" and e: "sys_event_ok e"
  shows "returns (sys_step m b e s) sys_inv"
proof (cases e)
  case (Irq vec ev hid)
  have "sys_inv (wake s')" if "sys_inv s'" for s' using that by (simp add: wake_def sys_inv_def)
  with Irq e interrupt_returns [OF s(1), of vec b ev hid] show ?thesis by (auto simp: returns_def)
next
  case (Main gs)
  with main_interrupted_inv [OF s] e show ?thesis by simp
next
  case (Heap_use a)
  with s(1) e heap_state_stats [of a] show ?thesis by (simp add: sys_inv_def kernel_inv_def paint_ok_def)
qed

lemma sys_run_inv:
  "sys_inv s \<Longrightarrow> controller_ready m \<Longrightarrow> \<forall>e \<in> set es. sys_event_ok e \<Longrightarrow> returns (for_each es (sys_step m b) s) sys_inv"
proof (induction es arbitrary: s)
  case (Cons e es)
  from sys_step_inv [OF Cons.prems(1,2), of e b] Cons.prems(3) obtain s' where
    "sys_step m b e s = Some s'" "sys_inv s'" by (auto simp: returns_def)
  with Cons.IH [of s'] Cons.prems(2,3) show ?case by simp
qed simp

section \<open>From the keyboard to the line\<close>

text \<open>A step of the loop that nothing interrupts.\<close>

definition hush :: "system \<Rightarrow> system" where
  "hush s = with_gaps [] s"

lemma hush_simps [simp]:
  "sy_pc (hush s) = sy_pc s" "sy_kbd (hush s) = sy_kbd s" "kshell (sy_kernel (hush s)) = kshell (sy_kernel s)"
  "hush (hush s) = hush s" "hush (s\<lparr>sy_pc := p\<rparr>) = (hush s)\<lparr>sy_pc := p\<rparr>" "sy_usb (hush s) = sy_usb s"
  by (simp_all add: hush_def with_gaps_def)

lemma hush_inv: "sys_inv s \<Longrightarrow> sys_inv (hush s)"
  by (simp add: hush_def with_gaps_inv gaps_ok_def)

lemma main_alone: "sys_step m b (Main []) s = map_option hush (main_step m (hush s))"
  by (cases "main_step m (hush s)") (simp_all add: interrupted_def hush_def Let_def)

lemma idle_stays: "sy_pc s = Halted \<Longrightarrow> hush s = s \<Longrightarrow> for_each (replicate n (Main [])) (sys_step m b) s = Some s"
  by (induction n) (simp_all add: main_alone main_step_def del: sys_step.simps)

text \<open>Left alone, the loop hands the pending bytes to the shell, in order, and halts.\<close>

lemma drains_ring:
  assumes "sys_inv s" "controller_ready m" "sy_pc s = At_ring" "9 \<notin> set (pending (sy_kbd s))"
    "length (pending (sy_kbd s)) + 2 \<le> n"
  shows "returns (for_each (replicate n (Main [])) (sys_step m b) s) (\<lambda>s'. sys_inv s' \<and> sy_pc s' = Halted
    \<and> pending (sy_kbd s') = []
    \<and> view (kshell (sy_kernel s')) = fold ed_key (map unat (pending (sy_kbd s))) (view (kshell (sy_kernel s))))"
  using assms
proof (induction "pending (sy_kbd s)" arbitrary: s n)
  case Nil
  then obtain n' where n: "n = Suc (Suc n')" by (metis add_2_eq_Suc' add.left_neutral list.size(3) le_Suc_ex plus_nat.simps(2))
  let ?s = "(hush s)\<lparr>sy_pc := Halted\<rparr>"
  have "drain_one m (hush s) = Some ((hush s)\<lparr>sy_pc := At_hlt\<rparr>)"
    using Nil by (intro drain_empty hush_inv) simp_all
  then have "for_each (replicate n (Main [])) (sys_step m b) s = for_each (replicate n' (Main [])) (sys_step m b) ?s"
    using Nil.prems by (simp add: n main_alone main_step_def del: sys_step.simps)
  also have "\<dots> = Some ?s" by (rule idle_stays) simp_all
  finally show ?case using Nil hush_inv [of s] by (simp add: sys_inv_def)
next
  case (Cons ch q)
  have "length (pending (sy_kbd s)) = Suc (length q)" by (simp add: Cons.hyps(2) [symmetric])
  with Cons.prems(5) obtain n' where n: "n = Suc n'" "length q + 2 \<le> n'" by (cases n) auto
  have "pending (sy_kbd (hush s)) = ch # q" using Cons.hyps(2) by simp
  from drain_head [OF hush_inv [OF Cons.prems(1)] Cons.prems(2) this] obtain s1 where
    s1: "drain_one m (hush s) = Some s1" "sys_inv (hush s1)" "pending (sy_kbd (hush s1)) = q" "sy_pc (hush s1) = At_ring"
      "ch \<noteq> 9 \<longrightarrow> view (kshell (sy_kernel (hush s1))) = ed_key (unat ch) (view (kshell (sy_kernel s)))"
    using Cons.prems(3) hush_inv by (auto simp: returns_def)
  have tab: "ch \<noteq> 9" "9 \<notin> set q" using Cons.prems(4) by (auto simp: Cons.hyps(2) [symmetric])
  from Cons.hyps(1) [OF s1(3) [symmetric] s1(2) Cons.prems(2) s1(4)] tab(2) s1(3) n(2)
  have "returns (for_each (replicate n' (Main [])) (sys_step m b) (hush s1)) (\<lambda>s'. sys_inv s' \<and> sy_pc s' = Halted
      \<and> pending (sy_kbd s') = [] \<and> view (kshell (sy_kernel s')) = fold ed_key (map unat q) (view (kshell (sy_kernel (hush s1)))))"
    by simp
  then show ?case
    using Cons.prems(3) s1(1,5) tab(1)
    by (simp add: n(1) main_alone main_step_def Cons.hyps(2) [symmetric] del: sys_step.simps)
qed

text \<open>The bytes a report types on a keyboard state, after those that wait.\<close>

definition typed_bytes :: "kbd \<Rightarrow> u8 list \<Rightarrow> u8 list" where
  "typed_bytes k r = take 63 (pending k @ concat (map
     (key_bytes (hd r AND 0x22 \<noteq> 0) (hd r AND 0x11 \<noteq> 0) (hid_caps_lock k)) (newly_pressed (hid_prev k) (drop 2 r))))"

lemma timer_types_report:
  assumes s: "sys_inv s" and poll: "take_hid_report ev hid (sy_usb s) = Some (Some r, ws, u)"
  shows "returns (timer_handler b ev hid s) (\<lambda>s'. sys_inv s' \<and> same_line s s'
    \<and> pending (sy_kbd s') = typed_bytes (sy_kbd s) r)"
proof -
  note inv = s [unfolded sys_inv_def kbd_inv_def]
  from timer_handler_returns [OF s, of b ev hid] obtain s' where
    s': "timer_handler b ev hid s = Some s'" "sys_inv s'" "same_line s s'" by (auto simp: returns_def)
  from take_hid_report_ok [of "sy_usb s" ev hid] inv poll have r: "length r = 8" "kbd_ready u"
    by (auto simp: kbd_ready_def)
  from process_hid_report_step [OF _ r(1), of "sy_kbd s"] inv obtain kb where
    kb: "process_hid_report (sy_kbd s) r = Some kb" "pending kb = typed_bytes (sy_kbd s) r"
    by (auto simp: typed_bytes_def pending_def)
  with s'(1) poll r(2) have "sy_kbd s' = kb" by (auto simp: timer_handler_def split: Option.bind_splits)
  with s' kb(2) show ?thesis by simp
qed

lemma length_typed_bytes: "length (typed_bytes k r) \<le> 63"
  by (simp add: typed_bytes_def)

text \<open>
  C2: When the kernel is idle and the USB controller has a report waiting, the next timer
  interrupt and at most 66 turns of the loop bring it to rest again with the ring empty, and in
  the meantime the line editor has received, in order, the bytes that waited and those the
  report types: its newly pressed keys, with the modifiers and the caps lock then in force, up
  to the 63 bytes of the ring.
\<close>

theorem report_reaches_line:
  assumes "sys_inv s" "controller_ready m" "sy_pc s = Halted"
    and "take_hid_report ev hid (sy_usb s) = Some (Some r, ws, u)" "9 \<notin> set (typed_bytes (sy_kbd s) r)"
  shows "\<exists>s'. for_each (Irq TIMER_VECTOR ev hid # replicate 66 (Main [])) (sys_step m b) s = Some s'
    \<and> sys_inv s' \<and> sy_pc s' = Halted \<and> pending (sy_kbd s') = []
    \<and> view (kshell (sy_kernel s')) = fold ed_key (map unat (typed_bytes (sy_kbd s) r)) (view (kshell (sy_kernel s)))"
proof -
  from timer_types_report [OF assms(1,4), of b] obtain s1 where
    s1: "timer_handler b ev hid s = Some s1" "sys_inv s1" "same_line s s1" "pending (sy_kbd s1) = typed_bytes (sy_kbd s) r"
    by (auto simp: returns_def)
  let ?w = "wake s1"
  have w: "sys_step m b (Irq TIMER_VECTOR ev hid) s = Some ?w" "sys_inv ?w" "sy_pc ?w = At_drain"
    "sy_kbd ?w = sy_kbd s1" "sy_kernel ?w = sy_kernel s1"
    using s1 assms(3) by (simp_all add: interrupt_def idt_gates wake_def same_line_def sys_inv_def)
  from announce_returns [OF hush_inv [OF w(2)]] obtain s2 where
    s2: "announce (hush ?w) = Some s2" "sys_inv s2" "view (kshell (sy_kernel s2)) = view (kshell (sy_kernel s1))"
      "sy_kbd s2 = sy_kbd s1" by (auto simp: returns_def w(4,5))
  let ?s2 = "(hush s2)\<lparr>sy_pc := At_ring\<rparr>"
  have "sys_inv ?s2" "sy_pc ?s2 = At_ring" "9 \<notin> set (pending (sy_kbd ?s2))" "length (pending (sy_kbd ?s2)) + 2 \<le> 65"
    using hush_inv [OF s2(2)] s2(4) s1(4) assms(5) length_typed_bytes [of "sy_kbd s" r] by (simp_all add: sys_inv_def)
  from drains_ring [OF this(1) assms(2) this(2-4), of b] obtain s3 where
    "for_each (replicate 65 (Main [])) (sys_step m b) ?s2 = Some s3" "sys_inv s3" "sy_pc s3 = Halted" "pending (sy_kbd s3) = []"
    "view (kshell (sy_kernel s3)) = fold ed_key (map unat (pending (sy_kbd ?s2))) (view (kshell (sy_kernel ?s2)))"
    by (auto simp: returns_def)
  moreover have "sys_step m b (Main []) ?w = Some ?s2"
    using w(3) s2(1) by (simp add: main_alone main_step_def del: sys_step.simps)
  moreover have "replicate 66 (Main []) = Main [] # replicate 65 (Main [])" by (simp add: numeral_eq_Suc)
  ultimately show ?thesis using w(1) s2(3,4) s1(3,4) by (simp add: same_line_def del: sys_step.simps)
qed

text \<open>A keyboard on slot 1 that reports shift and the key A.\<close>

definition demo_usb :: usb_kbd where
  "demo_usb = \<lparr>uk_ready = True, uk_reports = 0, uk_slot = 1, uk_ep_db = 3, uk_db_base = 0x2000,
     uk_rt_base = 0x3000, uk_evt_phys = 0x4000, uk_evt = ring_start, uk_tr = linked_ring INT_N 0x5000,
     uk_tr_pos = ring_start, uk_buf_phys = 0x6000\<rparr>"

definition demo_system :: "kernel \<Rightarrow> system" where
  "demo_system k = \<lparr>sy_kernel = k, sy_kbd = kbd_init, sy_usb = demo_usb, sy_usb_writes = [],
     sy_announced = False, sy_lapic = 0xFEE00000, sy_io = [], sy_pc = Halted\<rparr>"

lemma demo_take:
  "\<exists>ws u. take_hid_report (\<lambda>_. TRB 0 0 0x01000000 0x01008001) (nth [2, 0, 4, 0, 0, 0, 0, 0]) demo_usb
    = Some (Some [2, 0, 4, 0, 0, 0, 0, 0], ws, u)"
proof -
  have "\<exists>r q. arm_kbd_ep_raw (linked_ring INT_N 0x5000) ring_start 0x6000 = Some (r, q)"
    by (simp add: arm_kbd_ep_raw_def linked_ring_def ring_start_def INT_N_def Let_def del: replicate_Suc)
  then obtain r q where arm: "arm_kbd_ep_raw (linked_ring INT_N 0x5000) ring_start 0x6000 = Some (r, q)" by blast
  have "map (nth [2, 0, 4, 0, 0, 0, 0, 0]) [0..<8] = [2, 0, 4, 0, 0, 0, 0, 0 :: u8]" by (simp add: upt_rec)
  with arm show ?thesis
    by (simp add: take_hid_report_def demo_usb_def ring_start_def EVT_N_def Let_def cadd_def trb_type_def
      event_slot_def event_cc_def TRB_EVT_TRANSFER_def CC_SUCCESS_def CC_SHORT_PKT_def)
qed

lemma demo_system_inv:
  assumes "kernel_inv k" "kroot k = boot_root None"
  shows "sys_inv (demo_system k)"
  using assms kbd_inv_init
  by (simp add: sys_inv_def demo_system_def demo_usb_def usb_ok_def EVT_N_def INT_N_def ring_start_def linked_ring_def
    boot_root_def ascii_root_def del: replicate_Suc)

theorem report_reaches_line_witness:
  "\<exists>k s'. for_each (Irq TIMER_VECTOR (\<lambda>_. TRB 0 0 0x01000000 0x01008001) (nth [2, 0, 4, 0, 0, 0, 0, 0])
      # replicate 66 (Main [])) (sys_step demo_machine demo_pit) (demo_system k) = Some s'
    \<and> sy_pc s' = Halted \<and> ed_line (view (kshell (sy_kernel s'))) = lit ''A''"
proof -
  obtain a where a: "heap_state a" using demo_heap_state by blast
  from prompt_inv [OF _ a, of None None] obtain k where
    k: "kernel_inv k" "kroot k = boot_root None" "view (kshell k) = ed_new"
    by (auto simp: boot_screen_ok_def returns_def)
  obtain ws u where take: "take_hid_report (\<lambda>_. TRB 0 0 0x01000000 0x01008001) (nth [2, 0, 4, 0, 0, 0, 0, 0])
      (sy_usb (demo_system k)) = Some (Some [2, 0, 4, 0, 0, 0, 0, 0], ws, u)"
    using demo_take by (auto simp: demo_system_def)
  have bytes: "typed_bytes (sy_kbd (demo_system k)) [2, 0, 4, 0, 0, 0, 0, 0] = [65]"
    by (simp add: typed_bytes_def demo_system_def kbd_init_def pending_def rb_items_new newly_pressed_def
      key_bytes_def hid_nav_def hid_char_def hid_to_ascii_def effective_def)
  have "9 \<notin> set (typed_bytes (sy_kbd (demo_system k)) [2, 0, 4, 0, 0, 0, 0, 0])" by (simp add: bytes)
  from report_reaches_line [OF demo_system_inv [OF k(1,2)] demo_ready _ take this, of demo_pit] obtain s' where
    "for_each (Irq TIMER_VECTOR (\<lambda>_. TRB 0 0 0x01000000 0x01008001) (nth [2, 0, 4, 0, 0, 0, 0, 0])
      # replicate 66 (Main [])) (sys_step demo_machine demo_pit) (demo_system k) = Some s'" "sy_pc s' = Halted"
    "view (kshell (sy_kernel s')) = ed_key 65 ed_new"
    using k(3) unfolding bytes by (auto simp: demo_system_def)
  then show ?thesis by (intro exI [of _ k] exI [of _ s']) (simp add: ed_key_def ed_insert_def ed_new_def)
qed

end
