(* ===== verification/RamfsTree.thy ===== *)
theory RamfsTree
  imports Ramfs "HOL-Library.Sublist"
begin

text \<open>
  What inserting a path does to the files of the tree, and when it panics.
\<close>

lemma position_map_of_None: "position (\<lambda>(n, _). n = name) es = None \<longleftrightarrow> map_of es name = None"
  by (force simp: position_None map_of_eq_None_iff)

lemma position_entry:
  "position (\<lambda>(n, _). n = name) es = Some i \<Longrightarrow> i < length es \<and> fst (es ! i) = name
    \<and> map_of es name = Some (snd (es ! i))
    \<and> map_of (es[i := (name, x)]) = (map_of es)(name \<mapsto> x)"
proof (induction es arbitrary: i)
  case (Cons e es)
  show ?case
  proof (cases "fst e = name")
    case True
    with Cons.prems have "i = 0" by (cases e) auto
    with True show ?thesis by (cases e) auto
  next
    case False
    with Cons.prems obtain j where j: "position (\<lambda>(n, _). n = name) es = Some j" "i = Suc j"
      by (cases e) auto
    from Cons.IH [OF j(1)] j(2) False show ?thesis by (cases e) (auto simp: fun_eq_iff)
  qed
qed simp

text \<open>The entries of the directory \<open>part\<close>, empty when there is no such entry.\<close>

definition sub_entries :: "entries \<Rightarrow> str \<Rightarrow> entries option" where
  "sub_entries es part =
     (case map_of es part of None \<Rightarrow> Some [] | Some (Dir sub) \<Rightarrow> Some sub | Some (File d) \<Rightarrow> None)"

lemma get_or_insert_dir_panics: "get_or_insert_dir es name = None \<longleftrightarrow> sub_entries es name = None"
proof (cases "position (\<lambda>(n, _). n = name) es")
  case None
  have "position (\<lambda>(n, _). n = name) (es @ [(name, Dir [])]) \<noteq> None"
    by (simp add: position_None)
  then obtain i where i: "position (\<lambda>(n, _). n = name) (es @ [(name, Dir [])]) = Some i" by blast
  from position_entry [OF this] None have "i < length es + 1" "snd ((es @ [(name, Dir [])]) ! i) = Dir []"
    by (auto simp: position_map_of_None map_add_def map_of_append split: option.splits)
  with i None position_map_of_None [of name es] show ?thesis
    by (auto simp: get_or_insert_dir_def sub_entries_def Let_def split: prod.splits)
next
  case (Some i)
  from position_entry [OF Some] Some show ?thesis
    by (auto simp: get_or_insert_dir_def sub_entries_def Let_def split: prod.splits node.splits)
qed

lemma get_or_insert_dir_spec:
  assumes "get_or_insert_dir es name = Some (es', i, sub)"
  shows "i < length es' \<and> fst (es' ! i) = name \<and> sub_entries es name = Some sub
    \<and> map_of (es'[i := (name, x)]) = (map_of es)(name \<mapsto> x)"
proof -
  let ?es = "if position (\<lambda>(n, _). n = name) es = None then es @ [(name, Dir [])] else es"
  from assms have pos: "position (\<lambda>(n, _). n = name) ?es = Some i" and es': "es' = ?es"
    and entry: "snd (?es ! i) = Dir sub"
    by (auto simp: get_or_insert_dir_def Let_def get_at_def split: Option.bind_splits node.splits prod.splits if_splits)
  note p = position_entry [OF pos [folded es'], of x]
  have "map_of es' name = Some (Dir sub)" using p entry es' by simp
  then have "sub_entries es name = Some sub"
    using es' position_map_of_None [of name es]
    by (auto simp: sub_entries_def map_of_append map_add_def split: option.splits if_splits)
  moreover have "(map_of es')(name \<mapsto> x) = (map_of es)(name \<mapsto> x)"
    unfolding es' by (auto simp: fun_eq_iff map_of_append map_add_def split: option.splits)
  ultimately show ?thesis using p by simp
qed

text \<open>One level of \<open>insert\<close>, in terms of the map from names to entries.\<close>

lemma insert_parts_step:
  "insert_parts es (part # parts) leaf nd =
     do { sub \<leftarrow> sub_entries es part;
          sub' \<leftarrow> insert_parts sub parts leaf nd;
          (es', i, _) \<leftarrow> get_or_insert_dir es part;
          Some (es'[i := (part, Dir sub')]) }"
proof (cases "get_or_insert_dir es part")
  case None
  with get_or_insert_dir_panics [of es part] show ?thesis by simp
next
  case (Some r)
  obtain es' i sub where r: "r = (es', i, sub)" by (cases r) auto
  from get_or_insert_dir_spec [OF Some [unfolded r]]
  have "i < length es'" "fst (es' ! i) = part" "sub_entries es part = Some sub" by auto
  with Some r show ?thesis
    by (cases "insert_parts sub parts leaf nd") (auto split: prod.splits)
qed

lemma insert_parts_map:
  assumes "insert_parts es (part # parts) leaf nd = Some es''"
  obtains sub sub' where "sub_entries es part = Some sub" "insert_parts sub parts leaf nd = Some sub'"
    "map_of es'' = (map_of es)(part \<mapsto> Dir sub')"
proof -
  from assms obtain sub sub' es' i s where *: "sub_entries es part = Some sub" "insert_parts sub parts leaf nd = Some sub'"
    "get_or_insert_dir es part = Some (es', i, s)" "es'' = es'[i := (part, Dir sub')]"
    unfolding insert_parts_step by (auto split: Option.bind_splits)
  from get_or_insert_dir_spec [OF *(3)] *(4) have "map_of es'' = (map_of es)(part \<mapsto> Dir sub')" by simp
  with * that show ?thesis by blast
qed

text \<open>The files at the paths below a directory.\<close>

lemma file_at_simps:
  "file_at (Dir es) [] = None"
  "file_at (Dir es) (p # ps) = Option.bind (map_of es p) (\<lambda>n. file_at n ps)"
  "file_at (File d) [] = Some d" "file_at (File d) (p # ps) = None"
  by (cases "map_of es p"; auto simp: file_at_def)+

lemma file_at_sub:
  "sub_entries es p = Some sub \<Longrightarrow> file_at (Dir es) (p # ps) = file_at (Dir sub) ps"
  by (cases ps) (auto simp: sub_entries_def file_at_simps split: option.splits node.splits)

lemma tree_at_sub:
  "sub_entries es p = Some sub \<Longrightarrow> ps \<noteq> [] \<Longrightarrow> tree_at (Dir es) (p # ps) = tree_at (Dir sub) ps"
  by (cases ps) (auto simp: sub_entries_def split: option.splits node.splits)

text \<open>A file lands at its path unless something is there already; nothing else moves.\<close>

lemma insert_parts_file:
  "insert_parts es parts leaf (File d) = Some es' \<Longrightarrow>
    file_at (Dir es') = (if tree_at (Dir es) (parts @ [leaf]) = None
      then (file_at (Dir es))(parts @ [leaf] \<mapsto> d) else file_at (Dir es))"
proof (induction parts arbitrary: es es')
  case Nil
  then have es': "es' = es @ [(leaf, File d)]" by (simp add: is_dir_def)
  show ?case
  proof (rule ext)
    fix q
    show "file_at (Dir es') q = (if tree_at (Dir es) ([] @ [leaf]) = None
      then (file_at (Dir es))([] @ [leaf] \<mapsto> d) else file_at (Dir es)) q"
      unfolding es'
      by (cases q; cases "map_of es leaf"; cases "tl q")
        (auto simp: file_at_simps map_of_append map_add_def split: option.splits)
  qed
next
  case (Cons part parts)
  from Cons.prems obtain sub sub' where s: "sub_entries es part = Some sub"
    "insert_parts sub parts leaf (File d) = Some sub'" "map_of es' = (map_of es)(part \<mapsto> Dir sub')"
    by (rule insert_parts_map)
  have "sub_entries es' part = Some sub'" using s(3) by (simp add: sub_entries_def)
  note at = file_at_sub [OF this] file_at_sub [OF s(1)] and IH = Cons.IH [OF s(2)]
  have other: "file_at (Dir es') (p # ps) = file_at (Dir es) (p # ps)" if "p \<noteq> part" for p ps
    using that s(3) by (simp add: file_at_simps)
  show ?case
  proof (rule ext)
    fix q
    show "file_at (Dir es') q = (if tree_at (Dir es) ((part # parts) @ [leaf]) = None
      then (file_at (Dir es))((part # parts) @ [leaf] \<mapsto> d) else file_at (Dir es)) q"
    proof (cases q)
      case Nil
      then show ?thesis by (simp add: file_at_simps)
    next
      case q: (Cons p ps)
      then show ?thesis
        using other [of p ps] at [of ps] IH tree_at_sub [OF s(1), of "parts @ [leaf]"]
        by (cases "p = part") auto
    qed
  qed
qed

lemma insert_parts_dir:
  "insert_parts es parts leaf (Dir []) = Some es' \<Longrightarrow> file_at (Dir es') = file_at (Dir es)"
proof (induction parts arbitrary: es es')
  case Nil
  have "list_ex (\<lambda>(n, _). n = leaf) es \<longleftrightarrow> map_of es leaf \<noteq> None"
    by (force simp: list_ex_iff map_of_eq_None_iff)
  with Nil have es': "es' = es \<or> map_of es leaf = None \<and> es' = es @ [(leaf, Dir [])]"
    by (auto simp: is_dir_def)
  show ?case
  proof (rule ext)
    fix q
    show "file_at (Dir es') q = file_at (Dir es) q"
      using es' by (cases q; cases "tl q")
        (auto simp: file_at_simps map_of_append map_add_def split: option.splits)
  qed
next
  case (Cons part parts)
  from Cons.prems obtain sub sub' where s: "sub_entries es part = Some sub"
    "insert_parts sub parts leaf (Dir []) = Some sub'" "map_of es' = (map_of es)(part \<mapsto> Dir sub')"
    by (rule insert_parts_map)
  have "sub_entries es' part = Some sub'" using s(3) by (simp add: sub_entries_def)
  note at = file_at_sub [OF this] file_at_sub [OF s(1)] and IH = Cons.IH [OF s(2)]
  show ?case
  proof (rule ext)
    fix q
    show "file_at (Dir es') q = file_at (Dir es) q"
    proof (cases q)
      case q: (Cons p ps)
      show ?thesis
      proof (cases "p = part")
        case False
        with q s(3) show ?thesis by (simp add: file_at_simps)
      qed (use q at IH in simp)
    qed (simp add: file_at_simps)
  qed
qed

text \<open>The walk panics exactly when it has to enter a file.\<close>

lemma insert_parts_panics:
  "insert_parts es parts leaf nd = None \<longleftrightarrow>
    (\<exists>k d. k < length parts \<and> file_at (Dir es) (take (Suc k) parts) = Some d)"
proof (induction parts arbitrary: es)
  case (Cons part parts)
  have get: "get_or_insert_dir es part \<noteq> None" if "sub_entries es part \<noteq> None"
    using that get_or_insert_dir_panics by metis
  show ?case
  proof (cases "sub_entries es part")
    case None
    then obtain d where "map_of es part = Some (File d)"
      by (auto simp: sub_entries_def split: option.splits node.splits)
    then have "file_at (Dir es) (take (Suc 0) (part # parts)) = Some d" by (simp add: file_at_simps)
    with None show ?thesis unfolding insert_parts_step by (metis bind.bind_lzero length_greater_0_conv list.distinct(1))
  next
    case (Some sub)
    have "insert_parts es (part # parts) leaf nd = None \<longleftrightarrow> insert_parts sub parts leaf nd = None"
      unfolding insert_parts_step using Some get by (auto split: Option.bind_splits)
    also have "\<dots> \<longleftrightarrow> (\<exists>k d. k < length parts \<and> file_at (Dir sub) (take (Suc k) parts) = Some d)"
      by (rule Cons.IH)
    also have "\<dots> \<longleftrightarrow> (\<exists>k d. k < length (part # parts) \<and> file_at (Dir es) (take (Suc k) (part # parts)) = Some d)"
    proof -
      have none: "file_at (Dir es) [part] = None"
        using file_at_sub [OF Some, of "[]"] by (simp add: file_at_simps)
      have "(\<exists>k d. k < length (part # parts) \<and> file_at (Dir es) (take (Suc k) (part # parts)) = Some d)
        \<longleftrightarrow> (\<exists>k d. k < length parts \<and> file_at (Dir es) (take (Suc (Suc k)) (part # parts)) = Some d)"
        using none by (auto simp: less_Suc_eq_0_disj)
      then show ?thesis using file_at_sub [OF Some] by simp
    qed
    finally show ?thesis .
  qed
qed simp


text \<open>The places of the tree are the prefixes of what was inserted.\<close>

lemma tree_at_Some_Dir: "sub_entries es p = Some sub \<Longrightarrow> map_of es p \<noteq> None \<Longrightarrow> tree_at (Dir es) (p # ps) = tree_at (Dir sub) ps"
  by (auto simp: sub_entries_def split: option.splits node.splits)

lemma insert_parts_tree:
  assumes "nd = File d \<or> nd = Dir []"
  shows "insert_parts es parts leaf nd = Some es' \<Longrightarrow>
    tree_at (Dir es') q \<noteq> None \<longleftrightarrow> tree_at (Dir es) q \<noteq> None \<or> prefix q (parts @ [leaf])"
proof (induction parts arbitrary: es es' q)
  case Nil
  have "list_ex (\<lambda>(n, _). n = leaf) es \<longleftrightarrow> map_of es leaf \<noteq> None"
    by (force simp: list_ex_iff map_of_eq_None_iff)
  with Nil have es': "es' = es \<and> map_of es leaf \<noteq> None \<or> es' = es @ [(leaf, nd)]"
    by (auto simp: split: if_splits)
  show ?case
  proof (cases q)
    case (Cons p ps)
    show ?thesis
    proof (cases "map_of es leaf")
      case None
      with es' assms Cons show ?thesis
        by (cases ps; cases "p = leaf"; cases "map_of es p") (auto simp: map_of_append map_add_def)
    next
      case (Some n)
      with es' assms Cons show ?thesis
        by (cases ps; cases "p = leaf"; cases "map_of es p") (auto simp: map_of_append map_add_def)
    qed
  qed simp
next
  case (Cons part parts)
  from Cons.prems obtain sub sub' where s: "sub_entries es part = Some sub"
    "insert_parts sub parts leaf nd = Some sub'" "map_of es' = (map_of es)(part \<mapsto> Dir sub')"
    by (rule insert_parts_map)
  note IH = Cons.IH [OF s(2)]
  show ?case
  proof (cases q)
    case q: (Cons p ps)
    show ?thesis
    proof (cases "p = part")
      case True
      have new: "tree_at (Dir es') q = tree_at (Dir sub') ps" using s(3) q True by simp
      show ?thesis
      proof (cases "map_of es part")
        case None
        then have "sub = []" using s(1) by (simp add: sub_entries_def)
        with None new IH [of ps] q True show ?thesis by (cases ps) auto
      next
        case (Some n)
        with tree_at_Some_Dir [OF s(1), of ps] new IH [of ps] q True show ?thesis by simp
      qed
    next
      case False
      with s(3) q show ?thesis by simp
    qed
  qed simp
qed

section \<open>Properties\<close>

text \<open>
  C19: Inserting a file at a path of the ramdisk tree gives the tree whose files are the old ones
  and the new one at its path, or the old ones alone if the path already names something (the
  first entry of an archive wins) or has no component; it panics exactly when a proper prefix of
  the path names a file.
\<close>

theorem ramfs_insert_files:
  "case ramfs_insert root path (File d) of
     Some root' \<Rightarrow>
       file_at (Dir root') = (if components path = [] \<or> tree_at (Dir root) (components path) \<noteq> None
         then file_at (Dir root) else (file_at (Dir root))(components path \<mapsto> d))
   | None \<Rightarrow> \<exists>k < length (components path) - 1. file_at (Dir root) (take (Suc k) (components path)) \<noteq> None"
proof (cases "components path = []")
  case False
  let ?ps = "components path"
  have ps: "butlast ?ps @ [last ?ps] = ?ps" using False by simp
  show ?thesis
  proof (cases "insert_parts root (butlast ?ps) (last ?ps) (File d)")
    case None
    then obtain k where k: "k < length (butlast ?ps)" "file_at (Dir root) (take (Suc k) (butlast ?ps)) \<noteq> None"
      unfolding insert_parts_panics by blast
    then have "take (Suc k) (butlast ?ps) = take (Suc k) ?ps" by (simp add: take_butlast)
    with k None False show ?thesis by (auto simp: ramfs_insert_def)
  next
    case (Some root')
    with insert_parts_file [OF Some] False ps show ?thesis by (simp add: ramfs_insert_def)
  qed
qed (simp add: ramfs_insert_def)


theorem ramfs_insert_files_witness:
  "(\<exists>k < length (components (lit ''a/b'')) - 1.
      file_at (Dir [(lit ''a'', File [1])]) (take (Suc k) (components (lit ''a/b''))) \<noteq> None)
   \<and> ramfs_insert [(lit ''a'', File [1])] (lit ''a/b'') (File [2]) = None"
proof -
  have "ramfs_insert [(lit ''a'', File [1])] (lit ''a/b'') (File [2]) = None"
    by (simp add: ramfs_insert_def components_def get_or_insert_dir_def)
  with ramfs_insert_files [where root = "[(lit ''a'', File [1])]" and path = "lit ''a/b''" and d = "[2]"]
  show ?thesis by (simp only: option.case simp_thms)
qed

end
