(* ===== verification/Ustar.thy ===== *)
theory Ustar
  imports RamfsTree
begin

text \<open>
  The ustar parser of kernel/src/ramfs.rs.  Offsets are natural numbers: a size field is twelve
  octal digits at most, so no sum the parser forms reaches \<open>2 ^ 64\<close> for an archive that fits in
  memory.
\<close>

section \<open>Fields of a header\<close>

definition BLOCK :: nat where "BLOCK = 512"
definition NAME_OFF :: nat where "NAME_OFF = 0"
definition NAME_LEN :: nat where "NAME_LEN = 100"
definition SIZE_OFF :: nat where "SIZE_OFF = 124"
definition SIZE_LEN :: nat where "SIZE_LEN = 12"
definition TYPE_OFF :: nat where "TYPE_OFF = 156"
definition MAGIC_OFF :: nat where "MAGIC_OFF = 257"
definition MAGIC :: "u8 list" where "MAGIC = [0x75, 0x73, 0x74, 0x61, 0x72]"

lemmas header_layout = BLOCK_def NAME_OFF_def NAME_LEN_def SIZE_OFF_def SIZE_LEN_def TYPE_OFF_def
  MAGIC_OFF_def

text \<open>\<open>usize::from_str_radix(_, 8)\<close>: digits with an optional plus sign, refusing overflow.\<close>

fun octal_loop :: "nat \<Rightarrow> str \<Rightarrow> nat option" where
  "octal_loop acc [] = Some acc"
| "octal_loop acc (c # s) =
     (if 48 \<le> c \<and> c \<le> 55 \<and> acc * 8 + (c - 48) < 2 ^ 64 then octal_loop (acc * 8 + (c - 48)) s else None)"

definition from_str_radix_8 :: "str \<Rightarrow> nat option" where
  "from_str_radix_8 s =
     (case s of
        [] \<Rightarrow> None
      | c # r \<Rightarrow> if c = cp (CHR ''+'') then (if r = [] then None else octal_loop 0 r) else octal_loop 0 s)"

definition parse_octal :: "u8 list \<Rightarrow> nat" where
  "parse_octal bytes =
     (let s = (case from_utf8 bytes of Some s \<Rightarrow> s | None \<Rightarrow> lit ''0'')
      in case from_str_radix_8 (trim (trim_char 0 s)) of Some n \<Rightarrow> n | None \<Rightarrow> 0)"

definition trim_nul :: "u8 list \<Rightarrow> u8 list option" where
  "trim_nul bytes =
     (let e = (case position (\<lambda>b. b = 0) bytes of None \<Rightarrow> length bytes | Some i \<Rightarrow> i) in slice 0 e bytes)"

text \<open>\<open>trim_start_matches("./")\<close>.\<close>

fun trim_dot_slash :: "str \<Rightarrow> str" where
  "trim_dot_slash (a # b # s) = (if a = 46 \<and> b = 47 then trim_dot_slash s else a # b # s)"
| "trim_dot_slash s = s"

definition entry_name :: "u8 list \<Rightarrow> str option" where
  "entry_name header =
     do { field \<leftarrow> slice NAME_OFF (NAME_OFF + NAME_LEN) header;
          bytes \<leftarrow> trim_nul field;
          Some (trim_dot_slash (trim_char SLASH (case from_utf8 bytes of Some s \<Rightarrow> s | None \<Rightarrow> []))) }"

section \<open>The loop over the archive\<close>

text \<open>What one entry adds to the tree, its data being looked up after its header.\<close>

definition add_entry :: "u8 list \<Rightarrow> nat \<Rightarrow> str \<Rightarrow> nat \<Rightarrow> u8 \<Rightarrow> entries \<Rightarrow> entries option" where
  "add_entry data offset name sz ttype root =
     (if name \<noteq> [] \<and> name \<noteq> lit ''.'' then
        do { data_slice \<leftarrow> (if sz > 0 \<and> offset + sz \<le> length data then slice offset (offset + sz) data else Some []);
             ramfs_insert root name (if ttype = 0x35 then Dir [] else File data_slice) }
      else Some root)"

function ustar_loop :: "u8 list \<Rightarrow> nat \<Rightarrow> entries \<Rightarrow> entries option" where
  "ustar_loop data offset root =
     (if offset + BLOCK \<le> length data then
        do { header \<leftarrow> slice offset (offset + BLOCK) data;
             (if list_all (\<lambda>b. b = 0) header then Some root
              else do {
                magic \<leftarrow> slice MAGIC_OFF (MAGIC_OFF + length MAGIC) header;
                (if magic \<noteq> MAGIC then Some root
                 else do {
                   name \<leftarrow> entry_name header;
                   size_field \<leftarrow> slice SIZE_OFF (SIZE_OFF + SIZE_LEN) header;
                   ttype \<leftarrow> get_at header TYPE_OFF;
                   root \<leftarrow> add_entry data (offset + BLOCK) name (parse_octal size_field) ttype root;
                   ustar_loop data
                     (offset + BLOCK + (parse_octal size_field + BLOCK - 1) div BLOCK * BLOCK) root }) }) }
      else Some root)"
  by pat_completeness auto
termination
  by (relation "measure (\<lambda>(data, offset, root). length data + 1 - offset)") (auto simp: BLOCK_def)

definition parse_ustar :: "u8 list \<Rightarrow> entries option" where
  "parse_ustar data = ustar_loop data 0 []"

text \<open>\<open>try_slice\<close> and \<open>init\<close>: the archive is looked for at the given address, then above the
  physical-memory offset; \<open>at\<close> gives the bytes at an address.\<close>

definition try_slice :: "(nat \<Rightarrow> u8 list) \<Rightarrow> nat \<Rightarrow> nat \<Rightarrow> (u8 list \<times> nat) option option" where
  "try_slice at virt len =
     (if len < BLOCK + length MAGIC then Some None
      else do { magic \<leftarrow> slice MAGIC_OFF (MAGIC_OFF + length MAGIC) (at virt);
                Some (if magic = MAGIC then Some (at virt, virt) else None) })"

definition ramfs_init :: "(nat \<Rightarrow> u8 list) \<Rightarrow> nat \<Rightarrow> nat \<Rightarrow> nat \<Rightarrow> vnode option \<Rightarrow> vnode option option" where
  "ramfs_init at ramdisk_addr ramdisk_len phys_off mounted =
     (if ramdisk_len = 0 then Some mounted
      else do {
        first \<leftarrow> try_slice at ramdisk_addr ramdisk_len;
        found \<leftarrow> (case first of Some v \<Rightarrow> Some (Some v)
                   | None \<Rightarrow> try_slice at (ramdisk_addr + phys_off) ramdisk_len);
        (case found of
           None \<Rightarrow> Some mounted
         | Some (bytes, virt) \<Rightarrow>
             do { root \<leftarrow> parse_ustar bytes; Some (vfs_mount (to_vnode (Dir root))) }) })"

declare ustar_loop.simps [simp del]

section \<open>Archives\<close>

text \<open>
  A header as tar writes it, with whatever its other fields hold, and an archive of files and
  directories: each data block is padded to a multiple of 512, and two zero blocks end it.
\<close>

fun octal_digits :: "nat \<Rightarrow> nat \<Rightarrow> u8 list" where
  "octal_digits 0 n = []"
| "octal_digits (Suc k) n = octal_digits k (n div 8) @ [of_nat (48 + n mod 8)]"

record tar_entry =
  te_name :: str
  te_data :: "u8 list option"
  te_mode :: "u8 list"
  te_mtime :: "u8 list"
  te_link :: "u8 list"
  te_rest :: "u8 list"

definition te_bytes :: "tar_entry \<Rightarrow> u8 list" where
  "te_bytes e = (case te_data e of Some d \<Rightarrow> d | None \<Rightarrow> [])"

definition tar_header :: "tar_entry \<Rightarrow> u8 list" where
  "tar_header e =
     as_bytes (te_name e) @ replicate (NAME_LEN - byte_len (te_name e)) 0
     @ te_mode e
     @ octal_digits 11 (length (te_bytes e)) @ [0]
     @ te_mtime e
     @ [if te_data e = None then 0x35 else 0x30]
     @ te_link e
     @ MAGIC
     @ te_rest e"

definition padding :: "nat \<Rightarrow> nat" where
  "padding n = (n + BLOCK - 1) div BLOCK * BLOCK - n"

definition tar_member :: "tar_entry \<Rightarrow> u8 list" where
  "tar_member e = tar_header e @ te_bytes e @ replicate (padding (length (te_bytes e))) 0"

definition tar_archive :: "tar_entry list \<Rightarrow> u8 list" where
  "tar_archive es = concat (map tar_member es) @ replicate (2 * BLOCK) 0"

definition entry_ok :: "tar_entry \<Rightarrow> bool" where
  "entry_ok e \<longleftrightarrow>
     list_all scalar (te_name e) \<and> 0 \<notin> set (te_name e) \<and> byte_len (te_name e) \<le> NAME_LEN
   \<and> te_name e \<noteq> [] \<and> trim_dot_slash (trim_char SLASH (te_name e)) = te_name e \<and> te_name e \<noteq> lit ''.''
   \<and> length (te_bytes e) < 8 ^ 11
   \<and> length (te_mode e) = 24 \<and> length (te_mtime e) = 20 \<and> length (te_link e) = 100 \<and> length (te_rest e) = 250"

text \<open>No file stands in the way of another entry.\<close>

definition te_path :: "tar_entry \<Rightarrow> str list" where
  "te_path e = components (te_name e)"

definition no_conflict :: "tar_entry \<Rightarrow> tar_entry \<Rightarrow> bool" where
  "no_conflict e f \<longleftrightarrow> (te_data e \<noteq> None \<longrightarrow> \<not> prefix (te_path e) (te_path f))
     \<and> (te_data f \<noteq> None \<longrightarrow> \<not> prefix (te_path f) (te_path e))"

end
