(* ===== verification/UstarArchive.thy ===== *)
theory UstarArchive
  imports Ustar
begin

text \<open>
  Parsing an archive that tar wrote gives back its files: the fields of a header round trip, the
  loop visits the members in order, and the tree built has exactly the archive's files.
\<close>

section \<open>Fields\<close>

lemma slice_at: "lo = length a \<Longrightarrow> hi = lo + length b \<Longrightarrow> slice lo hi (a @ b @ c) = Some b"
  by (simp add: slice_def)

lemma get_at_append: "get_at (a @ x # c) (length a) = Some x"
  by (simp add: nth_append)

lemma octal_loop_append:
  "octal_loop acc (s @ t) = Option.bind (octal_loop acc s) (\<lambda>a. octal_loop a t)"
  by (induction acc s rule: octal_loop.induct) auto

lemma octal_loop_digits:
  "n < 8 ^ k \<Longrightarrow> acc * 8 ^ k + n < 2 ^ 64 \<Longrightarrow>
    octal_loop acc (map unat (octal_digits k n)) = Some (acc * 8 ^ k + n)"
proof (induction k arbitrary: n)
  case (Suc k)
  have step: "(acc * 8 ^ k + n div 8) * 8 + n mod 8 = acc * 8 ^ Suc k + n"
    by (simp add: algebra_simps)
  have "acc * 8 ^ k + n div 8 \<le> (acc * 8 ^ k + n div 8) * 8 + n mod 8" by simp
  then have "acc * 8 ^ k + n div 8 < 2 ^ 64" unfolding step using Suc.prems(2) by (rule le_less_trans)
  moreover have "n div 8 < 8 ^ k" using Suc.prems(1) by (simp add: less_mult_imp_div_less mult.commute)
  ultimately have "octal_loop acc (map unat (octal_digits k (n div 8))) = Some (acc * 8 ^ k + n div 8)"
    by (rule Suc.IH [rotated])
  moreover have "unat (word_of_nat (48 + n mod 8) :: u8) = 48 + n mod 8"
    by (rule unat_byte) (simp add: less_le_trans [OF mod_less_divisor [of 8 n]])
  ultimately show ?case using step Suc.prems(2) by (simp add: octal_loop_append del: of_nat_add)
qed simp

lemma octal_digits_range: "list_all (\<lambda>b. 48 \<le> unat b \<and> unat b \<le> 55) (octal_digits k n)"
proof (induction k arbitrary: n)
  case (Suc k)
  have "unat (word_of_nat (48 + n mod 8) :: u8) = 48 + n mod 8"
    by (rule unat_byte) (simp add: less_le_trans [OF mod_less_divisor [of 8 n]])
  with Suc show ?case by (simp del: of_nat_add)
qed simp

lemma length_octal_digits [simp]: "length (octal_digits k n) = k"
  by (induction k n rule: octal_digits.induct) auto

lemma trim_digits:
  assumes "s \<noteq> []" "list_all (\<lambda>c. 48 \<le> c \<and> c \<le> 55) s"
  shows "trim (trim_char 0 (s @ [0])) = s"
proof -
  obtain a r where a: "s = a # r" using assms(1) by (cases s) auto
  obtain t b where b: "s = t @ [b]" using assms(1) by (cases s rule: rev_cases) auto
  have "a \<in> set s" using a by simp
  moreover have "b \<in> set s" using b by simp
  ultimately have ab: "48 \<le> a" "a \<le> 55" "48 \<le> b" "b \<le> 55"
    using assms(2) unfolding list_all_iff by blast+
  then have ws: "\<not> is_whitespace a" "\<not> is_whitespace b" by (simp_all add: is_whitespace_def)
  have "dropWhile (\<lambda>x. x = 0) (s @ [0]) = s @ [0]" using a ab by simp
  then have "trim_char 0 (s @ [0]) = s" using b ab by (simp add: trim_char_def trim_end_char_def)
  moreover have "trim_start s = s" using a ws by (simp add: trim_start_def)
  moreover have "trim_end s = s" using b ws by (simp add: trim_end_def)
  ultimately show ?thesis by (simp add: trim_def)
qed

lemma parse_octal_digits:
  assumes "n < 8 ^ Suc k" "Suc k \<le> 20"
  shows "parse_octal (octal_digits (Suc k) n @ [0]) = n"
proof -
  obtain ds where ds: "ds = octal_digits (Suc k) n" by simp
  have digits: "list_all (\<lambda>b. 48 \<le> unat b \<and> unat b \<le> 55) ds" unfolding ds by (rule octal_digits_range)
  then have range: "list_all (\<lambda>c. 48 \<le> c \<and> c \<le> 55) (map unat ds)" by (simp add: list_all_iff)
  have ne: "map unat ds \<noteq> []" by (simp add: ds)
  have "list_all (\<lambda>b. unat b < 0x80) (ds @ [0])" using digits by (auto simp: list_all_iff)
  from from_utf8_ascii [OF this] have utf8: "from_utf8 (ds @ [0]) = Some (map unat ds @ [0])" by simp
  have "8 ^ Suc k \<le> (8 :: nat) ^ 20" using assms(2) by (rule power_increasing) simp
  then have "n < 2 ^ 64" using assms(1) by simp
  then have loop: "octal_loop 0 (map unat ds) = Some n"
    unfolding ds using octal_loop_digits [OF assms(1), of 0] by (simp del: octal_digits.simps)
  have "hd (map unat ds) \<noteq> cp (CHR ''+'')" using ne range by (cases ds) auto
  then have "from_str_radix_8 (map unat ds) = Some n"
    using ne loop by (auto simp: from_str_radix_8_def split: list.splits)
  then show ?thesis
    unfolding ds [symmetric] by (simp add: parse_octal_def utf8 trim_digits [OF ne range])
qed

lemma as_bytes_no_nul:
  assumes "list_all scalar s" "0 \<notin> set s"
  shows "0 \<notin> set (as_bytes s)"
proof -
  have "0 \<notin> set (utf8_char c)" if "scalar c" "c \<noteq> 0" for c
  proof -
    have c: "c \<le> 0x10FFFF" using that(1) by (auto simp: scalar_def)
    have byte: "(word_of_nat n :: u8) \<noteq> 0" if "0 < n" "n < 256" for n
      using that unat_byte [of n] by (metis less_numeral_extra(3) unat_0)
    have "c div 64 < 32" if "c < 0x800" using that by auto
    moreover have "c div 4096 < 16" if "c < 0x10000" using that by auto
    moreover have "c div 262144 < 8" using c by auto
    moreover have "x mod 64 < 64" for x :: nat by simp
    ultimately show ?thesis
      using byte that(2) by (auto simp: utf8_char_def simp del: of_nat_add of_nat_mod of_nat_div)
  qed
  then show ?thesis using assms by (auto simp: as_bytes_def list_all_iff)
qed

lemma trim_nul_padded: "0 \<notin> set bs \<Longrightarrow> trim_nul (bs @ replicate k 0) = Some bs"
proof -
  assume bs: "0 \<notin> set bs"
  let ?l = "bs @ replicate k 0"
  have "takeWhile (\<lambda>b. b \<noteq> 0) ?l = bs"
    using bs by (induction bs) (auto intro: takeWhile_eq_Nil_iff [THEN iffD2] simp: Suc_le_eq)
  moreover have "(case position (\<lambda>b. b = 0) ?l of None \<Rightarrow> length ?l | Some i \<Rightarrow> i)
      = length (takeWhile (\<lambda>b. b \<noteq> 0) ?l)"
    by (rule position_takeWhile_length)
  ultimately show ?thesis by (simp add: trim_nul_def Let_def)
qed

lemma length_tar_header: "entry_ok e \<Longrightarrow> length (tar_header e) = BLOCK"
  by (simp add: tar_header_def entry_ok_def length_as_bytes header_layout MAGIC_def)

lemma header_fields:
  assumes ok: "entry_ok e"
  shows "slice MAGIC_OFF (MAGIC_OFF + length MAGIC) (tar_header e) = Some MAGIC"
    and "slice SIZE_OFF (SIZE_OFF + SIZE_LEN) (tar_header e) = Some (octal_digits 11 (length (te_bytes e)) @ [0])"
    and "get_at (tar_header e) TYPE_OFF = Some (if te_data e = None then 0x35 else 0x30)"
    and "slice NAME_OFF (NAME_OFF + NAME_LEN) (tar_header e)
      = Some (as_bytes (te_name e) @ replicate (NAME_LEN - byte_len (te_name e)) 0)"
proof -
  let ?nm = "as_bytes (te_name e) @ replicate (NAME_LEN - byte_len (te_name e)) (0 :: u8)"
  let ?sz = "octal_digits 11 (length (te_bytes e)) @ [0]"
  let ?ty = "[if te_data e = None then 0x35 else 0x30 :: u8]"
  have len: "length ?nm = 100" using ok by (simp add: entry_ok_def length_as_bytes NAME_LEN_def)
  have rest: "length (te_mode e) = 24" "length (te_mtime e) = 20" "length (te_link e) = 100"
    using ok by (simp_all add: entry_ok_def)
  show "slice MAGIC_OFF (MAGIC_OFF + length MAGIC) (tar_header e) = Some MAGIC"
    using slice_at [of MAGIC_OFF "?nm @ te_mode e @ ?sz @ te_mtime e @ ?ty @ te_link e"
        "MAGIC_OFF + length MAGIC" MAGIC "te_rest e"] len rest
    by (simp add: tar_header_def MAGIC_OFF_def)
  show "slice SIZE_OFF (SIZE_OFF + SIZE_LEN) (tar_header e) = Some ?sz"
    using slice_at [of SIZE_OFF "?nm @ te_mode e" "SIZE_OFF + SIZE_LEN" ?sz
        "te_mtime e @ ?ty @ te_link e @ MAGIC @ te_rest e"] len rest
    by (simp add: tar_header_def header_layout)
  have "length (?nm @ te_mode e @ ?sz @ te_mtime e) = TYPE_OFF"
    using len rest by (simp add: TYPE_OFF_def)
  with get_at_append [of "?nm @ te_mode e @ ?sz @ te_mtime e" "hd ?ty" "te_link e @ MAGIC @ te_rest e"]
  show "get_at (tar_header e) TYPE_OFF = Some (if te_data e = None then 0x35 else 0x30)"
    by (simp only: tar_header_def append_assoc append_Cons append_Nil list.sel)
  show "slice NAME_OFF (NAME_OFF + NAME_LEN) (tar_header e) = Some ?nm"
    using slice_at [of NAME_OFF "[]" "NAME_OFF + NAME_LEN" ?nm
        "te_mode e @ ?sz @ te_mtime e @ ?ty @ te_link e @ MAGIC @ te_rest e"] len
    by (simp add: tar_header_def NAME_OFF_def NAME_LEN_def)
qed

lemma entry_name_header: "entry_ok e \<Longrightarrow> entry_name (tar_header e) = Some (te_name e)"
  using header_fields(4) [of e]
  by (simp add: entry_name_def trim_nul_padded as_bytes_no_nul from_utf8_as_bytes entry_ok_def)

lemma header_not_zero: "entry_ok e \<Longrightarrow> \<not> list_all (\<lambda>b. b = 0) (tar_header e)"
  by (simp add: tar_header_def MAGIC_def)


section \<open>The loop\<close>

definition insert_entry :: "tar_entry \<Rightarrow> entries \<Rightarrow> entries option" where
  "insert_entry e root =
     ramfs_insert root (te_name e) (case te_data e of None \<Rightarrow> Dir [] | Some d \<Rightarrow> File d)"

fun insert_all :: "tar_entry list \<Rightarrow> entries \<Rightarrow> entries option" where
  "insert_all [] root = Some root"
| "insert_all (e # es) root = do { root \<leftarrow> insert_entry e root; insert_all es root }"

lemma round_up_ge: "n \<le> (n + BLOCK - 1) div BLOCK * BLOCK"
proof -
  have "n + 511 = (n + 511) div 512 * 512 + (n + 511) mod 512" by simp
  moreover have "(n + 511) mod 512 < (512 :: nat)" by simp
  ultimately have "n \<le> (n + 511) div 512 * 512" by linarith
  then show ?thesis by (simp add: BLOCK_def)
qed

lemma length_tar_member:
  "entry_ok e \<Longrightarrow> length (tar_member e) = BLOCK + (length (te_bytes e) + BLOCK - 1) div BLOCK * BLOCK"
  using round_up_ge [of "length (te_bytes e)"] by (simp add: tar_member_def length_tar_header padding_def)

lemma add_entry_member:
  assumes "entry_ok e"
  shows "add_entry (pre @ tar_member e @ rest) (length pre + BLOCK) (te_name e) (length (te_bytes e))
      (if te_data e = None then 0x35 else 0x30) root = insert_entry e root"
proof -
  have data: "slice (length pre + BLOCK) (length pre + BLOCK + length (te_bytes e)) (pre @ tar_member e @ rest)
      = Some (te_bytes e)"
    using slice_at [of "length pre + BLOCK" "pre @ tar_header e" "length pre + BLOCK + length (te_bytes e)"
        "te_bytes e" "replicate (padding (length (te_bytes e))) 0 @ rest"] length_tar_header [OF assms]
    by (simp add: tar_member_def)
  have "length pre + BLOCK + length (te_bytes e) \<le> length (pre @ tar_member e @ rest)"
    using length_tar_header [OF assms] by (simp add: tar_member_def)
  with data assms show ?thesis
    by (cases "te_data e") (auto simp: add_entry_def insert_entry_def te_bytes_def entry_ok_def)
qed

lemma parse_member:
  assumes "entry_ok e"
  shows "ustar_loop (pre @ tar_member e @ rest) (length pre) root
    = do { root \<leftarrow> insert_entry e root;
           ustar_loop ((pre @ tar_member e) @ rest) (length (pre @ tar_member e)) root }"
proof -
  let ?data = "pre @ tar_member e @ rest"
  have hdr: "slice (length pre) (length pre + BLOCK) ?data = Some (tar_header e)"
    using slice_at [of "length pre" pre "length pre + BLOCK" "tar_header e"] length_tar_header [OF assms]
    by (simp add: tar_member_def)
  have len: "length pre + BLOCK \<le> length ?data"
    using length_tar_header [OF assms] by (simp add: tar_member_def)
  have eleven: "(11 :: nat) = Suc 10" by simp
  have sz: "parse_octal (octal_digits 11 (length (te_bytes e)) @ [0]) = length (te_bytes e)"
    unfolding eleven by (rule parse_octal_digits) (use assms in \<open>simp_all add: entry_ok_def\<close>)
  have next': "length pre + BLOCK + (length (te_bytes e) + BLOCK - 1) div BLOCK * BLOCK = length (pre @ tar_member e)"
    using length_tar_member [OF assms] by simp
  show ?thesis
    by (subst ustar_loop.simps)
      (simp only: len hdr header_not_zero [OF assms] header_fields [OF assms] entry_name_header [OF assms] sz
        add_entry_member [OF assms] next' Option.bind_lunit if_True if_False append_assoc simp_thms)
qed

lemma parse_end: "ustar_loop (pre @ replicate (2 * BLOCK) 0) (length pre) root = Some root"
proof -
  have "slice (length pre) (length pre + BLOCK) (pre @ replicate (2 * BLOCK) 0) = Some (replicate BLOCK 0)"
    by (simp add: slice_def)
  then show ?thesis by (subst ustar_loop.simps) (simp add: list_all_iff)
qed

lemma parse_members:
  "list_all entry_ok es \<Longrightarrow> ustar_loop (pre @ tar_archive es) (length pre) root = insert_all es root"
proof (induction es arbitrary: pre root)
  case Nil
  show ?case using parse_end [of pre root] by (simp add: tar_archive_def)
next
  case (Cons e es)
  have split: "tar_archive (e # es) = tar_member e @ tar_archive es" by (simp add: tar_archive_def)
  have ok: "entry_ok e" "list_all entry_ok es" using Cons.prems by simp_all
  show ?case unfolding split parse_member [OF ok(1)] Cons.IH [OF ok(2)] by simp
qed

lemma parse_ustar_archive: "list_all entry_ok es \<Longrightarrow> parse_ustar (tar_archive es) = insert_all es []"
  using parse_members [of es "[]" "[]"] by (simp add: parse_ustar_def)

section \<open>The tree\<close>

text \<open>The tree holds the members of \<open>members\<close>: their paths and what lies above, and their data.\<close>

definition holds :: "entries \<Rightarrow> tar_entry set \<Rightarrow> bool" where
  "holds root members \<longleftrightarrow>
     (\<forall>q. tree_at (Dir root) q \<noteq> None \<longleftrightarrow> q = [] \<or> (\<exists>e \<in> members. prefix q (te_path e)))
   \<and> (\<forall>q d. file_at (Dir root) q = Some d \<longleftrightarrow> (\<exists>e \<in> members. te_path e = q \<and> te_data e = Some d))"

lemma holds_empty: "holds [] {}"
proof -
  have "tree_at (Dir []) q \<noteq> None \<longleftrightarrow> q = []" "file_at (Dir []) q = None" for q
    by (cases q; simp add: file_at_simps)+
  then show ?thesis by (simp add: holds_def)
qed

lemma join_blank: "\<forall>p \<in> set ps. p = [] \<Longrightarrow> set (join_with c ps) \<subseteq> {c}"
  by (induction c ps rule: join_with.induct) auto

lemma dropWhile_slash_name:
  assumes "trim_dot_slash (trim_char SLASH n) = n" "n \<noteq> []"
  shows "components n \<noteq> []"
proof
  assume none: "components n = []"
  have "\<forall>p \<in> set (split_on SLASH n). p = []"
    using none by (auto simp: components_def filter_empty_conv)
  then have "set (join_with SLASH (split_on SLASH n)) \<subseteq> {SLASH}" by (rule join_blank)
  then have "\<forall>x \<in> set n. x = SLASH" by (auto simp: join_split)
  then have "dropWhile (\<lambda>x. x = SLASH) n = []" by simp
  then have "trim_char SLASH n = []" by (simp only: trim_char_def trim_end_char_def rev.simps dropWhile.simps)
  with assms show False by simp
qed

lemma holds_insert:
  assumes holds: "holds root members" and path: "te_path e \<noteq> []" and apart: "\<forall>f \<in> members. no_conflict f e"
  shows "\<exists>root'. insert_entry e root = Some root' \<and> holds root' (insert e members)"
proof -
  let ?ps = "te_path e" and ?nd = "case te_data e of None \<Rightarrow> Dir [] | Some d \<Rightarrow> File d"
  have ps: "butlast ?ps @ [last ?ps] = ?ps" using path by simp
  have ins: "insert_entry e root = insert_parts root (butlast ?ps) (last ?ps) ?nd"
    using path by (simp add: insert_entry_def ramfs_insert_def te_path_def Let_def)
  have "insert_parts root (butlast ?ps) (last ?ps) ?nd \<noteq> None"
  proof
    assume "insert_parts root (butlast ?ps) (last ?ps) ?nd = None"
    then obtain k d where k: "file_at (Dir root) (take (Suc k) (butlast ?ps)) = Some d"
      unfolding insert_parts_panics by blast
    then obtain f where f: "f \<in> members" "te_path f = take (Suc k) (butlast ?ps)" "te_data f = Some d"
      using holds by (auto simp: holds_def)
    then have "prefix (te_path f) ?ps"
      using ps take_is_prefix [of "Suc k" "butlast ?ps"] prefix_append [of "te_path f" "butlast ?ps"]
      by (metis prefix_order.trans prefixI)
    with f apart show False by (auto simp: no_conflict_def)
  qed
  then obtain root' where r: "insert_parts root (butlast ?ps) (last ?ps) ?nd = Some root'" by blast
  obtain d0 where nd: "?nd = File d0 \<or> ?nd = Dir []" by (cases "te_data e") auto
  have tree: "tree_at (Dir root') q \<noteq> None \<longleftrightarrow> tree_at (Dir root) q \<noteq> None \<or> prefix q ?ps" for q
    using insert_parts_tree [OF nd r] unfolding ps by blast
  have files: "file_at (Dir root') q = Some d \<longleftrightarrow> (\<exists>f \<in> insert e members. te_path f = q \<and> te_data f = Some d)" for q d
  proof (cases "te_data e")
    case None
    with r insert_parts_dir [of root "butlast ?ps" "last ?ps" root'] holds show ?thesis
      by (auto simp: holds_def)
  next
    case (Some x)
    have free: "\<not> (\<exists>f \<in> members. prefix ?ps (te_path f))" using apart Some by (auto simp: no_conflict_def)
    with holds path have "tree_at (Dir root) ?ps = None" by (auto simp: holds_def)
    with insert_parts_file [of root "butlast ?ps" "last ?ps" x root'] r Some ps
    have "file_at (Dir root') = (file_at (Dir root))(?ps \<mapsto> x)" by simp
    with holds free Some show ?thesis by (auto simp: holds_def)
  qed
  have "holds root' (insert e members)"
    unfolding holds_def
  proof (intro conjI allI)
    fix q d
    have "tree_at (Dir root) q \<noteq> None \<longleftrightarrow> q = [] \<or> (\<exists>f \<in> members. prefix q (te_path f))"
      using holds unfolding holds_def by blast
    with tree [of q] show "tree_at (Dir root') q \<noteq> None \<longleftrightarrow> q = [] \<or> (\<exists>f \<in> insert e members. prefix q (te_path f))"
      by blast
    show "file_at (Dir root') q = Some d \<longleftrightarrow> (\<exists>f \<in> insert e members. te_path f = q \<and> te_data f = Some d)"
      by (rule files)
  qed
  with ins r show ?thesis by auto
qed

lemma holds_insert_all:
  "holds root members \<Longrightarrow> list_all (\<lambda>e. te_path e \<noteq> []) es \<Longrightarrow> sorted_wrt no_conflict es \<Longrightarrow>
    (\<forall>f \<in> members. \<forall>e \<in> set es. no_conflict f e) \<Longrightarrow>
    \<exists>root'. insert_all es root = Some root' \<and> holds root' (members \<union> set es)"
proof (induction es arbitrary: root members)
  case (Cons e es)
  from holds_insert [OF Cons.prems(1), of e] Cons.prems(2,4)
  obtain root1 where r1: "insert_entry e root = Some root1" "holds root1 (insert e members)" by auto
  from Cons.IH [OF r1(2)] Cons.prems r1(1) show ?case by auto
qed auto

section \<open>Properties\<close>

text \<open>
  C11: Parsing inverts archiving: from any ustar archive of files and directories whose entries
  do not use a file as a directory or name a file twice, the parser builds, without a panic, a
  tree whose files are exactly the archive's, byte for byte, and the mounted root reads each of
  them at its path.
\<close>

theorem ustar_roundtrip:
  assumes "list_all entry_ok es" "sorted_wrt no_conflict es"
  shows "\<exists>root. parse_ustar (tar_archive es) = Some root
    \<and> {(q, d). file_at (Dir root) q = Some d} = {(te_path e, d) | e d. e \<in> set es \<and> te_data e = Some d}
    \<and> list_all (\<lambda>e. case te_data e of None \<Rightarrow> True | Some d \<Rightarrow>
         read_file_str v_kind v_size v_read v_lookup (vfs_mount (to_vnode (Dir root))) (te_name e) = Some (from_utf8 d)) es"
proof -
  have paths: "list_all (\<lambda>e. te_path e \<noteq> []) es"
    using assms(1) dropWhile_slash_name by (auto simp: list_all_iff te_path_def entry_ok_def)
  from holds_insert_all [OF holds_empty paths assms(2)] obtain root where
    root: "insert_all es [] = Some root" "holds root (set es)" by auto
  have vok: "v_ok (to_vnode (Dir root))" using to_vnode_tree [of "Dir root"] by simp
  have view: "v_view (to_vnode (Dir root)) = Dir root" by (rule v_view_to_vnode)
  have "read_file_str v_kind v_size v_read v_lookup (vfs_mount (to_vnode (Dir root))) (te_name e) = Some (from_utf8 d)"
    if "e \<in> set es" "te_data e = Some d" for e d
  proof -
    have "file_at (Dir root) (te_path e) = Some d" using root(2) that by (auto simp: holds_def)
    moreover have "components (te_name e) \<noteq> []" using paths that by (auto simp: list_all_iff te_path_def)
    ultimately show ?thesis
      using ramfs.read_file_law [OF vok] unfolding view vfs_mount_def te_path_def by simp
  qed
  with root parse_ustar_archive [OF assms(1)] show ?thesis
    by (auto simp: holds_def list_all_iff split: option.split)
qed


definition demo_entry :: "str \<Rightarrow> u8 list option \<Rightarrow> tar_entry" where
  "demo_entry name data = \<lparr>te_name = name, te_data = data, te_mode = replicate 24 0, te_mtime = replicate 20 0,
     te_link = replicate 100 0, te_rest = replicate 250 0\<rparr>"

theorem ustar_roundtrip_witness:
  "\<exists>root. parse_ustar (tar_archive [demo_entry (lit ''etc'') None, demo_entry (lit ''etc/m'') (Some [104, 105])]) = Some root
    \<and> {(q, d). file_at (Dir root) q = Some d} = {([lit ''etc'', lit ''m''], [104, 105])}
    \<and> read_file_str v_kind v_size v_read v_lookup (vfs_mount (to_vnode (Dir root))) (lit ''etc/m'')
        = Some (Some (lit ''hi''))"
proof -
  let ?es = "[demo_entry (lit ''etc'') None, demo_entry (lit ''etc/m'') (Some [104, 105])]"
  have ok: "list_all entry_ok ?es"
    by (simp add: entry_ok_def demo_entry_def scalar_def te_bytes_def trim_char_def trim_end_char_def
        NAME_LEN_def utf8_width_def)
  have paths: "te_path (demo_entry (lit ''etc'') x) = [lit ''etc'']"
    "te_path (demo_entry (lit ''etc/m'') x) = [lit ''etc'', lit ''m'']" for x
    by (simp_all add: te_path_def demo_entry_def components_def)
  have data: "te_data (demo_entry n x) = x" for n x by (simp add: demo_entry_def)
  have "sorted_wrt no_conflict ?es"
    by (simp add: no_conflict_def paths [simplified] data)
  from ustar_roundtrip [OF ok this] obtain root where root:
    "parse_ustar (tar_archive ?es) = Some root"
    "{(q, d). file_at (Dir root) q = Some d} = {(te_path e, d) | e d. e \<in> set ?es \<and> te_data e = Some d}"
    "read_file_str v_kind v_size v_read v_lookup (vfs_mount (to_vnode (Dir root))) (lit ''etc/m'')
       = Some (from_utf8 [104, 105])"
    by (auto simp: demo_entry_def)
  have "{(te_path e, d) | e d. e \<in> set ?es \<and> te_data e = Some d} = {([lit ''etc'', lit ''m''], [104, 105])}"
  proof -
    have "e \<in> set ?es \<and> te_data e = Some d \<longleftrightarrow> e = demo_entry (lit ''etc/m'') (Some [104, 105]) \<and> d = [104, 105]" for e d
      using data by auto
    then show ?thesis using paths(2) by auto
  qed
  moreover have "from_utf8 [104, 105] = Some (lit ''hi'')"
    using from_utf8_ascii [of "[104, 105]"] by simp
  ultimately show ?thesis using root by simp
qed

end
