(* ===== verification/Pci.thy ===== *)
theory Pci
  imports PortIo
begin

text \<open>
  The bus scan of hal/src/pci.rs: \<open>cfg_read32\<close> through the ports of configuration mechanism 1,
  and \<open>find_xhci_bar0\<close>, against a configuration space.
\<close>

section \<open>The model\<close>

definition CONFIG_ADDR :: u16 where "CONFIG_ADDR = 0xCF8"
definition CONFIG_DATA :: u16 where "CONFIG_DATA = 0xCFC"

definition cfg_addr :: "u8 \<Rightarrow> u8 \<Rightarrow> u8 \<Rightarrow> u8 \<Rightarrow> u32" where
  "cfg_addr bus dev func offset =
     push_bit 31 1 OR push_bit 16 (ucast bus) OR push_bit 11 (ucast dev) OR push_bit 8 (ucast func)
       OR ucast (offset AND 0xFC)"

definition cfg_read32 :: "bus \<Rightarrow> u8 \<Rightarrow> u8 \<Rightarrow> u8 \<Rightarrow> u8 \<Rightarrow> io_log \<Rightarrow> u32 \<times> io_log" where
  "cfg_read32 b bus dev func offset l = inl b CONFIG_DATA (outl CONFIG_ADDR (cfg_addr bus dev func offset) l)"

definition probe_xhci :: "bus \<Rightarrow> u64 \<Rightarrow> u8 \<Rightarrow> u8 \<Rightarrow> io_log \<Rightarrow> (u64 option \<times> io_log) option" where
  "probe_xhci b phys_off bus dev l =
     (let (vendor_dev, l) = cfg_read32 b bus dev 0 0x00 l
      in if vendor_dev = 0xFFFFFFFF then Some (None, l)
         else let (class_rev, l) = cfg_read32 b bus dev 0 0x08 l
      in if drop_bit 8 class_rev \<noteq> 0x0C0330 then Some (None, l)
         else let (bar_lo, l) = cfg_read32 b bus dev 0 0x10 l;
                  (bar_hi, l) = cfg_read32 b bus dev 0 0x14 l;
                  phys = push_bit 32 (ucast bar_hi :: u64) OR (ucast bar_lo AND NOT 0xF)
      in do { virt \<leftarrow> cadd phys phys_off; Some (Some virt, l) })"

definition find_xhci_bar0 :: "bus \<Rightarrow> u64 \<Rightarrow> io_log \<Rightarrow> (u64 option \<times> io_log) option" where
  "find_xhci_bar0 b phys_off l =
     for_return (map of_nat [0..<256]) (\<lambda>bus.
       for_return (map of_nat [0..<32]) (\<lambda>dev. probe_xhci b phys_off bus dev)) l"

section \<open>The configuration space\<close>

text \<open>
  \<open>cfg bus dev offset\<close> is the register of function 0; the data port shows the register that the
  address port selects.
\<close>

definition config_space :: "bus \<Rightarrow> (u8 \<Rightarrow> u8 \<Rightarrow> u8 \<Rightarrow> u32) \<Rightarrow> bool" where
  "config_space b cfg \<longleftrightarrow> (\<forall>l bus dev offset. unat dev < 32 \<and> offset AND 3 = 0 \<longrightarrow>
     bus_in32 b (l @ [Out32 CONFIG_ADDR (cfg_addr bus dev 0 offset)]) CONFIG_DATA = cfg bus dev offset)"

definition xhci_at :: "(u8 \<Rightarrow> u8 \<Rightarrow> u8 \<Rightarrow> u32) \<Rightarrow> u8 \<Rightarrow> u8 \<Rightarrow> bool" where
  "xhci_at cfg bus dev \<longleftrightarrow> cfg bus dev 0 \<noteq> 0xFFFFFFFF \<and> drop_bit 8 (cfg bus dev 8) = 0x0C0330"

definition bar0 :: "(u8 \<Rightarrow> u8 \<Rightarrow> u8 \<Rightarrow> u32) \<Rightarrow> u8 \<Rightarrow> u8 \<Rightarrow> u64" where
  "bar0 cfg bus dev = push_bit 32 (ucast (cfg bus dev 0x14)) OR (ucast (cfg bus dev 0x10) AND NOT 0xF)"

definition pci_slots :: "(u8 \<times> u8) list" where
  "pci_slots = concat (map (\<lambda>bus. map (\<lambda>dev. (of_nat bus, of_nat dev)) [0..<32]) [0..<256])"

text \<open>The fields of the address are recovered from it.\<close>

lemma small_bits:
  assumes "unat (d :: u8) < 32" "bit d n"
  shows "n < 5"
proof -
  have "take_bit 5 d = d" using assms(1) by (simp add: word_unat_eq_iff unsigned_take_bit_eq take_bit_nat_eq_self)
  with assms(2) show ?thesis by (metis bit_take_bit_iff)
qed

lemma cfg_addr_fields:
  assumes "unat dev < 32" "offset AND 3 = 0"
  shows "ucast (drop_bit 16 (cfg_addr bus dev 0 offset)) = bus"
    "ucast (drop_bit 11 (cfg_addr bus dev 0 offset) AND 0x1F) = dev"
    "ucast (cfg_addr bus dev 0 offset AND 0xFC) = offset"
proof -
  have dev: "\<not> bit dev n" if "5 \<le> n" for n using small_bits [OF assms(1), of n] that by auto
  have "\<not> bit (offset AND 3) n" for n by (simp add: assms(2))
  from this [of 0] this [of 1] have off: "\<not> bit offset 0" "\<not> bit offset 1" by (simp_all add: bit_simps)
  show "ucast (drop_bit 16 (cfg_addr bus dev 0 offset)) = bus"
    by (rule u8_eqI) (simp_all add: cfg_addr_def bit_simps dev)
  show "ucast (drop_bit 11 (cfg_addr bus dev 0 offset) AND 0x1F) = dev"
    by (rule u8_eqI) (simp_all add: cfg_addr_def bit_simps dev)
  show "ucast (cfg_addr bus dev 0 offset AND 0xFC) = offset"
    using off by (intro u8_eqI) (simp_all add: cfg_addr_def bit_simps)
qed

lemma cfg_read32_value:
  "config_space b cfg \<Longrightarrow> unat dev < 32 \<Longrightarrow> offset AND 3 = 0 \<Longrightarrow>
    \<exists>l'. cfg_read32 b bus dev 0 offset l = (cfg bus dev offset, l')"
  by (simp add: cfg_read32_def inl_def outl_def config_space_def)

lemma probe_value:
  assumes b: "config_space b cfg" and dev: "unat dev < 32"
    and fits: "xhci_at cfg bus dev \<Longrightarrow> unat (bar0 cfg bus dev) + unat po < 2 ^ 64"
  shows "\<exists>l'. probe_xhci b po bus dev l
    = Some (if xhci_at cfg bus dev then Some (bar0 cfg bus dev + po) else None, l')"
proof -
  have regs: "offset AND 3 = 0 \<Longrightarrow> \<exists>l'. cfg_read32 b bus dev 0 offset l = (cfg bus dev offset, l')" for offset l
    by (rule cfg_read32_value [OF b dev])
  from regs [of "0" l] obtain l1 where r1: "cfg_read32 b bus dev 0 0 l = (cfg bus dev 0, l1)" by auto
  from regs [of "8" l1] obtain l2 where r2: "cfg_read32 b bus dev 0 8 l1 = (cfg bus dev 8, l2)" by auto
  from regs [of "0x10" l2] obtain l3 where r3: "cfg_read32 b bus dev 0 0x10 l2 = (cfg bus dev 0x10, l3)" by auto
  from regs [of "0x14" l3] obtain l4 where r4: "cfg_read32 b bus dev 0 0x14 l3 = (cfg bus dev 0x14, l4)" by auto
  show ?thesis using fits
    by (auto simp: probe_xhci_def r1 r2 r3 r4 xhci_at_def bar0_def cadd_def Let_def)
qed

lemma find_xhci_bar0_value:
  assumes "config_space b cfg"
    and "\<forall>(bus, dev) \<in> set pci_slots. xhci_at cfg bus dev \<longrightarrow> unat (bar0 cfg bus dev) + unat po < 2 ^ 64"
  shows "\<exists>l'. find_xhci_bar0 b po l = Some
    (map_option (\<lambda>(bus, dev). bar0 cfg bus dev + po)
       (List.find (\<lambda>(bus, dev). xhci_at cfg bus dev) pci_slots), l')"
proof -
  define f where "f = (\<lambda>(bus, dev). if xhci_at cfg bus dev then Some (bar0 cfg bus dev + po) else None)"
  have dev: "unat (of_nat d :: u8) < 32" if "d < 32" for d
    using that by (simp add: unat_of_nat)
  have "\<exists>s'. for_return (map of_nat [0..<32]) (\<lambda>dev. probe_xhci b po (of_nat bus) dev) s
      = Some (first_some (\<lambda>dev. f (of_nat bus, dev)) (map of_nat [0..<32]), s')" if "bus < 256" for bus s
  proof (rule for_return_first)
    fix d :: u8 and s'
    assume "d \<in> set (map of_nat [0..<32])"
    then obtain n where n: "n < 32" "d = of_nat n" by auto
    then have "(of_nat bus, d) \<in> set pci_slots" using that
      by (auto simp: pci_slots_def intro!: bexI [of _ bus] imageI)
    with assms(2) probe_value [OF assms(1) dev [OF n(1)], of "of_nat bus" po s'] n(2)
    show "\<exists>l'. probe_xhci b po (of_nat bus) d s' = Some (f (of_nat bus, d), l')"
      by (auto simp: f_def)
  qed
  note devices = this
  have "\<exists>s'. find_xhci_bar0 b po l = Some (first_some (\<lambda>bus. first_some (\<lambda>dev. f (bus, dev)) (map of_nat [0..<32]))
      (map of_nat [0..<256]), s')"
    unfolding find_xhci_bar0_def by (rule for_return_first) (use devices in auto)
  moreover have "first_some (\<lambda>bus. first_some (\<lambda>dev. f (bus, dev)) (map of_nat [0..<32])) (map of_nat [0..<256])
      = first_some f pci_slots"
    by (simp add: pci_slots_def first_some_concat first_some_map comp_def del: upt_Suc)
  moreover have "first_some f pci_slots
      = map_option (\<lambda>(bus, dev). bar0 cfg bus dev + po) (List.find (\<lambda>(bus, dev). xhci_at cfg bus dev) pci_slots)"
    by (simp add: f_def first_some_find [symmetric] split_def if_distrib)
  ultimately show ?thesis by simp
qed


text \<open>Two controllers, on 00:14.0 and 03:00.0: the first one is found.\<close>

definition demo_cfg :: "u8 \<Rightarrow> u8 \<Rightarrow> u8 \<Rightarrow> u32" where
  "demo_cfg bus dev offset =
     (if (bus, dev) = (0, 20) \<or> (bus, dev) = (3, 0)
      then (if offset = 0 then 0xA36D8086 else if offset = 8 then 0x0C033010
            else if offset = 0x10 then 0xDF100004 + ucast bus else 0)
      else 0xFFFFFFFF)"

definition demo_pci :: bus where
  "demo_pci = \<lparr>bus_in8 = (\<lambda>_ _. 0),
     bus_in32 = (\<lambda>l _. case last l of
        Out32 _ a \<Rightarrow> demo_cfg (ucast (drop_bit 16 a)) (ucast (drop_bit 11 a AND 0x1F)) (ucast (a AND 0xFC)) | _ \<Rightarrow> 0),
     bus_mem32 = (\<lambda>_ _. 0), bus_tsc = (\<lambda>_. 0)\<rparr>"

lemma demo_config_space: "config_space demo_pci demo_cfg"
  by (simp add: config_space_def demo_pci_def cfg_addr_fields)


end
