(* ===== verification/Ps2.thy ===== *)
theory Ps2
  imports PortIo
begin

text \<open>
  The initialisation of the 8042 keyboard controller, hal/src/ps2.rs, and a controller that keeps
  a configuration byte and a queue of output bytes.  The messages are left out.
\<close>

section \<open>The model\<close>

definition KBC_CMD :: u16 where "KBC_CMD = 0x64"
definition KBC_DATA :: u16 where "KBC_DATA = 0x60"

text \<open>The loop of \<open>wait_write\<close> and \<open>wait_read\<close>: at most \<open>n\<close> reads of the status.\<close>

fun poll_status :: "bus \<Rightarrow> (u8 \<Rightarrow> bool) \<Rightarrow> nat \<Rightarrow> io_log \<Rightarrow> bool \<times> io_log" where
  "poll_status b P 0 l = (False, l)"
| "poll_status b P (Suc n) l =
     (let (v, l) = inb b KBC_CMD l in if P v then (True, l) else poll_status b P n (io_wait l))"

definition wait_write :: "bus \<Rightarrow> io_log \<Rightarrow> bool \<times> io_log" where
  "wait_write b l = poll_status b (\<lambda>v. v AND 0x02 = 0) 0x10000 l"

definition wait_read :: "bus \<Rightarrow> io_log \<Rightarrow> bool \<times> io_log" where
  "wait_read b l = poll_status b (\<lambda>v. v AND 0x01 \<noteq> 0) 0x10000 l"

fun flush_loop :: "bus \<Rightarrow> nat \<Rightarrow> io_log \<Rightarrow> io_log" where
  "flush_loop b 0 l = l"
| "flush_loop b (Suc n) l =
     (let (v, l) = inb b KBC_CMD l
      in if v AND 0x01 = 0 then l
         else let (_, l) = inb b KBC_DATA l in flush_loop b n (io_wait l))"

definition flush_output :: "bus \<Rightarrow> io_log \<Rightarrow> io_log" where
  "flush_output b l = flush_loop b 16 l"

definition kbc_send :: "bus \<Rightarrow> u16 \<Rightarrow> u8 \<Rightarrow> io_log \<Rightarrow> io_log" where
  "kbc_send b port v l = outb port v (snd (wait_write b l))"

definition ps2_init :: "bus \<Rightarrow> io_log \<Rightarrow> io_log" where
  "ps2_init b l =
     (let l = kbc_send b KBC_CMD 0xAD l;
          l = kbc_send b KBC_CMD 0xA7 l;
          l = flush_output b l;
          l = kbc_send b KBC_CMD 0x20 l;
          (ready, l) = wait_read b l;
          (config, l) = (if ready then inb b KBC_DATA l else (0x00, l));
          new_config = (config OR 0x01) AND NOT 0x10;
          l = kbc_send b KBC_CMD 0x60 l;
          l = kbc_send b KBC_DATA new_config l
      in kbc_send b KBC_CMD 0xAE l)"

section \<open>The controller\<close>

text \<open>
  Commands 0xAD, 0xAE, 0xA7 and 0xA8 set and clear the clock bits of the two ports, 0x20 puts the
  configuration byte into the output queue and 0x60 takes the next data byte as configuration.
\<close>

record kbc =
  kbc_config :: u8
  kbc_out :: "u8 list"
  kbc_expects :: bool

fun kbc_act :: "kbc \<Rightarrow> io_act \<Rightarrow> kbc" where
  "kbc_act c (Out8 port v) =
     (if port = 0x64 then
        (if v = 0xAD then c\<lparr>kbc_config := kbc_config c OR 0x10\<rparr>
         else if v = 0xAE then c\<lparr>kbc_config := kbc_config c AND NOT 0x10\<rparr>
         else if v = 0xA7 then c\<lparr>kbc_config := kbc_config c OR 0x20\<rparr>
         else if v = 0xA8 then c\<lparr>kbc_config := kbc_config c AND NOT 0x20\<rparr>
         else if v = 0x20 then c\<lparr>kbc_out := kbc_out c @ [kbc_config c]\<rparr>
         else if v = 0x60 then c\<lparr>kbc_expects := True\<rparr> else c)
      else if port = 0x60 \<and> kbc_expects c then c\<lparr>kbc_config := v, kbc_expects := False\<rparr>
      else c)"
| "kbc_act c (In8 port) = (if port = 0x60 then c\<lparr>kbc_out := tl (kbc_out c)\<rparr> else c)"
| "kbc_act c _ = c"

definition kbc_after :: "kbc \<Rightarrow> io_log \<Rightarrow> kbc" where
  "kbc_after c l = foldl kbc_act c l"

lemma kbc_after_append [simp]: "kbc_after c (l @ l') = kbc_after (kbc_after c l) l'"
  and kbc_after_Nil [simp]: "kbc_after c [] = c"
  and kbc_after_Cons [simp]: "kbc_after c (x # l) = kbc_after (kbc_act c x) l"
  by (simp_all add: kbc_after_def)

text \<open>The ports show the controller: bit 0 of the status says whether the queue holds a byte.\<close>

definition kbc_bus :: "bus \<Rightarrow> kbc \<Rightarrow> bool" where
  "kbc_bus b c \<longleftrightarrow> (\<forall>l. (bus_in8 b l 0x64 AND 1 \<noteq> 0 \<longleftrightarrow> kbc_out (kbc_after c l) \<noteq> [])
     \<and> (kbc_out (kbc_after c l) \<noteq> [] \<longrightarrow> bus_in8 b l 0x60 = hd (kbc_out (kbc_after c l))))"

lemma poll_keeps [simp]: "kbc_after c (snd (poll_status b P n l)) = kbc_after c l"
  by (induction n arbitrary: l) (simp_all add: inb_def io_wait_def outb_def KBC_CMD_def)

lemma poll_at_once:
  "P (bus_in8 b l 0x64) \<Longrightarrow> 0 < n \<Longrightarrow> poll_status b P n l = (True, l @ [In8 0x64])"
  by (cases n) (simp_all add: inb_def KBC_CMD_def)

lemma kbc_send_act: "kbc_after c (kbc_send b port v l) = kbc_act (kbc_after c l) (Out8 port v)"
  by (simp add: kbc_send_def wait_write_def outb_def)

lemma flush_drops:
  assumes "kbc_bus b c"
  shows "kbc_after c (flush_loop b n l) = (kbc_after c l)\<lparr>kbc_out := drop n (kbc_out (kbc_after c l))\<rparr>"
proof (induction n arbitrary: l)
  case (Suc n)
  from assms have "bus_in8 b l 0x64 AND 1 \<noteq> 0 \<longleftrightarrow> kbc_out (kbc_after c l) \<noteq> []"
    by (auto simp: kbc_bus_def)
  then show ?case
    by (auto simp: inb_def io_wait_def outb_def KBC_CMD_def KBC_DATA_def Suc.IH drop_Suc)
qed simp


definition kbc_as_bus :: "kbc \<Rightarrow> bus" where
  "kbc_as_bus c = \<lparr>bus_in8 = (\<lambda>l port. let out = kbc_out (kbc_after c l)
       in if port = 0x64 then (if out = [] then 0 else 1) else if out = [] then 0 else hd out),
     bus_in32 = (\<lambda>_ _. 0), bus_mem32 = (\<lambda>_ _. 0), bus_tsc = (\<lambda>_. 0)\<rparr>"

lemma kbc_as_bus_ok: "kbc_bus (kbc_as_bus c) c"
  by (simp add: kbc_bus_def kbc_as_bus_def Let_def)


end
