(* ===== verification/Boot.thy ===== *)
theory Boot
  imports BootMemory Interrupts UstarArchive Pci Ps2
begin

text \<open>
  \<open>kernel_main\<close> of kernel/src/main.rs: the initialisation of every component in the order of the
  code, up to the first prompt.  After \<open>sti\<close> interrupts come at the marked points and around
  every use of the screen.  The
  serial log is left out but for its arithmetic on time stamps; the lines that the drivers print
  on the screen are arbitrary.
\<close>

section \<open>What the boot loader and the machine provide\<close>

text \<open>
  The fields of \<open>BootInfo\<close> that are used, each \<open>None\<close> when the loader gives none.  The machine is
  the bus, the USB controller, the memory, the bytes at the ramdisk's address, what the drivers
  print at the \<open>n\<close>-th place, and the interrupts taken at, and inside, the \<open>n\<close>-th place.
\<close>

record boot_info =
  bi_phys_offset :: "u64 option"
  bi_regions :: "memory_region list"
  bi_ramdisk_addr :: "u64 option"
  bi_ramdisk_len :: u64
  bi_rsdp :: "u64 option"
  bi_framebuffer :: "fb_info option"

record platform =
  pl_bus :: bus
  pl_usb :: hw
  pl_mem :: mem
  pl_disk :: "nat \<Rightarrow> u8 list"
  pl_says :: "nat \<Rightarrow> str list"
  pl_irqs :: "nat \<Rightarrow> sys_event list"
  pl_gaps :: "nat \<Rightarrow> sys_gap list"

section \<open>The model\<close>

text \<open>A log line with the nanoseconds since \<open>t0\<close>.\<close>

definition log_time :: "bus \<Rightarrow> u64 \<Rightarrow> u64 \<Rightarrow> io_log \<Rightarrow> io_log option" where
  "log_time b khz t0 l =
     (let (t, l) = rdtsc b l in do { d \<leftarrow> csub t t0; _ \<leftarrow> cycles_to_ns khz d; Some l })"

definition start_clock :: "bus \<Rightarrow> io_log \<Rightarrow> (u64 \<times> u64 \<times> io_log) option" where
  "start_clock b l =
     (let (t0, l) = rdtsc b l
      in do { l \<leftarrow> serial_init SERIAL1 l;
              let (t_serial, l) = rdtsc b l;
              (khz, l) \<leftarrow> calibrate b l;
              d \<leftarrow> csub t_serial t0;
              _ \<leftarrow> cycles_to_ns khz d;
              Some (t0, khz, l) })"

text \<open>The heap, the mounted ramdisk and the APIC information.\<close>

definition boot_memory :: "platform \<Rightarrow> boot_info \<Rightarrow> u64 \<Rightarrow> (io_log \<Rightarrow> io_log option) \<Rightarrow> io_log
    \<Rightarrow> (allocator \<times> vnode option \<times> apic_info option \<times> io_log) option" where
  "boot_memory pl bi phys_offset log l =
     do { heap_phys \<leftarrow> memory_init (bi_regions bi) phys_offset;
          l \<leftarrow> log l;
          heap \<leftarrow> heap_start_virt heap_phys phys_offset;
          (a, m) \<leftarrow> kinit (pl_mem pl) heap HEAP_SIZE;
          l \<leftarrow> log l;
          let rd_addr = (case bi_ramdisk_addr bi of Some x \<Rightarrow> x | None \<Rightarrow> 0);
          root \<leftarrow> ramfs_init (pl_disk pl) (unat rd_addr) (unat (bi_ramdisk_len bi)) (unat phys_offset) None;
          tables \<leftarrow> (case bi_rsdp bi of Some rsdp \<Rightarrow> acpi_init m rsdp phys_offset None | None \<Rightarrow> Some None);
          l \<leftarrow> log l;
          Some (a, root, tables, l) }"

text \<open>The framebuffer, cleared, and the first lines on it.\<close>

definition boot_screen :: "fb_info option \<Rightarrow> vnode option \<Rightarrow> allocator \<Rightarrow> kernel option" where
  "boot_screen fb root a =
     do { k \<leftarrow> kprintln (lit ''=== DBG BUILD ==='') (kernel_boot (map_option fb_boot fb) root a);
          (found, k) \<leftarrow> kprint_file (lit ''/sys/welcome'') k;
          k \<leftarrow> (if \<not> found then kprintln (lit ''AmaterasuOS'') k else Some k);
          kprintln (lit ''[dbg] post-welcome'') k }"

definition says :: "platform \<Rightarrow> nat \<Rightarrow> str \<Rightarrow> kernel \<Rightarrow> kernel option" where
  "says pl n line k = do { k \<leftarrow> for_each (pl_says pl n) kprintln k; kprintln line k }"

text \<open>Interrupts off, the legacy controllers quiet, the APICs on.\<close>

definition boot_apics :: "platform \<Rightarrow> u64 \<Rightarrow> apic_info option \<Rightarrow> io_log \<Rightarrow> kernel
    \<Rightarrow> (usize \<times> io_log \<times> kernel) option" where
  "boot_apics pl phys_offset tables l k =
     do { let l = ps2_init (pl_bus pl) (mask_all l);
          k \<leftarrow> says pl 0 (lit ''[dbg] pic ok'') k;
          (lapic, l) \<leftarrow> apic_init (pl_bus pl) phys_offset tables l;
          k \<leftarrow> says pl 1 (lit ''[dbg] apic ok'') k;
          Some (lapic, l, k) }"

text \<open>From \<open>idt::init\<close> on the system is running: the state of the interrupt handlers is in place.\<close>

definition sys_println :: "str \<Rightarrow> system \<Rightarrow> system option" where
  "sys_println line s = do { k \<leftarrow> kprintln line (sy_kernel s); Some (s\<lparr>sy_kernel := k\<rparr>) }"

definition irqs :: "platform \<Rightarrow> nat \<Rightarrow> machine \<Rightarrow> system \<Rightarrow> system option" where
  "irqs pl n m s = for_each (pl_irqs pl n) (sys_step m (pl_bus pl)) s"

definition busy :: "platform \<Rightarrow> nat \<Rightarrow> (system \<Rightarrow> system option) \<Rightarrow> system \<Rightarrow> system option" where
  "busy pl n f s = interrupted (pl_bus pl) (pl_gaps pl n) f s"

definition boot_timer :: "platform \<Rightarrow> machine \<Rightarrow> system \<Rightarrow> system option" where
  "boot_timer pl m s =
     do { s \<leftarrow> sys_println (lit ''[dbg] idt ok'') s;
          s \<leftarrow> irqs pl 0 m s;
          s \<leftarrow> busy pl 0 (sys_println (lit ''[dbg] sti ok'')) s;
          let (status, l) = inb (pl_bus pl) 0x64 (sy_io s);
          let (data, l) = inb (pl_bus pl) 0x60 l;
          s \<leftarrow> busy pl 1 (sys_println (lit ''[dbg] ps2: status(0x64)='' @ hex_width 4 (unat status)
                  @ lit '' data(0x60)='' @ hex_width 4 (unat data))) (s\<lparr>sy_io := l\<rparr>);
          (ticks_per_ms, l) \<leftarrow> timer_init (pl_bus pl) (sy_lapic s) (sy_io s);
          s \<leftarrow> irqs pl 1 m (s\<lparr>sy_io := l\<rparr>);
          busy pl 2 (sys_println (lit ''[dbg] timer ok'')) s }"

definition sys_prompt :: "system \<Rightarrow> system option" where
  "sys_prompt s = do { k \<leftarrow> prompt (sy_kernel s); Some (s\<lparr>sy_kernel := k\<rparr>) }"

definition boot_usb :: "platform \<Rightarrow> machine \<Rightarrow> u64 \<Rightarrow> (io_log \<Rightarrow> io_log option) \<Rightarrow> system \<Rightarrow> system option" where
  "boot_usb pl m phys_offset log s =
     do { (bar, l) \<leftarrow> find_xhci_bar0 (pl_bus pl) phys_offset (sy_io s);
          x \<leftarrow> xhci_init (pl_usb pl) phys_offset (map_option unat bar);
          s \<leftarrow> busy pl 3 (for_each (pl_says pl 2) sys_println) (s\<lparr>sy_io := l\<rparr>);
          s \<leftarrow> irqs pl 2 m (s\<lparr>sy_usb := xkbd x\<rparr>);
          s \<leftarrow> busy pl 4 (sys_println (lit ''[dbg] xhci ok'')) s;
          l \<leftarrow> log (sy_io s);
          busy pl 5 sys_prompt (s\<lparr>sy_io := l\<rparr>) }"

text \<open>The state that \<open>keyboard::drain\<close> finds when \<open>kernel_main\<close> enters its endless loop.\<close>

definition kernel_main :: "platform \<Rightarrow> machine \<Rightarrow> boot_info \<Rightarrow> system option" where
  "kernel_main pl m bi =
     do { (t0, khz, l) \<leftarrow> start_clock (pl_bus pl) [];
          phys_offset \<leftarrow> bi_phys_offset bi;
          let log = log_time (pl_bus pl) khz t0;
          (a, root, tables, l) \<leftarrow> boot_memory pl bi phys_offset log l;
          l \<leftarrow> log l;
          k \<leftarrow> boot_screen (bi_framebuffer bi) root a;
          (lapic, l, k) \<leftarrow> boot_apics pl phys_offset tables l k;
          l \<leftarrow> log l;
          s \<leftarrow> boot_timer pl m \<lparr>sy_kernel = k, sy_kbd = kbd_init, sy_usb = usb_kbd_init, sy_usb_writes = [],
                 sy_announced = False, sy_lapic = lapic, sy_io = l, sy_pc = At_drain\<rparr>;
          boot_usb pl m phys_offset log s }"

section \<open>What the boot relies on\<close>

text \<open>
  The ramdisk: none, or an archive that tar wrote, with ASCII names, and what the parser makes
  of it.
\<close>

definition disk_ok :: "(nat \<Rightarrow> u8 list) \<Rightarrow> nat \<Rightarrow> nat \<Rightarrow> entries option \<Rightarrow> bool" where
  "disk_ok at addr n tree \<longleftrightarrow> n = 0 \<and> tree = None
     \<or> (\<exists>es root. es \<noteq> [] \<and> at addr = tar_archive es \<and> n = length (tar_archive es) \<and> list_all Ustar.entry_ok es
          \<and> insert_all es [] = Some root \<and> ascii_tree (Dir root) \<and> tree = Some root)"

text \<open>The regions are well-formed, and the first that is large enough can hold the heap.\<close>

definition regions_ok :: "memory_region list \<Rightarrow> u64 \<Rightarrow> u64 \<Rightarrow> bool" where
  "regions_ok rs po hv \<longleftrightarrow> (\<forall>r \<in> set rs. mr_usable r \<longrightarrow> mr_start r \<le> mr_end r)
     \<and> (\<exists>r. List.find holds_heap rs = Some r \<and> unat (mr_start r) + unat po < 2 ^ 64 \<and> hv = mr_start r + po)
     \<and> heap_args_ok hv HEAP_SIZE"

text \<open>
  The tables lie outside the heap: in every memory that differs only there, they describe \<open>tables\<close>.
  The APICs it names are mapped, and the keyboard's interrupt belongs to the I/O APIC.
\<close>

definition tables_ok :: "mem \<Rightarrow> u64 \<Rightarrow> u64 \<Rightarrow> u64 \<Rightarrow> apic_info \<Rightarrow> bool" where
  "tables_ok m po hv rsdp tables \<longleftrightarrow>
     (\<forall>m'. (\<forall>x. unat x < unat hv \<or> unat hv + unat HEAP_SIZE \<le> unat x \<longrightarrow> m' x = m x) \<longrightarrow>
        (\<exists>tabs t lapic es. acpi_image m' po rsdp tabs
           \<and> List.find (\<lambda>t. rd_bytes m' (t + po) 4 = APIC_SIG) tabs = Some t
           \<and> madt_image m' (t + po) lapic es \<and> described lapic es = Some tables))"

definition apics_ok :: "apic_info \<Rightarrow> u64 \<Rightarrow> bool" where
  "apics_ok tables po \<longleftrightarrow> apics_mapped tables po \<and> length (overrides tables) = 16
     \<and> (let gsi = fst (kbd_route (overrides tables ! 1))
        in ioapic_gsi_base tables \<le> gsi \<and> unat (gsi - ioapic_gsi_base tables) < 120)"

text \<open>The xHCI controllers on the bus are mapped, and the first one behaves as a controller.\<close>

definition usb_bus_ok :: "bus \<Rightarrow> hw \<Rightarrow> u64 \<Rightarrow> bool" where
  "usb_bus_ok b h po \<longleftrightarrow> (\<exists>cfg. config_space b cfg
     \<and> (\<forall>(bus, dev) \<in> set pci_slots. xhci_at cfg bus dev \<longrightarrow> unat (bar0 cfg bus dev) + unat po < 2 ^ 64)
     \<and> pred_option (\<lambda>(bus, dev). env_ok h po (unat (bar0 cfg bus dev + po)))
         (List.find (\<lambda>(bus, dev). xhci_at cfg bus dev) pci_slots))"

definition irqs_ok :: "platform \<Rightarrow> bool" where
  "irqs_ok pl \<longleftrightarrow> (\<forall>n. \<forall>e \<in> set (pl_irqs pl n). sys_event_ok e \<and> \<not> is_Main e)
     \<and> (\<forall>n. \<forall>g \<in> set (pl_gaps pl n). sys_gap_ok g)"

definition boot_ok :: "platform \<Rightarrow> boot_info \<Rightarrow> bool" where
  "boot_ok pl bi \<longleftrightarrow> (\<exists>po hv rsdp tables tree. bi_phys_offset bi = Some po
     \<and> regions_ok (bi_regions bi) po hv
     \<and> disk_ok (pl_disk pl) (unat (case bi_ramdisk_addr bi of Some x \<Rightarrow> x | None \<Rightarrow> 0)) (unat (bi_ramdisk_len bi)) tree
     \<and> bi_rsdp bi = Some rsdp \<and> tables_ok (pl_mem pl) po hv rsdp tables \<and> apics_ok tables po
     \<and> boot_screen_ok (map_option fb_boot (bi_framebuffer bi))
     \<and> pit_ok (pl_bus pl) \<and> usb_bus_ok (pl_bus pl) (pl_usb pl) po \<and> irqs_ok pl)"

section \<open>The boot returns\<close>

lemma log_time_returns:
  assumes "pit_ok b" "khz \<noteq> 0" "t0 = bus_tsc b []"
  shows "\<exists>l'. log_time b khz t0 l = Some l'"
proof -
  have "bus_tsc b [] \<le> bus_tsc b ([] @ l)" using assms(1) unfolding pit_ok_def by blast
  then have "csub (bus_tsc b l) t0 = Some (bus_tsc b l - t0)" by (simp add: csub_def assms(3))
  with cycles_to_ns_value [OF assms(2), of "bus_tsc b l - t0"] show ?thesis
    by (auto simp: log_time_def rdtsc_def)
qed

lemma start_clock_returns:
  assumes "pit_ok b"
  shows "\<exists>t0 khz l. start_clock b [] = Some (t0, khz, l) \<and> (\<forall>l. \<exists>l'. log_time b khz t0 l = Some l')"
proof -
  have "\<exists>l. serial_init SERIAL1 [Rdtsc] = Some l" by (simp add: serial_init_def SERIAL1_def cadd_def)
  then obtain l1 where l1: "serial_init SERIAL1 [Rdtsc] = Some l1" by blast
  from calibrate_returns [OF assms, of "l1 @ [Rdtsc]"] obtain khz l2 where
    khz: "calibrate b (l1 @ [Rdtsc]) = Some (khz, l2)" "khz \<noteq> 0" by (auto simp: returns_def)
  have "bus_tsc b [] \<le> bus_tsc b ([] @ l1)" using assms unfolding pit_ok_def by blast
  then have "csub (bus_tsc b l1) (bus_tsc b []) = Some (bus_tsc b l1 - bus_tsc b [])" by (simp add: csub_def)
  with l1 khz cycles_to_ns_value [OF khz(2), of "bus_tsc b l1 - bus_tsc b []"]
  have "start_clock b [] = Some (bus_tsc b [], khz, l2)" by (auto simp: start_clock_def rdtsc_def)
  with log_time_returns [OF assms khz(2) refl] show ?thesis by blast
qed

lemma ramfs_init_archive:
  assumes "disk_ok at addr n tree"
  shows "ramfs_init at addr n po None = Some (boot_root tree)"
    and "\<forall>es. tree = Some es \<longrightarrow> ascii_tree (Dir es)"
proof -
  show "\<forall>es. tree = Some es \<longrightarrow> ascii_tree (Dir es)" using assms by (auto simp: disk_ok_def)
  show "ramfs_init at addr n po None = Some (boot_root tree)"
  proof (cases "n = 0")
    case True
    then have "tree = None" using assms length_tar_header
      by (auto simp: disk_ok_def tar_archive_def BLOCK_def)
    with True show ?thesis by (simp add: ramfs_init_def boot_root_def)
  next
    case False
    with assms obtain e es root where
      d: "at addr = tar_archive (e # es)" "n = length (tar_archive (e # es))" "list_all Ustar.entry_ok (e # es)"
        "insert_all (e # es) [] = Some root" "tree = Some root"
      by (auto simp: disk_ok_def neq_Nil_conv)
    have hdr: "length (tar_header e) = BLOCK" using d(3) length_tar_header by simp
    then obtain rest where arch: "tar_archive (e # es) = tar_header e @ rest" "2 * BLOCK \<le> length rest"
      by (simp add: tar_archive_def tar_member_def)
    from header_fields(1) [of e] d(3) hdr arch(1)
    have "slice MAGIC_OFF (MAGIC_OFF + length MAGIC) (at addr) = Some MAGIC"
      by (simp add: d(1) slice_def split: if_splits)
    moreover have "\<not> n < BLOCK + length MAGIC" using d(2) arch hdr by (simp add: BLOCK_def MAGIC_def)
    ultimately have "try_slice at addr n = Some (Some (at addr, addr))" by (simp add: try_slice_def)
    moreover have "parse_ustar (at addr) = Some root" using parse_ustar_archive [OF d(3)] d(1,4) by simp
    ultimately show ?thesis using False d(5) by (simp add: ramfs_init_def boot_root_def vfs_mount_def)
  qed
qed

lemma acpi_init_found:
  assumes "tables_ok m po hv rsdp tables" "\<forall>x. unat x < unat hv \<or> unat hv + unat HEAP_SIZE \<le> unat x \<longrightarrow> m' x = m x"
  shows "acpi_init m' rsdp po None = Some (Some tables)"
proof -
  from assms obtain tabs t lapic es where
    t: "acpi_image m' po rsdp tabs" "List.find (\<lambda>t. rd_bytes m' (t + po) 4 = APIC_SIG) tabs = Some t"
      "madt_image m' (t + po) lapic es" "described lapic es = Some tables" unfolding tables_ok_def by blast
  with acpi_parse_image [OF t(1), of lapic es] show ?thesis by (simp add: acpi_init_def)
qed

lemma boot_memory_returns:
  assumes r: "regions_ok (bi_regions bi) po hv"
    and d: "disk_ok (pl_disk pl) (unat (case bi_ramdisk_addr bi of Some x \<Rightarrow> x | None \<Rightarrow> 0)) (unat (bi_ramdisk_len bi)) tree"
    and a: "bi_rsdp bi = Some rsdp" "tables_ok (pl_mem pl) po hv rsdp tables"
    and log: "\<And>l. \<exists>l'. log l = Some l'"
  shows "\<exists>h l'. boot_memory pl bi po log l = Some (h, boot_root tree, Some tables, l') \<and> heap_state h"
proof -
  from r obtain x where x: "List.find holds_heap (bi_regions bi) = Some x" "unat (mr_start x) + unat po < 2 ^ 64"
    "hv = mr_start x + po" "\<forall>r \<in> set (bi_regions bi). mr_usable r \<longrightarrow> mr_start r \<le> mr_end r"
    "heap_args_ok hv HEAP_SIZE" by (auto simp: regions_ok_def)
  have mem: "memory_init (bi_regions bi) po = Some (mr_start x)"
    using memory_init_first_fit [OF x(4)] x(1,2) by simp
  have hs: "heap_start_virt (mr_start x) po = Some hv" using x(2,3) by (simp add: heap_start_virt_def cadd_def)
  from kinit_heap [OF x(5), of "pl_mem pl"] obtain h m' where
    k: "kinit (pl_mem pl) hv HEAP_SIZE = Some (h, m')" "heap_state h"
      "\<forall>x. unat x < unat hv \<or> unat hv + unat HEAP_SIZE \<le> unat x \<longrightarrow> m' x = pl_mem pl x" by blast
  from log obtain l1 where l1: "log l = Some l1" by blast
  from log obtain l2 where l2: "log l1 = Some l2" by blast
  from log obtain l3 where l3: "log l2 = Some l3" by blast
  show ?thesis
    using mem hs k(1,2) l1 l2 l3 acpi_init_found [OF a(2) k(3)] ramfs_init_archive(1) [OF d]
    by (simp add: boot_memory_def a(1) Let_def)
qed

text \<open>Lines on the screen: the rest of the kernel is as it was.\<close>

lemma kprintln_inv: "kernel_inv k \<Longrightarrow> returns (kprintln line k) (\<lambda>k'. kernel_inv k' \<and> draws k k')"
  by (rule returns_mono [OF kprintln_draws]) (auto dest: draws_inv)

lemma printlns_inv: "kernel_inv k \<Longrightarrow> returns (for_each ls kprintln k) (\<lambda>k'. kernel_inv k' \<and> draws k k')"
proof (induction ls arbitrary: k)
  case Nil
  then show ?case by (simp add: draws_refl)
next
  case (Cons line ls)
  from kprintln_inv [OF Cons.prems, of line] obtain k1 where
    k1: "kprintln line k = Some k1" "kernel_inv k1" "draws k k1" by (auto simp: returns_def)
  have "returns (for_each ls kprintln k1) (\<lambda>k'. kernel_inv k' \<and> draws k k')"
    by (rule returns_mono [OF Cons.IH [OF k1(2)]]) (auto intro: draws_trans [OF k1(3)])
  with k1(1) show ?case by simp
qed

lemma says_inv: "kernel_inv k \<Longrightarrow> returns (says pl n line k) (\<lambda>k'. kernel_inv k' \<and> draws k k')"
proof -
  assume k: "kernel_inv k"
  from printlns_inv [OF k, of "pl_says pl n"] obtain k1 where
    k1: "for_each (pl_says pl n) kprintln k = Some k1" "kernel_inv k1" "draws k k1" by (auto simp: returns_def)
  have "returns (kprintln line k1) (\<lambda>k'. kernel_inv k' \<and> draws k k')"
    by (rule returns_mono [OF kprintln_inv [OF k1(2)]]) (auto intro: draws_trans [OF k1(3)])
  with k1(1) show ?thesis by (simp add: says_def)
qed

lemma boot_screen_returns:
  assumes "boot_screen_ok (map_option fb_boot fb)" "heap_state a"
  shows "returns (boot_screen fb (boot_root tree) a)
    (\<lambda>k. kernel_inv k \<and> draws (kernel_boot (map_option fb_boot fb) (boot_root tree) a) k)"
proof -
  let ?k = "kernel_boot (map_option fb_boot fb) (boot_root tree) a"
  note k = boot_inv [OF assms, of tree]
  from kprintln_inv [OF k, of "lit ''=== DBG BUILD ===''"] obtain k1 where
    k1: "kprintln (lit ''=== DBG BUILD ==='') ?k = Some k1" "kernel_inv k1" "draws ?k k1" by (auto simp: returns_def)
  from kprint_file_draws [of k1 "lit ''/sys/welcome''"] k1(2) obtain found k2 where
    k2: "kprint_file (lit ''/sys/welcome'') k1 = Some (found, k2)" "draws k1 k2"
    by (auto simp: returns_def kernel_inv_def)
  note inv2 = draws_inv [OF k1(2) k2(2)]
  from kprintln_inv [OF inv2, of "lit ''AmaterasuOS''"] have
    "returns (if \<not> found then kprintln (lit ''AmaterasuOS'') k2 else Some k2) (\<lambda>k'. kernel_inv k' \<and> draws k2 k')"
    using inv2 by (simp add: draws_refl del: lit_Cons)
  then obtain k3 where
    k3: "(if \<not> found then kprintln (lit ''AmaterasuOS'') k2 else Some k2) = Some k3" "kernel_inv k3" "draws k2 k3"
    by (auto simp: returns_def simp del: lit_Cons)
  note d3 = draws_trans [OF draws_trans [OF k1(3) k2(2)] k3(3)]
  show ?thesis
    unfolding boot_screen_def k1(1) Option.bind_lunit k2(1) prod.case k3(1)
    by (rule returns_mono [OF kprintln_inv [OF k3(2)]]) (auto intro: draws_trans [OF d3])
qed

lemma boot_apics_returns:
  assumes k: "kernel_inv k" and a: "apics_ok tables po"
  shows "\<exists>lapic l' k'. boot_apics pl po (Some tables) l k = Some (lapic, l', k') \<and> kernel_inv k' \<and> draws k k'
    \<and> unat lapic + 0x1000 \<le> 2 ^ 64"
proof -
  from says_inv [OF k, of pl 0 "lit ''[dbg] pic ok''"] obtain k1 where
    k1: "says pl 0 (lit ''[dbg] pic ok'') k = Some k1" "kernel_inv k1" "draws k k1" by (auto simp: returns_def)
  from says_inv [OF k1(2), of pl 1 "lit ''[dbg] apic ok''"] obtain k2 where
    k2: "says pl 1 (lit ''[dbg] apic ok'') k1 = Some k2" "kernel_inv k2" "draws k1 k2" by (auto simp: returns_def)
  obtain gsi low level where g: "kbd_route (overrides tables ! 1) = (gsi, low, level)"
    by (cases "kbd_route (overrides tables ! 1)")
  with a have "apics_mapped tables po" "length (overrides tables) = 16"
    "ioapic_gsi_base tables \<le> gsi" "unat (gsi - ioapic_gsi_base tables) < 120" by (auto simp: apics_ok_def Let_def)
  from apic_init_returns [OF this(1,2) g this(3,4), of "pl_bus pl" "ps2_init (pl_bus pl) (mask_all l)"]
  obtain l' where "apic_init (pl_bus pl) po (Some tables) (ps2_init (pl_bus pl) (mask_all l)) = Some (lapic_addr tables + po, l')"
    "unat (lapic_addr tables + po) + 0x1000 \<le> 2 ^ 64" by blast
  with k1(1) k2(1) show ?thesis
    using k2(2) draws_trans [OF k1(3) k2(3)] by (simp add: boot_apics_def Let_def del: lit_Cons)
qed

text \<open>The running system while the drivers start: its invariant, and the state of the shell.\<close>

definition booting :: "entries option \<Rightarrow> system \<Rightarrow> bool" where
  "booting tree s \<longleftrightarrow> sys_inv s \<and> sy_pc s = At_drain \<and> kroot (sy_kernel s) = boot_root tree
     \<and> kshell (sy_kernel s) = shell_new"

lemma booting_draws:
  "booting tree s \<Longrightarrow> kernel_inv k \<Longrightarrow> draws (sy_kernel s) k \<Longrightarrow> booting tree (s\<lparr>sy_kernel := k\<rparr>)"
  by (auto simp: booting_def sys_inv_def drawsD)

lemma booting_io: "booting tree (s\<lparr>sy_io := l\<rparr>) \<longleftrightarrow> booting tree s"
  by (simp add: booting_def sys_inv_def)

lemma sys_println_booting [wp_rules]:
  assumes "booting tree s" "\<And>s'. booting tree s' \<Longrightarrow> sy_io s' = sy_io s \<Longrightarrow> Q s'"
  shows "returns (sys_println line s) Q"
proof -
  have "kernel_inv (sy_kernel s)" using assms(1) by (simp add: booting_def sys_inv_def)
  from kprintln_inv [OF this, of line] obtain k where
    k: "kprintln line (sy_kernel s) = Some k" "kernel_inv k" "draws (sy_kernel s) k" by (auto simp: returns_def)
  from assms(2) [OF booting_draws [OF assms(1) k(2,3)]] k(1) show ?thesis by (simp add: sys_println_def)
qed

lemma irq_booting:
  assumes s: "booting tree s" and m: "controller_ready m" and e: "sys_event_ok e" "\<not> is_Main e"
  shows "returns (sys_step m b e s) (booting tree)"
proof (cases e)
  case (Irq vec ev hid)
  from s e(1) Irq interrupt_returns [of s vec b ev hid] obtain s' where
    "interrupt b vec ev hid s = Some s'" "sys_inv s'" "same_line s s'" by (auto simp: booting_def returns_def)
  with s Irq show ?thesis by (simp add: wake_def same_line_def booting_def)
next
  case (Heap_use a)
  with s e(1) sys_step_inv [of s m e b] m show ?thesis by (auto simp: booting_def)
qed (use e in simp)

lemma irqs_booting [wp_rules]:
  assumes s: "booting tree s" and m: "controller_ready m" and pl: "irqs_ok pl" and Q: "\<And>s'. booting tree s' \<Longrightarrow> Q s'"
  shows "returns (irqs pl n m s) Q"
proof -
  have "returns (for_each es (sys_step m (pl_bus pl)) s) (booting tree)"
    if "\<forall>e \<in> set es. sys_event_ok e \<and> \<not> is_Main e" for es
    using that s
  proof (induction es arbitrary: s)
    case (Cons e es)
    from irq_booting [OF Cons.prems(2) m, of e "pl_bus pl"] Cons.prems(1) obtain s1 where
      "sys_step m (pl_bus pl) e s = Some s1" "booting tree s1" by (auto simp: returns_def)
    with Cons.IH [of s1] Cons.prems(1) show ?case by simp
  qed simp
  from returns_mono [OF this Q] pl show ?thesis by (simp add: irqs_def irqs_ok_def)
qed

lemma booting_beside:
  assumes "booting tree s" "fst i \<in> vectors"
  shows "returns (irq_beside b i s) (booting tree)"
  using assms by (intro returns_mono [OF irq_beside_inv]) (auto simp: booting_def)

lemma booting_gaps: "booting tree s \<Longrightarrow> gaps_ok gs \<Longrightarrow> booting tree (with_gaps gs s)"
  using with_gaps_inv [of s gs] by (simp add: booting_def) (simp add: with_gaps_def)

lemma busy_booting:
  assumes s: "booting tree s" and pl: "irqs_ok pl" and f: "\<And>s'. booting tree s' \<Longrightarrow> returns (f s') (booting tree)"
    and Q: "\<And>s'. booting tree s' \<Longrightarrow> Q s'"
  shows "returns (busy pl n f s) Q"
proof (rule returns_mono [OF _ Q])
  have gs: "\<forall>g \<in> set (pl_gaps pl n). sys_gap_ok g" using pl by (simp add: irqs_ok_def)
  show "returns (busy pl n f s) (booting tree)" unfolding busy_def
  proof (rule interrupted_keeps [OF gs])
    show "returns (f (with_gaps (map gap_of (pl_gaps pl n)) s)) (booting tree)"
      by (rule f [OF booting_gaps [OF s gaps_of_ok [OF gs]]])
  qed (simp_all add: booting_beside booting_gaps gaps_ok_def)
qed

lemma line_booting: "booting tree s \<Longrightarrow> returns (sys_println line s) (booting tree)"
  by (rule sys_println_booting)

lemma busy_println [wp_rules]:
  "booting tree s \<Longrightarrow> irqs_ok pl \<Longrightarrow> (\<And>s'. booting tree s' \<Longrightarrow> Q s') \<Longrightarrow> returns (busy pl n (sys_println line) s) Q"
  by (rule busy_booting [OF _ _ line_booting])

lemma lines_booting: "booting tree s \<Longrightarrow> returns (for_each ls sys_println s) (booting tree)"
proof (induction ls arbitrary: s)
  case (Cons line ls)
  from line_booting [OF Cons.prems, of line] obtain s1 where
    "sys_println line s = Some s1" "booting tree s1" by (auto simp: returns_def)
  with Cons.IH [of s1] show ?case by simp
qed simp

lemma busy_lines [wp_rules]:
  "booting tree s \<Longrightarrow> irqs_ok pl \<Longrightarrow> (\<And>s'. booting tree s' \<Longrightarrow> Q s') \<Longrightarrow> returns (busy pl n (for_each ls sys_println) s) Q"
  by (rule busy_booting [OF _ _ lines_booting])

lemma timer_init_booting [wp_rules]:
  assumes "booting tree s" "pit_ok b" "\<And>t l'. Q (t, l')"
  shows "returns (timer_init b (sy_lapic s) l) Q"
  using timer_init_arms [OF assms(2), of "sy_lapic s" l] assms(1,3) by (auto simp: booting_def sys_inv_def)

lemma boot_timer_returns:
  assumes "booting tree s" "controller_ready m" "irqs_ok pl" "pit_ok (pl_bus pl)"
  shows "returns (boot_timer pl m s) (booting tree)"
  unfolding boot_timer_def Let_def split_def
  using assms by (intro wp_rules) (simp_all add: booting_io del: lit_Cons)

lemma xhci_init_booting:
  assumes "usb_bus_ok b h po"
  shows "\<exists>bar l' x. find_xhci_bar0 b po l = Some (bar, l') \<and> xhci_init h po (map_option unat bar) = Some x
    \<and> usb_ok (xkbd x)"
proof -
  from assms obtain cfg where cfg: "config_space b cfg"
    "\<forall>(bus, dev) \<in> set pci_slots. xhci_at cfg bus dev \<longrightarrow> unat (bar0 cfg bus dev) + unat po < 2 ^ 64"
    "pred_option (\<lambda>(bus, dev). env_ok h po (unat (bar0 cfg bus dev + po)))
       (List.find (\<lambda>(bus, dev). xhci_at cfg bus dev) pci_slots)" unfolding usb_bus_ok_def by blast
  define bar where "bar = map_option (\<lambda>(bus, dev). bar0 cfg bus dev + po)
     (List.find (\<lambda>(bus, dev). xhci_at cfg bus dev) pci_slots)"
  from find_xhci_bar0_value [OF cfg(1,2), of l] obtain l' where
    l': "find_xhci_bar0 b po l = Some (bar, l')" by (auto simp: bar_def)
  have "pred_option (env_ok h po) (map_option unat bar)"
    using cfg(3) by (cases "List.find (\<lambda>(bus, dev). xhci_at cfg bus dev) pci_slots") (auto simp: bar_def)
  from xhci_init_returns [OF this] l' show ?thesis by (auto simp: returns_def slots_settled_def)
qed

text \<open>The system at the first prompt.\<close>

definition at_prompt :: "entries option \<Rightarrow> system \<Rightarrow> bool" where
  "at_prompt tree s \<longleftrightarrow> sys_inv s \<and> sy_pc s = At_drain \<and> kroot (sy_kernel s) = boot_root tree
     \<and> view (kshell (sy_kernel s)) = ed_new"

lemma prompt_at_prompt:
  assumes "booting tree s"
  shows "returns (sys_prompt s) (at_prompt tree)"
proof -
  note s = assms [unfolded booting_def sys_inv_def]
  from prompt_fresh [of "sy_kernel s"] s obtain k where
    "prompt (sy_kernel s) = Some k" "kernel_inv k" "kroot k = kroot (sy_kernel s)" "view (kshell k) = ed_new"
    by (auto simp: returns_def)
  with s show ?thesis by (auto simp: sys_prompt_def at_prompt_def sys_inv_def)
qed

lemma busy_prompt [wp_rules]:
  assumes s: "booting tree s" and pl: "irqs_ok pl"
  shows "returns (busy pl n sys_prompt s) (at_prompt tree)"
  unfolding busy_def
proof (rule interrupted_keeps)
  show gs: "\<forall>g \<in> set (pl_gaps pl n). sys_gap_ok g" using pl by (simp add: irqs_ok_def)
  show "returns (sys_prompt (with_gaps (map gap_of (pl_gaps pl n)) s)) (at_prompt tree)"
    by (rule prompt_at_prompt [OF booting_gaps [OF s gaps_of_ok [OF gs]]])
next
  fix s i assume "at_prompt tree s" "fst (i :: irq) \<in> vectors"
  then show "returns (irq_beside (pl_bus pl) i s) (at_prompt tree)"
    by (intro returns_mono [OF irq_beside_inv]) (auto simp: at_prompt_def)
next
  fix s assume "at_prompt tree s"
  with with_gaps_inv [of s "[]"] show "at_prompt tree (with_gaps [] s)"
    by (simp add: at_prompt_def gaps_ok_def) (simp add: with_gaps_def)
qed

lemma boot_usb_returns:
  assumes s: "booting tree s" and m: "controller_ready m" "irqs_ok pl"
    and b: "usb_bus_ok (pl_bus pl) (pl_usb pl) po" and log: "\<And>l. \<exists>l'. log l = Some l'"
  shows "returns (boot_usb pl m po log s) (at_prompt tree)"
proof -
  from xhci_init_booting [OF b, of "sy_io s"] obtain bar l x where
    x: "find_xhci_bar0 (pl_bus pl) po (sy_io s) = Some (bar, l)"
      "xhci_init (pl_usb pl) po (map_option unat bar) = Some x" "usb_ok (xkbd x)" by blast
  have usb: "booting tree (s'\<lparr>sy_usb := xkbd x\<rparr>)" if "booting tree s'" for s'
    using that x(3) by (auto simp: booting_def sys_inv_def)
  have logs: "returns (log l) Q" if "\<And>l. Q l" for l Q
    using log [of l] that by (auto simp: returns_def)
  have "booting tree (s\<lparr>sy_io := l\<rparr>)" using s by (simp add: booting_io)
  then have "returns (do { s \<leftarrow> busy pl 3 (for_each (pl_says pl 2) sys_println) (s\<lparr>sy_io := l\<rparr>);
      s \<leftarrow> irqs pl 2 m (s\<lparr>sy_usb := xkbd x\<rparr>); s \<leftarrow> busy pl 4 (sys_println line) s; l \<leftarrow> log (sy_io s);
      busy pl 5 sys_prompt (s\<lparr>sy_io := l\<rparr>) }) (at_prompt tree)" for line
    using m usb by (intro wp_rules logs) (simp_all add: booting_io)
  then show ?thesis by (simp add: boot_usb_def x(1,2))
qed

lemma kernel_main_returns:
  assumes ok: "boot_ok pl bi" and m: "controller_ready m"
  shows "\<exists>tree. returns (kernel_main pl m bi) (at_prompt tree)"
proof -
  from ok obtain po hv rsdp tables tree where
    b: "bi_phys_offset bi = Some po" "regions_ok (bi_regions bi) po hv"
      "disk_ok (pl_disk pl) (unat (case bi_ramdisk_addr bi of Some x \<Rightarrow> x | None \<Rightarrow> 0)) (unat (bi_ramdisk_len bi)) tree"
      "bi_rsdp bi = Some rsdp" "tables_ok (pl_mem pl) po hv rsdp tables" "apics_ok tables po"
      "boot_screen_ok (map_option fb_boot (bi_framebuffer bi))"
      "pit_ok (pl_bus pl)" "usb_bus_ok (pl_bus pl) (pl_usb pl) po" "irqs_ok pl" unfolding boot_ok_def by blast
  from start_clock_returns [OF b(8)] obtain t0 khz l where
    clock: "start_clock (pl_bus pl) [] = Some (t0, khz, l)" and log: "\<And>l. \<exists>l'. log_time (pl_bus pl) khz t0 l = Some l'"
    by blast
  let ?log = "log_time (pl_bus pl) khz t0"
  from boot_memory_returns [OF b(2,3,4,5), of ?log l] log obtain h l1 where
    mem: "boot_memory pl bi po ?log l = Some (h, boot_root tree, Some tables, l1)" "heap_state h" by blast
  from boot_screen_returns [OF b(7) mem(2), of tree] obtain k where
    k: "boot_screen (bi_framebuffer bi) (boot_root tree) h = Some k" "kernel_inv k"
      "draws (kernel_boot (map_option fb_boot (bi_framebuffer bi)) (boot_root tree) h) k" by (auto simp: returns_def)
  from log obtain l2 where l2: "?log l1 = Some l2" by blast
  from boot_apics_returns [OF k(2) b(6), of pl l2] obtain lapic l3 k' where
    a: "boot_apics pl po (Some tables) l2 k = Some (lapic, l3, k')" "kernel_inv k'" "draws k k'"
      "unat lapic + 0x1000 \<le> 2 ^ 64" by blast
  from log obtain l4 where l4: "?log l3 = Some l4" by blast
  let ?s = "\<lparr>sy_kernel = k', sy_kbd = kbd_init, sy_usb = usb_kbd_init, sy_usb_writes = [],
    sy_announced = False, sy_lapic = lapic, sy_io = l4, sy_pc = At_drain\<rparr>"
  have "ascii_root (boot_root tree)" using boot_ascii ramfs_init_archive(2) [OF b(3)] by blast
  then have "booting tree ?s"
    using a(2,4) kbd_inv_init drawsD [OF draws_trans [OF k(3) a(3)]]
    by (simp add: booting_def sys_inv_def usb_ok_idle usb_kbd_init_def kernel_boot_def)
  from boot_timer_returns [OF this m b(10,8)] obtain s1 where
    s1: "boot_timer pl m ?s = Some s1" "booting tree s1" by (auto simp: returns_def)
  from boot_usb_returns [OF s1(2) m b(10,9), of ?log] log have "returns (boot_usb pl m po ?log s1) (at_prompt tree)" by blast
  then show ?thesis
    by (intro exI [of _ tree]) (simp add: kernel_main_def clock b(1) mem(1) l2 k(1) a(1) l4 s1(1) Let_def)
qed


text \<open>
  A machine for the witness: the tables of \<open>Acpi\<close>, a heap at 1 MiB, a ramdisk with one file, an
  xHCI controller with a keyboard at 00:14.0, and a timer interrupt at every opportunity.
\<close>

definition demo_archive :: "tar_entry list" where
  "demo_archive = [demo_entry (lit ''motd'') (Some [104, 105])]"

definition demo_slots :: "u8 \<Rightarrow> u8 \<Rightarrow> u8 \<Rightarrow> u32" where
  "demo_slots bus dev offset =
     (if (bus, dev) = (0, 20) then (if offset = 8 then 0x0C033010 else if offset = 0x10 then 0x1004 else 0)
      else 0xFFFFFFFF)"

definition demo_bus :: bus where
  "demo_bus = demo_pit\<lparr>bus_in32 := (\<lambda>l _. case last l of
     Out32 _ a \<Rightarrow> demo_slots (ucast (drop_bit 16 a)) (ucast (drop_bit 11 a AND 0x1F)) (ucast (a AND 0xFC)) | _ \<Rightarrow> 0)\<rparr>"

definition demo_irq :: "u8 \<Rightarrow> sys_event" where
  "demo_irq vec = Irq vec (\<lambda>_. trb_zero) (\<lambda>_. 0)"

definition demo_platform :: platform where
  "demo_platform = \<lparr>pl_bus = demo_bus, pl_usb = demo_hw, pl_mem = demo_tables, pl_disk = (\<lambda>_. tar_archive demo_archive),
     pl_says = (\<lambda>_. [lit ''[XHCI]'']), pl_irqs = (\<lambda>_. [demo_irq TIMER_VECTOR]),
     pl_gaps = (\<lambda>_. [([(TIMER_VECTOR, (\<lambda>_. trb_zero), (\<lambda>_. 0))], [])])\<rparr>"

definition demo_boot_info :: boot_info where
  "demo_boot_info = \<lparr>bi_phys_offset = Some 0,
     bi_regions = [\<lparr>mr_start = 0, mr_end = 0x9F000, mr_usable = True\<rparr>,
       \<lparr>mr_start = 0x100000, mr_end = 0x8000000, mr_usable = True\<rparr>],
     bi_ramdisk_addr = Some 0x10000000, bi_ramdisk_len = of_nat (length (tar_archive demo_archive)),
     bi_rsdp = Some 0x1000, bi_framebuffer = Some \<lparr>width = 16, height = 32, stride = 16, bytes_per_pixel = 3\<rparr>\<rparr>"

lemma demo_disk_ok: "disk_ok (pl_disk demo_platform) 0x10000000 (unat (bi_ramdisk_len demo_boot_info))
    (Some [(lit ''motd'', File [104, 105])])"
proof -
  let ?e = "demo_entry (lit ''motd'') (Some [104, 105])"
  have ok: "Ustar.entry_ok ?e"
    by (simp add: Ustar.entry_ok_def demo_entry_def scalar_def te_bytes_def trim_char_def trim_end_char_def
        NAME_LEN_def utf8_width_def)
  have len: "length (tar_archive [?e]) = 2048"
    using length_tar_member [OF ok] by (simp add: tar_archive_def BLOCK_def te_bytes_def demo_entry_def)
  have "insert_all [?e] [] = Some [(lit ''motd'', File [104, 105])]"
    by (simp add: insert_entry_def demo_entry_def ramfs_insert_def components_def)
  with ok len show ?thesis
    unfolding disk_ok_def
    by (intro disjI2 exI [of _ "[?e]"]) (simp add: demo_platform_def demo_boot_info_def demo_archive_def ascii_def)
qed

lemma demo_usb_bus_ok: "usb_bus_ok demo_bus demo_hw 0"
proof -
  have only: "xhci_at demo_slots bus dev \<Longrightarrow> (bus, dev) = (0, 20)" for bus dev
    by (auto simp: xhci_at_def demo_slots_def split: if_splits)
  have bar: "bar0 demo_slots 0 20 = 0x1000" by (simp add: bar0_def demo_slots_def)
  have "config_space demo_bus demo_slots" by (simp add: config_space_def demo_bus_def cfg_addr_fields)
  moreover have "\<forall>(bus, dev) \<in> set pci_slots. xhci_at demo_slots bus dev \<longrightarrow>
      unat (bar0 demo_slots bus dev) + unat (0 :: u64) < 2 ^ 64"
    using only bar by fastforce
  moreover have "pred_option (\<lambda>(bus, dev). env_ok demo_hw 0 (unat (bar0 demo_slots bus dev + 0)))
      (List.find (\<lambda>(bus, dev). xhci_at demo_slots bus dev) pci_slots)"
  proof (cases "List.find (\<lambda>(bus, dev). xhci_at demo_slots bus dev) pci_slots")
    case (Some slot)
    then have "xhci_at demo_slots (fst slot) (snd slot)" by (auto simp: find_Some_iff)
    with only [of "fst slot" "snd slot"] have "slot = (0, 20)" by simp
    with Some bar demo_env_ok show ?thesis by simp
  qed simp
  ultimately show ?thesis unfolding usb_bus_ok_def by blast
qed

lemma demo_tables_ok: "\<exists>tables. tables_ok demo_tables 0 0x100000 0x1000 tables \<and> apics_ok tables 0"
proof -
  from demo_described obtain i where i: "described 0xFEE00000 demo_entries = Some i" "lapic_addr i = 0xFEE00000"
    "ioapic_addr i = 0xFEC00000" "ioapic_gsi_base i = 0" "length (overrides i) = 16"
    "overrides i ! 1 = Some \<lparr>isa_irq = 1, ov_gsi = 9, active_low = True, level_triggered = True\<rparr>" by blast
  have "tables_ok demo_tables 0 0x100000 0x1000 i"
    unfolding tables_ok_def
  proof (intro allI impI)
    fix m' :: mem
    assume "\<forall>x. unat x < unat (0x100000 :: u64) \<or> unat (0x100000 :: u64) + unat HEAP_SIZE \<le> unat x \<longrightarrow> m' x = demo_tables x"
    then have "m' x = demo_tables x" if "unat x < 0x100000" for x using that by simp
    from demo_tables_image [OF this] i(1) show "\<exists>tabs t lapic es. acpi_image m' 0 0x1000 tabs
        \<and> List.find (\<lambda>t. rd_bytes m' (t + 0) 4 = APIC_SIG) tabs = Some t
        \<and> madt_image m' (t + 0) lapic es \<and> described lapic es = Some i"
      by (intro exI conjI) auto
  qed
  moreover have "apics_ok i 0" using i by (simp add: apics_ok_def apics_mapped_def kbd_route_def)
  ultimately show ?thesis by blast
qed

lemma demo_regions_ok: "regions_ok (bi_regions demo_boot_info) 0 0x100000"
  using demo_heap(1) by (simp add: regions_ok_def demo_boot_info_def holds_heap_def HEAP_SIZE_def)

lemma demo_boot_ok: "boot_ok demo_platform demo_boot_info"
proof -
  obtain tables where t: "tables_ok demo_tables 0 0x100000 0x1000 tables" "apics_ok tables 0"
    using demo_tables_ok by blast
  have "boot_screen_ok (map_option fb_boot (bi_framebuffer demo_boot_info))"
    by (auto simp: demo_boot_info_def boot_screen_ok_def fb_geom_def fb_boot_def fb_new_def bpp_ok_def)
  moreover have "pit_ok demo_bus"
    using demo_pit_ok by (simp add: pit_ok_def port_answers_def demo_bus_def)
  moreover have "irqs_ok demo_platform" by (simp add: irqs_ok_def demo_platform_def demo_irq_def vectors_def sys_gap_ok_def gap_irqs_def)
  ultimately show ?thesis
    unfolding boot_ok_def
    by (intro exI [of _ 0] exI [of _ "0x100000"] exI [of _ "0x1000"] exI [of _ tables]
        exI [of _ "Some [(lit ''motd'', File [104, 105])]"])
      (use t demo_disk_ok demo_regions_ok demo_usb_bus_ok in \<open>simp add: demo_platform_def demo_boot_info_def\<close>)
qed

text \<open>The last turns of the loop are interrupted, once with the screen locked and once with it free.\<close>

definition demo_events :: "sys_event list" where
  "demo_events = [Main [], demo_irq TIMER_VECTOR, Main [], demo_irq KBD_VECTOR, Main [],
     Main [([(TIMER_VECTOR, (\<lambda>_. trb_zero), (\<lambda>_. 0))], [Irq_in (KBD_VECTOR, (\<lambda>_. trb_zero), (\<lambda>_. 0))])]]"


end
