(* ===== verification/SerialLock.thy ===== *)
theory SerialLock
  imports PortIo
begin

text \<open>
  The serial log under its lock: \<open>_print\<close> of hal/src/serial.rs takes the spin lock \<open>SERIAL1\<close>,
  writes the bytes and releases it, and \<open>take_hid_report\<close> of hal/src/xhci.rs logs the first
  sixteen reports with the same function, from the timer interrupt.  The kernel has one
  processor: while a handler runs, nothing else does.
\<close>

section \<open>The model\<close>

text \<open>
  \<open>lock()\<close> of the spin library is a parameter \<open>acq\<close>, given whether the lock is held.  It is
  documented to spin until the lock is free; in a handler nobody else can release it, so on a
  held lock it does not return, which is \<open>None\<close>.
\<close>

definition spin_lock :: "(bool \<Rightarrow> unit option) \<Rightarrow> bool" where
  "spin_lock acq \<longleftrightarrow> acq False = Some () \<and> acq True = None"

text \<open>\<open>_print\<close> as the steps between which an interrupt may come; the state is the lock and the log.\<close>

datatype print_step = Take_lock | Put_byte u8 | Release_lock

definition print_steps :: "u8 list \<Rightarrow> print_step list" where
  "print_steps bytes = Take_lock # map Put_byte bytes @ [Release_lock]"

fun do_print :: "(bool \<Rightarrow> unit option) \<Rightarrow> bus \<Rightarrow> print_step \<Rightarrow> bool \<times> io_log \<Rightarrow> (bool \<times> io_log) option" where
  "do_print acq b Take_lock (held, l) = do { _ \<leftarrow> acq held; Some (True, l) }"
| "do_print acq b (Put_byte v) (held, l) = do { l \<leftarrow> write_byte b SERIAL1 v l; Some (held, l) }"
| "do_print acq b Release_lock (held, l) = Some (False, l)"

definition serial_print :: "(bool \<Rightarrow> unit option) \<Rightarrow> bus \<Rightarrow> u8 list \<Rightarrow> bool \<times> io_log \<Rightarrow> (bool \<times> io_log) option" where
  "serial_print acq b bytes s = for_each (print_steps bytes) (do_print acq b) s"

text \<open>The log line of the \<open>n\<close>-th report, counted in \<open>KBD_DBG_COUNT\<close>.\<close>

definition log_report :: "(bool \<Rightarrow> unit option) \<Rightarrow> bus \<Rightarrow> u64 \<Rightarrow> u8 list \<Rightarrow> bool \<times> io_log \<Rightarrow> (bool \<times> io_log) option" where
  "log_report acq b n msg s = (if n < 16 then serial_print acq b msg s else Some s)"

section \<open>When the handler returns\<close>

text \<open>The transmitter becomes ready, whatever has been written.\<close>

definition transmitter_ok :: "bus \<Rightarrow> bool" where
  "transmitter_ok b \<longleftrightarrow> (\<forall>l. port_answers b (SERIAL1 + 5) (\<lambda>v. v AND 0x20 \<noteq> 0) l)"

lemma write_byte_returns: "transmitter_ok b \<Longrightarrow> \<exists>l'. write_byte b SERIAL1 v l = Some l'"
  using wait_port_returns [of b "SERIAL1 + 5" "\<lambda>v. v AND 0x20 \<noteq> 0" l]
  by (auto simp: transmitter_ok_def write_byte_def SERIAL1_def cadd_def)

lemma serial1_bytes: "write_byte b SERIAL1 v l = Some l' \<Longrightarrow> transmitter_ok b
    \<Longrightarrow> bytes_to SERIAL1 l' = bytes_to SERIAL1 l @ [v]"
  using serial_write_returns [of b SERIAL1 "[v]" l]
  by (simp add: transmitter_ok_def serial_write_str_def SERIAL1_def)

lemma put_bytes_return:
  "transmitter_ok b \<Longrightarrow> \<exists>l'. for_each (map Put_byte bytes) (do_print acq b) (held, l) = Some (held, l')
    \<and> bytes_to SERIAL1 l' = bytes_to SERIAL1 l @ bytes"
proof (induction bytes arbitrary: l)
  case (Cons v bytes)
  from write_byte_returns [OF Cons.prems, of v l] obtain l1 where l1: "write_byte b SERIAL1 v l = Some l1" by blast
  with Cons.IH [OF Cons.prems, of l1] serial1_bytes [OF l1 Cons.prems] show ?case by auto
qed simp

lemma for_each_steps: "for_each (xs @ ys) f s = for_each xs f s \<bind> for_each ys f"
  by (induction xs arbitrary: s) (auto split: Option.bind_split)

lemma serial_print_returns:
  assumes "transmitter_ok b" "spin_lock acq"
  shows "\<exists>l'. serial_print acq b bytes (held, l) = (if held then None else Some (False, l'))
    \<and> bytes_to SERIAL1 l' = bytes_to SERIAL1 l @ bytes"
proof -
  from put_bytes_return [OF assms(1), of bytes acq True l] obtain l1 where
    "for_each (map Put_byte bytes) (do_print acq b) (True, l) = Some (True, l1)"
    "bytes_to SERIAL1 l1 = bytes_to SERIAL1 l @ bytes" by blast
  then show ?thesis
    using assms(2) by (cases held) (auto simp: serial_print_def print_steps_def spin_lock_def for_each_steps)
qed

text \<open>Inside the printing of a line the lock is held, outside it is not.\<close>

lemma print_prefix:
  assumes "transmitter_ok b" "spin_lock acq" "j \<le> length (print_steps bytes)"
  shows "\<exists>l'. for_each (take j (print_steps bytes)) (do_print acq b) (False, l)
    = Some (0 < j \<and> j < length (print_steps bytes), l')"
proof (cases j)
  case 0
  then show ?thesis by simp
next
  case (Suc i)
  show ?thesis
  proof (cases "i \<le> length bytes")
    case True
    from put_bytes_return [OF assms(1), of "take i bytes" acq True l] True Suc assms(2) show ?thesis
      by (auto simp: print_steps_def spin_lock_def take_map)
  next
    case False
    with assms(3) Suc have "i = Suc (length bytes)" by (simp add: print_steps_def)
    with put_bytes_return [OF assms(1), of bytes acq True l] Suc assms(2) show ?thesis
      by (auto simp: print_steps_def spin_lock_def for_each_steps)
  qed
qed

text \<open>
  C24: A timer interrupt that logs a report comes back exactly when it does not fall inside the
  printing of a line of the serial log: among the first sixteen reports, one that arrives while
  \<open>kernel_main\<close> holds the lock, as it does for its last line with interrupts on, leaves the
  handler spinning for ever.
\<close>

theorem report_log_deadlocks:
  assumes "transmitter_ok b" "spin_lock acq" "j \<le> length (print_steps bytes)"
  shows "\<exists>s. for_each (take j (print_steps bytes)) (do_print acq b) (False, l) = Some s
    \<and> (log_report acq b n msg s = None \<longleftrightarrow> n < 16 \<and> 0 < j \<and> j < length (print_steps bytes))"
proof -
  from print_prefix [OF assms, of l] obtain l' where
    s: "for_each (take j (print_steps bytes)) (do_print acq b) (False, l)
      = Some (0 < j \<and> j < length (print_steps bytes), l')" by blast
  from serial_print_returns [OF assms(1,2), of msg "0 < j \<and> j < length (print_steps bytes)" l'] s
  show ?thesis by (cases "0 < j \<and> j < length (print_steps bytes)") (auto simp: log_report_def)
qed

text \<open>A transmitter that is always ready, and a report in the middle of two letters.\<close>

definition demo_uart :: bus where
  "demo_uart = \<lparr>bus_in8 = (\<lambda>_ _. 0x20), bus_in32 = (\<lambda>_ _. 0), bus_mem32 = (\<lambda>_ _. 0), bus_tsc = (\<lambda>_. 0)\<rparr>"

lemma demo_uart_ok: "transmitter_ok demo_uart"
  by (simp add: transmitter_ok_def port_answers_def demo_uart_def)

theorem report_log_deadlocks_witness:
  "\<exists>s. for_each (take 2 (print_steps [0x4F, 0x4B])) (do_print (\<lambda>held. if held then None else Some ()) demo_uart) (False, []) = Some s
    \<and> log_report (\<lambda>held. if held then None else Some ()) demo_uart 3 [0x52] s = None"
proof -
  have "transmitter_ok demo_uart" "spin_lock (\<lambda>held. if held then None else Some ())"
    by (simp_all add: transmitter_ok_def port_answers_def demo_uart_def spin_lock_def)
  from report_log_deadlocks [OF this, of 2 "[0x4F, 0x4B]" "[]" 3 "[0x52]"] show ?thesis
    by (simp add: print_steps_def)
qed

end
