(* ===== verification/Panic.thy ===== *)
theory Panic
  imports KernelState SerialLock
begin

text \<open>
  The panic handler at the end of kernel/src/main.rs: it breaks the two locks, writes the
  location and the message to the serial line, and then to the screen, white on red.  It runs on
  whatever the panic left, so it must neither panic nor wait for a lock itself.
\<close>

section \<open>The model\<close>

text \<open>
  A use of the global writer under its lock, which is of the same kind as that of the serial
  log; the state is whether the lock is held, and the writer.
\<close>

definition with_writer :: "(bool \<Rightarrow> unit option) \<Rightarrow> (fb_writer option \<Rightarrow> fb_writer option option)
    \<Rightarrow> bool \<times> fb_writer option \<Rightarrow> (bool \<times> fb_writer option) option" where
  "with_writer acq f s = do { _ \<leftarrow> acq (fst s); wo \<leftarrow> f (snd s); Some (False, wo) }"

definition force_unlock :: "bool \<times> 'a \<Rightarrow> bool \<times> 'a" where
  "force_unlock s = (False, snd s)"

type_synonym location = "str \<times> u32 \<times> u32"

definition location_line :: "location option \<Rightarrow> str list" where
  "location_line loc =
     (case loc of
        None \<Rightarrow> []
      | Some (src, ln, cl) \<Rightarrow> [lit ''Location: '' @ src @ lit '':'' @ dec (unat ln) @ lit '':'' @ dec (unat cl) @ [10]])"

definition panic_log :: "location option \<Rightarrow> str \<Rightarrow> str list" where
  "panic_log loc msg = [[10] @ lit ''--- KERNEL PANIC ---'' @ [10]] @ location_line loc
     @ [lit ''Message:  '' @ msg @ [10], lit ''--------------------'' @ [10]]"

definition panic_text :: "location option \<Rightarrow> str \<Rightarrow> str list" where
  "panic_text loc msg = [lit ''--- KERNEL PANIC ---'' @ [10]] @ location_line loc @ [lit ''Message:  '' @ msg @ [10]]"

definition panic_screen :: "(bool \<Rightarrow> unit option) \<Rightarrow> location option \<Rightarrow> str
    \<Rightarrow> bool \<times> fb_writer option \<Rightarrow> (bool \<times> fb_writer option) option" where
  "panic_screen acq loc msg s =
     do { s \<leftarrow> with_writer acq (on_writer (\<lambda>w. fb_clear (fb_set_colors (0xFF, 0xFF, 0xFF) (0xCC, 0x00, 0x00) w))) s;
          for_each (panic_text loc msg) (\<lambda>line. with_writer acq (fb_print line)) s }"

text \<open>Up to the endless loop of \<open>hlt\<close>; \<open>serial\<close> and \<open>screen\<close> each come with their lock.\<close>

definition panic_handler :: "(bool \<Rightarrow> unit option) \<Rightarrow> bus \<Rightarrow> location option \<Rightarrow> str
    \<Rightarrow> bool \<times> io_log \<Rightarrow> bool \<times> fb_writer option \<Rightarrow> ((bool \<times> io_log) \<times> (bool \<times> fb_writer option)) option" where
  "panic_handler acq b loc msg serial screen =
     do { let serial = force_unlock serial;
          let screen = force_unlock screen;
          serial \<leftarrow> for_each (panic_log loc msg) (\<lambda>line. serial_print acq b (as_bytes line)) serial;
          screen \<leftarrow> panic_screen acq loc msg screen;
          Some (serial, screen) }"

section \<open>It reports\<close>

lemma with_writer_free: "spin_lock acq \<Longrightarrow> with_writer acq f (False, wo) = map_option (Pair False) (f wo)"
  by (cases "f wo") (simp_all add: with_writer_def spin_lock_def)

lemma refines_on_writer:
  "refines f g \<Longrightarrow> fb_shows w c \<Longrightarrow> \<exists>w'. on_writer f (Some w) = Some (Some w') \<and> fb_shows w' (g c)"
  by (auto simp: refines_def on_writer_def)

lemma screen_lines:
  "spin_lock acq \<Longrightarrow> fb_shows w c \<Longrightarrow>
    \<exists>w'. for_each ls (\<lambda>line. with_writer acq (fb_print line)) (False, Some w) = Some (False, Some w')
      \<and> fb_shows w' (fold con_print ls c)"
proof (induction ls arbitrary: w c)
  case (Cons line ls)
  from refines_on_writer [OF refines_print Cons.prems(2), of line] obtain w1 where
    w1: "fb_print line (Some w) = Some (Some w1)" "fb_shows w1 (con_print line c)" by (auto simp: fb_print_def)
  from Cons.IH [OF Cons.prems(1) w1(2)] w1(1) show ?case by (simp add: with_writer_free [OF Cons.prems(1)])
qed simp

lemma serial_lines:
  "transmitter_ok b \<Longrightarrow> spin_lock acq \<Longrightarrow>
    \<exists>l'. for_each ls (\<lambda>line. serial_print acq b (as_bytes line)) (False, l) = Some (False, l')
      \<and> bytes_to SERIAL1 l' = bytes_to SERIAL1 l @ as_bytes (concat ls)"
proof (induction ls arbitrary: l)
  case (Cons line ls)
  from serial_print_returns [OF Cons.prems, of "as_bytes line" False l] obtain l1 where
    l1: "serial_print acq b (as_bytes line) (False, l) = Some (False, l1)"
      "bytes_to SERIAL1 l1 = bytes_to SERIAL1 l @ as_bytes line" by auto
  from Cons.IH [OF Cons.prems, of l1] l1 show ?case by (simp add: as_bytes_def)
qed (simp add: as_bytes_def)

text \<open>What the screen shows in the end.\<close>

definition panic_grid :: "location option \<Rightarrow> str \<Rightarrow> console \<Rightarrow> console" where
  "panic_grid loc msg c =
     fold con_print (panic_text loc msg) (con_clear (con_colors (0xFF, 0xFF, 0xFF) (0xCC, 0, 0) c))"

lemma panic_screen_shows:
  assumes lock: "spin_lock acq" and w: "fb_shows w c"
  shows "\<exists>w'. panic_screen acq loc msg (False, Some w) = Some (False, Some w') \<and> fb_shows w' (panic_grid loc msg c)"
proof -
  let ?c = "con_clear (con_colors (0xFF, 0xFF, 0xFF) (0xCC, 0, 0) c)"
  have "\<exists>w'. fb_clear (fb_set_colors (0xFF, 0xFF, 0xFF) (0xCC, 0, 0) w) = Some w' \<and> fb_shows w' ?c"
    using refinesD [OF refines_clear] refinesD [OF refines_colors w, of "(0xFF, 0xFF, 0xFF)" "(0xCC, 0, 0)"] by auto
  then obtain w1 where "fb_clear (fb_set_colors (0xFF, 0xFF, 0xFF) (0xCC, 0, 0) w) = Some w1" "fb_shows w1 ?c" by blast
  with screen_lines [OF lock, of w1 ?c "panic_text loc msg"] show ?thesis
    by (simp add: panic_screen_def panic_grid_def with_writer_free [OF lock] on_writer_def)
qed



text \<open>Without a screen it returns too.\<close>

lemma panic_handler_returns:
  assumes "transmitter_ok b" "spin_lock acq" "screen_ok wo"
  shows "\<exists>l' wo'. panic_handler acq b loc msg (held, l) (wheld, wo) = Some ((False, l'), (False, wo')) \<and> screen_ok wo'"
proof (cases wo)
  case None
  have "for_each ls (\<lambda>line. with_writer acq (fb_print line)) (False, None) = Some (False, None)" for ls
    using assms(2) by (induction ls) (simp_all add: with_writer_free fb_print_def on_writer_def)
  then have "panic_screen acq loc msg (False, None) = Some (False, None)"
    using assms(2) by (simp add: panic_screen_def with_writer_free on_writer_def)
  with serial_lines [OF assms(1,2), of "panic_log loc msg" l] None show ?thesis
    by (auto simp: panic_handler_def force_unlock_def Let_def screen_ok_def)
next
  case (Some w)
  with assms(3) obtain c where "fb_shows w c" by (auto simp: screen_ok_def)
  from panic_screen_shows [OF assms(2) this, of loc msg] obtain w' where
    "panic_screen acq loc msg (False, Some w) = Some (False, Some w')" "screen_ok (Some w')"
    by (auto simp: screen_ok_def)
  with serial_lines [OF assms(1,2), of "panic_log loc msg" l] Some show ?thesis
    by (auto simp: panic_handler_def force_unlock_def Let_def)
qed

end
