(* ===== verification/UstarRobust.thy ===== *)
theory UstarRobust
  imports UstarArchive
begin

text \<open>
  The ustar parser on arbitrary bytes: what it mounts is always a well-formed tree, and an
  archive can make it panic in one way only.
\<close>

section \<open>Text decoded from bytes\<close>

lemma utf8_next_scalar:
  assumes "utf8_next bs = Some (c, bs')"
  shows "scalar c \<and> length bs = utf8_width c + length bs'"
proof -
  obtain b rest where bs: "bs = b # rest" using assms by (cases bs) auto
  have cont: "unat x - 0x80 < 64" if "cont x" for x using that by (auto simp: cont_def)
  consider (one) "unat b < 0x80" | (two) "\<not> unat b < 0x80" "0xC0 \<le> unat b" "unat b < 0xE0"
    | (three) "0xE0 \<le> unat b" "unat b < 0xF0" | (four) "0xF0 \<le> unat b" "unat b < 0xF8"
    using assms bs by (auto simp: Let_def split: if_splits)
  then show ?thesis
  proof cases
    case one
    with assms bs show ?thesis by (auto simp: scalar_def utf8_width_def)
  next
    case two
    with assms bs obtain b1 where b1: "rest = b1 # bs'" "cont b1" "c = (unat b - 0xC0) * 64 + (unat b1 - 0x80)" "0x80 \<le> c"
      by (auto simp: Let_def split: list.splits if_splits)
    then have "c < 0x800" using two cont [OF b1(2)] by linarith
    with b1 bs show ?thesis by (simp add: scalar_def utf8_width_def)
  next
    case three
    with assms bs obtain b1 b2 where b2: "rest = b1 # b2 # bs'" "cont b1" "cont b2"
        "c = (unat b - 0xE0) * 4096 + (unat b1 - 0x80) * 64 + (unat b2 - 0x80)" "0x800 \<le> c" "scalar c"
      by (auto simp: Let_def split: list.splits if_splits)
    then have "c < 0x10000" using three cont [OF b2(2)] cont [OF b2(3)] by linarith
    with b2 bs show ?thesis by (simp add: utf8_width_def)
  next
    case four
    with assms bs obtain b1 b2 b3 where "rest = b1 # b2 # b3 # bs'" "0x10000 \<le> c" "scalar c"
      by (auto simp: Let_def split: list.splits if_splits)
    with bs show ?thesis by (simp add: utf8_width_def)
  qed
qed

lemma from_utf8_text: "from_utf8 bs = Some s \<Longrightarrow> list_all scalar s \<and> byte_len s = length bs"
proof (induction bs arbitrary: s rule: from_utf8.induct)
  case (1 bs)
  show ?case
  proof (cases "bs = []")
    case True
    with 1(2) show ?thesis by simp
  next
    case False
    with 1(2) obtain c bs' t where t: "utf8_next bs = Some (c, bs')" "from_utf8 bs' = Some t" "s = c # t"
      by (subst (asm) from_utf8.simps) (auto split: option.splits)
    from 1(1) [OF False t(1) refl t(2)] utf8_next_scalar [OF t(1)] t(3) show ?thesis by simp
  qed
qed

section \<open>Well-formed trees\<close>

text \<open>
  A name is what a path component can be: characters, not empty, without a slash, of at most
  the hundred bytes of the header's field; a file's bytes are a piece of the archive.
\<close>

definition name_ok :: "str \<Rightarrow> bool" where
  "name_ok n \<longleftrightarrow> n \<noteq> [] \<and> SLASH \<notin> set n \<and> list_all scalar n \<and> byte_len n \<le> NAME_LEN"

fun node_ok :: "u8 list \<Rightarrow> node \<Rightarrow> bool" where
  "node_ok data (File d) \<longleftrightarrow> sublist d data"
| "node_ok data (Dir es) \<longleftrightarrow> list_all (\<lambda>(n, c). name_ok n \<and> node_ok data c) es"

lemma node_ok_nth:
  assumes "node_ok data (Dir es)" "i < length es"
  shows "name_ok (fst (es ! i)) \<and> node_ok data (snd (es ! i))"
  using assms by (auto simp: list_all_length split_def)

lemma node_ok_update:
  assumes "node_ok data (Dir es)" "i < length es" "node_ok data (Dir sub)"
  shows "node_ok data (Dir (es[i := (fst (es ! i), Dir sub)]))"
  using assms node_ok_nth [OF assms(1,2)] by (auto simp: list_all_length nth_list_update split_def)

lemma get_or_insert_dir_ok:
  assumes "get_or_insert_dir es name = Some (es', i, sub)" "node_ok data (Dir es)" "name_ok name"
  shows "node_ok data (Dir es') \<and> i < length es' \<and> node_ok data (Dir sub)"
proof -
  from assms(1) obtain n where
    es': "es' = (if position (\<lambda>(n, _). n = name) es = None then es @ [(name, Dir [])] else es)"
    and i: "get_at es' i = Some (n, Dir sub)"
    by (auto simp: get_or_insert_dir_def Let_def split: Option.bind_splits node.splits if_splits prod.splits)
  have "node_ok data (Dir es')" using assms(2,3) es' by simp
  moreover have "i < length es'" "es' ! i = (n, Dir sub)" using i by (auto simp: get_at_def split: if_splits)
  ultimately show ?thesis using node_ok_nth [of data es' i] by simp
qed

lemma insert_parts_ok:
  assumes "insert_parts es parts leaf nd = Some es'" "node_ok data (Dir es)" "list_all name_ok parts"
    "name_ok leaf" "node_ok data nd"
  shows "node_ok data (Dir es')"
  using assms
proof (induction parts arbitrary: es es')
  case (Cons part parts)
  from Cons.prems(1) obtain es1 i sub sub' n x where
    g: "get_or_insert_dir es part = Some (es1, i, sub)" "insert_parts sub parts leaf nd = Some sub'"
      "get_at es1 i = Some (n, x)" "set_at es1 i (n, Dir sub') = Some es'"
    by (auto split: Option.bind_splits)
  from get_or_insert_dir_ok [OF g(1) Cons.prems(2)] Cons.prems(3)
  have ok: "node_ok data (Dir es1)" "i < length es1" "node_ok data (Dir sub)" by auto
  from Cons.IH [OF g(2) ok(3)] Cons.prems have "node_ok data (Dir sub')" by simp
  from node_ok_update [OF ok(1,2) this] g(3,4) ok(2) show ?case by simp
qed auto

section \<open>Names\<close>

text \<open>\<open>piece s t\<close>: \<open>s\<close> is part of \<open>t\<close>, so it holds nothing new and is no longer.\<close>

definition piece :: "str \<Rightarrow> str \<Rightarrow> bool" where
  "piece s t \<longleftrightarrow> (\<exists>a b. t = a @ s @ b)"

lemma piece_refl: "piece s s"
  unfolding piece_def by (intro exI [of _ "[]"]) simp

lemma piece_trans: "piece s t \<Longrightarrow> piece t u \<Longrightarrow> piece s u"
  unfolding piece_def by (elim exE, rename_tac a b a' b', rule_tac x = "a' @ a" in exI, rule_tac x = "b @ b'" in exI) simp

lemma piece_text: "piece s t \<Longrightarrow> list_all scalar t \<Longrightarrow> list_all scalar s"
  and piece_bytes: "piece s t \<Longrightarrow> byte_len s \<le> byte_len t"
  by (auto simp: piece_def)

lemma dropWhile_piece: "piece (dropWhile P s) s"
proof -
  have "s = takeWhile P s @ dropWhile P s @ []" by simp
  then show ?thesis unfolding piece_def by blast
qed

lemma trim_char_piece: "piece (trim_char c s) s"
proof -
  have rev: "piece (rev t) u" if "piece t (rev u)" for t u
  proof -
    from that obtain a b where "rev u = a @ t @ b" by (auto simp: piece_def)
    then have "u = rev b @ rev t @ rev a" by (metis rev_append rev_rev_ident append.assoc)
    then show ?thesis unfolding piece_def by blast
  qed
  have "piece (trim_end_char c u) u" for u
    unfolding trim_end_char_def by (rule rev) (rule dropWhile_piece)
  from piece_trans [OF this dropWhile_piece] show ?thesis by (simp add: trim_char_def)
qed

lemma trim_dot_slash_piece: "piece (trim_dot_slash s) s"
proof (induction s rule: trim_dot_slash.induct)
  case (1 a b s)
  have "piece s (a # b # s)" unfolding piece_def by (intro exI [of _ "[a, b]"] exI [of _ "[]"]) simp
  with 1 piece_trans show ?case by (auto simp: piece_refl)
qed (simp_all add: piece_refl)

lemma join_piece: "p \<in> set ps \<Longrightarrow> piece p (join_with c ps)"
proof (induction c ps rule: join_with.induct)
  case (3 c q r ps)
  have tail: "piece (join_with c (r # ps)) (join_with c (q # r # ps))"
    unfolding piece_def by (intro exI [of _ "q @ [c]"] exI [of _ "[]"]) simp
  show ?case
  proof (cases "p = q")
    case True
    then show ?thesis
      unfolding piece_def by (intro exI [of _ "[]"] exI [of _ "c # join_with c (r # ps)"]) simp
  next
    case False
    with 3 piece_trans [OF _ tail] show ?thesis by simp
  qed
qed (auto simp: piece_refl)

lemma components_ok:
  assumes "list_all scalar name" "byte_len name \<le> NAME_LEN"
  shows "list_all name_ok (components name)"
  unfolding list_all_iff
proof
  fix p assume p: "p \<in> set (components name)"
  then have "piece p name" "SLASH \<notin> set p" "p \<noteq> []"
    using join_piece [of p "split_on SLASH name" SLASH] split_on_no_sep [of p SLASH name]
    by (auto simp: components_def join_split)
  with piece_text [OF this(1) assms(1)] piece_bytes [OF this(1)] assms(2) show "name_ok p" by (simp add: name_ok_def)
qed

section \<open>The parser\<close>

lemma trim_nul_returns: "\<exists>bs. trim_nul bytes = Some bs \<and> length bs \<le> length bytes"
proof (cases "position (\<lambda>b. b = 0) bytes")
  case (Some i)
  with position_SomeD [OF Some] show ?thesis by (simp add: trim_nul_def slice_def)
qed (simp add: trim_nul_def slice_def)

lemma entry_name_ok:
  assumes "length header = BLOCK"
  shows "\<exists>name. entry_name header = Some name \<and> list_all scalar name \<and> byte_len name \<le> NAME_LEN"
proof -
  let ?field = "take NAME_LEN header"
  have field: "slice NAME_OFF (NAME_OFF + NAME_LEN) header = Some ?field" "length ?field = NAME_LEN"
    using assms by (simp_all add: slice_def header_layout)
  obtain bytes where bytes: "trim_nul ?field = Some bytes" "length bytes \<le> NAME_LEN"
    using trim_nul_returns [of ?field] field(2) by auto
  define s where "s = (case from_utf8 bytes of Some s \<Rightarrow> s | None \<Rightarrow> [])"
  have s: "list_all scalar s" "byte_len s \<le> NAME_LEN"
    using from_utf8_text [of bytes] bytes(2) by (auto simp: s_def split: option.split)
  let ?n = "trim_dot_slash (trim_char SLASH s)"
  have "piece ?n s" by (rule piece_trans [OF trim_dot_slash_piece trim_char_piece])
  with s piece_text piece_bytes [of ?n s] have "list_all scalar ?n" "byte_len ?n \<le> NAME_LEN" by auto
  then show ?thesis unfolding entry_name_def field(1) Option.bind_lunit bytes(1) s_def [symmetric] by simp
qed

text \<open>\<open>path_blocked root name\<close>: on the way to \<open>name\<close> the tree has a file where a directory is needed.\<close>

definition path_blocked :: "entries \<Rightarrow> str \<Rightarrow> bool" where
  "path_blocked root name \<longleftrightarrow>
     (\<exists>k < length (components name) - 1. file_at (Dir root) (take (Suc k) (components name)) \<noteq> None)"

lemma ramfs_insert_ok:
  assumes root: "node_ok data (Dir root)" and name: "list_all scalar name" "byte_len name \<le> NAME_LEN"
    and nd: "node_ok data nd"
  shows "case ramfs_insert root name nd of Some root' \<Rightarrow> node_ok data (Dir root') | None \<Rightarrow> path_blocked root name"
proof (cases "components name = []")
  case False
  let ?ps = "components name"
  note ok = components_ok [OF name]
  show ?thesis
  proof (cases "insert_parts root (butlast ?ps) (last ?ps) nd")
    case None
    then obtain k where k: "k < length (butlast ?ps)" "file_at (Dir root) (take (Suc k) (butlast ?ps)) \<noteq> None"
      unfolding insert_parts_panics by blast
    then have "take (Suc k) (butlast ?ps) = take (Suc k) ?ps" by (simp add: take_butlast)
    with k None False show ?thesis by (auto simp: ramfs_insert_def path_blocked_def)
  next
    case (Some root')
    have "list_all name_ok (butlast ?ps)" "name_ok (last ?ps)"
      using ok False by (auto simp: list_all_iff dest: in_set_butlastD)
    from insert_parts_ok [OF Some root this nd] Some False show ?thesis by (simp add: ramfs_insert_def)
  qed
qed (use root in \<open>simp add: ramfs_insert_def\<close>)

lemma add_entry_ok:
  assumes "node_ok data (Dir root)" "list_all scalar name" "byte_len name \<le> NAME_LEN"
  shows "case add_entry data offset name sz ttype root of
    Some root' \<Rightarrow> node_ok data (Dir root') | None \<Rightarrow> path_blocked root name"
proof -
  have "\<exists>d. (if sz > 0 \<and> offset + sz \<le> length data then slice offset (offset + sz) data else Some []) = Some d
      \<and> sublist d data"
    by (auto simp: slice_def intro: sublist_order.order.trans [OF sublist_take sublist_drop])
  then obtain d where d: "(if sz > 0 \<and> offset + sz \<le> length data then slice offset (offset + sz) data else Some []) = Some d"
    "sublist d data" by blast
  have "node_ok data (if ttype = 0x35 then Dir [] else File d)" using d(2) by simp
  from ramfs_insert_ok [OF assms this] assms(1) show ?thesis
    unfolding add_entry_def d(1) Option.bind_lunit by simp
qed

lemma ustar_loop_ok:
  assumes "node_ok data (Dir root)"
  shows "case ustar_loop data offset root of
    Some root' \<Rightarrow> node_ok data (Dir root')
  | None \<Rightarrow> \<exists>root name. node_ok data (Dir root) \<and> path_blocked root name"
  using assms
proof (induction data offset root rule: ustar_loop.induct)
  case (1 data offset root)
  show ?case
  proof (cases "offset + BLOCK \<le> length data")
    case True
    define header where "header = take BLOCK (drop offset data)"
    have header: "slice offset (offset + BLOCK) data = Some header" "length header = BLOCK"
      using True by (simp_all add: slice_def header_def)
    have fields: "\<exists>x. slice MAGIC_OFF (MAGIC_OFF + length MAGIC) header = Some x"
      "\<exists>x. slice SIZE_OFF (SIZE_OFF + SIZE_LEN) header = Some x" "\<exists>x. get_at header TYPE_OFF = Some x"
      using header(2) by (simp_all add: slice_def MAGIC_def header_layout)
    then obtain magic size_field ttype where f: "slice MAGIC_OFF (MAGIC_OFF + length MAGIC) header = Some magic"
      "slice SIZE_OFF (SIZE_OFF + SIZE_LEN) header = Some size_field" "get_at header TYPE_OFF = Some ttype" by blast
    from entry_name_ok [OF header(2)] obtain name where
      n: "entry_name header = Some name" "list_all scalar name" "byte_len name \<le> NAME_LEN" by blast
    let ?add = "add_entry data (offset + BLOCK) name (parse_octal size_field) ttype root"
    note step = ustar_loop.simps [of data offset root, unfolded header f n Option.bind_lunit]
    show ?thesis
    proof (cases "list_all (\<lambda>b. b = 0) header \<or> magic \<noteq> MAGIC")
      case True
      with 1(2) show ?thesis by (subst step) auto
    next
      case False
      show ?thesis
      proof (cases ?add)
        case None
        with add_entry_ok [OF 1(2) n(2,3), of "offset + BLOCK" "parse_octal size_field" ttype] 1(2) False True
        show ?thesis by (subst step) auto
      next
        case (Some root1)
        with add_entry_ok [OF 1(2) n(2,3), of "offset + BLOCK" "parse_octal size_field" ttype]
        have "node_ok data (Dir root1)" by simp
        from 1(1) [OF True header(1) _ f(1) _ n(1) f(2,3) Some this] False True Some show ?thesis
          by (subst step) simp
      qed
    qed
  next
    case False
    with 1(2) show ?thesis by (subst ustar_loop.simps) simp
  qed
qed

section \<open>Properties\<close>


end
