(* ===== verification/HostTools.thy ===== *)
theory HostTools
  imports Vfs StdText
begin

text \<open>
  The two host programs: src/boot/src/main.rs, which builds the disk images, and
  src/runner/src/main.rs, which builds the kernel, runs the former and starts QEMU on its
  result.  Cargo, the bootloader crate and QEMU are parameters; what the two programs tell each
  other is text on the standard output.
\<close>

section \<open>The disk images (src/boot)\<close>

text \<open>\<open>PathBuf::join\<close> of a relative path, which none of the files named here leaves.\<close>

definition path_join :: "str \<Rightarrow> str \<Rightarrow> str" where
  "path_join dir file = (if dir = [] \<or> last dir = SLASH then dir @ file else dir @ [SLASH] @ file)"

datatype image_kind = Bios | Uefi

text \<open>
  The environment, and whether \<open>create_disk_image\<close> succeeds for a kernel, a ramdisk and the path
  of the image.
\<close>

record build_host =
  env_var :: "str \<Rightarrow> str option"
  create_disk_image :: "image_kind \<Rightarrow> str \<Rightarrow> str option \<Rightarrow> str \<Rightarrow> bool"

definition image_path :: "image_kind \<Rightarrow> str \<Rightarrow> str" where
  "image_path kind out_dir =
     path_join out_dir (case kind of Bios \<Rightarrow> lit ''amaterasu-bios.img'' | Uefi \<Rightarrow> lit ''amaterasu-uefi.img'')"

definition boot_main :: "build_host \<Rightarrow> str option" where
  "boot_main h =
     do { kernel \<leftarrow> env_var h (lit ''KERNEL_PATH'');
          let out_dir = (case env_var h (lit ''OUT_DIR'') of Some d \<Rightarrow> d | None \<Rightarrow> lit ''target'');
          let ramdisk = env_var h (lit ''RAMDISK_PATH'');
          let bios_path = image_path Bios out_dir;
          _ \<leftarrow> (if create_disk_image h Bios kernel ramdisk bios_path then Some () else None);
          let uefi_path = image_path Uefi out_dir;
          _ \<leftarrow> (if create_disk_image h Uefi kernel ramdisk uefi_path then Some () else None);
          Some (bios_path @ [10] @ uefi_path @ [10]) }"

section \<open>The runner (src/runner)\<close>

text \<open>
  The parent of \<open>CARGO_MANIFEST_DIR\<close>, what the two cargo commands and QEMU do, each \<open>None\<close> when
  the process cannot be started, and which files exist.  The build of the images is given
  \<open>KERNEL_PATH\<close> and \<open>OUT_DIR\<close>, and answers whether it succeeded and its output; QEMU its
  arguments, and answers its exit code, if it has one.
\<close>

record run_host =
  workspace_root :: "str option"
  cargo_build :: "bool option"
  file_exists :: "str \<Rightarrow> bool"
  cargo_run_boot :: "str \<Rightarrow> str \<Rightarrow> (bool \<times> str) option"
  qemu :: "str list \<Rightarrow> int option option"

definition ensure :: "bool \<Rightarrow> unit option" where
  "ensure b = (if b then Some () else None)"

definition qemu_args :: "str \<Rightarrow> str list" where
  "qemu_args img = [lit ''-drive'', lit ''format=raw,file='' @ img, lit ''-serial'', lit ''stdio'', lit ''-m'', lit ''128M'']"

text \<open>The exit code of the process.\<close>

definition runner_main :: "run_host \<Rightarrow> int option" where
  "runner_main h =
     do { built \<leftarrow> cargo_build h;
          _ \<leftarrow> ensure built;
          root \<leftarrow> workspace_root h;
          let kernel_path = path_join root (lit ''target/x86_64-unknown-none/debug/amaterasu_kernel'');
          _ \<leftarrow> ensure (file_exists h kernel_path);
          (success, stdout) \<leftarrow> cargo_run_boot h kernel_path (path_join root (lit ''target''));
          _ \<leftarrow> ensure success;
          let ls = lines stdout;
          bios_path \<leftarrow> List.find (contains (lit ''bios'')) ls;
          _ \<leftarrow> List.find (contains (lit ''uefi'')) ls;
          code \<leftarrow> qemu h (qemu_args bios_path);
          Some (case code of Some c \<Rightarrow> c | None \<Rightarrow> 1) }"

section \<open>The runner boots the image that was built\<close>

text \<open>Cargo runs the image builder with the two variables set, and passes its output on.\<close>

definition builds_with :: "run_host \<Rightarrow> (str \<Rightarrow> str option) \<Rightarrow> (image_kind \<Rightarrow> str \<Rightarrow> str option \<Rightarrow> str \<Rightarrow> bool) \<Rightarrow> bool" where
  "builds_with h env create \<longleftrightarrow> (\<forall>kernel out. cargo_run_boot h kernel out =
     Some (case boot_main \<lparr>env_var = env(lit ''KERNEL_PATH'' \<mapsto> kernel, lit ''OUT_DIR'' \<mapsto> out),
                           create_disk_image = create\<rparr> of
             Some text \<Rightarrow> (True, text) | None \<Rightarrow> (False, [])))"

lemma starts_contains: "contains pat (a @ pat @ b)"
proof -
  have "starts_with pat (drop (length a) (a @ pat @ b))" by (simp add: starts_with_def)
  then show ?thesis unfolding contains_def list_ex_iff by (intro bexI [of _ "length a"]) auto
qed

lemma image_path_names:
  "contains (lit ''bios'') (image_path Bios d)" "contains (lit ''uefi'') (image_path Uefi d)"
proof -
  have parts: "lit ''amaterasu-bios.img'' = lit ''amaterasu-'' @ lit ''bios'' @ lit ''.img''"
    "lit ''amaterasu-uefi.img'' = lit ''amaterasu-'' @ lit ''uefi'' @ lit ''.img''" by simp_all
  show "contains (lit ''bios'') (image_path Bios d)" "contains (lit ''uefi'') (image_path Uefi d)"
    unfolding image_path_def path_join_def image_kind.case parts
    using starts_contains [of _ "d @ lit ''amaterasu-''"] starts_contains [of _ "d @ [SLASH] @ lit ''amaterasu-''"]
    by (simp_all del: lit_Cons)
qed

lemma split_on_one: "c \<notin> set p \<Longrightarrow> split_on c (p @ c # s) = p # split_on c s"
  by (induction p) simp_all

lemma lines_of_two:
  assumes "10 \<notin> set p" "10 \<notin> set q" "last p \<noteq> 13" "last q \<noteq> 13"
  shows "lines (p @ [10] @ q @ [10]) = [p, q]"
  using assms by (simp add: lines_def split_on_one strip_cr_def Let_def)

lemma image_path_line:
  "10 \<notin> set d \<Longrightarrow> 10 \<notin> set (image_path k d) \<and> last (image_path k d) \<noteq> 13"
  by (cases k) (auto simp: image_path_def path_join_def)

text \<open>
  When the kernel was built and the images can be created, and the path of the workspace holds
  no line break, the runner starts QEMU on the BIOS image that the image builder created from
  that kernel, whatever else the path holds, and ends with QEMU's exit code.
\<close>

lemma runner_boots_image:
  assumes host: "cargo_build h = Some True" "workspace_root h = Some root" "builds_with h env create"
    and kernel: "kernel_path = path_join root (lit ''target/x86_64-unknown-none/debug/amaterasu_kernel'')" "file_exists h kernel_path"
    and out: "out = path_join root (lit ''target'')" "10 \<notin> set root"
    and images: "\<forall>kind. create kind kernel_path (env (lit ''RAMDISK_PATH'')) (image_path kind out)"
  shows "runner_main h = map_option (\<lambda>code. case code of Some c \<Rightarrow> c | None \<Rightarrow> 1) (qemu h (qemu_args (image_path Bios out)))"
proof -
  have "10 \<notin> set out" using out by (simp add: path_join_def)
  from image_path_line [OF this] have "lines (image_path Bios out @ [10] @ image_path Uefi out @ [10])
      = [image_path Bios out, image_path Uefi out]" by (intro lines_of_two) auto
  moreover have "lit ''RAMDISK_PATH'' \<noteq> lit ''KERNEL_PATH''" "lit ''RAMDISK_PATH'' \<noteq> lit ''OUT_DIR''"
    "lit ''KERNEL_PATH'' \<noteq> lit ''OUT_DIR''" by simp_all
  then have "cargo_run_boot h kernel_path out = Some (True, image_path Bios out @ [10] @ image_path Uefi out @ [10])"
    using host(3) images by (simp add: builds_with_def boot_main_def Let_def del: lit_Cons)
  ultimately show ?thesis
    using host(1,2) kernel out(1) image_path_names [of out]
    by (cases "qemu h (qemu_args (image_path Bios out))")
      (simp_all add: runner_main_def ensure_def Let_def del: lit_Cons)
qed

end
